(* ===== verification/Prelude.thy ===== *)
theory Prelude
  imports Main "HOL-Library.Word" "HOL-Library.Sublist"
begin

text \<open>
  Shared vocabulary of the development. A Rust \<open>str\<close> or \<open>OsString\<close> is its sequence of bytes,
  here a \<^typ>\<open>string\<close> (a list of 8-bit characters); \<open>Vec<u8>\<close> contents are lists of
  \<open>8 word\<close>. The theory holds the byte-level meaning of the standard-library string operations
  the sources call (\<open>trim\<close>, \<open>split\<close>, \<open>split_whitespace\<close>, \<open>String::from_utf8_lossy\<close>,
  \<open>str::parse::<u64>\<close>, \<open>std::path::Components\<close>), the bind of the result type, saturating
  arithmetic, and the named collections the component proofs draw on.
\<close>

named_theorems str_simps \<open>equations for the byte-level string operations\<close>
named_theorems res_simps \<open>equations for results and their composition\<close>

section \<open>Machine integers and results\<close>

type_synonym u8 = "8 word"
type_synonym u64 = "64 word"
type_synonym bytes = "u8 list"

text \<open>\<open>u64::saturating_add\<close>.\<close>

definition saturating_add :: "u64 \<Rightarrow> u64 \<Rightarrow> u64" where
  "saturating_add a b = (if unat a + unat b < 2 ^ 64 then a + b else - 1)"

text \<open>The same sum on integers, which evaluate in binary.\<close>

lemma saturating_add_code [code]:
  "saturating_add a b = (if uint a + uint b < 18446744073709551616 then a + b else - 1)"
proof -
  have e: "int (unat x) = uint x" for x :: u64 by simp
  have "unat a + unat b < 18446744073709551616 \<longleftrightarrow> uint a + uint b < 18446744073709551616"
    unfolding e [symmetric] by linarith
  then show ?thesis unfolding saturating_add_def by simp
qed

text \<open>The \<open>?\<close> operator on \<open>Result\<close>: an error is returned at once.\<close>

definition res_bind :: "'e + 'a \<Rightarrow> ('a \<Rightarrow> 'e + 'b) \<Rightarrow> 'e + 'b" where
  "res_bind r f = (case r of Inl e \<Rightarrow> Inl e | Inr x \<Rightarrow> f x)"

text \<open>Collecting an iterator of results into \<open>Result<Vec<_>, _>\<close>: the first error wins.\<close>

fun res_map :: "('a \<Rightarrow> 'e + 'b) \<Rightarrow> 'a list \<Rightarrow> 'e + 'b list" where
  "res_map f [] = Inr []"
| "res_map f (x # xs) = res_bind (f x) (\<lambda>y. res_bind (res_map f xs) (\<lambda>ys. Inr (y # ys)))"

text \<open>\<open>Option::ok_or_else\<close>.\<close>

definition ok_or :: "'e \<Rightarrow> 'a option \<Rightarrow> 'e + 'a" where
  "ok_or e x = (case x of None \<Rightarrow> Inl e | Some y \<Rightarrow> Inr y)"

lemma res_bind_Inr [res_simps]: "res_bind r f = Inr y \<longleftrightarrow> (\<exists>x. r = Inr x \<and> f x = Inr y)"
  by (cases r) (auto simp: res_bind_def)

lemma res_bind_Inl [res_simps]:
  "res_bind r f = Inl e \<longleftrightarrow> r = Inl e \<or> (\<exists>x. r = Inr x \<and> f x = Inl e)"
  by (cases r) (auto simp: res_bind_def)

lemma ok_or_simps [res_simps]:
  "ok_or e x = Inr y \<longleftrightarrow> x = Some y" "ok_or e x = Inl e' \<longleftrightarrow> x = None \<and> e' = e"
  by (auto simp: ok_or_def split: option.splits)

lemma res_map_InrD: "res_map f xs = Inr ys \<Longrightarrow> x \<in> set xs \<Longrightarrow> \<exists>y. f x = Inr y"
  by (induction xs arbitrary: ys) (auto simp: res_simps)

lemma res_map_Inl: "res_map f xs = Inl e \<Longrightarrow> \<exists>x \<in> set xs. f x = Inl e"
  by (induction xs) (auto simp: res_simps)

section \<open>Byte classes and UTF-8\<close>

abbreviation byte_of :: "char \<Rightarrow> nat" where
  "byte_of \<equiv> of_char"

definition is_ascii_digit :: "char \<Rightarrow> bool" where
  "is_ascii_digit c \<longleftrightarrow> 48 \<le> byte_of c \<and> byte_of c \<le> 57"

definition is_ascii_lowercase :: "char \<Rightarrow> bool" where
  "is_ascii_lowercase c \<longleftrightarrow> 97 \<le> byte_of c \<and> byte_of c \<le> 122"

text \<open>A continuation byte of a multi-byte sequence.\<close>

definition is_cont :: "char \<Rightarrow> bool" where
  "is_cont c \<longleftrightarrow> 128 \<le> byte_of c \<and> byte_of c < 192"

text \<open>The second byte that may follow the lead byte of a three- or four-byte sequence.\<close>

definition second_ok :: "char \<Rightarrow> char \<Rightarrow> bool" where
  "second_ok b c \<longleftrightarrow> is_cont c \<and>
     (byte_of b = 224 \<longrightarrow> 160 \<le> byte_of c) \<and> (byte_of b = 237 \<longrightarrow> byte_of c \<le> 159) \<and>
     (byte_of b = 240 \<longrightarrow> 144 \<le> byte_of c) \<and> (byte_of b = 244 \<longrightarrow> byte_of c \<le> 143)"

text \<open>
  One step of \<open>std::str::Utf8Chunks\<close> on a non-empty buffer: whether a valid character starts
  it, and how many bytes it takes (the maximal valid prefix when it is invalid).
\<close>

fun utf8_step :: "string \<Rightarrow> bool \<times> nat" where
  "utf8_step [] = (False, 0)"
| "utf8_step (b # r) =
     (if byte_of b < 128 then (True, 1)
      else if 194 \<le> byte_of b \<and> byte_of b \<le> 223 then
        (case r of c # _ \<Rightarrow> if is_cont c then (True, 2) else (False, 1) | [] \<Rightarrow> (False, 1))
      else if 224 \<le> byte_of b \<and> byte_of b \<le> 239 then
        (case r of c # r2 \<Rightarrow>
           if second_ok b c then
             (case r2 of d # _ \<Rightarrow> if is_cont d then (True, 3) else (False, 2) | [] \<Rightarrow> (False, 2))
           else (False, 1)
         | [] \<Rightarrow> (False, 1))
      else if 240 \<le> byte_of b \<and> byte_of b \<le> 244 then
        (case r of c # r2 \<Rightarrow>
           if second_ok b c then
             (case r2 of d # r3 \<Rightarrow>
                if is_cont d then
                  (case r3 of e # _ \<Rightarrow> if is_cont e then (True, 4) else (False, 3)
                   | [] \<Rightarrow> (False, 3))
                else (False, 2)
              | [] \<Rightarrow> (False, 2))
           else (False, 1)
         | [] \<Rightarrow> (False, 1))
      else (False, 1))"

lemma utf8_step_pos: "s \<noteq> [] \<Longrightarrow> 0 < snd (utf8_step s)"
  by (cases s) (auto split: list.splits)

lemma utf8_step_le: "snd (utf8_step s) \<le> length s"
  by (cases s) (auto split: list.splits)

declare utf8_step.simps [simp del]

text \<open>The characters of a buffer, each as the bytes that encode it.\<close>

function utf8_chars :: "string \<Rightarrow> string list" where
  "utf8_chars s =
     (if s = [] then []
      else take (snd (utf8_step s)) s # utf8_chars (drop (snd (utf8_step s)) s))"
  by pat_completeness auto
termination
  by (relation "measure length") (auto simp: utf8_step_pos)

text \<open>\<open>str::from_utf8(..).is_ok()\<close>.\<close>

function is_utf8 :: "string \<Rightarrow> bool" where
  "is_utf8 s =
     (if s = [] then True
      else if fst (utf8_step s) then is_utf8 (drop (snd (utf8_step s)) s) else False)"
  by pat_completeness auto
termination
  by (relation "measure length") (auto simp: utf8_step_pos)

text \<open>\<open>String::from_utf8_lossy\<close>: each maximal invalid piece becomes U+FFFD.\<close>

definition replacement_char :: string where
  "replacement_char = [char_of (239::nat), char_of (191::nat), char_of (189::nat)]"

function from_utf8_lossy :: "string \<Rightarrow> string" where
  "from_utf8_lossy s =
     (if s = [] then []
      else (if fst (utf8_step s) then take (snd (utf8_step s)) s else replacement_char) @
           from_utf8_lossy (drop (snd (utf8_step s)) s))"
  by pat_completeness auto
termination
  by (relation "measure length") (auto simp: utf8_step_pos)

declare utf8_chars.simps [simp del] is_utf8.simps [simp del] from_utf8_lossy.simps [simp del]

lemma utf8_chars_Nil [simp]: "utf8_chars [] = []"
  by (simp add: utf8_chars.simps)

lemma concat_utf8_chars [simp]: "concat (utf8_chars s) = s"
proof (induction s rule: utf8_chars.induct)
  case (1 s)
  then show ?case by (subst utf8_chars.simps) (cases "s = []", simp_all)
qed

lemma from_utf8_lossy_id: "is_utf8 s \<Longrightarrow> from_utf8_lossy s = s"
proof (induction s rule: from_utf8_lossy.induct)
  case (1 s)
  show ?case
  proof (cases "s = []")
    case True
    then show ?thesis by (simp add: from_utf8_lossy.simps)
  next
    case False
    then have "fst (utf8_step s)" and "is_utf8 (drop (snd (utf8_step s)) s)"
      using "1.prems" by (simp_all add: is_utf8.simps [of s] split: if_splits)
    then show ?thesis using "1.IH" False by (simp add: from_utf8_lossy.simps [of s])
  qed
qed

section \<open>String operations of the standard library\<close>

text \<open>The UTF-8 encodings of the \<open>White_Space\<close> characters, which \<open>str::trim\<close> strips.\<close>

definition ws_encodings :: "string list" where
  "ws_encodings =
     [[CHR 0x09], [CHR 0x0A], [CHR 0x0B], [CHR 0x0C], [CHR 0x0D], [CHR 0x20],
      [CHR 0xC2, CHR 0x85], [CHR 0xC2, CHR 0xA0], [CHR 0xE1, CHR 0x9A, CHR 0x80],
      [CHR 0xE2, CHR 0x80, CHR 0x80], [CHR 0xE2, CHR 0x80, CHR 0x81],
      [CHR 0xE2, CHR 0x80, CHR 0x82], [CHR 0xE2, CHR 0x80, CHR 0x83],
      [CHR 0xE2, CHR 0x80, CHR 0x84], [CHR 0xE2, CHR 0x80, CHR 0x85],
      [CHR 0xE2, CHR 0x80, CHR 0x86], [CHR 0xE2, CHR 0x80, CHR 0x87],
      [CHR 0xE2, CHR 0x80, CHR 0x88], [CHR 0xE2, CHR 0x80, CHR 0x89],
      [CHR 0xE2, CHR 0x80, CHR 0x8A], [CHR 0xE2, CHR 0x80, CHR 0xA8],
      [CHR 0xE2, CHR 0x80, CHR 0xA9], [CHR 0xE2, CHR 0x80, CHR 0xAF],
      [CHR 0xE2, CHR 0x81, CHR 0x9F], [CHR 0xE3, CHR 0x80, CHR 0x80]]"

definition ws_prefix :: "string \<Rightarrow> nat" where
  "ws_prefix s = (case find (\<lambda>w. prefix w s) ws_encodings of None \<Rightarrow> 0 | Some w \<Rightarrow> length w)"

definition ws_suffix :: "string \<Rightarrow> nat" where
  "ws_suffix s = (case find (\<lambda>w. suffix w s) ws_encodings of None \<Rightarrow> 0 | Some w \<Rightarrow> length w)"

function trim_start :: "string \<Rightarrow> string" where
  "trim_start s =
     (if s = [] \<or> ws_prefix s = 0 then s else trim_start (drop (ws_prefix s) s))"
  by pat_completeness auto
termination
  by (relation "measure length") auto

function trim_end :: "string \<Rightarrow> string" where
  "trim_end s =
     (if s = [] \<or> ws_suffix s = 0 then s
      else trim_end (take (length s - ws_suffix s) s))"
  by pat_completeness auto
termination
  by (relation "measure length") auto

declare trim_start.simps [simp del] trim_end.simps [simp del]

definition trim :: "string \<Rightarrow> string" where
  "trim s = trim_end (trim_start s)"

text \<open>The longest prefix in which no whitespace character starts.\<close>

fun take_nonws :: "string \<Rightarrow> string" where
  "take_nonws [] = []"
| "take_nonws (c # cs) = (if ws_prefix (c # cs) = 0 then c # take_nonws cs else [])"

lemma trim_start_length: "length (trim_start s) \<le> length s"
proof (induction s rule: trim_start.induct)
  case (1 s)
  then show ?case by (subst trim_start.simps) (auto intro: order_trans)
qed

lemma trim_start_ws: "trim_start s = [] \<or> ws_prefix (trim_start s) = 0"
proof (induction s rule: trim_start.induct)
  case (1 s)
  then show ?case by (cases "s = [] \<or> ws_prefix s = 0") (auto simp: trim_start.simps [of s])
qed

lemma take_nonws_pos: "trim_start s \<noteq> [] \<Longrightarrow> take_nonws (trim_start s) \<noteq> []"
  using trim_start_ws [of s] by (cases "trim_start s") auto

text \<open>\<open>str::split_whitespace\<close>.\<close>

function split_whitespace :: "string \<Rightarrow> string list" where
  "split_whitespace s =
     (let t = trim_start s; w = take_nonws t in
      if t = [] then [] else w # split_whitespace (drop (length w) t))"
  by pat_completeness auto
termination
proof (relation "measure length")
  fix s t w :: string
  assume "t = trim_start s" "w = take_nonws t" "t \<noteq> []"
  then have "0 < length w" "0 < length t" "length t \<le> length s"
    using trim_start_length [of s] take_nonws_pos [of s] by simp_all
  then show "(drop (length w) t, s) \<in> measure length"
    unfolding in_measure length_drop by linarith
qed simp

declare split_whitespace.simps [simp del]

text \<open>\<open>str::split(c)\<close>: always at least one piece.\<close>

fun split_on :: "char \<Rightarrow> string \<Rightarrow> string list" where
  "split_on c [] = [[]]"
| "split_on c (x # xs) =
     (if x = c then [] # split_on c xs
      else (case split_on c xs of p # ps \<Rightarrow> (x # p) # ps | [] \<Rightarrow> [[x]]))"

text \<open>\<open>[String]::join(sep)\<close>.\<close>

fun join_with :: "string \<Rightarrow> string list \<Rightarrow> string" where
  "join_with sep [] = []"
| "join_with sep [x] = x"
| "join_with sep (x # y # ys) = x @ sep @ join_with sep (y # ys)"

text \<open>\<open>str::contains\<close> of a string.\<close>

definition contains_str :: "string \<Rightarrow> string \<Rightarrow> bool" where
  "contains_str pat s \<longleftrightarrow> (\<exists>i \<in> set [0 ..< Suc (length s)]. prefix pat (drop i s))"

text \<open>Decimal value of a digit string, and \<open>str::parse::<u64>\<close> (an optional plus sign).\<close>

definition dec_value :: "string \<Rightarrow> nat" where
  "dec_value = foldl (\<lambda>n c. 10 * n + (byte_of c - 48)) 0"

definition parse_u64 :: "string \<Rightarrow> nat option" where
  "parse_u64 s =
     (let ds = (case s of c # r \<Rightarrow> if c = CHR ''+'' then r else s | [] \<Rightarrow> []) in
      if ds \<noteq> [] \<and> list_all is_ascii_digit ds \<and> dec_value ds < 2 ^ 64
      then Some (dec_value ds) else None)"

text \<open>Decimal rendering of an unsigned integer by \<open>format!\<close>.\<close>

fun show_nat :: "nat \<Rightarrow> string" where
  "show_nat n =
     (if n < 10 then [char_of (48 + n)] else show_nat (n div 10) @ [char_of (48 + n mod 10)])"

declare show_nat.simps [simp del]

section \<open>Paths\<close>

text \<open>\<open>std::path::Component\<close> on Unix (there are no \<open>Prefix\<close> components there).\<close>

datatype component = RootDir | CurDir | ParentDir | Normal string

definition parse_component :: "string \<Rightarrow> component option" where
  "parse_component p =
     (if p = [] \<or> p = ''.'' then None else if p = ''..'' then Some ParentDir else Some (Normal p))"

text \<open>
  \<open>Path::components\<close>: a leading separator is \<open>RootDir\<close>; repeated separators, trailing
  separators and every \<open>.\<close> but a leading one of a relative path disappear.
\<close>

definition path_components :: "string \<Rightarrow> component list" where
  "path_components s =
     (let ps = split_on (CHR ''/'') s in
      if s = [] then []
      else if hd s = CHR ''/'' then RootDir # List.map_filter parse_component ps
      else (if hd ps = ''.'' then [CurDir] else []) @ List.map_filter parse_component ps)"

text \<open>\<open>Path::file_name\<close> and \<open>Path::join\<close> on paths given by their component names.\<close>

type_synonym path = "string list"

definition component_name :: "component \<Rightarrow> string option" where
  "component_name c = (case c of Normal n \<Rightarrow> Some n | ParentDir \<Rightarrow> Some ''..'' | _ \<Rightarrow> None)"

definition path_names :: "string \<Rightarrow> path" where
  "path_names s = List.map_filter component_name (path_components s)"

definition path_join :: "path \<Rightarrow> string \<Rightarrow> path" where
  "path_join p s = (if prefix ''/'' s then [] else p) @ path_names s"

definition file_name :: "path \<Rightarrow> string option" where
  "file_name p = (if p = [] \<or> last p = ''..'' then None else Some (last p))"

subsection \<open>Splitting and joining\<close>

lemma split_on_nonempty [simp]: "split_on c s \<noteq> []"
  by (induction s) (auto split: list.splits)

lemma split_on_piece: "p \<in> set (split_on c s) \<Longrightarrow> c \<notin> set p"
  by (induction s arbitrary: p) (auto split: list.splits if_splits)

lemma split_on_no_sep: "c \<notin> set s \<Longrightarrow> split_on c s = [s]"
  by (induction s) auto

lemma split_on_append_sep: "c \<notin> set p \<Longrightarrow> split_on c (p @ c # s) = p # split_on c s"
  by (induction p) auto

lemma split_on_join_with:
  assumes "ps \<noteq> []" and "\<And>p. p \<in> set ps \<Longrightarrow> c \<notin> set p"
  shows "split_on c (join_with [c] ps) = ps"
  using assms
proof (induction ps rule: induct_list012)
  case (3 x y ys)
  then show ?case by (simp add: split_on_append_sep)
qed (auto simp: split_on_no_sep)

lemma join_with_split_on: "join_with [c] (split_on c s) = s"
proof (induction s)
  case (Cons x s)
  obtain p ps where sp: "split_on c s = p # ps" by (cases "split_on c s") auto
  show ?case
  proof (cases "x = c")
    case True
    with Cons sp show ?thesis by simp
  next
    case False
    with Cons sp show ?thesis by (cases ps) auto
  qed
qed simp

text \<open>A name that stands for itself as a path component.\<close>

definition plain_name :: "string \<Rightarrow> bool" where
  "plain_name n \<longleftrightarrow> n \<noteq> [] \<and> n \<noteq> ''.'' \<and> n \<noteq> ''..'' \<and> CHR ''/'' \<notin> set n"

lemma parse_component_plain [simp]: "plain_name n \<Longrightarrow> parse_component n = Some (Normal n)"
  by (simp add: parse_component_def plain_name_def)

lemma map_filter_Normal:
  "Normal n \<in> set (List.map_filter parse_component qs) \<Longrightarrow>
   \<exists>q \<in> set qs. parse_component q = Some (Normal n)"
  by (induction qs) (auto simp: List.map_filter_simps split: option.splits)

lemma map_filter_plain:
  "(\<And>q. q \<in> set qs \<Longrightarrow> plain_name q) \<Longrightarrow> List.map_filter parse_component qs = map Normal qs"
  by (induction qs) (auto simp: List.map_filter_simps)

lemma path_components_Normal_plain: "Normal n \<in> set (path_components s) \<Longrightarrow> plain_name n"
proof -
  assume "Normal n \<in> set (path_components s)"
  then have "Normal n \<in> set (List.map_filter parse_component (split_on (CHR ''/'') s))"
    by (auto simp: path_components_def Let_def split: if_splits)
  then obtain q where "q \<in> set (split_on (CHR ''/'') s)" "parse_component q = Some (Normal n)"
    using map_filter_Normal by blast
  then show ?thesis using split_on_piece
    by (auto simp: parse_component_def plain_name_def split: if_splits)
qed

lemma path_components_join:
  assumes "ps \<noteq> []" and plain: "\<And>p. p \<in> set ps \<Longrightarrow> plain_name p"
  shows "path_components (join_with ''/'' ps) = map Normal ps"
proof -
  let ?s = "join_with ''/'' ps"
  have sp: "split_on (CHR ''/'') ?s = ps"
    using assms by (intro split_on_join_with) (auto simp: plain_name_def)
  obtain p ps' where ps: "ps = p # ps'" using assms(1) by (cases ps) auto
  then have p: "plain_name p" "p \<noteq> []" "hd p \<noteq> CHR ''/''"
    using plain [of p] by (cases p; auto simp: plain_name_def)+
  then have "?s \<noteq> []" "hd ?s = hd p" by (cases ps'; simp add: ps)+
  moreover have "hd ps \<noteq> ''.''" using plain [of p] by (simp add: ps plain_name_def)
  moreover have "List.map_filter parse_component ps = map Normal ps"
    using plain by (rule map_filter_plain)
  ultimately show ?thesis using p(3) by (simp add: path_components_def sp Let_def)
qed

subsection \<open>Whitespace and decimal numbers\<close>

definition ws_lead :: "nat list" where
  "ws_lead = [9, 10, 11, 12, 13, 32, 194, 225, 226, 227]"

definition never_ws :: "char \<Rightarrow> bool" where
  "never_ws c \<longleftrightarrow> byte_of c \<notin> set ws_lead"

lemma ws_encodings_lead: "list_all (\<lambda>w. w \<noteq> [] \<and> byte_of (hd w) \<in> set ws_lead) ws_encodings"
  by code_simp

lemma ws_prefix_never [simp]: "never_ws c \<Longrightarrow> ws_prefix (c # cs) = 0"
proof -
  assume c: "never_ws c"
  have "\<not> prefix w (c # cs)" if "w \<in> set ws_encodings" for w
  proof -
    from that ws_encodings_lead have "w \<noteq> []" "byte_of (hd w) \<in> set ws_lead"
      by (auto simp only: list_all_iff)
    with c show ?thesis by (cases w) (auto simp: never_ws_def)
  qed
  then have "find (\<lambda>w. prefix w (c # cs)) ws_encodings = None" by (auto simp: find_None_iff)
  then show ?thesis by (simp add: ws_prefix_def)
qed

lemma trim_start_never [simp]: "never_ws c \<Longrightarrow> trim_start (c # cs) = c # cs"
  by (subst trim_start.simps) simp

lemma take_nonws_word:
  "list_all never_ws w \<Longrightarrow> s = [] \<or> ws_prefix s \<noteq> 0 \<Longrightarrow> take_nonws (w @ s) = w"
  by (induction w) (cases s; auto)+

lemma split_whitespace_word:
  assumes "w \<noteq> []" and "list_all never_ws w" and "s = [] \<or> ws_prefix s \<noteq> 0"
  shows "split_whitespace (w @ s) = w # split_whitespace s"
proof -
  have "trim_start (w @ s) = w @ s" using assms(1,2) by (cases w) auto
  with assms take_nonws_word [OF assms(2,3)] show ?thesis
    by (subst split_whitespace.simps) (simp add: Let_def)
qed

lemma split_whitespace_space:
  assumes "w \<noteq> []" and "list_all never_ws w"
  shows "split_whitespace ('' '' @ w @ s) = split_whitespace (w @ s)"
proof -
  have "ws_prefix ('' '' @ t) = 1" for t
    by (simp add: ws_prefix_def ws_encodings_def)
  then have "trim_start ('' '' @ w @ s) = trim_start (w @ s)"
    by (subst trim_start.simps) simp
  then show ?thesis by (subst (1 2) split_whitespace.simps) simp
qed

lemma show_nat_digits: "list_all is_ascii_digit (show_nat n)"
proof (induction n rule: show_nat.induct)
  case (1 n)
  have "n mod 10 < 10" by simp
  then have "is_ascii_digit (char_of (48 + n mod 10))" by (simp add: is_ascii_digit_def)
  with 1 show ?case
    by (cases "n < 10") (simp_all add: show_nat.simps [of n] is_ascii_digit_def [of "char_of (48 + n)"])
qed

lemma show_nat_nonempty [simp]: "show_nat n \<noteq> []"
  by (subst show_nat.simps) simp

lemma dec_value_show_nat: "dec_value (show_nat n) = n"
proof (induction n rule: show_nat.induct)
  case (1 n)
  then show ?case by (cases "n < 10") (simp_all add: show_nat.simps [of n] dec_value_def)
qed

lemma is_ascii_digit_neq: "is_ascii_digit c \<Longrightarrow> c \<noteq> CHR ''+'' \<and> c \<noteq> CHR ''.''"
  by (auto simp: is_ascii_digit_def)

lemma parse_u64_show_nat: "n < 2 ^ 64 \<Longrightarrow> parse_u64 (show_nat n) = Some n"
proof -
  assume n: "n < 2 ^ 64"
  obtain c cs where c: "show_nat n = c # cs" by (cases "show_nat n") auto
  then have "c \<noteq> CHR ''+''" using show_nat_digits [of n] is_ascii_digit_neq by auto
  with c have "(case show_nat n of c # r \<Rightarrow> if c = CHR ''+'' then r else show_nat n | [] \<Rightarrow> []) = show_nat n"
    by simp
  then show ?thesis using n show_nat_digits [of n] by (simp add: parse_u64_def dec_value_show_nat Let_def)
qed

lemma is_ascii_digit_never_ws: "is_ascii_digit c \<Longrightarrow> never_ws c"
  by (auto simp: is_ascii_digit_def never_ws_def ws_lead_def)

section \<open>Reachable states\<close>

inductive reach :: "('s \<Rightarrow> bool) \<Rightarrow> ('s \<Rightarrow> 's \<Rightarrow> bool) \<Rightarrow> 's \<Rightarrow> bool"
  for init :: "'s \<Rightarrow> bool" and step :: "'s \<Rightarrow> 's \<Rightarrow> bool" where
  reach_init: "init s \<Longrightarrow> reach init step s"
| reach_step: "reach init step s \<Longrightarrow> step s s' \<Longrightarrow> reach init step s'"

text \<open>
  The contract of an inductive invariant: it holds initially and every step keeps it. Each state
  machine of the development discharges it once and gets the invariant in every reachable state.
\<close>

locale step_invariant =
  fixes init :: "'s \<Rightarrow> bool"
    and step :: "'s \<Rightarrow> 's \<Rightarrow> bool"
    and inv :: "'s \<Rightarrow> bool"
  assumes inv_init: "init s \<Longrightarrow> inv s"
    and inv_step: "inv s \<Longrightarrow> step s s' \<Longrightarrow> inv s'"
begin

lemma reach_inv: "reach init step s \<Longrightarrow> inv s"
  by (induction rule: reach.induct) (auto intro: inv_init inv_step)

end

section \<open>Undo logs\<close>

text \<open>
  Writing a list of bindings while logging the previous values, and writing the log back in
  reverse order.
\<close>

fun run_logged ::
  "('s \<Rightarrow> 'k \<Rightarrow> 'v) \<Rightarrow> ('k \<Rightarrow> 'v \<Rightarrow> 's \<Rightarrow> 's) \<Rightarrow> ('k \<times> 'v) list \<Rightarrow> 's \<Rightarrow> ('k \<times> 'v) list \<times> 's" where
  "run_logged get put [] s = ([], s)"
| "run_logged get put ((k, v) # bs) s =
     (let (lg, s') = run_logged get put bs (put k v s) in ((k, get s k) # lg, s'))"

definition undo_log :: "('k \<Rightarrow> 'v \<Rightarrow> 's \<Rightarrow> 's) \<Rightarrow> ('k \<times> 'v) list \<Rightarrow> 's \<Rightarrow> 's" where
  "undo_log put lg s = fold (\<lambda>(k, v). put k v) (rev lg) s"

text \<open>The laws a store has to keep for its undo logs to work.\<close>

locale cell_store =
  fixes get :: "'s \<Rightarrow> 'k \<Rightarrow> 'v"
    and put :: "'k \<Rightarrow> 'v \<Rightarrow> 's \<Rightarrow> 's"
  assumes get_put: "get (put k v s) k' = (if k' = k then v else get s k')"
    and put_undo: "put k (get s k) (put k v s) = s"
begin

lemma undo_run_logged: "run_logged get put bs s = (lg, s') \<Longrightarrow> undo_log put lg s' = s"
proof (induction bs arbitrary: s lg)
  case Nil
  then show ?case by (simp add: undo_log_def)
next
  case (Cons b bs)
  obtain k v where b: "b = (k, v)" by (cases b)
  obtain lg1 where lg: "lg = (k, get s k) # lg1"
    and run: "run_logged get put bs (put k v s) = (lg1, s')"
    using Cons.prems b by (auto split: prod.splits)
  have "undo_log put lg s' = put k (get s k) (undo_log put lg1 s')"
    by (simp add: lg undo_log_def)
  then show ?case using Cons.IH [OF run] by (simp add: put_undo)
qed

lemma get_run_logged:
  "run_logged get put bs s = (lg, s') \<Longrightarrow>
   get s' k = (case map_of (rev bs) k of None \<Rightarrow> get s k | Some v \<Rightarrow> v)"
  by (induction bs arbitrary: s lg)
    (auto simp: get_put map_add_def split: prod.splits option.splits if_splits)

end

end
