(* ===== verification/ScopedEnv.thy ===== *)
theory ScopedEnv
  imports Prelude
begin

text \<open>
  The scoped process environment of \<open>src/src/env\<close>: thread-local guard stacks over one global
  mutex. The process-wide part is a \<open>penv\<close> (the variables, the mutex owner, its poison flag),
  the thread-local part a \<open>thread_state\<close> as in \<open>ThreadStateCore\<close>. Panics and a blocked
  lock are values of \<open>outcome\<close>. The first half models \<open>enter_scope\<close>, \<open>exit_scope\<close> and
  every helper they call; the second half is the multi-threaded system, with the invariant that
  makes guards composable: variables are restored in stack order whatever order the guards are
  dropped in.
\<close>

section \<open>State\<close>

type_synonym binding = "string \<times> string option"
type_synonym tid = nat

record penv =
  vars :: "string \<rightharpoonup> string"
  owner :: "tid option"
  poisoned :: bool

record guard_state =
  saved :: "binding list"
  finished :: bool

record thread_state =
  depth :: nat
  has_lock :: bool
  stack :: "guard_state list"

datatype panic =
    EmptyKey | NulInKey | EqualsInKey | NulInValue
  | DepthDesynchronized | MutexNotHeld

datatype 'a outcome = Done 'a | Panicked panic | Blocked

definition out_bind :: "'a outcome \<Rightarrow> ('a \<Rightarrow> 'b outcome) \<Rightarrow> 'b outcome" where
  "out_bind m f = (case m of Done x \<Rightarrow> f x | Panicked p \<Rightarrow> Panicked p | Blocked \<Rightarrow> Blocked)"

lemma out_bind_simps [simp]:
  "out_bind (Done x) f = f x" "out_bind (Panicked p) f = Panicked p" "out_bind Blocked f = Blocked"
  by (simp_all add: out_bind_def)

section \<open>Validation\<close>

definition contains_equals :: "string \<Rightarrow> bool" where
  "contains_equals k \<longleftrightarrow> CHR ''='' \<in> set k"

definition contains_nul :: "string \<Rightarrow> bool" where
  "contains_nul v \<longleftrightarrow> CHR 0x00 \<in> set v"

definition validate_env_key :: "string \<Rightarrow> panic option" where
  "validate_env_key k =
     (if k = [] then Some EmptyKey
      else if contains_nul k then Some NulInKey
      else if contains_equals k then Some EqualsInKey
      else None)"

definition validate_env_value :: "string option \<Rightarrow> panic option" where
  "validate_env_value v =
     (case v of None \<Rightarrow> None | Some x \<Rightarrow> if contains_nul x then Some NulInValue else None)"

definition is_valid_env_key :: "string \<Rightarrow> bool" where
  "is_valid_env_key k \<longleftrightarrow> k \<noteq> [] \<and> \<not> contains_nul k \<and> \<not> contains_equals k"

definition is_valid_env_value :: "string option \<Rightarrow> bool" where
  "is_valid_env_value v \<longleftrightarrow> (case v of None \<Rightarrow> True | Some x \<Rightarrow> \<not> contains_nul x)"

text \<open>The validation loop at the head of \<open>enter_scope\<close>: the first failed assertion.\<close>

fun validate_all :: "binding list \<Rightarrow> panic option" where
  "validate_all [] = None"
| "validate_all ((k, v) # bs) =
     (case validate_env_key k of
        Some p \<Rightarrow> Some p
      | None \<Rightarrow> (case validate_env_value v of Some p \<Rightarrow> Some p | None \<Rightarrow> validate_all bs))"

section \<open>The mutex and the process environment\<close>

definition ensure_lock_is_clean :: "penv \<Rightarrow> penv" where
  "ensure_lock_is_clean g = (if poisoned g then g\<lparr>poisoned := False\<rparr> else g)"

text \<open>
  \<open>ENV_LOCK.lock()\<close>, recovering the guard when poisoned: blocked while any thread owns the
  mutex, the calling thread included (\<open>std::sync::Mutex\<close> is not re-entrant).
\<close>

definition lock_env_mutex :: "tid \<Rightarrow> penv \<Rightarrow> penv outcome" where
  "lock_env_mutex t g = (case owner g of None \<Rightarrow> Done (g\<lparr>owner := Some t\<rparr>) | Some _ \<Rightarrow> Blocked)"

text \<open>Dropping the mutex guard; a thread that is unwinding poisons the mutex.\<close>

definition unlock_env_mutex :: "bool \<Rightarrow> penv \<Rightarrow> penv" where
  "unlock_env_mutex panicking g = g\<lparr>owner := None, poisoned := poisoned g \<or> panicking\<rparr>"

definition set_or_remove :: "string \<Rightarrow> string option \<Rightarrow> penv \<Rightarrow> penv" where
  "set_or_remove k v g = g\<lparr>vars := (vars g)(k := v)\<rparr>"

text \<open>
  \<open>apply_single_var\<close>: the previous value is read before \<open>set_var\<close> or \<open>remove_var\<close>. Both
  are a function update of the variable map, to \<open>Some\<close> value or to \<open>None\<close>.
\<close>

definition apply_single_var :: "string \<Rightarrow> string option \<Rightarrow> penv \<Rightarrow> string option \<times> penv" where
  "apply_single_var k new g = (vars g k, set_or_remove k new g)"

fun apply_vars_loop :: "binding list \<Rightarrow> penv \<Rightarrow> binding list \<times> penv" where
  "apply_vars_loop [] g = ([], g)"
| "apply_vars_loop ((k, new) # bs) g =
     (let (previous, g1) = apply_single_var k new g; (rest, g2) = apply_vars_loop bs g1
      in ((k, previous) # rest, g2))"

text \<open>\<open>restore_saved\<close>: the saved values are written back in reverse order.\<close>

definition restore_saved :: "binding list \<Rightarrow> penv \<Rightarrow> penv" where
  "restore_saved sv g = fold (\<lambda>(k, v). set_or_remove k v) (rev sv) g"

section \<open>Entering and leaving scopes\<close>

type_synonym tstate = "thread_state \<times> penv"

definition new_thread_state :: thread_state where
  "new_thread_state = \<lparr>depth = 0, has_lock = False, stack = []\<rparr>"

definition acquire_lock_if_needed :: "tid \<Rightarrow> tstate \<Rightarrow> tstate outcome" where
  "acquire_lock_if_needed t st =
     (let (s, g) = st in
      if 0 < depth s then Done (s, g)
      else if has_lock s then Panicked DepthDesynchronized
      else out_bind (lock_env_mutex t (ensure_lock_is_clean g))
             (\<lambda>g1. Done (s\<lparr>has_lock := True\<rparr>, g1)))"

definition apply_env_vars :: "binding list \<Rightarrow> tstate \<Rightarrow> (binding list \<times> tstate) outcome" where
  "apply_env_vars bs st =
     (let (s, g) = st in
      if has_lock s then (let (sv, g1) = apply_vars_loop bs g in Done (sv, (s, g1)))
      else Panicked MutexNotHeld)"

definition enter_scope :: "tid \<Rightarrow> binding list \<Rightarrow> tstate \<Rightarrow> (nat \<times> tstate) outcome" where
  "enter_scope t bs st =
     (case validate_all bs of
        Some p \<Rightarrow> Panicked p
      | None \<Rightarrow>
          out_bind (acquire_lock_if_needed t st) (\<lambda>(s1, g1).
          out_bind (apply_env_vars bs (s1\<lparr>depth := depth s1 + 1\<rparr>, g1)) (\<lambda>(sv, (s2, g2)).
          Done (length (stack s2),
                (s2\<lparr>stack := stack s2 @ [\<lparr>saved = sv, finished = False\<rparr>]\<rparr>, g2)))))"

definition ensure_lock_for_restore :: "tid \<Rightarrow> tstate \<Rightarrow> tstate outcome" where
  "ensure_lock_for_restore t st =
     (let (s, g) = st in
      if has_lock s then Done (s, g)
      else out_bind (lock_env_mutex t (ensure_lock_is_clean g))
             (\<lambda>g1. Done (s\<lparr>has_lock := True\<rparr>, g1)))"

text \<open>
  The pop loop of \<open>restore_finished_scopes\<close>, on the stack with its top first: finished entries
  are restored, the first unfinished one is pushed back and stops the loop.
\<close>

fun pop_finished :: "guard_state list \<Rightarrow> penv \<Rightarrow> guard_state list \<times> penv" where
  "pop_finished [] g = ([], g)"
| "pop_finished (e # es) g =
     (if finished e then pop_finished es (restore_saved (saved e) g) else (e # es, g))"

definition restore_finished_scopes :: "tid \<Rightarrow> tstate \<Rightarrow> tstate outcome" where
  "restore_finished_scopes t st =
     (let (s, g) = st; top_finished = (stack s \<noteq> [] \<and> finished (last (stack s))) in
      out_bind (if top_finished then ensure_lock_for_restore t (s, g) else Done (s, g)) (\<lambda>(s1, g1).
      if top_finished \<and> \<not> has_lock s1 then Panicked MutexNotHeld
      else (let (es, g2) = pop_finished (rev (stack s1)) g1
            in Done (s1\<lparr>stack := rev es\<rparr>, g2))))"

text \<open>The pop loop of \<open>restore_all_scopes\<close>, on the stack with its top first.\<close>

fun pop_all :: "guard_state list \<Rightarrow> penv \<Rightarrow> penv" where
  "pop_all [] g = g"
| "pop_all (e # es) g = pop_all es (restore_saved (saved e) g)"

definition reset_depth_and_unlock :: "bool \<Rightarrow> tstate \<Rightarrow> tstate" where
  "reset_depth_and_unlock panicking st =
     (let (s, g) = st in
      (s\<lparr>depth := 0, has_lock := False\<rparr>,
       if has_lock s then unlock_env_mutex panicking g else g))"

definition restore_all_scopes :: "tid \<Rightarrow> tstate \<Rightarrow> tstate outcome" where
  "restore_all_scopes t st =
     (if stack (fst st) = [] then Done st
      else out_bind (ensure_lock_for_restore t st) (\<lambda>(s, g).
        if has_lock s then Done (s\<lparr>stack := []\<rparr>, pop_all (rev (stack s)) g)
        else Panicked MutexNotHeld))"

definition force_restore_and_reset :: "tid \<Rightarrow> bool \<Rightarrow> tstate \<Rightarrow> tstate outcome" where
  "force_restore_and_reset t panicking st =
     (let (s, g) = st in
      if stack s = [] then
        (if has_lock s then Done (reset_depth_and_unlock panicking (s, g))
         else Done (s\<lparr>depth := 0\<rparr>, g))
      else
        out_bind (ensure_lock_for_restore t (s, g)) (\<lambda>st1.
        out_bind (restore_all_scopes t st1) (\<lambda>st2.
        Done (reset_depth_and_unlock panicking st2))))"

text \<open>\<open>finish_scope\<close> reports whether restoration went on normally.\<close>

definition finish_scope :: "tid \<Rightarrow> bool \<Rightarrow> nat \<Rightarrow> tstate \<Rightarrow> (bool \<times> tstate) outcome" where
  "finish_scope t panicking i st =
     (let (s, g) = st in
      if length (stack s) \<le> i \<or> finished (stack s ! i) then
        out_bind (force_restore_and_reset t panicking st) (\<lambda>st1. Done (False, st1))
      else
        out_bind (restore_finished_scopes t
          (s\<lparr>stack := (stack s)[i := (stack s ! i)\<lparr>finished := True\<rparr>]\<rparr>, g))
          (\<lambda>st1. Done (True, st1)))"

definition release_outermost_lock :: "bool \<Rightarrow> tstate \<Rightarrow> tstate" where
  "release_outermost_lock panicking st =
     (let (s, g) = st in
      if has_lock s then (s\<lparr>has_lock := False\<rparr>, unlock_env_mutex panicking g) else (s, g))"

definition exit_scope :: "tid \<Rightarrow> bool \<Rightarrow> nat \<Rightarrow> tstate \<Rightarrow> tstate outcome" where
  "exit_scope t panicking i st =
     (let (s, g) = st in
      if depth s = 0 then force_restore_and_reset t panicking (s, g)
      else
        out_bind (finish_scope t panicking i (s\<lparr>depth := depth s - 1\<rparr>, g)) (\<lambda>(ok, (s1, g1)).
        if \<not> ok then Done (s1, g1)
        else if depth s1 = 0 then Done (release_outermost_lock panicking (s1, g1))
        else Done (s1, g1)))"

section \<open>Undoing one scope\<close>

interpretation env_cells: cell_store vars set_or_remove
  by unfold_locales (auto simp: set_or_remove_def)

lemma apply_vars_loop_run_logged: "apply_vars_loop bs g = run_logged vars set_or_remove bs g"
  by (induction bs g rule: apply_vars_loop.induct)
    (auto simp: apply_single_var_def split: prod.splits)

lemma restore_saved_undo: "restore_saved sv g = undo_log set_or_remove sv g"
  by (simp add: restore_saved_def undo_log_def)

lemma restore_apply: "apply_vars_loop bs g = (sv, g') \<Longrightarrow> restore_saved sv g' = g"
  by (simp add: apply_vars_loop_run_logged restore_saved_undo env_cells.undo_run_logged)

lemma set_or_remove_frame [simp]:
  "owner (set_or_remove k v g) = owner g" "poisoned (set_or_remove k v g) = poisoned g"
  by (simp_all add: set_or_remove_def)

lemma fold_set_or_remove_frame:
  "owner (fold (\<lambda>(k, v). set_or_remove k v) bs g) = owner g"
  "poisoned (fold (\<lambda>(k, v). set_or_remove k v) bs g) = poisoned g"
  by (induction bs arbitrary: g) auto

lemma restore_saved_frame [simp]:
  "owner (restore_saved sv g) = owner g" "poisoned (restore_saved sv g) = poisoned g"
  by (simp_all add: restore_saved_def fold_set_or_remove_frame)

lemma apply_vars_loop_frame:
  "apply_vars_loop bs g = (sv, g') \<Longrightarrow> owner g' = owner g \<and> poisoned g' = poisoned g"
proof (induction bs arbitrary: g sv)
  case (Cons b bs)
  obtain k v where b: "b = (k, v)" by (cases b)
  then obtain sv1 where "apply_vars_loop bs (set_or_remove k v g) = (sv1, g')"
    using Cons.prems by (auto simp: apply_single_var_def split: prod.splits)
  from Cons.IH [OF this] show ?case by simp
qed simp

lemma pop_all_frame [simp]:
  "owner (pop_all es g) = owner g" "poisoned (pop_all es g) = poisoned g"
  by (induction es arbitrary: g) auto

lemma fold_set_or_remove_vars:
  "vars g = vars g' \<Longrightarrow>
   vars (fold (\<lambda>(k, v). set_or_remove k v) bs g) = vars (fold (\<lambda>(k, v). set_or_remove k v) bs g')"
proof (induction bs arbitrary: g g')
  case (Cons b bs)
  obtain k v where b: "b = (k, v)" by (cases b)
  have "vars (set_or_remove k v g) = vars (set_or_remove k v g')"
    using Cons.prems by (simp add: set_or_remove_def)
  from Cons.IH [OF this] show ?case by (simp add: b)
qed simp

text \<open>Restoring depends on the variables only, not on the mutex.\<close>

lemma pop_all_vars: "vars g = vars g' \<Longrightarrow> vars (pop_all es g) = vars (pop_all es g')"
proof (induction es arbitrary: g g')
  case (Cons e es)
  from Cons.prems have "vars (restore_saved (saved e) g) = vars (restore_saved (saved e) g')"
    unfolding restore_saved_def by (rule fold_set_or_remove_vars)
  from Cons.IH [OF this] show ?case by simp
qed simp

lemma pop_all_append: "pop_all (es @ fs) g = pop_all fs (pop_all es g)"
  by (induction es arbitrary: g) auto

lemma pop_all_saved: "map saved es = map saved fs \<Longrightarrow> pop_all es g = pop_all fs g"
proof (induction es arbitrary: fs g)
  case (Cons e es)
  then obtain f fs' where "fs = f # fs'" "saved e = saved f" "map saved es = map saved fs'"
    by (cases fs) auto
  then show ?case using Cons.IH by simp
qed simp

lemma pop_finished_eq: "pop_finished es g = (dropWhile finished es, pop_all (takeWhile finished es) g)"
  by (induction es arbitrary: g) auto

section \<open>The invariant of one thread\<close>

definition unfinished :: "guard_state list \<Rightarrow> nat set" where
  "unfinished es = {i. i < length es \<and> \<not> finished (es ! i)}"

definition ts_inv :: "thread_state \<Rightarrow> bool" where
  "ts_inv s \<longleftrightarrow> depth s = card (unfinished (stack s)) \<and> (has_lock s \<longleftrightarrow> 0 < depth s) \<and>
     (stack s \<noteq> [] \<longrightarrow> \<not> finished (last (stack s)))"

lemma unfinished_Nil [simp]: "unfinished [] = {}"
  by (simp add: unfinished_def)

lemma finite_unfinished [simp]: "finite (unfinished es)"
  by (simp add: unfinished_def)

lemma unfinished_snoc:
  "unfinished (es @ [e]) = (if finished e then unfinished es else insert (length es) (unfinished es))"
  by (auto simp: unfinished_def nth_append less_Suc_eq)

lemma unfinished_append_finished:
  "list_all finished fs \<Longrightarrow> unfinished (es @ fs) = unfinished es"
  by (induction fs rule: rev_induct) (auto simp: unfinished_snoc simp flip: append_assoc)

lemma unfinished_mark:
  "i < length es \<Longrightarrow> unfinished (es[i := (es ! i)\<lparr>finished := True\<rparr>]) = unfinished es - {i}"
  by (auto simp: unfinished_def nth_list_update)

lemma length_notin_unfinished [simp]: "length es \<notin> unfinished es"
  by (simp add: unfinished_def)

lemma ts_inv_stack: "ts_inv s \<Longrightarrow> stack s = [] \<longleftrightarrow> depth s = 0"
proof -
  assume inv: "ts_inv s"
  have "length (stack s) - 1 \<in> unfinished (stack s)" if "stack s \<noteq> []"
    using that inv by (auto simp: ts_inv_def unfinished_def last_conv_nth)
  then show ?thesis using inv by (auto simp: ts_inv_def card_eq_0_iff)
qed

text \<open>Popping the finished entries, on the stack as the code stores it.\<close>

definition keep_part :: "guard_state list \<Rightarrow> guard_state list" where
  "keep_part es = rev (dropWhile finished (rev es))"

definition drop_part :: "guard_state list \<Rightarrow> guard_state list" where
  "drop_part es = rev (takeWhile finished (rev es))"

lemma keep_drop: "keep_part es @ drop_part es = es"
  unfolding keep_part_def drop_part_def by (metis rev_append rev_rev_ident takeWhile_dropWhile_id)

lemma drop_part_finished: "list_all finished (drop_part es)"
  by (auto simp: drop_part_def list_all_iff dest: set_takeWhileD)

lemma keep_part_last: "keep_part es \<noteq> [] \<Longrightarrow> \<not> finished (last (keep_part es))"
  by (simp add: keep_part_def last_rev hd_dropWhile)

lemma unfinished_keep_part [simp]: "unfinished (keep_part es) = unfinished es"
  by (metis keep_drop drop_part_finished unfinished_append_finished)

lemma pop_finished_stack:
  "pop_finished (rev es) g = (rev (keep_part es), pop_all (rev (drop_part es)) g)"
  by (simp add: pop_finished_eq keep_part_def drop_part_def)

lemma pop_all_keep_part:
  "pop_all (rev (keep_part es)) (pop_all (rev (drop_part es)) g) = pop_all (rev es) g"
  by (metis keep_drop pop_all_append rev_append)

section \<open>Entering and leaving on consistent states\<close>

abbreviation new_guard :: "binding list \<Rightarrow> guard_state" where
  "new_guard sv \<equiv> \<lparr>saved = sv, finished = False\<rparr>"

abbreviation mark_finished :: "nat \<Rightarrow> guard_state list \<Rightarrow> guard_state list" where
  "mark_finished i es \<equiv> es[i := (es ! i)\<lparr>finished := True\<rparr>]"

text \<open>What entering does to the variables and the lock before the scope is pushed.\<close>

definition locked_penv :: "tid \<Rightarrow> thread_state \<Rightarrow> penv \<Rightarrow> penv" where
  "locked_penv t s g =
     (if 0 < depth s then g else (ensure_lock_is_clean g)\<lparr>owner := Some t\<rparr>)"

lemma locked_penv_vars [simp]: "vars (locked_penv t s g) = vars g"
  by (simp add: locked_penv_def ensure_lock_is_clean_def)

lemma enter_scope_eq:
  assumes "ts_inv s"
  shows "enter_scope t bs (s, g) =
    (case validate_all bs of
       Some p \<Rightarrow> Panicked p
     | None \<Rightarrow>
         if depth s = 0 \<and> owner g \<noteq> None then Blocked
         else (let (sv, g') = apply_vars_loop bs (locked_penv t s g) in
           Done (length (stack s),
             (s\<lparr>depth := depth s + 1, has_lock := True, stack := stack s @ [new_guard sv]\<rparr>, g'))))"
proof (cases "0 < depth s")
  case True
  with assms have "s\<lparr>depth := d, has_lock := True\<rparr> = s\<lparr>depth := d\<rparr>" for d
    by (cases s) (auto simp: ts_inv_def)
  with True assms show ?thesis
    by (auto simp: enter_scope_def acquire_lock_if_needed_def apply_env_vars_def locked_penv_def
        ts_inv_def split: option.splits prod.splits)
next
  case False
  with assms show ?thesis
    by (auto simp: enter_scope_def acquire_lock_if_needed_def apply_env_vars_def locked_penv_def
        lock_env_mutex_def ensure_lock_is_clean_def ts_inv_def split: option.splits prod.splits)
qed

lemma card_unfinished_mark:
  "i \<in> unfinished es \<Longrightarrow> card (unfinished (mark_finished i es)) = card (unfinished es) - 1"
  by (simp add: unfinished_mark unfinished_def [of es])

lemma restore_finished_scopes_locked:
  "has_lock s \<Longrightarrow> restore_finished_scopes t (s, g) =
     Done (s\<lparr>stack := keep_part (stack s)\<rparr>, pop_all (rev (drop_part (stack s))) g)"
  by (simp add: restore_finished_scopes_def ensure_lock_for_restore_def pop_finished_stack)

lemma exit_scope_live:
  assumes inv: "ts_inv s" and live: "i \<in> unfinished (stack s)"
  shows "exit_scope t pk i (s, g) =
    (let es = mark_finished i (stack s); g1 = pop_all (rev (drop_part es)) g in
     if depth s = 1
     then Done (s\<lparr>depth := 0, has_lock := False, stack := keep_part es\<rparr>, unlock_env_mutex pk g1)
     else Done (s\<lparr>depth := depth s - 1, stack := keep_part es\<rparr>, g1))"
proof -
  from live have i: "i < length (stack s)" "\<not> finished (stack s ! i)"
    by (auto simp: unfinished_def)
  have "depth s \<noteq> 0"
    using inv live by (auto simp: ts_inv_def card_eq_0_iff)
  moreover from this inv have "has_lock s" by (simp add: ts_inv_def)
  ultimately show ?thesis using i
    by (auto simp: exit_scope_def finish_scope_def restore_finished_scopes_locked
        release_outermost_lock_def Let_def)
qed

lemma ts_inv_enter:
  assumes "ts_inv s"
  shows "ts_inv (s\<lparr>depth := depth s + 1, has_lock := True, stack := stack s @ [new_guard sv]\<rparr>)"
  using assms by (simp add: ts_inv_def unfinished_snoc)

lemma ts_inv_exit:
  assumes "ts_inv s" and "i \<in> unfinished (stack s)"
  shows "ts_inv (if depth s = 1
      then s\<lparr>depth := 0, has_lock := False, stack := keep_part (mark_finished i (stack s))\<rparr>
      else s\<lparr>depth := depth s - 1, stack := keep_part (mark_finished i (stack s))\<rparr>)"
proof -
  have "depth s \<noteq> 0" using assms by (auto simp: ts_inv_def card_eq_0_iff)
  then show ?thesis using assms
    by (auto simp: ts_inv_def card_unfinished_mark keep_part_last)
qed

text \<open>Marking a scope finished and popping keeps what a full unwind would restore.\<close>

lemma map_saved_mark [simp]: "map saved (mark_finished i es) = map saved es"
  by (cases "i < length es") (auto simp: map_update list_update_same_conv list_update_beyond)

lemma unwind_exit:
  "pop_all (rev (keep_part (mark_finished i es))) (pop_all (rev (drop_part (mark_finished i es))) g)
   = pop_all (rev es) g"
proof -
  have "map saved (rev (mark_finished i es)) = map saved (rev es)"
    by (simp only: rev_map [symmetric] map_saved_mark)
  then have "pop_all (rev (mark_finished i es)) g = pop_all (rev es) g"
    by (rule pop_all_saved)
  then show ?thesis by (simp only: pop_all_keep_part)
qed

lemma unwind_enter:
  assumes "apply_vars_loop bs (locked_penv t s g) = (sv, g')"
  shows "vars (pop_all (rev (es @ [new_guard sv])) g') = vars (pop_all (rev es) g)"
proof -
  have "pop_all (rev (es @ [new_guard sv])) g' = pop_all (rev es) (locked_penv t s g)"
    using restore_apply [OF assms] by simp
  then show ?thesis using pop_all_vars [of "locked_penv t s g" g] by simp
qed

section \<open>The multi-threaded system\<close>

text \<open>
  Every thread has its own \<open>ThreadState\<close>; \<open>guards\<close> records the indices of the
  \<open>ScopedEnv\<close> values a thread still holds. A guard is not \<open>Send\<close>, so only the creating
  thread drops it, and Rust drops it once: a live guard is dropped by removing its index.
\<close>

record env_sys =
  threads :: "tid \<Rightarrow> thread_state"
  process :: penv
  guards :: "tid \<Rightarrow> nat set"

definition env_init :: "(string \<rightharpoonup> string) \<Rightarrow> env_sys \<Rightarrow> bool" where
  "env_init base \<sigma> \<longleftrightarrow> threads \<sigma> = (\<lambda>_. new_thread_state) \<and> guards \<sigma> = (\<lambda>_. {}) \<and>
     vars (process \<sigma>) = base \<and> owner (process \<sigma>) = None"

inductive env_step :: "env_sys \<Rightarrow> env_sys \<Rightarrow> bool" where
  step_enter: "enter_scope t bs (threads \<sigma> t, process \<sigma>) = Done (i, (s', g')) \<Longrightarrow>
     env_step \<sigma> (\<sigma>\<lparr>threads := (threads \<sigma>)(t := s'), process := g',
                     guards := (guards \<sigma>)(t := insert i (guards \<sigma> t))\<rparr>)"
| step_exit: "i \<in> guards \<sigma> t \<Longrightarrow>
     exit_scope t pk i (threads \<sigma> t, process \<sigma>) = Done (s', g') \<Longrightarrow>
     env_step \<sigma> (\<sigma>\<lparr>threads := (threads \<sigma>)(t := s'), process := g',
                     guards := (guards \<sigma>)(t := guards \<sigma> t - {i})\<rparr>)"

definition env_inv :: "(string \<rightharpoonup> string) \<Rightarrow> env_sys \<Rightarrow> bool" where
  "env_inv base \<sigma> \<longleftrightarrow>
     (\<forall>t. ts_inv (threads \<sigma> t) \<and> guards \<sigma> t = unfinished (stack (threads \<sigma> t)) \<and>
          (has_lock (threads \<sigma> t) \<longleftrightarrow> owner (process \<sigma>) = Some t)) \<and>
     (case owner (process \<sigma>) of
        None \<Rightarrow> vars (process \<sigma>) = base
      | Some t \<Rightarrow> vars (pop_all (rev (stack (threads \<sigma> t))) (process \<sigma>)) = base)"

lemma env_invD:
  assumes "env_inv base \<sigma>"
  shows "ts_inv (threads \<sigma> t)" and "guards \<sigma> t = unfinished (stack (threads \<sigma> t))"
    and "has_lock (threads \<sigma> t) \<longleftrightarrow> owner (process \<sigma>) = Some t"
    and "owner (process \<sigma>) = None \<Longrightarrow> vars (process \<sigma>) = base"
    and "owner (process \<sigma>) = Some t \<Longrightarrow>
         vars (pop_all (rev (stack (threads \<sigma> t))) (process \<sigma>)) = base"
  using assms by (auto simp: env_inv_def)

lemma env_inv_init: "env_init base \<sigma> \<Longrightarrow> env_inv base \<sigma>"
  by (simp add: env_init_def env_inv_def new_thread_state_def ts_inv_def)

lemma env_inv_enter:
  assumes inv: "env_inv base \<sigma>"
    and run: "enter_scope t bs (threads \<sigma> t, process \<sigma>) = Done (i, (s', g'))"
  shows "env_inv base (\<sigma>\<lparr>threads := (threads \<sigma>)(t := s'), process := g',
                         guards := (guards \<sigma>)(t := insert i (guards \<sigma> t))\<rparr>)"
proof -
  let ?s = "threads \<sigma> t" and ?g = "process \<sigma>"
  note I = env_invD [OF inv]
  obtain sv where i: "i = length (stack ?s)"
    and free: "depth ?s = 0 \<longrightarrow> owner ?g = None"
    and s': "s' = ?s\<lparr>depth := depth ?s + 1, has_lock := True, stack := stack ?s @ [new_guard sv]\<rparr>"
    and loop: "apply_vars_loop bs (locked_penv t ?s ?g) = (sv, g')"
    using run I(1) [of t]
    by (auto simp: enter_scope_eq split: option.splits if_splits prod.splits)
  have own: "owner g' = Some t"
    using apply_vars_loop_frame [OF loop] I(1,3) [of t] by (auto simp: locked_penv_def ts_inv_def)
  have others: "\<not> has_lock (threads \<sigma> u)" if "u \<noteq> t" for u
    using free I(1) [of t] I(3) [of t] I(3) [of u] that by (auto simp: ts_inv_def)
  have base: "vars (pop_all (rev (stack ?s)) ?g) = base"
  proof (cases "depth ?s = 0")
    case True
    then have "stack ?s = []" using I(1) [of t] by (simp add: ts_inv_stack)
    with True free I(4) show ?thesis by simp
  next
    case False
    with I(1,3,5) [of t] show ?thesis by (simp add: ts_inv_def)
  qed
  show ?thesis
    using I(1,2) own others base ts_inv_enter [OF I(1) [of t]] unwind_enter [OF loop]
    unfolding env_inv_def
    by (auto simp: s' i unfinished_snoc)
qed

lemma env_inv_exit:
  assumes inv: "env_inv base \<sigma>" and live: "i \<in> guards \<sigma> t"
    and run: "exit_scope t pk i (threads \<sigma> t, process \<sigma>) = Done (s', g')"
  shows "env_inv base (\<sigma>\<lparr>threads := (threads \<sigma>)(t := s'), process := g',
                         guards := (guards \<sigma>)(t := guards \<sigma> t - {i})\<rparr>)"
proof -
  let ?s = "threads \<sigma> t" and ?g = "process \<sigma>"
  let ?es = "mark_finished i (stack ?s)"
  note I = env_invD [OF inv]
  from live I(2) have live': "i \<in> unfinished (stack ?s)" by simp
  then have i: "i < length (stack ?s)" and pos: "depth ?s \<noteq> 0"
    using I(1) [of t] by (auto simp: unfinished_def ts_inv_def card_eq_0_iff)
  then have own: "owner ?g = Some t" using I(1,3) [of t] by (simp add: ts_inv_def)
  have others: "\<not> has_lock (threads \<sigma> u)" if "u \<noteq> t" for u
    using own I(3) [of u] that by simp
  note eq = exit_scope_live [OF I(1) live', of t pk ?g]
  note tinv = ts_inv_exit [OF I(1) live']
  show ?thesis
  proof (cases "depth ?s = 1")
    case True
    with tinv have "keep_part ?es = []" using ts_inv_stack by fastforce
    with unwind_exit [of "stack ?s" i ?g] I(5) [OF own]
    have "vars (pop_all (rev (drop_part ?es)) ?g) = base" by simp
    with True eq run tinv I(1,2) i others show ?thesis
      unfolding env_inv_def
      by (auto simp: Let_def unlock_env_mutex_def unfinished_mark)
  next
    case False
    with eq run have s': "s' = ?s\<lparr>depth := depth ?s - 1, stack := keep_part ?es\<rparr>"
      and g': "g' = pop_all (rev (drop_part ?es)) ?g" by (auto simp: Let_def)
    have "vars (pop_all (rev (stack s')) g') = base"
      using unwind_exit [of "stack ?s" i ?g] I(5) [OF own] by (simp add: s' g')
    then show ?thesis using False tinv I(1,2,3) i own
      unfolding env_inv_def by (auto simp: s' g' unfinished_mark)
  qed
qed

lemma env_inv_step: "env_inv base \<sigma> \<Longrightarrow> env_step \<sigma> \<sigma>' \<Longrightarrow> env_inv base \<sigma>'"
  by (erule env_step.cases) (auto intro: env_inv_enter env_inv_exit)

interpretation env_machine: step_invariant "env_init base" env_step "env_inv base"
  by unfold_locales (auto intro: env_inv_init env_inv_step)

section \<open>Properties of the scoped environment\<close>

text \<open>A thread 0 that has set one variable in a previously empty environment.\<close>

definition demo_inside :: env_sys where
  "demo_inside =
     \<lparr>threads = (\<lambda>_. new_thread_state)
        (0 := \<lparr>depth = 1, has_lock = True, stack = [new_guard [(''PGUSER'', None)]]\<rparr>),
      process = \<lparr>vars = [''PGUSER'' \<mapsto> ''postgres''], owner = Some 0, poisoned = False\<rparr>,
      guards = (\<lambda>_. {})(0 := {0})\<rparr>"

lemma reach_demo_inside: "reach (env_init Map.empty) env_step demo_inside"
proof -
  define \<sigma> where "\<sigma> = \<lparr>threads = (\<lambda>_. new_thread_state),
    process = \<lparr>vars = Map.empty, owner = None, poisoned = False\<rparr>, guards = (\<lambda>_. {})\<rparr>"
  have "reach (env_init Map.empty) env_step \<sigma>"
    by (rule reach_init) (simp add: env_init_def \<sigma>_def)
  moreover have "enter_scope 0 [(''PGUSER'', Some ''postgres'')] (threads \<sigma> 0, process \<sigma>) =
      Done (0, (threads demo_inside 0, process demo_inside))"
    by (simp add: \<sigma>_def demo_inside_def enter_scope_def validate_env_key_def validate_env_value_def
        contains_nul_def contains_equals_def acquire_lock_if_needed_def lock_env_mutex_def
        ensure_lock_is_clean_def apply_env_vars_def apply_single_var_def set_or_remove_def
        new_thread_state_def)
  then have "env_step \<sigma> (\<sigma>\<lparr>threads := (threads \<sigma>)(0 := threads demo_inside 0),
      process := process demo_inside, guards := (guards \<sigma>)(0 := insert 0 (guards \<sigma> 0))\<rparr>)"
    by (rule step_enter)
  moreover have "\<sigma>\<lparr>threads := (threads \<sigma>)(0 := threads demo_inside 0),
      process := process demo_inside, guards := (guards \<sigma>)(0 := insert 0 (guards \<sigma> 0))\<rparr>
      = demo_inside"
    by (simp add: \<sigma>_def demo_inside_def)
  ultimately show ?thesis by (metis reach_step)
qed

lemma guards_demo_inside [simp]: "guards demo_inside t = (if t = 0 then {0} else {})"
  by (simp add: demo_inside_def)

lemma guards_depth: "env_inv base \<sigma> \<Longrightarrow> guards \<sigma> t = {} \<longleftrightarrow> depth (threads \<sigma> t) = 0"
  using env_invD(1,2) [of base \<sigma> t] by (auto simp: ts_inv_def card_eq_0_iff)

lemma guards_owner: "env_inv base \<sigma> \<Longrightarrow> guards \<sigma> t \<noteq> {} \<longleftrightarrow> owner (process \<sigma>) = Some t"
  using env_invD(1,3) [of base \<sigma> t] guards_depth [of base \<sigma> t] by (auto simp: ts_inv_def)

lemma force_restore_locked:
  assumes "has_lock s" and "stack s \<noteq> []"
  shows "force_restore_and_reset t pk (s, g) =
    Done (s\<lparr>depth := 0, has_lock := False, stack := []\<rparr>,
          unlock_env_mutex pk (pop_all (rev (stack s)) g))"
  using assms
  by (simp add: force_restore_and_reset_def ensure_lock_for_restore_def restore_all_scopes_def
      reset_depth_and_unlock_def)

lemma exit_completes:
  assumes inv: "env_inv base \<sigma>" and "i \<in> guards \<sigma> t"
  shows "\<exists>s' g'. exit_scope t pk i (threads \<sigma> t, process \<sigma>) = Done (s', g') \<and>
    Suc (depth s') = depth (threads \<sigma> t) \<and> unfinished (stack s') = guards \<sigma> t - {i}"
proof -
  note I = env_invD(1,2) [OF inv, of t]
  from assms(2) I have live: "i \<in> unfinished (stack (threads \<sigma> t))" by simp
  then have "i < length (stack (threads \<sigma> t))" "depth (threads \<sigma> t) \<noteq> 0"
    using I by (auto simp: unfinished_def ts_inv_def card_eq_0_iff)
  with exit_scope_live [OF I(1) live, of t pk "process \<sigma>"] I(2) show ?thesis
    by (auto simp: Let_def unfinished_mark)
qed

text \<open>
  C1: in every state any number of threads can reach by creating scopes and dropping their guards
  in any order, once no thread holds a guard the process variables are exactly those the process
  started with, and the mutex is free.
\<close>

theorem env_restored_when_unguarded:
  assumes "reach (env_init base) env_step \<sigma>" and "\<And>t. guards \<sigma> t = {}"
  shows "vars (process \<sigma>) = base \<and> owner (process \<sigma>) = None"
proof -
  from assms(1) have inv: "env_inv base \<sigma>" by (rule env_machine.reach_inv)
  have "owner (process \<sigma>) = None"
    using assms(2) guards_owner [OF inv] by (metis not_None_eq)
  with inv show ?thesis by (auto dest: env_invD(4))
qed

theorem env_restored_when_unguarded_witness:
  "\<exists>\<sigma>. reach (env_init Map.empty) env_step \<sigma> \<and> env_step demo_inside \<sigma> \<and>
       vars (process \<sigma>) = Map.empty \<and> owner (process \<sigma>) = None"
proof -
  obtain s' g' where ex: "exit_scope 0 False 0 (threads demo_inside 0, process demo_inside) = Done (s', g')"
    using exit_completes [OF env_machine.reach_inv [OF reach_demo_inside], of 0 0 False] by auto
  let ?\<sigma> = "demo_inside\<lparr>threads := (threads demo_inside)(0 := s'), process := g',
                guards := (guards demo_inside)(0 := guards demo_inside 0 - {0})\<rparr>"
  have st: "env_step demo_inside ?\<sigma>" by (rule step_exit [OF _ ex]) simp
  then have re: "reach (env_init Map.empty) env_step ?\<sigma>" by (rule reach_step [OF reach_demo_inside])
  have "\<And>t. guards ?\<sigma> t = {}" by simp
  from env_restored_when_unguarded [OF re this] st re show ?thesis by blast
qed

text \<open>
  C5: two threads never hold guards at the same time, so no thread sees a variable another
  thread's scope has set.
\<close>

theorem env_mutual_exclusion:
  assumes "reach (env_init base) env_step \<sigma>" and "guards \<sigma> t \<noteq> {}" and "guards \<sigma> u \<noteq> {}"
  shows "t = u \<and> owner (process \<sigma>) = Some t"
proof -
  note own = guards_owner [OF env_machine.reach_inv [OF assms(1)]]
  show ?thesis using own [of t] own [of u] assms(2,3) by simp
qed

theorem env_mutual_exclusion_witness:
  "guards demo_inside 0 \<noteq> {} \<and> owner (process demo_inside) = Some 0"
  using env_mutual_exclusion [OF reach_demo_inside, of 0 0] by simp

text \<open>
  C24: dropping a guard that is still held always completes: it neither panics nor blocks nor takes
  the corruption path. The depth goes down by one and exactly that guard is retired.
\<close>

theorem live_guard_drop_completes:
  assumes "reach (env_init base) env_step \<sigma>" and "i \<in> guards \<sigma> t"
  shows "\<exists>s' g'. exit_scope t pk i (threads \<sigma> t, process \<sigma>) = Done (s', g') \<and>
    Suc (depth s') = depth (threads \<sigma> t) \<and> unfinished (stack s') = guards \<sigma> t - {i}"
  using assms by (intro exit_completes env_machine.reach_inv)

theorem live_guard_drop_completes_witness:
  "\<exists>s' g'. exit_scope 0 True 0 (threads demo_inside 0, process demo_inside) = Done (s', g') \<and>
     Suc (depth s') = depth (threads demo_inside 0) \<and> unfinished (stack s') = {}"
  using live_guard_drop_completes [OF reach_demo_inside, of 0 0 True] by simp

text \<open>
  entering a scope. On every reachable state it panics only for an invalid name or value (before
  anything is changed), blocks only when another thread holds the mutex, and otherwise makes the
  last binding of each name visible and leaves every other variable alone; the internal assertions
  about the mutex never fire.
\<close>

theorem enter_scope_behaviour:
  assumes "reach (env_init base) env_step \<sigma>"
  shows "\<exists>i s' g'.
    enter_scope t bs (threads \<sigma> t, process \<sigma>) =
      (case validate_all bs of
         Some p \<Rightarrow> Panicked p
       | None \<Rightarrow> if \<exists>u. u \<noteq> t \<and> guards \<sigma> u \<noteq> {} then Blocked else Done (i, (s', g'))) \<and>
    i \<notin> guards \<sigma> t \<and> unfinished (stack s') = insert i (guards \<sigma> t) \<and>
    (\<forall>k. vars g' k = (case map_of (rev bs) k of None \<Rightarrow> vars (process \<sigma>) k | Some v \<Rightarrow> v))"
proof -
  from assms have inv: "env_inv base \<sigma>" by (rule env_machine.reach_inv)
  let ?s = "threads \<sigma> t" and ?g = "process \<sigma>"
  obtain sv g' where loop: "apply_vars_loop bs (locked_penv t ?s ?g) = (sv, g')"
    by (cases "apply_vars_loop bs (locked_penv t ?s ?g)")
  have blocked: "depth ?s = 0 \<and> owner ?g \<noteq> None \<longleftrightarrow> (\<exists>u. u \<noteq> t \<and> guards \<sigma> u \<noteq> {})"
    using guards_owner [OF inv] guards_depth [OF inv] by (metis not_None_eq option.inject)
  have "vars g' k = (case map_of (rev bs) k of None \<Rightarrow> vars ?g k | Some v \<Rightarrow> v)" for k
    using env_cells.get_run_logged [OF loop [unfolded apply_vars_loop_run_logged], of k]
    unfolding locked_penv_vars .
  moreover define s' where
    "s' = ?s\<lparr>depth := depth ?s + 1, has_lock := True, stack := stack ?s @ [new_guard sv]\<rparr>"
  have "enter_scope t bs (?s, ?g) =
      (case validate_all bs of
         Some p \<Rightarrow> Panicked p
       | None \<Rightarrow> if \<exists>u. u \<noteq> t \<and> guards \<sigma> u \<noteq> {} then Blocked
                else Done (length (stack ?s), (s', g')))"
    unfolding enter_scope_eq [OF env_invD(1) [OF inv]] blocked loop Let_def prod.case s'_def ..
  moreover have "length (stack ?s) \<notin> guards \<sigma> t"
    and "unfinished (stack s') = insert (length (stack ?s)) (guards \<sigma> t)"
    by (simp_all add: env_invD(2) [OF inv] s'_def unfinished_snoc)
  ultimately show ?thesis by blast
qed

theorem enter_scope_behaviour_witness:
  "\<exists>i s' g'. enter_scope 0 [(''PGPORT'', Some ''1''), (''PGPORT'', None)]
       (threads demo_inside 0, process demo_inside) = Done (i, (s', g')) \<and>
     vars g' ''PGPORT'' = None \<and> vars g' ''PGUSER'' = Some ''postgres''"
proof -
  have valid: "validate_all [(''PGPORT'', Some ''1''), (''PGPORT'', None)] = None"
    by (simp add: validate_env_key_def validate_env_value_def contains_nul_def contains_equals_def)
  have alone: "\<not> (\<exists>u. u \<noteq> 0 \<and> guards demo_inside u \<noteq> {})" by simp
  have old: "vars (process demo_inside) ''PGUSER'' = Some ''postgres''"
    by (simp add: demo_inside_def)
  show ?thesis
    using enter_scope_behaviour [OF reach_demo_inside, of 0 "[(''PGPORT'', Some ''1''), (''PGPORT'', None)]"]
    unfolding valid if_not_P [OF alone] option.case
    by (auto simp: old)
qed

text \<open>
  the assertions at the head of \<open>enter_scope\<close> accept exactly the bindings the debug
  assertions of \<open>apply_single_var\<close> accept, so those can never fire, and they reject with one
  of the four documented messages.
\<close>

theorem validate_all_iff_valid:
  "(validate_all bs = None \<longleftrightarrow>
      list_all (\<lambda>(k, v). is_valid_env_key k \<and> is_valid_env_value v) bs) \<and>
   validate_all bs \<in> {None, Some EmptyKey, Some NulInKey, Some EqualsInKey, Some NulInValue}"
proof (induction bs rule: validate_all.induct)
  case (2 k v bs)
  have "validate_env_key k = None \<longleftrightarrow> is_valid_env_key k"
    and "validate_env_key k \<in> {None, Some EmptyKey, Some NulInKey, Some EqualsInKey}"
    by (auto simp: validate_env_key_def is_valid_env_key_def)
  moreover have "validate_env_value v = None \<longleftrightarrow> is_valid_env_value v"
    and "validate_env_value v \<in> {None, Some NulInValue}"
    by (auto simp: validate_env_value_def is_valid_env_value_def split: option.splits)
  ultimately show ?case using 2 by (auto split: option.splits)
qed simp

text \<open>
  properly nested scopes. Leaving a scope right after entering it gives back the same thread
  state and the same variables and mutex owner, at any nesting depth and for any list of bindings,
  repeated names included.
\<close>

theorem enter_exit_roundtrip:
  assumes "ts_inv s" and "enter_scope t bs (s, g) = Done (i, (s', g'))"
  shows "\<exists>g''. exit_scope t pk i (s', g') = Done (s, g'') \<and> vars g'' = vars g \<and> owner g'' = owner g"
proof -
  obtain sv where i: "i = length (stack s)" and free: "depth s = 0 \<Longrightarrow> owner g = None"
    and s': "s' = s\<lparr>depth := depth s + 1, has_lock := True, stack := stack s @ [new_guard sv]\<rparr>"
    and loop: "apply_vars_loop bs (locked_penv t s g) = (sv, g')"
    using assms by (auto simp: enter_scope_eq split: option.splits if_splits prod.splits)
  let ?es = "stack s @ [\<lparr>saved = sv, finished = True\<rparr>]"
  have es: "mark_finished i (stack s') = ?es" by (simp add: s' i)
  have parts: "keep_part ?es = stack s" "drop_part ?es = [\<lparr>saved = sv, finished = True\<rparr>]"
    using assms(1) by (cases "stack s" rule: rev_cases; simp add: keep_part_def drop_part_def ts_inv_def)+
  have inv': "ts_inv s'" using ts_inv_enter [OF assms(1)] by (simp add: s')
  have live: "i \<in> unfinished (stack s')" by (simp add: s' i unfinished_snoc)
  have undone: "pop_all (rev (drop_part ?es)) g' = locked_penv t s g"
    using restore_apply [OF loop] by (simp add: parts)
  have eq: "exit_scope t pk i (s', g') =
      (if depth s = 0
       then Done (s'\<lparr>depth := 0, has_lock := False, stack := stack s\<rparr>, unlock_env_mutex pk (locked_penv t s g))
       else Done (s'\<lparr>depth := depth s, stack := stack s\<rparr>, locked_penv t s g))"
    using exit_scope_live [OF inv' live, of t pk g'] unfolding Let_def es parts(1) undone
    by (simp add: s')
  have lk: "has_lock s \<longleftrightarrow> 0 < depth s" using assms(1) by (simp add: ts_inv_def)
  show ?thesis
  proof (cases "depth s = 0")
    case True
    with lk have "s = s'\<lparr>depth := 0, has_lock := False, stack := stack s\<rparr>" by (simp add: s')
    with True eq free show ?thesis by (simp add: unlock_env_mutex_def)
  next
    case False
    with lk have "s = s'\<lparr>depth := depth s, stack := stack s\<rparr>" by (simp add: s')
    with False eq show ?thesis by (simp add: locked_penv_def)
  qed
qed

theorem enter_exit_roundtrip_witness:
  "\<exists>i s' g' g''.
     enter_scope 7 [(''A'', Some ''1''), (''A'', Some ''2'')]
       (new_thread_state, \<lparr>vars = [''A'' \<mapsto> ''0''], owner = None, poisoned = True\<rparr>) = Done (i, (s', g')) \<and>
     exit_scope 7 True i (s', g') = Done (new_thread_state, g'') \<and> vars g'' = [''A'' \<mapsto> ''0'']"
proof -
  let ?g = "\<lparr>vars = [''A'' \<mapsto> ''0''], owner = None, poisoned = True\<rparr>"
  let ?bs = "[(''A'', Some ''1''), (''A'', Some ''2'')]"
  have inv: "ts_inv new_thread_state" by (simp add: ts_inv_def new_thread_state_def)
  have valid: "validate_all ?bs = None"
    by (simp add: validate_env_key_def validate_env_value_def contains_nul_def contains_equals_def)
  obtain sv g1 where loop: "apply_vars_loop ?bs (locked_penv 7 new_thread_state ?g) = (sv, g1)"
    by (rule prod.exhaust)
  obtain i s' g' where run: "enter_scope 7 ?bs (new_thread_state, ?g) = Done (i, (s', g'))"
    unfolding enter_scope_eq [OF inv] valid loop by (simp add: new_thread_state_def)
  from enter_exit_roundtrip [OF inv run, of True] run show ?thesis by auto
qed

text \<open>
  dropping guards out of order. Dropping a guard that is not the innermost one leaves every
  variable as it is: its values are put back only once all scopes entered after it are gone.
\<close>

theorem outer_drop_is_deferred:
  assumes "reach (env_init base) env_step \<sigma>" and "i \<in> guards \<sigma> t" and "j \<in> guards \<sigma> t" and "i < j"
    and "exit_scope t pk i (threads \<sigma> t, process \<sigma>) = Done (s', g')"
  shows "g' = process \<sigma> \<and> j \<in> unfinished (stack s')"
proof -
  from assms(1) have inv: "env_inv base \<sigma>" by (rule env_machine.reach_inv)
  note I = env_invD(1,2) [OF inv, of t]
  let ?s = "threads \<sigma> t"
  let ?es = "mark_finished i (stack ?s)"
  from assms(2-4) I have i: "i \<in> unfinished (stack ?s)" "j \<in> unfinished (stack ?s)" by auto
  then have len: "i < j" "j < length (stack ?s)" using assms(4) by (auto simp: unfinished_def)
  then have ne: "stack ?s \<noteq> []" by auto
  with len have "last ?es = last (stack ?s)" by (simp add: last_conv_nth)
  with ne I(1) have "\<not> finished (last ?es)" by (simp add: ts_inv_def)
  then have none: "drop_part ?es = []"
    using len by (cases ?es rule: rev_cases) (auto simp: drop_part_def)
  have "card {i, j} \<le> card (unfinished (stack ?s))"
    using i by (intro card_mono) auto
  then have "depth ?s \<noteq> 1" using I(1) len by (auto simp: ts_inv_def)
  with exit_scope_live [OF I(1) i(1), of t pk "process \<sigma>"] assms(5) none i len show ?thesis
    by (auto simp: Let_def unfinished_mark)
qed

theorem outer_drop_is_deferred_witness:
  "\<exists>(\<sigma> :: env_sys) s' g'. exit_scope 0 False 0 (threads \<sigma> 0, process \<sigma>) = Done (s', g') \<and> guards \<sigma> 0 = {0, 1} \<and>
     g' = process \<sigma> \<and> 1 \<in> unfinished (stack s')"
proof -
  let ?inner = "threads demo_inside 0\<lparr>depth := 2, stack := stack (threads demo_inside 0) @ [new_guard []]\<rparr>"
  have run: "enter_scope 0 [] (threads demo_inside 0, process demo_inside) = Done (1, (?inner, process demo_inside))"
    by (simp add: enter_scope_def acquire_lock_if_needed_def apply_env_vars_def demo_inside_def)
  define \<sigma> where "\<sigma> = demo_inside\<lparr>threads := (threads demo_inside)(0 := ?inner),
     process := process demo_inside, guards := (guards demo_inside)(0 := insert 1 (guards demo_inside 0))\<rparr>"
  have re: "reach (env_init Map.empty) env_step \<sigma>"
    unfolding \<sigma>_def by (rule reach_step [OF reach_demo_inside step_enter [OF run]])
  have g: "guards \<sigma> 0 = {0, 1}" by (auto simp: \<sigma>_def)
  then have live: "0 \<in> guards \<sigma> 0" "1 \<in> guards \<sigma> 0" by simp_all
  from exit_completes [OF env_machine.reach_inv [OF re] live(1), of False]
  obtain s' g' where ex: "exit_scope 0 False 0 (threads \<sigma> 0, process \<sigma>) = Done (s', g')"
    by (elim exE conjE) (rule that)
  from outer_drop_is_deferred [OF re live zero_less_one ex] g ex show ?thesis
    by (intro exI [of _ \<sigma>] exI [of _ s'] exI [of _ g'] conjI) simp_all
qed

text \<open>
  recovery from corruption. Exiting with an index that is not a live guard of a thread inside a
  scope (a double drop, or an index never handed out) puts the original variables back, empties the
  thread's state and frees the mutex, instead of leaving variables of a dead scope behind.
\<close>

theorem corrupted_exit_restores:
  assumes "reach (env_init base) env_step \<sigma>" and "guards \<sigma> t \<noteq> {}" and "i \<notin> guards \<sigma> t"
  shows "\<exists>g'. exit_scope t pk i (threads \<sigma> t, process \<sigma>) = Done (new_thread_state, g') \<and>
    vars g' = base \<and> owner g' = None"
proof -
  from assms(1) have inv: "env_inv base \<sigma>" by (rule env_machine.reach_inv)
  note I = env_invD(1,2,3,5) [OF inv, of t]
  let ?s = "threads \<sigma> t"
  have d: "depth ?s \<noteq> 0" using guards_depth [OF inv] assms(2) by blast
  then have "has_lock ?s" "stack ?s \<noteq> []" using I(1) by (auto simp: ts_inv_def)
  moreover have "i \<notin> unfinished (stack ?s)" using assms(3) I(2) by simp
  then have "length (stack ?s) \<le> i \<or> finished (stack ?s ! i)"
    unfolding unfinished_def by (simp add: not_less)
  moreover have "vars (pop_all (rev (stack ?s)) (process \<sigma>)) = base"
    using guards_owner [OF inv] assms(2) I(4) by blast
  ultimately show ?thesis using d
    by (simp add: exit_scope_def finish_scope_def force_restore_locked unlock_env_mutex_def
        new_thread_state_def)
qed

theorem corrupted_exit_restores_witness:
  "\<exists>g'. exit_scope 0 False 5 (threads demo_inside 0, process demo_inside) = Done (new_thread_state, g') \<and>
    vars g' = Map.empty \<and> owner g' = None"
  by (rule corrupted_exit_restores [OF reach_demo_inside]) simp_all

end
