(* ===== verification/EnvSummary.thy ===== *)
theory EnvSummary
  imports ScopedEnv
begin

text \<open>
  The guard type \<open>ScopedEnv\<close> of \<open>src/src/env/mod.rs\<close> and the bounded change summary of
  \<open>src/src/env/summary.rs\<close> it logs. A Rust character is the byte string that encodes it, so
  \<open>char_indices\<close> pairs byte offsets with encodings and \<open>len_utf8\<close> is the length.
\<close>

section \<open>The change summary\<close>

definition MAX_ENV_CHANGES_SUMMARY_LEN :: nat where
  "MAX_ENV_CHANGES_SUMMARY_LEN = 512"

fun char_indices_from :: "nat \<Rightarrow> string list \<Rightarrow> (nat \<times> string) list" where
  "char_indices_from i [] = []"
| "char_indices_from i (c # cs) = (i, c) # char_indices_from (i + length c) cs"

definition char_indices :: "string \<Rightarrow> (nat \<times> string) list" where
  "char_indices s = char_indices_from 0 (utf8_chars s)"

text \<open>The scan of \<open>find_preferred_cut_point\<close>: the state is the cut and the last comma seen.\<close>

fun cut_scan :: "nat \<Rightarrow> (nat \<times> string) list \<Rightarrow> nat \<Rightarrow> nat option \<Rightarrow> nat \<times> nat option" where
  "cut_scan max_len [] cut_at comma = (cut_at, comma)"
| "cut_scan max_len ((idx, ch) # rest) cut_at comma =
     (if max_len \<le> idx then (cut_at, comma)
      else (let cut_at' = idx + length ch
            in cut_scan max_len rest cut_at' (if ch = '','' then Some cut_at' else comma)))"

definition find_preferred_cut_point :: "string \<Rightarrow> nat \<Rightarrow> nat" where
  "find_preferred_cut_point changes max_len =
     (let (cut_at, comma) = cut_scan max_len (char_indices changes) 0 None in
      case comma of
        Some pos \<Rightarrow> if max_len < min (pos * 2) (2 ^ 64 - 1) then pos else cut_at
      | None \<Rightarrow> cut_at)"

definition write_truncation_suffix :: "string \<Rightarrow> nat \<Rightarrow> string" where
  "write_truncation_suffix truncated remaining = truncated @ ''+ '' @ show_nat remaining @ '' more''"

definition append_truncation_suffix :: "string \<Rightarrow> nat \<Rightarrow> nat \<Rightarrow> string" where
  "append_truncation_suffix truncated shown_changes change_count =
     (if shown_changes < change_count then
        write_truncation_suffix
          (if truncated \<noteq> [] \<and> \<not> suffix '','' truncated then truncated @ '', '' else truncated)
          (change_count - shown_changes)
      else if \<not> suffix ''...'' truncated then truncated @ ''...'' else truncated)"

definition strip_suffix :: "string \<Rightarrow> string \<Rightarrow> string" where
  "strip_suffix p s = (if suffix p s then take (length s - length p) s else s)"

definition truncate_env_changes_summary :: "string \<Rightarrow> nat \<Rightarrow> nat \<Rightarrow> string" where
  "truncate_env_changes_summary changes max_len change_count =
     (if length changes \<le> max_len then changes
      else
        (let preferred_cut = find_preferred_cut_point changes max_len;
             kept = concat (map snd (takeWhile (\<lambda>(idx, _). idx < preferred_cut) (char_indices changes)));
             truncated = take (length (trim_end kept)) kept;
             shown_changes = length (filter (\<lambda>c. c = CHR '','') (strip_suffix '','' truncated)) + 1
         in append_truncation_suffix truncated shown_changes change_count))"

section \<open>The guard\<close>

text \<open>One entry of the summary: the name and whether it is set, never the value.\<close>

definition change_entry :: "binding \<Rightarrow> string" where
  "change_entry b = from_utf8_lossy (fst b) @ ''='' @ (if snd b \<noteq> None then ''set'' else ''unset'')"

record scoped_env =
  index :: nat
  change_count :: nat
  changes :: string

definition apply_owned_with_state :: "tid \<Rightarrow> binding list \<Rightarrow> tstate \<Rightarrow> (scoped_env \<times> tstate) outcome" where
  "apply_owned_with_state t bs st =
     (let summary = map change_entry bs;
          count = length summary;
          truncated = truncate_env_changes_summary (join_with '', '' summary)
                        MAX_ENV_CHANGES_SUMMARY_LEN count
      in out_bind (enter_scope t bs st) (\<lambda>(i, st').
           Done (\<lparr>index = i, change_count = count, changes = truncated\<rparr>, st')))"

definition scoped_env_drop :: "tid \<Rightarrow> bool \<Rightarrow> scoped_env \<Rightarrow> tstate \<Rightarrow> tstate outcome" where
  "scoped_env_drop t panicking guard st = exit_scope t panicking (index guard) st"

section \<open>Bounds and redaction\<close>

lemma show_nat_length: "0 < length (show_nat n)"
  by (subst show_nat.simps) simp

lemma show_nat_length_mono: "m \<le> n \<Longrightarrow> length (show_nat m) \<le> length (show_nat n)"
proof (induction n arbitrary: m rule: show_nat.induct)
  case (1 n)
  show ?case
  proof (cases "n < 10")
    case True
    with 1 show ?thesis by (simp add: show_nat.simps)
  next
    case False
    with 1(1) [of "m div 10"] 1(2) have "length (show_nat (m div 10)) \<le> length (show_nat (n div 10))"
      by (simp add: div_le_mono)
    with False show ?thesis
      using show_nat_length [of "n div 10"] by (simp add: show_nat.simps [of m] show_nat.simps [of n])
  qed
qed

lemma utf8_step_le4: "snd (utf8_step s) \<le> 4"
  by (cases s) (auto simp: utf8_step.simps split: list.splits)

lemma utf8_chars_length: "c \<in> set (utf8_chars s) \<Longrightarrow> length c \<le> 4"
proof (induction s rule: utf8_chars.induct)
  case (1 s)
  then show ?case
    using utf8_step_le4 [of s] by (cases "s = []") (auto simp: utf8_chars.simps [of s])
qed

text \<open>The kept text is a prefix whose length is the cut, because the cut is a character boundary.\<close>

fun boundary :: "nat \<Rightarrow> string list \<Rightarrow> nat \<Rightarrow> bool" where
  "boundary i [] n \<longleftrightarrow> n = i"
| "boundary i (c # cs) n \<longleftrightarrow> n = i \<or> boundary (i + length c) cs n"

lemma takeWhile_prefix:
  "prefix (concat (map snd (takeWhile P (char_indices_from i cs)))) (concat cs)"
  by (induction cs arbitrary: i) auto

lemma cut_scan_bound:
  assumes "list_all (\<lambda>c. length c \<le> 4) cs" and "cut_at \<le> max_len + 3"
    and "\<And>p. comma = Some p \<Longrightarrow> p \<le> max_len + 3"
    and "cut_scan max_len (char_indices_from i cs) cut_at comma = (cut_at', comma')"
  shows "cut_at' \<le> max_len + 3 \<and> (\<forall>p. comma' = Some p \<longrightarrow> p \<le> max_len + 3)"
  using assms
proof (induction cs arbitrary: i cut_at comma)
  case (Cons c cs)
  show ?case
  proof (cases "max_len \<le> i")
    case True
    with Cons.prems show ?thesis by simp
  next
    case False
    with Cons.prems have "i + length c \<le> max_len + 3" by simp
    with False Cons.prems show ?thesis
      by (intro Cons.IH [of "i + length c" "if c = '','' then Some (i + length c) else comma" "i + length c"])
        (auto simp: Let_def split: if_splits)
  qed
qed auto

lemma takeWhile_boundary:
  assumes "[] \<notin> set cs" and "boundary i cs n"
  shows "i \<le> n \<and>
    length (concat (map snd (takeWhile (\<lambda>(idx, _). idx < n) (char_indices_from i cs)))) = n - i"
  using assms
proof (induction cs arbitrary: i)
  case (Cons c cs)
  show ?case
  proof (cases "n = i")
    case False
    with Cons.prems Cons.IH [of "i + length c"] show ?thesis by (cases c) auto
  qed simp
qed simp

lemma boundary_refl [simp]: "boundary i cs i"
  by (cases cs) auto

lemma cut_scan_boundary:
  assumes "cut_scan max_len (char_indices_from i cs) cut_at comma = (cut_at', comma')"
  shows "(cut_at' = cut_at \<or> boundary i cs cut_at') \<and>
    (comma' = comma \<or> (\<exists>p. comma' = Some p \<and> boundary i cs p))"
  using assms
proof (induction cs arbitrary: i cut_at comma)
  case (Cons c cs)
  show ?case
  proof (cases "max_len \<le> i")
    case False
    let ?n = "i + length c"
    have "cut_scan max_len (char_indices_from ?n cs) ?n (if c = '','' then Some ?n else comma) =
        (cut_at', comma')"
      using Cons.prems False by (simp add: Let_def)
    from Cons.IH [OF this] show ?thesis by (auto split: if_splits)
  qed (use Cons.prems in simp)
qed simp

lemma utf8_chars_nonempty: "[] \<notin> set (utf8_chars s)"
proof (induction s rule: utf8_chars.induct)
  case (1 s)
  then show ?case
    using utf8_step_pos [of s] by (cases "s = []") (auto simp: utf8_chars.simps [of s])
qed

lemma find_preferred_cut_point_props:
  "find_preferred_cut_point s n \<le> n + 3 \<and> boundary 0 (utf8_chars s) (find_preferred_cut_point s n)"
proof -
  obtain c m where scan: "cut_scan n (char_indices_from 0 (utf8_chars s)) 0 None = (c, m)"
    by (rule prod.exhaust)
  have "list_all (\<lambda>c. length c \<le> 4) (utf8_chars s)"
    by (simp add: list_all_iff utf8_chars_length)
  then have "c \<le> n + 3 \<and> (\<forall>p. m = Some p \<longrightarrow> p \<le> n + 3)"
    by (rule cut_scan_bound [OF _ _ _ scan]) simp_all
  with cut_scan_boundary [OF scan] show ?thesis
    by (auto simp: find_preferred_cut_point_def char_indices_def scan split: option.splits)
qed

lemma append_truncation_suffix_length:
  "length (append_truncation_suffix s shown c) \<le> length s + 9 + length (show_nat c)"
  using show_nat_length_mono [of "c - shown" c]
  by (auto simp: append_truncation_suffix_def write_truncation_suffix_def)

lemma append_truncation_suffix_prefix: "prefix s (append_truncation_suffix s shown c)"
  by (auto simp: append_truncation_suffix_def write_truncation_suffix_def prefix_def)

lemma apply_owned_with_state_log:
  assumes "apply_owned_with_state t bs st = Done (guard, st1)"
  shows "changes guard = truncate_env_changes_summary (join_with '', '' (map change_entry bs))
           MAX_ENV_CHANGES_SUMMARY_LEN (length bs) \<and> change_count guard = length bs"
  using assms
  by (cases "enter_scope t bs st") (auto simp: apply_owned_with_state_def Let_def split: prod.splits)

text \<open>
  the logged change summary is bounded whatever the scope sets: it is the whole text when that
  fits, and otherwise a prefix of it of at most \<open>max_len + 3\<close> bytes (the cut never splits a
  UTF-8 character) followed by a suffix whose length depends on the number of changes only.
\<close>

theorem truncated_summary_bounded:
  "\<exists>kept rest. truncate_env_changes_summary s max_len n = kept @ rest \<and> prefix kept s \<and>
     length kept \<le> max_len + 3 \<and> length rest \<le> 9 + length (show_nat n)"
proof (cases "length s \<le> max_len")
  case True
  then show ?thesis by (intro exI [of _ s] exI [of _ "[]"]) (simp add: truncate_env_changes_summary_def)
next
  case False
  let ?cs = "utf8_chars s" and ?cut = "find_preferred_cut_point s max_len"
  define kept where
    "kept = concat (map snd (takeWhile (\<lambda>(idx, _). idx < ?cut) (char_indices_from 0 ?cs)))"
  define short where "short = take (length (trim_end kept)) kept"
  have "length kept = ?cut"
    using takeWhile_boundary [OF utf8_chars_nonempty, of 0 s ?cut] find_preferred_cut_point_props
    by (simp add: kept_def)
  then have len: "length short \<le> max_len + 3"
    using find_preferred_cut_point_props [of s max_len] by (simp add: short_def min.coboundedI1)
  have "prefix kept s"
    using takeWhile_prefix [of "\<lambda>(idx, _). idx < ?cut" 0 ?cs] by (simp add: kept_def)
  then have pre: "prefix short s"
    using take_is_prefix prefix_order.trans unfolding short_def by blast
  obtain shown where "truncate_env_changes_summary s max_len n = append_truncation_suffix short shown n"
    using False by (simp add: truncate_env_changes_summary_def char_indices_def kept_def short_def Let_def)
  moreover obtain rest where "append_truncation_suffix short shown n = short @ rest"
    using append_truncation_suffix_prefix [of short shown n] by (auto simp: prefix_def)
  ultimately show ?thesis
    using len pre append_truncation_suffix_length [of short shown n] by auto
qed

text \<open>
  redaction. What a scope logs depends on the names it changes and on whether each is set or
  removed, never on the values, so a password put into the environment does not reach the log.
\<close>

theorem scope_log_hides_values:
  assumes "map (\<lambda>(k, v). (k, v = None)) bs = map (\<lambda>(k, v). (k, v = None)) bs'"
    and "apply_owned_with_state t bs st = Done (guard, st1)"
    and "apply_owned_with_state t bs' st' = Done (guard', st1')"
  shows "changes guard = changes guard' \<and> change_count guard = change_count guard'"
proof -
  have "map change_entry xs =
      map (\<lambda>(k, removed). from_utf8_lossy k @ ''='' @ (if removed then ''unset'' else ''set''))
        (map (\<lambda>(k, v). (k, v = None)) xs)" for xs
    by (simp add: change_entry_def split_def)
  then have "map change_entry bs = map change_entry bs'" by (simp only: assms(1))
  moreover from this have "length bs = length bs'" by (rule map_eq_imp_length_eq)
  ultimately show ?thesis
    using assms(2,3) [THEN apply_owned_with_state_log] by simp
qed

theorem scope_log_hides_values_witness:
  "\<exists>guard st1 guard' st1'.
     apply_owned_with_state 0 [(''PGPASSWORD'', Some ''secret'')] (threads demo_inside 0, process demo_inside) = Done (guard, st1) \<and>
     apply_owned_with_state 0 [(''PGPASSWORD'', Some ''other'')] (threads demo_inside 0, process demo_inside) = Done (guard', st1') \<and>
     changes guard = changes guard'"
proof -
  have ok: "\<exists>guard st1. apply_owned_with_state 0 [(''PGPASSWORD'', Some v)] (threads demo_inside 0, process demo_inside) = Done (guard, st1)"
    if "\<not> contains_nul v" for v
    using that
    by (simp add: apply_owned_with_state_def enter_scope_def validate_env_key_def validate_env_value_def
        contains_nul_def contains_equals_def acquire_lock_if_needed_def apply_env_vars_def demo_inside_def
        apply_single_var_def Let_def)
  have "\<not> contains_nul ''secret''" and "\<not> contains_nul ''other''" by (simp_all add: contains_nul_def)
  from ok [OF this(1)] ok [OF this(2)] obtain guard st1 guard' st1'
    where run: "apply_owned_with_state 0 [(''PGPASSWORD'', Some ''secret'')] (threads demo_inside 0, process demo_inside) = Done (guard, st1)"
      "apply_owned_with_state 0 [(''PGPASSWORD'', Some ''other'')] (threads demo_inside 0, process demo_inside) = Done (guard', st1')"
    by (elim exE) (rule that)
  from scope_log_hides_values [OF _ run] run show ?thesis by auto
qed

end
