(* ===== verification/Errors.thy ===== *)
theory Errors
  imports Prelude
begin

text \<open>
  Error values: \<open>std::io::ErrorKind\<close> as far as the sources branch on it, and
  \<open>BootstrapError\<close> of \<open>src/src/error.rs\<close>. Of a report, the parts that carry data are kept: the
  files already written that a failed installation lists, and the typed causes that are looked for.
\<close>

datatype io_error_kind =
    NotFound | AlreadyExists | InvalidInput | PermissionDenied | NotADirectory | IsADirectory
  | DirectoryNotEmpty | FilesystemLoop | OtherIo

datatype bootstrap_error_kind =
    Other
  | WorkerBinaryMissing
  | WorkerBinaryPathNonUtf8
  | ClusterPasswordMissing
  | ClusterPasswordUnreadable
  | ClusterPasswordEmpty
  | ExtensionConfigInvalid
  | ExtensionManifestUnavailable
  | ExtensionManifestDigestMismatch
  | ExtensionManifestInvalid
  | ExtensionUnavailable
  | ExtensionArchiveUnavailable
  | ExtensionArchiveDigestMismatch
  | ExtensionArchiveInvalid
  | ExtensionInstallFailed

fun is_extension :: "bootstrap_error_kind \<Rightarrow> bool" where
  "is_extension ExtensionConfigInvalid = True"
| "is_extension ExtensionManifestUnavailable = True"
| "is_extension ExtensionManifestDigestMismatch = True"
| "is_extension ExtensionManifestInvalid = True"
| "is_extension ExtensionUnavailable = True"
| "is_extension ExtensionArchiveUnavailable = True"
| "is_extension ExtensionArchiveDigestMismatch = True"
| "is_extension ExtensionArchiveInvalid = True"
| "is_extension ExtensionInstallFailed = True"
| "is_extension _ = False"

text \<open>
  The typed causes of a report that the sources look for: a lifecycle timeout, the marker of cached
  binaries, and the errors of \<open>postgresql_embedded\<close> and its archive layer, whose other variants are one.
\<close>

datatype archive_error = ArchiveIoError | ArchiveRepositoryFailure | ArchiveOther

datatype embedded_error =
    EmbeddedIoError string | EmbeddedArchiveError archive_error | EmbeddedDatabaseStopError string | EmbeddedOther

datatype cause = LifecycleTimeout | CachedBinariesUsed string | EmbeddedCause embedded_error

record bootstrap_error =
  kind :: bootstrap_error_kind
  report_written :: "string list"
  causes :: "cause list"

definition extension_error :: "bootstrap_error_kind \<Rightarrow> bootstrap_error" where
  "extension_error k = \<lparr>kind = k, report_written = [], causes = []\<rparr>"

lemma kind_extension_error [simp]: "kind (extension_error k) = k"
  by (simp add: extension_error_def)

lemma report_written_extension_error [simp]: "report_written (extension_error k) = []"
  by (simp add: extension_error_def)

lemma causes_extension_error [simp]: "causes (extension_error k) = []"
  by (simp add: extension_error_def)

end
