(* ===== verification/FileSystem.thy ===== *)
theory FileSystem
  imports Errors "HOL-Library.AList"
begin

text \<open>
  The part of \<open>std::fs\<close> and \<open>std::path\<close> the sources call, over a tree of directories, regular files
  and symbolic links. Name resolution follows links as \<open>path_resolution(7)\<close> does, with the kernel's
  limit of 40. Every call is one or more system calls, and a fault schedule says which of them
  fails, with which error and, for a write, after how many bytes: permission and media errors are
  faults, not computed. The calls that change the tree, and the signals sent, are recorded as named
  by the caller in a trace. The rest of the world is what else the process reads, its ids and its
  clock, and its process-wide variables: the counters behind temporary and slot names, the slot
  locks it holds and the watchers it has started.
\<close>

named_theorems issue_rules \<open>which tree-changing calls a computation issues\<close>

section \<open>The tree\<close>

type_synonym u32 = "32 word"

record attr =
  mode :: u32
  uid :: u32
  gid :: u32

datatype node = File attr bytes | Dir attr "(string \<times> node) list" | Symlink string

fun is_file_node :: "node \<Rightarrow> bool" where
  "is_file_node (File _ _) = True"
| "is_file_node _ = False"

fun is_dir_node :: "node \<Rightarrow> bool" where
  "is_dir_node (Dir _ _) = True"
| "is_dir_node _ = False"

fun is_symlink_node :: "node \<Rightarrow> bool" where
  "is_symlink_node (Symlink _) = True"
| "is_symlink_node _ = False"

fun node_at :: "node \<Rightarrow> path \<Rightarrow> node option" where
  "node_at n [] = Some n"
| "node_at (Dir a cs) (c # p) = (case map_of cs c of None \<Rightarrow> None | Some n \<Rightarrow> node_at n p)"
| "node_at _ (c # p) = None"

text \<open>Replaces (\<open>Some\<close>) or removes (\<open>None\<close>) the node at a path whose parent is a directory.\<close>

fun put_at :: "node \<Rightarrow> path \<Rightarrow> node option \<Rightarrow> node" where
  "put_at n [] v = (case v of Some m \<Rightarrow> m | None \<Rightarrow> n)"
| "put_at (Dir a cs) (c # p) v =
     (if p = [] then Dir a (case v of Some m \<Rightarrow> AList.update c m cs | None \<Rightarrow> AList.delete c cs)
      else case map_of cs c of
             None \<Rightarrow> Dir a cs
           | Some n \<Rightarrow> Dir a (AList.update c (put_at n p v) cs))"
| "put_at n (c # p) v = n"

text \<open>
  Name resolution: \<open>cur\<close> is the directory reached, with no link left in it. The result is a path
  without links; its last component may be absent. \<open>follow\<close> says whether a link in the last place
  is followed, \<open>n\<close> how many links may still be.
\<close>

definition link_target :: "path \<Rightarrow> string \<Rightarrow> path" where
  "link_target cur t = (if prefix ''/'' t then [] else cur)"

function walk :: "nat \<Rightarrow> bool \<Rightarrow> node \<Rightarrow> path \<Rightarrow> path \<Rightarrow> io_error_kind + path" where
  "walk n follow r cur rest =
     (case rest of
        [] \<Rightarrow> Inr cur
      | c # cs \<Rightarrow>
          if c = ''..'' then walk n follow r (butlast cur) cs
          else
            (case node_at r (cur @ [c]) of
               None \<Rightarrow> if cs = [] then Inr (cur @ [c]) else Inl NotFound
             | Some (Dir _ _) \<Rightarrow> walk n follow r (cur @ [c]) cs
             | Some (File _ _) \<Rightarrow> if cs = [] then Inr (cur @ [c]) else Inl NotADirectory
             | Some (Symlink t) \<Rightarrow>
                 if cs = [] \<and> \<not> follow then Inr (cur @ [c])
                 else (case n of
                         0 \<Rightarrow> Inl FilesystemLoop
                       | Suc m \<Rightarrow> walk m follow r (link_target cur t) (path_names t @ cs))))"
  by pat_completeness auto
termination
  by (relation "measures [\<lambda>(n, _, _, _, rest). n, \<lambda>(n, _, _, _, rest). length rest]") auto

declare walk.simps [simp del]

definition resolve :: "bool \<Rightarrow> node \<Rightarrow> path \<Rightarrow> io_error_kind + path" where
  "resolve follow r p = walk 40 follow r [] p"

section \<open>Effects\<close>

text \<open>The system calls that a child makes between \<open>fork\<close> and \<open>exec\<close>.\<close>

datatype pre_exec_call = SetGroups "u32 list" | SetGid u32 | SetUid u32

datatype op =
    Mkdir path | OpenWrite path | Write path | Unlink path | Rmdir path | RemoveTree path
  | Rename path path | MakeSymlink path | Chmod path | Chown path | Signal int nat | Locked path | Unlocked path
  | Spawned nat "pre_exec_call list" | Reaped nat

text \<open>The paths an operation changes; a rename also removes its source; a signal, a lock taken or dropped
  and a child started (with the calls it makes before \<open>exec\<close>) or reaped change none.\<close>

fun op_paths :: "op \<Rightarrow> path list" where
  "op_paths (Mkdir p) = [p]"
| "op_paths (OpenWrite p) = [p]"
| "op_paths (Write p) = [p]"
| "op_paths (Unlink p) = [p]"
| "op_paths (Rmdir p) = [p]"
| "op_paths (RemoveTree p) = [p]"
| "op_paths (Rename p q) = [p, q]"
| "op_paths (MakeSymlink p) = [p]"
| "op_paths (Chmod p) = [p]"
| "op_paths (Chown p) = [p]"
| "op_paths (Signal p s) = []"
| "op_paths (Locked p) = []"
| "op_paths (Unlocked p) = []"
| "op_paths (Spawned c d) = []"
| "op_paths (Reaped c) = []"

record world =
  root :: node
  tick :: nat
  fault :: "nat \<Rightarrow> (io_error_kind \<times> nat) option"
  trace :: "op list"
  umask :: u32
  euid :: u32
  egid :: u32
  cwd :: path
  pid :: nat
  nanos :: "nat \<Rightarrow> nat"
  temp_counter :: u64
  slot_counter :: u64
  held_slots :: "path list"
  watchers :: "component list \<rightharpoonup> nat"

text \<open>Path text, taken relative to the working directory.\<close>

definition abs_path :: "world \<Rightarrow> string \<Rightarrow> path" where
  "abs_path w s = (if prefix ''/'' s then [] else cwd w) @ path_names s"

type_synonym ('e, 'a) io = "world \<Rightarrow> ('e + 'a) \<times> world"
type_synonym 'a fs = "(io_error_kind, 'a) io"

definition io_ok :: "'a \<Rightarrow> ('e, 'a) io" where
  "io_ok x w = (Inr x, w)"

definition io_err :: "'e \<Rightarrow> ('e, 'a) io" where
  "io_err e w = (Inl e, w)"

definition io_bind :: "('e, 'a) io \<Rightarrow> ('a \<Rightarrow> ('e, 'b) io) \<Rightarrow> ('e, 'b) io" where
  "io_bind m f w = (case m w of (Inl e, w') \<Rightarrow> (Inl e, w') | (Inr x, w') \<Rightarrow> f x w')"

text \<open>\<open>map_err\<close>, and matching on a result without propagating it.\<close>

definition io_map_err :: "('e \<Rightarrow> 'f) \<Rightarrow> ('e, 'a) io \<Rightarrow> ('f, 'a) io" where
  "io_map_err h m w = (case m w of (Inl e, w') \<Rightarrow> (Inl (h e), w') | (Inr x, w') \<Rightarrow> (Inr x, w'))"

definition io_match :: "('e, 'a) io \<Rightarrow> ('e + 'a \<Rightarrow> ('f, 'b) io) \<Rightarrow> ('f, 'b) io" where
  "io_match m k w = (case m w of (r, w') \<Rightarrow> k r w')"

definition io_of :: "'e + 'a \<Rightarrow> ('e, 'a) io" where
  "io_of r w = (r, w)"

fun io_map :: "('a \<Rightarrow> ('e, 'b) io) \<Rightarrow> 'a list \<Rightarrow> ('e, 'b list) io" where
  "io_map f [] = io_ok []"
| "io_map f (x # xs) = io_bind (f x) (\<lambda>y. io_bind (io_map f xs) (\<lambda>ys. io_ok (y # ys)))"

text \<open>
  One system call: a scheduled fault, or the effect. A fault does not lie about names: it never
  claims that a name is absent or taken.
\<close>

definition fault_error :: "io_error_kind \<Rightarrow> io_error_kind" where
  "fault_error e = (if e = NotFound \<or> e = AlreadyExists then OtherIo else e)"

definition syscall :: "'a fs \<Rightarrow> 'a fs" where
  "syscall f w =
     (let w1 = w\<lparr>tick := Suc (tick w)\<rparr> in
      case fault w (tick w) of Some (e, _) \<Rightarrow> (Inl (fault_error e), w1) | None \<Rightarrow> f w1)"

definition record_op :: "op \<Rightarrow> ('e, 'a) io \<Rightarrow> ('e, 'a) io" where
  "record_op oper f w = f (w\<lparr>trace := trace w @ [oper]\<rparr>)"

section \<open>Queries\<close>

definition stat_node :: "bool \<Rightarrow> path \<Rightarrow> node fs" where
  "stat_node follow p w =
     (case resolve follow (root w) p of
        Inl e \<Rightarrow> (Inl e, w)
      | Inr q \<Rightarrow> (case node_at (root w) q of None \<Rightarrow> (Inl NotFound, w) | Some n \<Rightarrow> (Inr n, w)))"

definition metadata :: "path \<Rightarrow> node fs" where
  "metadata p = syscall (stat_node True p)"

definition symlink_metadata :: "path \<Rightarrow> node fs" where
  "symlink_metadata p = syscall (stat_node False p)"

text \<open>\<open>Path::exists\<close> and \<open>Path::is_dir\<close>: an error counts as false.\<close>

definition path_exists :: "path \<Rightarrow> ('e, bool) io" where
  "path_exists p = io_match (metadata p) (\<lambda>r. io_ok (case r of Inl _ \<Rightarrow> False | Inr _ \<Rightarrow> True))"

definition path_is_dir :: "path \<Rightarrow> ('e, bool) io" where
  "path_is_dir p = io_match (metadata p) (\<lambda>r. io_ok (case r of Inl _ \<Rightarrow> False | Inr n \<Rightarrow> is_dir_node n))"

definition path_is_file :: "path \<Rightarrow> ('e, bool) io" where
  "path_is_file p = io_match (metadata p) (\<lambda>r. io_ok (case r of Inl _ \<Rightarrow> False | Inr n \<Rightarrow> is_file_node n))"

text \<open>
  \<open>File::open\<close>; the handle is the resolved path. Reading it gives the results of the successive
  reads: the contents, or what was read before a fault and the fault.
\<close>

definition open_read :: "path \<Rightarrow> path fs" where
  "open_read p = syscall (\<lambda>w.
     case resolve True (root w) p of
       Inl e \<Rightarrow> (Inl e, w)
     | Inr q \<Rightarrow> (case node_at (root w) q of None \<Rightarrow> (Inl NotFound, w) | Some _ \<Rightarrow> (Inr q, w)))"

definition reads :: "path \<Rightarrow> world \<Rightarrow> (io_error_kind + bytes) list \<times> world" where
  "reads q w =
     (let w1 = w\<lparr>tick := Suc (tick w)\<rparr> in
      case node_at (root w) q of
        Some (File _ bs) \<Rightarrow>
          (case fault w (tick w) of
             Some (e, n) \<Rightarrow> ((if take n bs = [] then [] else [Inr (take n bs)]) @ [Inl e], w1)
           | None \<Rightarrow> ([Inr bs], w1))
      | _ \<Rightarrow> ([Inl IsADirectory], w1))"

definition read_link :: "path \<Rightarrow> string fs" where
  "read_link p = syscall (\<lambda>w.
     case stat_node False p w of
       (Inl e, w') \<Rightarrow> (Inl e, w')
     | (Inr (Symlink t), w') \<Rightarrow> (Inr t, w')
     | (Inr _, w') \<Rightarrow> (Inl InvalidInput, w'))"

text \<open>\<open>fs::read_dir\<close>: the entries present when the directory is opened.\<close>

definition read_dir :: "path \<Rightarrow> (string \<times> node) list fs" where
  "read_dir p = syscall (\<lambda>w.
     case stat_node True p w of
       (Inl e, w') \<Rightarrow> (Inl e, w')
     | (Inr (Dir _ cs), w') \<Rightarrow> (Inr cs, w')
     | (Inr _, w') \<Rightarrow> (Inl NotADirectory, w'))"

text \<open>Fetching the next entry of an open directory can fail.\<close>

definition next_entry :: "(string \<times> node) \<Rightarrow> (string \<times> node) fs" where
  "next_entry e = syscall (io_ok e)"

section \<open>Changes\<close>

definition new_attr :: "world \<Rightarrow> u32 \<Rightarrow> attr" where
  "new_attr w m = \<lparr>mode = and m (not (umask w)), uid = euid w, gid = egid w\<rparr>"

definition set_root :: "path \<Rightarrow> node option \<Rightarrow> world \<Rightarrow> world" where
  "set_root q v w = w\<lparr>root := put_at (root w) q v\<rparr>"

definition mkdir :: "path \<Rightarrow> unit fs" where
  "mkdir p = record_op (Mkdir p) (syscall (\<lambda>w.
     case resolve False (root w) p of
       Inl e \<Rightarrow> (Inl e, w)
     | Inr q \<Rightarrow>
         (case node_at (root w) q of
            Some _ \<Rightarrow> (Inl AlreadyExists, w)
          | None \<Rightarrow> (Inr (), set_root q (Some (Dir (new_attr w 511) [])) w))))"

text \<open>\<open>DirBuilder::create_dir_all\<close>: tries the directory, then its parents, then the directory again.\<close>

function create_dir_all :: "path \<Rightarrow> unit fs" where
  "create_dir_all p =
     (if p = [] then io_ok ()
      else
        io_match (mkdir p) (\<lambda>r.
          case r of
            Inr () \<Rightarrow> io_ok ()
          | Inl NotFound \<Rightarrow>
              io_bind (create_dir_all (butlast p)) (\<lambda>_.
                io_match (mkdir p) (\<lambda>r2.
                  case r2 of
                    Inr () \<Rightarrow> io_ok ()
                  | Inl e \<Rightarrow> io_bind (path_is_dir p) (\<lambda>d. if d then io_ok () else io_err e)))
          | Inl e \<Rightarrow> io_bind (path_is_dir p) (\<lambda>d. if d then io_ok () else io_err e)))"
  by pat_completeness auto
termination
  by (relation "measure length") auto

declare create_dir_all.simps [simp del]

text \<open>
  Opening for writing, creating an absent file with \<open>m\<close> (less the umask) and truncating an existing
  one when \<open>trunc\<close>; the handle is the resolved path. \<open>write_all\<close> on the handle appends.
\<close>

definition open_write :: "bool \<Rightarrow> u32 \<Rightarrow> path \<Rightarrow> path fs" where
  "open_write trunc m p = record_op (OpenWrite p) (syscall (\<lambda>w.
     case resolve True (root w) p of
       Inl e \<Rightarrow> (Inl e, w)
     | Inr q \<Rightarrow>
         (case node_at (root w) q of
            None \<Rightarrow> (Inr q, set_root q (Some (File (new_attr w m) [])) w)
          | Some (File a bs) \<Rightarrow> (Inr q, if trunc then set_root q (Some (File a [])) w else w)
          | Some _ \<Rightarrow> (Inl IsADirectory, w))))"

definition write_all_at :: "path \<Rightarrow> path \<Rightarrow> bytes \<Rightarrow> unit fs" where
  "write_all_at p q bs w =
     (let w1 = w\<lparr>tick := Suc (tick w), trace := trace w @ [Write p]\<rparr> in
      case node_at (root w) q of
        Some (File a old) \<Rightarrow>
          (case fault w (tick w) of
             Some (e, n) \<Rightarrow> (Inl e, set_root q (Some (File a (old @ take n bs))) w1)
           | None \<Rightarrow> (Inr (), set_root q (Some (File a (old @ bs))) w1))
      | _ \<Rightarrow> (Inl InvalidInput, w1))"

text \<open>\<open>OpenOptions::create_new\<close>: refuses anything that already has the name, links included.\<close>

definition open_create_new :: "u32 \<Rightarrow> path \<Rightarrow> path fs" where
  "open_create_new m p = record_op (OpenWrite p) (syscall (\<lambda>w.
     case resolve False (root w) p of
       Inl e \<Rightarrow> (Inl e, w)
     | Inr q \<Rightarrow>
         (case node_at (root w) q of
            Some _ \<Rightarrow> (Inl AlreadyExists, w)
          | None \<Rightarrow>
              (case node_at (root w) (butlast q) of
                 Some (Dir _ _) \<Rightarrow> (Inr q, set_root q (Some (File (new_attr w m) [])) w)
               | _ \<Rightarrow> (Inl NotFound, w)))))"

text \<open>\<open>fs::write\<close>.\<close>

definition write_file_at :: "path \<Rightarrow> bytes \<Rightarrow> unit fs" where
  "write_file_at p bs = io_bind (open_write True 438 p) (\<lambda>q. write_all_at p q bs)"

definition set_mode_at :: "path \<Rightarrow> path \<Rightarrow> u32 \<Rightarrow> unit fs" where
  "set_mode_at p q m = record_op (Chmod p) (syscall (\<lambda>w.
     case node_at (root w) q of
       Some (File a bs) \<Rightarrow> (Inr (), set_root q (Some (File (a\<lparr>mode := m\<rparr>) bs)) w)
     | Some (Dir a cs) \<Rightarrow> (Inr (), set_root q (Some (Dir (a\<lparr>mode := m\<rparr>) cs)) w)
     | _ \<Rightarrow> (Inl NotFound, w)))"

text \<open>\<open>fs::set_permissions\<close> and \<open>chown\<close> follow links.\<close>

definition set_permissions :: "path \<Rightarrow> u32 \<Rightarrow> unit fs" where
  "set_permissions p m w =
     (case resolve True (root w) p of
        Inl e \<Rightarrow> record_op (Chmod p) (syscall (io_err e)) w
      | Inr q \<Rightarrow> set_mode_at p q m w)"

definition chown_at :: "path \<Rightarrow> path \<Rightarrow> u32 \<Rightarrow> u32 \<Rightarrow> unit fs" where
  "chown_at p q u g = record_op (Chown p) (syscall (\<lambda>w.
     case node_at (root w) q of
       Some (File a bs) \<Rightarrow> (Inr (), set_root q (Some (File (a\<lparr>uid := u, gid := g\<rparr>) bs)) w)
     | Some (Dir a cs) \<Rightarrow> (Inr (), set_root q (Some (Dir (a\<lparr>uid := u, gid := g\<rparr>) cs)) w)
     | _ \<Rightarrow> (Inl NotFound, w)))"

fun node_mode :: "node \<Rightarrow> u32" where
  "node_mode (File a _) = mode a"
| "node_mode (Dir a _) = mode a"
| "node_mode (Symlink _) = 511"

fun node_len :: "node \<Rightarrow> nat" where
  "node_len (File _ bs) = length bs"
| "node_len (Dir _ cs) = 4096"
| "node_len (Symlink t) = length t"

text \<open>
  \<open>fs::copy\<close>: the source must be a regular file; the destination is created or truncated, given the
  source's mode through its handle, and then written.
\<close>

definition copy_file :: "path \<Rightarrow> path \<Rightarrow> unit fs" where
  "copy_file src dst =
     io_bind (io_bind (open_read src) (\<lambda>q. \<lambda>w.
       case node_at (root w) q of
         Some (File a _) \<Rightarrow>
           io_bind (open_write True (mode a) dst) (\<lambda>h.
           io_bind (set_mode_at dst h (mode a)) (\<lambda>_. \<lambda>w2.
             case reads q w2 of (rs, w3) \<Rightarrow>
               io_map (\<lambda>r. case r of Inl e \<Rightarrow> io_err e | Inr bs \<Rightarrow> write_all_at dst h bs) rs w3)) w
       | _ \<Rightarrow> (Inl InvalidInput, w))) (\<lambda>_. io_ok ())"

definition remove_file :: "path \<Rightarrow> unit fs" where
  "remove_file p = record_op (Unlink p) (syscall (\<lambda>w.
     case resolve False (root w) p of
       Inl e \<Rightarrow> (Inl e, w)
     | Inr q \<Rightarrow>
         (case node_at (root w) q of
            None \<Rightarrow> (Inl NotFound, w)
          | Some (Dir _ _) \<Rightarrow> (Inl IsADirectory, w)
          | Some _ \<Rightarrow> (Inr (), set_root q None w))))"

definition make_symlink :: "string \<Rightarrow> path \<Rightarrow> unit fs" where
  "make_symlink t p = record_op (MakeSymlink p) (syscall (\<lambda>w.
     case resolve False (root w) p of
       Inl e \<Rightarrow> (Inl e, w)
     | Inr q \<Rightarrow>
         (case node_at (root w) q of
            Some _ \<Rightarrow> (Inl AlreadyExists, w)
          | None \<Rightarrow> (Inr (), set_root q (Some (Symlink t)) w))))"

text \<open>\<open>rename(2)\<close>: a directory replaces only an empty directory, anything else only a non-directory.\<close>

definition rename_check :: "path \<Rightarrow> path \<Rightarrow> node \<Rightarrow> node option \<Rightarrow> io_error_kind option" where
  "rename_check q1 q2 n old =
     (if q1 \<noteq> q2 \<and> prefix q1 q2 then Some InvalidInput
      else case old of
             None \<Rightarrow> None
           | Some (Dir _ cs) \<Rightarrow>
               if \<not> is_dir_node n then Some IsADirectory else if cs \<noteq> [] \<and> q1 \<noteq> q2 then Some DirectoryNotEmpty else None
           | Some _ \<Rightarrow> if is_dir_node n then Some NotADirectory else None)"

definition rename_path :: "path \<Rightarrow> path \<Rightarrow> unit fs" where
  "rename_path p1 p2 = record_op (Rename p1 p2) (syscall (\<lambda>w.
     case resolve False (root w) p1 of
       Inl e \<Rightarrow> (Inl e, w)
     | Inr q1 \<Rightarrow>
         (case node_at (root w) q1 of
            None \<Rightarrow> (Inl NotFound, w)
          | Some n \<Rightarrow>
              (case resolve False (root w) p2 of
                 Inl e \<Rightarrow> (Inl e, w)
               | Inr q2 \<Rightarrow>
                   (case rename_check q1 q2 n (node_at (root w) q2) of
                      Some e \<Rightarrow> (Inl e, w)
                    | None \<Rightarrow>
                        (Inr (), if q1 = q2 then w else set_root q2 (Some n) (set_root q1 None w)))))))"

text \<open>
  \<open>fs::remove_dir_all\<close> on a resolved path: a link is unlinked, a directory is emptied entry by entry
  and removed; a fault stops it with the entries removed so far gone.
\<close>

definition unlink_at :: "path \<Rightarrow> unit fs" where
  "unlink_at q = syscall (\<lambda>w. (Inr (), set_root q None w))"

function (sequential) remove_tree :: "path \<Rightarrow> node \<Rightarrow> unit fs"
  and remove_children :: "path \<Rightarrow> (string \<times> node) list \<Rightarrow> unit fs" where
  "remove_tree q (Dir a cs) = io_bind (remove_children q cs) (\<lambda>_. unlink_at q)"
| "remove_tree q n = unlink_at q"
| "remove_children q [] = io_ok ()"
| "remove_children q ((c, n) # cs) = io_bind (remove_tree (q @ [c]) n) (\<lambda>_. remove_children q cs)"
  by pat_completeness auto
termination
  by (relation "measure (\<lambda>x. case x of Inl (_, n) \<Rightarrow> 2 * size n
      | Inr (_, cs) \<Rightarrow> Suc (2 * size_list (size_prod (\<lambda>_. 0) size) cs))") auto

definition remove_dir_all :: "path \<Rightarrow> unit fs" where
  "remove_dir_all p = record_op (RemoveTree p)
     (io_bind (syscall (\<lambda>w.
        case resolve False (root w) p of
          Inl e \<Rightarrow> (Inl e, w)
        | Inr q \<Rightarrow> (case node_at (root w) q of None \<Rightarrow> (Inl NotFound, w) | Some n \<Rightarrow> (Inr (q, n), w))))
      (\<lambda>(q, n). if is_file_node n then io_err NotADirectory else remove_tree q n))"

section \<open>Laws of the tree\<close>

lemma node_at_append:
  "node_at r (p @ q) = Option.bind (node_at r p) (\<lambda>n. node_at n q)"
  by (induction r p rule: node_at.induct) (auto split: option.splits)

lemma node_at_put_same:
  assumes "p = [] \<or> (\<exists>a cs. node_at r (butlast p) = Some (Dir a cs))"
  shows "node_at (put_at r p (Some m)) p = Some m"
  using assms
proof (induction r p "Some m" rule: put_at.induct)
  case (2 a cs c p)
  then show ?case by (cases "p = []") (auto simp: update_conv' split: option.splits)
qed (auto split: if_splits)

lemma node_at_put_gone:
  "p \<noteq> [] \<Longrightarrow> node_at (put_at r p None) p = None"
proof (induction r p "None :: node option" rule: put_at.induct)
  case (2 a cs c p)
  then show ?case by (cases "p = []") (auto simp: update_conv' delete_conv' split: option.splits)
qed auto

lemma node_at_put_other:
  "\<not> prefix p q \<Longrightarrow> \<not> prefix q p \<Longrightarrow> node_at (put_at r p v) q = node_at r q"
proof (induction r p v arbitrary: q rule: put_at.induct)
  case (2 a cs c p v)
  obtain d q' where q: "q = d # q'" using "2.prems" by (cases q) auto
  show ?case
  proof (cases "p = []")
    case True
    then show ?thesis using "2.prems" by (auto simp: q update_conv' delete_conv' split: option.splits)
  next
    case False
    then show ?thesis using "2.prems" "2.IH" by (auto simp: q update_conv' split: option.splits)
  qed
qed auto

text \<open>Above the changed path only the entries of directories change.\<close>

fun same_shape :: "node option \<Rightarrow> node option \<Rightarrow> bool" where
  "same_shape (Some (Dir a _)) (Some (Dir b _)) = (a = b)"
| "same_shape x y = (x = y)"

lemma same_shape_refl [simp]: "same_shape x x"
  by (cases "(x, x)" rule: same_shape.cases) auto

lemma node_at_put_above:
  "strict_prefix q p \<Longrightarrow> same_shape (node_at r q) (node_at (put_at r p v) q)"
proof (induction r p v arbitrary: q rule: put_at.induct)
  case (2 a cs c p v)
  show ?case
  proof (cases q)
    case (Cons d q')
    then have "p \<noteq> []" "strict_prefix q' p" "d = c" using "2.prems" by auto
    then show ?thesis using "2.IH" Cons by (auto simp: update_conv' split: option.splits)
  qed (auto split: option.splits)
qed auto

section \<open>Laws of name resolution\<close>

lemma walk_Nil [simp]: "walk n follow r cur [] = Inr cur"
  by (simp add: walk.simps)

lemmas walk_Cons = walk.simps [of _ _ _ _ "c # cs" for c cs, simplified list.case]

text \<open>A resolved path lies in a directory.\<close>

lemma node_at_non_dir: "node_at n (c # p) = Some m \<Longrightarrow> \<exists>a cs. n = Dir a cs"
  by (cases n) auto

lemma node_at_butlast_dir: "node_at r p = Some n \<Longrightarrow> r = Dir a cs \<Longrightarrow> \<exists>b ds. node_at r (butlast p) = Some (Dir b ds)"
  by (cases p rule: rev_cases) (auto simp: node_at_append bind_eq_Some_conv dest: node_at_non_dir)

lemma walk_parent:
  "walk n follow (Dir a0 c0) cur rest = Inr q \<Longrightarrow> node_at (Dir a0 c0) cur = Some (Dir a cs) \<Longrightarrow>
   \<exists>a cs. node_at (Dir a0 c0) (butlast q) = Some (Dir a cs)"
proof (induction n follow "Dir a0 c0" cur rest arbitrary: a cs rule: walk.induct)
  case (1 n follow cur rest)
  show ?case
  proof (cases rest)
    case Nil
    then show ?thesis using "1.prems" node_at_butlast_dir [OF "1.prems"(2)] by auto
  next
    case (Cons c ds)
    note w = "1.prems"(1) [unfolded Cons walk_Cons]
    show ?thesis
    proof (cases "c = ''..''")
      case True
      with w have "walk n follow (Dir a0 c0) (butlast cur) ds = Inr q" by simp
      then show ?thesis using "1.hyps"(1) [OF Cons True] node_at_butlast_dir [OF "1.prems"(2) refl] by blast
    next
      case False
      note hyps = "1.hyps"(2) [OF Cons False] "1.hyps"(3) [OF Cons False]
      show ?thesis
      proof (cases "node_at (Dir a0 c0) (cur @ [c])")
        case None
        then show ?thesis using w "1.prems"(2) False by (auto split: if_splits)
      next
        case (Some x)
        then show ?thesis using w "1.prems"(2) False hyps [OF Some]
          by (cases x) (auto simp: link_target_def split: if_splits nat.splits)
      qed
    qed
  qed
qed

definition dir_root :: "world \<Rightarrow> bool" where
  "dir_root w \<longleftrightarrow> is_dir_node (root w)"

lemma resolve_parent:
  "dir_root w \<Longrightarrow> resolve follow (root w) p = Inr q \<Longrightarrow> \<exists>a cs. node_at (root w) (butlast q) = Some (Dir a cs)"
  using walk_parent [of 40 follow _ _ "[]" p q]
  by (cases "root w") (auto simp: resolve_def dir_root_def)

text \<open>
  An absent name and a regular file are alike to name resolution: both end it. Two trees with the
  same directories and links therefore resolve every name to the same place.
\<close>

fun is_leaf :: "node option \<Rightarrow> bool" where
  "is_leaf None = True"
| "is_leaf (Some n) = is_file_node n"

definition keeps_names :: "node \<Rightarrow> node \<Rightarrow> bool" where
  "keeps_names r r' \<longleftrightarrow> (\<forall>x.
     case node_at r x of
       Some (Dir _ _) \<Rightarrow> (\<exists>a cs. node_at r' x = Some (Dir a cs))
     | Some (Symlink t) \<Rightarrow> node_at r' x = Some (Symlink t)
     | _ \<Rightarrow> is_leaf (node_at r' x))"

lemma is_leaf_cases: "is_leaf v \<Longrightarrow> v = None \<or> (\<exists>a bs. v = Some (File a bs))"
  by (cases v) (auto elim!: is_file_node.elims)

lemma keeps_namesD:
  assumes "keeps_names r r'"
  shows "is_leaf (node_at r x) \<Longrightarrow> is_leaf (node_at r' x)"
    and "node_at r x = Some (Dir a cs) \<Longrightarrow> \<exists>a cs. node_at r' x = Some (Dir a cs)"
    and "node_at r x = Some (Symlink t) \<Longrightarrow> node_at r' x = Some (Symlink t)"
  using spec [OF assms [unfolded keeps_names_def], of x]
  by (auto split: option.splits node.splits)

lemma walk_keeps_names:
  "keeps_names r r' \<Longrightarrow> walk n follow r cur rest = Inr s \<Longrightarrow> walk n follow r' cur rest = Inr s"
proof (induction n follow r cur rest rule: walk.induct)
  case (1 n follow r cur rest)
  note k = keeps_namesD [OF "1.prems"(1)]
  show ?case
  proof (cases rest)
    case (Cons c ds)
    note w = "1.prems"(2) [unfolded Cons walk_Cons]
    show ?thesis
    proof (cases "c = ''..''")
      case True
      then show ?thesis using w "1.IH"(1) [OF Cons True "1.prems"(1)] by (simp add: Cons walk_Cons)
    next
      case False
      note IH = "1.IH"(2) [OF Cons False] "1.IH"(3) [OF Cons False]
      have leaf: ?thesis if l: "is_leaf (node_at r (cur @ [c]))"
        using w False is_leaf_cases [OF l] is_leaf_cases [OF k(1) [OF l]]
        by (auto simp: Cons walk_Cons split: if_splits)
      show ?thesis
      proof (cases "node_at r (cur @ [c])")
        case None
        then show ?thesis using leaf by simp
      next
        case (Some x)
        show ?thesis
        proof (cases x)
          case (File a bs)
          then show ?thesis using leaf Some by simp
        next
          case (Dir a cs)
          then show ?thesis using w False Some k(2) [of "cur @ [c]" a cs] IH(1) [OF Some Dir "1.prems"(1)]
            by (auto simp: Cons walk_Cons)
        next
          case (Symlink t)
          then show ?thesis using w False Some k(3) [of "cur @ [c]" t] IH(2) [OF Some Symlink _ _ "1.prems"(1)]
            by (auto simp: Cons walk_Cons split: if_splits nat.splits)
        qed
      qed
    qed
  qed (use "1.prems" in auto)
qed

lemma resolve_keeps_names: "keeps_names r r' \<Longrightarrow> resolve follow r p = Inr q \<Longrightarrow> resolve follow r' p = Inr q"
  unfolding resolve_def by (rule walk_keeps_names)

lemma keeps_names_trans:
  assumes "keeps_names r s" and "keeps_names s t"
  shows "keeps_names r t"
proof -
  note d = keeps_namesD [OF assms(1)] keeps_namesD [OF assms(2)]
  have "is_leaf (node_at r x) \<Longrightarrow> is_leaf (node_at t x)" for x using d(1,4) by blast
  then show ?thesis unfolding keeps_names_def
    using d(2,3,5,6) by (fastforce split: option.splits node.splits)
qed

lemma keeps_names_sym:
  assumes "keeps_names r r'"
  shows "keeps_names r' r"
proof -
  note d = keeps_namesD [OF assms]
  have "case node_at r' x of
       Some (Dir _ _) \<Rightarrow> (\<exists>a cs. node_at r x = Some (Dir a cs))
     | Some (Symlink t) \<Rightarrow> node_at r x = Some (Symlink t)
     | _ \<Rightarrow> is_leaf (node_at r x)" for x
  proof (cases "is_leaf (node_at r x)")
    case True
    then show ?thesis using is_leaf_cases [OF d(1) [OF True]] by auto
  next
    case False
    then obtain n where "node_at r x = Some n" "\<not> is_file_node n" by (cases "node_at r x") auto
    then show ?thesis using d(2,3) [of x] by (cases n) auto
  qed
  then show ?thesis unfolding keeps_names_def by blast
qed

text \<open>
  One tree within another: what the first has, the second has too. A name that leads to something in the
  first then leads to the same place in the second.
\<close>

fun same_kind :: "node \<Rightarrow> node \<Rightarrow> bool" where
  "same_kind (File _ _) (File _ _) = True"
| "same_kind (Dir _ _) (Dir _ _) = True"
| "same_kind (Symlink s) (Symlink t) = (s = t)"
| "same_kind _ _ = False"

lemma same_kind_refl [simp]: "same_kind n n"
  by (cases n) auto

lemma same_kind_trans: "same_kind n m \<Longrightarrow> same_kind m k \<Longrightarrow> same_kind n k"
  by (cases n; cases m; cases k) auto

definition within :: "node \<Rightarrow> node \<Rightarrow> bool" where
  "within r r' \<longleftrightarrow> (\<forall>x n. node_at r x = Some n \<longrightarrow> (\<exists>m. node_at r' x = Some m \<and> same_kind n m))"

lemma withinD: "within r r' \<Longrightarrow> node_at r x = Some n \<Longrightarrow> \<exists>m. node_at r' x = Some m \<and> same_kind n m"
  unfolding within_def by blast

lemma within_refl [simp]: "within r r"
  by (simp add: within_def)

lemma within_trans: "within r s \<Longrightarrow> within s t \<Longrightarrow> within r t"
  unfolding within_def by (meson same_kind_trans)

lemma walk_within:
  "within r r' \<Longrightarrow> walk n follow r cur rest = Inr s \<Longrightarrow> node_at r s \<noteq> None \<Longrightarrow> walk n follow r' cur rest = Inr s"
proof (induction n follow r cur rest rule: walk.induct)
  case (1 n follow r cur rest)
  show ?case
  proof (cases rest)
    case (Cons c ds)
    note w = "1.prems"(2) [unfolded Cons walk_Cons]
    show ?thesis
    proof (cases "c = ''..''")
      case True
      then show ?thesis using w "1.IH"(1) [OF Cons True "1.prems"(1)] "1.prems"(3) by (simp add: Cons walk_Cons)
    next
      case False
      note IH = "1.IH"(2) [OF Cons False] "1.IH"(3) [OF Cons False]
      show ?thesis
      proof (cases "node_at r (cur @ [c])")
        case None
        then show ?thesis using w False "1.prems"(3) by (auto split: if_splits)
      next
        case (Some x)
        from withinD [OF "1.prems"(1) Some] obtain m where m: "node_at r' (cur @ [c]) = Some m" "same_kind x m" by blast
        show ?thesis
        proof (cases x)
          case (File a bs)
          then show ?thesis using w False Some m by (cases m) (auto simp: Cons walk_Cons split: if_splits)
        next
          case (Dir a cs)
          then show ?thesis using w False Some m IH(1) [OF Some Dir "1.prems"(1) _ "1.prems"(3)]
            by (cases m) (auto simp: Cons walk_Cons)
        next
          case (Symlink t)
          then show ?thesis using w False Some m IH(2) [OF Some Symlink _ _ "1.prems"(1) _ "1.prems"(3)]
            by (cases m) (auto simp: Cons walk_Cons split: if_splits nat.splits)
        qed
      qed
    qed
  qed (use "1.prems" in auto)
qed

lemma resolve_within:
  "within r r' \<Longrightarrow> resolve follow r p = Inr s \<Longrightarrow> node_at r s \<noteq> None \<Longrightarrow> resolve follow r' p = Inr s"
  unfolding resolve_def by (rule walk_within)

lemma same_shape_kind: "same_shape x (Some n) \<Longrightarrow> \<exists>m. x = Some m \<and> same_kind n m"
  by (cases n; cases "(x, Some n)" rule: same_shape.cases) auto

lemma within_removed: "within (put_at r q None) r"
proof (cases "q = []")
  case False
  show ?thesis unfolding within_def
  proof (intro allI impI)
    fix x n assume n: "node_at (put_at r q None) x = Some n"
    have "\<not> prefix q x"
      using n node_at_put_gone [OF False, of r] by (auto simp: prefix_def node_at_append)
    then consider "strict_prefix x q" | "\<not> prefix q x \<and> \<not> prefix x q" by (auto simp: strict_prefix_def)
    then show "\<exists>m. node_at r x = Some m \<and> same_kind n m"
    proof cases
      case 1
      then show ?thesis using node_at_put_above [OF 1, of r None] n same_shape_kind by metis
    next
      case 2
      then show ?thesis using node_at_put_other [of q x r None] n same_kind_refl by metis
    qed
  qed
qed simp

text \<open>A name that stands for a link, which the root never is.\<close>

definition names_link :: "node \<Rightarrow> path \<Rightarrow> bool" where
  "names_link r p \<longleftrightarrow> (\<exists>q t. resolve False r p = Inr q \<and> q \<noteq> [] \<and> node_at r q = Some (Symlink t))"

lemma names_link_keeps: "keeps_names r r' \<Longrightarrow> names_link r' p \<Longrightarrow> names_link r p"
  unfolding names_link_def by (meson keeps_namesD(3) keeps_names_sym resolve_keeps_names)

lemma names_link_within:
  assumes "within r' r" and "names_link r' p"
  shows "\<exists>q t. resolve False r p = Inr q \<and> q \<noteq> [] \<and> node_at r q = Some (Symlink t) \<and> node_at r' q = Some (Symlink t)"
proof -
  from assms(2) obtain q t where q: "resolve False r' p = Inr q" "node_at r' q = Some (Symlink t)" "q \<noteq> []" unfolding names_link_def by blast
  from withinD [OF assms(1) q(2)] obtain m where "node_at r q = Some m" "same_kind (Symlink t) m" by blast
  then show ?thesis using resolve_within [OF assms(1) q(1)] q(2,3) by (cases m) auto
qed

text \<open>Writing or removing a regular file changes no resolution.\<close>

lemma is_leaf_below: "is_leaf (node_at r q) \<Longrightarrow> node_at r (q @ y # ys) = None"
  by (auto simp: node_at_append dest!: is_leaf_cases)

lemma keeps_names_put_leaf:
  assumes "q \<noteq> []" and "is_leaf (node_at r q)" and "is_leaf v" and "is_leaf (node_at (put_at r q v) q)"
  shows "keeps_names r (put_at r q v)"
proof -
  let ?r = "put_at r q v"
  have "case node_at r x of
       Some (Dir _ _) \<Rightarrow> (\<exists>a cs. node_at ?r x = Some (Dir a cs))
     | Some (Symlink t) \<Rightarrow> node_at ?r x = Some (Symlink t)
     | _ \<Rightarrow> is_leaf (node_at ?r x)" for x
  proof -
    consider "x = q" | "strict_prefix x q" | "strict_prefix q x" | "\<not> prefix q x \<and> \<not> prefix x q"
      by (auto simp: strict_prefix_def)
    then show ?thesis
    proof cases
      case 1
      then show ?thesis using assms is_leaf_cases [OF assms(2)] by (auto split: option.splits node.splits)
    next
      case 2
      then show ?thesis using node_at_put_above [OF 2, of r v]
        by (cases "(node_at r x, node_at ?r x)" rule: same_shape.cases) (auto split: option.splits node.splits)
    next
      case 3
      then obtain y ys where x: "x = q @ y # ys" by (auto elim!: strict_prefixE')
      then show ?thesis using is_leaf_below [OF assms(2)] is_leaf_below [OF assms(4)] by simp
    next
      case 4
      then show ?thesis using node_at_put_other [of q x] by (auto split: option.splits node.splits)
    qed
  qed
  then show ?thesis unfolding keeps_names_def by blast
qed

lemma keeps_names_put_file:
  assumes "q \<noteq> []" and "\<exists>a cs. node_at r (butlast q) = Some (Dir a cs)" and "is_leaf (node_at r q)"
  shows "keeps_names r (put_at r q (Some (File a bs)))"
  using assms node_at_put_same [of q r "File a bs"] by (intro keeps_names_put_leaf) auto

lemma keeps_names_remove_file:
  assumes "q \<noteq> []" and "is_leaf (node_at r q)"
  shows "keeps_names r (put_at r q None)"
  using assms node_at_put_gone [of q r] by (intro keeps_names_put_leaf) auto

lemma node_at_parent_dir: "q \<noteq> [] \<Longrightarrow> node_at r q = Some n \<Longrightarrow> \<exists>a cs. node_at r (butlast q) = Some (Dir a cs)"
  by (cases q rule: rev_cases) (auto simp: node_at_append bind_eq_Some_conv dest: node_at_non_dir)

text \<open>A fresh file is what its name stands for; a renamed file is where the new name led.\<close>

lemma open_create_new_ok:
  assumes "open_create_new m p w = (Inr q, w')"
  shows "q \<noteq> [] \<and> resolve False (root w') p = Inr q \<and> (\<exists>a. node_at (root w') q = Some (File a [])) \<and> keeps_names (root w) (root w')"
proof -
  obtain a b cs where q: "resolve False (root w) p = Inr q" "node_at (root w) q = None"
      "node_at (root w) (butlast q) = Some (Dir b cs)" and r: "root w' = put_at (root w) q (Some (File a []))"
    using assms
    by (auto simp: open_create_new_def record_op_def syscall_def Let_def set_root_def
        split: option.splits sum.splits node.splits)
  have "q \<noteq> []" using q(2) by (cases q) auto
  moreover from this q have k: "keeps_names (root w) (root w')"
    unfolding r by (intro keeps_names_put_file) auto
  then have "resolve False (root w') p = Inr q" using q(1) by (rule resolve_keeps_names)
  moreover have "node_at (root w') q = Some (File a [])"
    unfolding r using q(3) by (intro node_at_put_same) blast
  ultimately show ?thesis using k by blast
qed

lemma rename_file_tree:
  assumes "rename_path p1 p2 w = (Inr (), w')"
    and q1: "resolve False (root w) p1 = Inr q1" and n: "node_at (root w) q1 = Some (File a bs)"
  obtains q2 where "resolve False (root w) p2 = Inr q2" and "q1 = q2" "root w' = root w"
  | q2 b cs where "resolve False (root w) p2 = Inr q2" and "q1 \<noteq> []" and "\<And>b cs. node_at (root w) q2 \<noteq> Some (Dir b cs)"
      and "node_at (put_at (root w) q1 None) (butlast q2) = Some (Dir b cs)"
      and "root w' = put_at (put_at (root w) q1 None) q2 (Some (File a bs))"
proof -
  obtain q2 where q2: "resolve False (root w) p2 = Inr q2"
    and check: "rename_check q1 q2 (File a bs) (node_at (root w) q2) = None"
    and r: "root w' = (if q1 = q2 then root w else put_at (put_at (root w) q1 None) q2 (Some (File a bs)))"
    using assms
    by (auto simp: rename_path_def record_op_def syscall_def Let_def set_root_def
        split: option.splits sum.splits if_splits)
  show ?thesis
  proof (cases "q1 = q2")
    case True
    then show ?thesis using that(1) q2 r by simp
  next
    case False
    then have np: "\<not> prefix q1 q2" and nd: "node_at (root w) q2 \<noteq> Some (Dir b cs)" for b cs
      using check by (auto simp: rename_check_def split: if_splits)
    then have ne: "q1 \<noteq> []" by auto
    then have "dir_root w" using n by (cases "root w"; cases q1) (auto simp: dir_root_def)
    then obtain b cs where d: "node_at (root w) (butlast q2) = Some (Dir b cs)"
      using resolve_parent [OF _ q2] by blast
    have nb: "\<not> prefix q1 (butlast q2)" using np prefixeq_butlast prefix_order.trans by blast
    have "\<exists>b cs. node_at (put_at (root w) q1 None) (butlast q2) = Some (Dir b cs)"
    proof (cases "prefix (butlast q2) q1")
      case True
      then have "strict_prefix (butlast q2) q1" using nb by (auto simp: strict_prefix_def)
      from node_at_put_above [OF this, of "root w" None] d show ?thesis
        by (cases "node_at (put_at (root w) q1 None) (butlast q2)" rule: option.exhaust)
          (auto elim!: same_shape.elims)
    next
      case False
      then show ?thesis using node_at_put_other [OF nb] d by simp
    qed
    then show ?thesis using that(2) [OF q2 ne nd] r False by auto
  qed
qed

lemma rename_file_ok:
  assumes "rename_path p1 p2 w = (Inr (), w')"
    and "resolve False (root w) p1 = Inr q1" and "node_at (root w) q1 = Some (File a bs)"
  shows "\<exists>q2. resolve False (root w) p2 = Inr q2 \<and> node_at (root w') q2 = Some (File a bs)"
  using assms by (cases rule: rename_file_tree) (use assms(3) in \<open>auto simp: node_at_put_same\<close>)

lemma rename_over_no_link:
  assumes "rename_path p1 p2 w = (Inr (), w')"
    and "resolve False (root w) p1 = Inr q1" and "node_at (root w) q1 = Some (File a bs)" and "\<not> names_link (root w) p2"
  shows "\<exists>q2. resolve False (root w') p2 = Inr q2 \<and> node_at (root w') q2 = Some (File a bs)"
  using assms(1-3)
proof (cases rule: rename_file_tree)
  case (1 q2)
  then show ?thesis using assms(3) by auto
next
  case (2 q2 b cs)
  have dir: "is_dir_node (root w)" using assms(3) 2(2) by (cases q1; cases "root w") auto
  then have ne: "q2 \<noteq> []" using 2(3) by (cases "root w") fastforce+
  have leaf: "is_leaf (node_at (root w) q2)"
  proof (cases "node_at (root w) q2")
    case (Some n)
    then show ?thesis using assms(4) 2(1,3) ne unfolding names_link_def by (cases n) auto
  qed simp
  have k1: "keeps_names (root w) (put_at (root w) q1 None)"
    using 2(2) assms(3) by (intro keeps_names_remove_file) auto
  moreover have "keeps_names (put_at (root w) q1 None) (root w')"
    unfolding 2(5) using ne 2(4) keeps_namesD(1) [OF k1 leaf] by (intro keeps_names_put_file) auto
  ultimately have "resolve False (root w') p2 = Inr q2"
    using 2(1) keeps_names_trans resolve_keeps_names by blast
  then show ?thesis unfolding 2(5) using 2(4) by (auto simp: node_at_put_same)
qed

section \<open>Which operations a computation issues\<close>

text \<open>Every tree-changing call a computation issues, successful or not, satisfies \<open>P\<close>.\<close>

definition issues :: "(op \<Rightarrow> bool) \<Rightarrow> ('e, 'a) io \<Rightarrow> bool" where
  "issues P m \<longleftrightarrow> (\<forall>w. \<exists>ops. trace (snd (m w)) = trace w @ ops \<and> list_all P ops)"

lemma issuesD: "issues P m \<Longrightarrow> m w = (r, w') \<Longrightarrow> \<exists>ops. trace w' = trace w @ ops \<and> list_all P ops"
  unfolding issues_def by (metis snd_conv)

lemma quiet_trace: "issues (\<lambda>_. False) m \<Longrightarrow> trace (snd (m w)) = trace w"
  unfolding issues_def by (metis append_Nil2 list.pred_inject(2) neq_Nil_conv)

lemma issuesI: "(\<And>w r w'. m w = (r, w') \<Longrightarrow> \<exists>ops. trace w' = trace w @ ops \<and> list_all P ops) \<Longrightarrow> issues P m"
  unfolding issues_def by (metis prod.collapse)

lemma issues_mono: "issues P m \<Longrightarrow> (\<And>x. P x \<Longrightarrow> Q x) \<Longrightarrow> issues Q m"
  unfolding issues_def by (metis (mono_tags, lifting) list.pred_mono_strong)

lemma issues_ok [issue_rules]: "issues P (io_ok x)"
  by (auto simp: issues_def io_ok_def)

lemma issues_err [issue_rules]: "issues P (io_err x)"
  by (auto simp: issues_def io_err_def)

lemma issues_of [issue_rules]: "issues P (io_of x)"
  by (auto simp: issues_def io_of_def)

lemma issues_seq:
  assumes "issues P m" and "\<And>r. issues P (k r)"
  shows "issues P (\<lambda>w. case m w of (r, w') \<Rightarrow> k r w')"
proof (rule issuesI)
  fix w s w''
  assume a: "(case m w of (r, w') \<Rightarrow> k r w') = (s, w'')"
  obtain r w' where m: "m w = (r, w')" by fastforce
  obtain o1 where "trace w' = trace w @ o1" "list_all P o1" using issuesD [OF assms(1) m] by blast
  moreover obtain o2 where "trace w'' = trace w' @ o2" "list_all P o2"
    using issuesD [OF assms(2)] a m by fastforce
  ultimately show "\<exists>ops. trace w'' = trace w @ ops \<and> list_all P ops" by (intro exI [of _ "o1 @ o2"]) simp
qed

lemma issues_match [issue_rules]: "issues P m \<Longrightarrow> (\<And>r. issues P (k r)) \<Longrightarrow> issues P (io_match m k)"
  using issues_seq [of P m k] by (simp add: io_match_def [abs_def])

lemma issues_bind [issue_rules]: "issues P m \<Longrightarrow> (\<And>x. issues P (f x)) \<Longrightarrow> issues P (io_bind m f)"
proof -
  assume "issues P m" "\<And>x. issues P (f x)"
  then have "issues P (io_match m (\<lambda>r. case r of Inl e \<Rightarrow> io_err e | Inr x \<Rightarrow> f x))"
    by (intro issues_match) (auto split: sum.splits intro: issue_rules)
  moreover have "io_match m (\<lambda>r. case r of Inl e \<Rightarrow> io_err e | Inr x \<Rightarrow> f x) = io_bind m f"
    by (auto simp: fun_eq_iff io_match_def io_bind_def io_err_def split: prod.splits sum.splits)
  ultimately show ?thesis by simp
qed

text \<open>When what follows depends on the value a step returned.\<close>

lemma issues_bind_val:
  assumes "issues P m" and "\<And>w x w'. m w = (Inr x, w') \<Longrightarrow> issues P (f x)"
  shows "issues P (io_bind m f)"
proof -
  define g where "g x = (if issues P (f x) then f x else io_err undefined)" for x
  have "issues P (io_bind m g)" using assms(1) by (intro issues_bind) (auto simp: g_def intro: issue_rules)
  moreover have "io_bind m g = io_bind m f"
    using assms(2) by (fastforce simp: fun_eq_iff io_bind_def g_def split: prod.splits sum.splits)
  ultimately show ?thesis by simp
qed

lemma issues_match_val:
  assumes "issues P m" and "\<And>w r w'. m w = (r, w') \<Longrightarrow> issues P (k r)"
  shows "issues P (io_match m k)"
proof -
  define g where "g r = (if issues P (k r) then k r else io_err undefined)" for r
  have "issues P (io_match m g)" using assms(1) by (intro issues_match) (auto simp: g_def intro: issue_rules)
  moreover have "io_match m g = io_match m k"
    using assms(2) by (fastforce simp: fun_eq_iff io_match_def g_def split: prod.splits)
  ultimately show ?thesis by simp
qed

lemma issues_map_err [issue_rules]: "issues P m \<Longrightarrow> issues P (io_map_err h m)"
proof -
  assume "issues P m"
  then have "issues P (io_match m (\<lambda>r. io_of (case r of Inl e \<Rightarrow> Inl (h e) | Inr x \<Rightarrow> Inr x)))"
    by (intro issue_rules)
  moreover have "io_match m (\<lambda>r. io_of (case r of Inl e \<Rightarrow> Inl (h e) | Inr x \<Rightarrow> Inr x)) = io_map_err h m"
    by (auto simp: fun_eq_iff io_match_def io_map_err_def io_of_def split: prod.splits sum.splits)
  ultimately show ?thesis by simp
qed

lemma issues_map [issue_rules]: "(\<And>x. issues P (f x)) \<Longrightarrow> issues P (io_map f xs)"
  by (induction xs) (auto intro!: issue_rules)

lemma issues_if [issue_rules]: "(b \<Longrightarrow> issues P m) \<Longrightarrow> (\<not> b \<Longrightarrow> issues P k) \<Longrightarrow> issues P (if b then m else k)"
  by simp

lemma issues_sum [issue_rules]:
  "(\<And>x. r = Inl x \<Longrightarrow> issues P (f x)) \<Longrightarrow> (\<And>x. r = Inr x \<Longrightarrow> issues P (g x)) \<Longrightarrow>
   issues P (case r of Inl x \<Rightarrow> f x | Inr x \<Rightarrow> g x)"
  by (cases r) auto

lemma issues_option [issue_rules]:
  "(r = None \<Longrightarrow> issues P f) \<Longrightarrow> (\<And>x. r = Some x \<Longrightarrow> issues P (g x)) \<Longrightarrow>
   issues P (case r of None \<Rightarrow> f | Some x \<Rightarrow> g x)"
  by (cases r) auto

text \<open>Calls that change nothing, and the calls that record themselves.\<close>

lemma issues_syscall [issue_rules]:
  assumes "\<And>w. trace (snd (f w)) = trace w"
  shows "issues P (syscall f)"
  using assms by (auto simp: issues_def syscall_def Let_def split: option.splits)

lemma trace_stat_node [simp]: "trace (snd (stat_node follow p w)) = trace w"
  by (auto simp: stat_node_def split: sum.splits option.splits)

lemma issues_record [issue_rules]:
  assumes "P oper" and "issues P f"
  shows "issues P (record_op oper f)"
proof (rule issuesI)
  fix w r w'
  assume "record_op oper f w = (r, w')"
  then obtain ops where "trace w' = (trace w @ [oper]) @ ops" "list_all P ops"
    using issuesD [OF assms(2)] by (fastforce simp: record_op_def)
  then show "\<exists>ops. trace w' = trace w @ ops \<and> list_all P ops"
    using assms(1) by (intro exI [of _ "oper # ops"]) simp
qed

lemma trace_set_root [simp]: "trace (set_root q v w) = trace w"
  by (simp add: set_root_def)

lemma issues_metadata [issue_rules]: "issues P (metadata p)"
  and issues_symlink_metadata [issue_rules]: "issues P (symlink_metadata p)"
  and issues_open_read [issue_rules]: "issues P (open_read p)"
  and issues_read_link [issue_rules]: "issues P (read_link p)"
  and issues_read_dir [issue_rules]: "issues P (read_dir p)"
  and issues_next_entry [issue_rules]: "issues P (next_entry e)"
  unfolding metadata_def symlink_metadata_def open_read_def read_link_def read_dir_def next_entry_def
  by (rule issues_syscall; auto simp: stat_node_def io_ok_def split: sum.splits option.splits node.splits)+

lemma issues_path_exists [issue_rules]: "issues P (path_exists p)"
  and issues_path_is_dir [issue_rules]: "issues P (path_is_dir p)"
  and issues_path_is_file [issue_rules]: "issues P (path_is_file p)"
  unfolding path_exists_def path_is_dir_def path_is_file_def by (intro issue_rules)+

lemma issues_mkdir [issue_rules]: "P (Mkdir p) \<Longrightarrow> issues P (mkdir p)"
  and issues_open_write [issue_rules]: "P (OpenWrite p) \<Longrightarrow> issues P (open_write t m p)"
  and issues_open_create_new [issue_rules]: "P (OpenWrite p) \<Longrightarrow> issues P (open_create_new m p)"
  and issues_set_mode_at [issue_rules]: "P (Chmod p) \<Longrightarrow> issues P (set_mode_at p q m)"
  and issues_chown_at [issue_rules]: "P (Chown p) \<Longrightarrow> issues P (chown_at p q u g)"
  and issues_remove_file [issue_rules]: "P (Unlink p) \<Longrightarrow> issues P (remove_file p)"
  and issues_make_symlink [issue_rules]: "P (MakeSymlink p) \<Longrightarrow> issues P (make_symlink l p)"
  and issues_rename_path [issue_rules]: "P (Rename p p2) \<Longrightarrow> issues P (rename_path p p2)"
  unfolding mkdir_def open_write_def open_create_new_def set_mode_at_def chown_at_def remove_file_def make_symlink_def rename_path_def
  by (rule issues_record, assumption, rule issues_syscall,
      simp split: sum.splits option.splits node.splits)+

lemma issues_write_all_at [issue_rules]: "P (Write p) \<Longrightarrow> issues P (write_all_at p q bs)"
  by (auto simp: issues_def write_all_at_def Let_def split: option.splits node.splits)

lemma issues_write_file_at [issue_rules]:
  "P (OpenWrite p) \<Longrightarrow> P (Write p) \<Longrightarrow> issues P (write_file_at p bs)"
  unfolding write_file_at_def by (intro issue_rules)

lemma issues_set_permissions [issue_rules]:
  assumes "P (Chmod p)"
  shows "issues P (set_permissions p m)"
proof (rule issuesI)
  fix w r w'
  assume a: "set_permissions p m w = (r, w')"
  show "\<exists>ops. trace w' = trace w @ ops \<and> list_all P ops"
  proof (cases "resolve True (root w) p")
    case (Inl e)
    have "issues P (record_op (Chmod p) (syscall (io_err e)))" for e
      using assms by (intro issue_rules) (auto simp: io_err_def)
    then show ?thesis using a Inl issuesD by (fastforce simp: set_permissions_def)
  next
    case (Inr q)
    then show ?thesis using a issuesD [OF issues_set_mode_at [of P p q m]] assms
      by (fastforce simp: set_permissions_def)
  qed
qed

lemma trace_reads [simp]: "trace (snd (reads q w)) = trace w"
  by (auto simp: reads_def Let_def split: option.splits node.splits)

lemma issues_here: "(\<And>w0. issues P (m w0)) \<Longrightarrow> issues P (\<lambda>w. m w w)"
  unfolding issues_def by blast

lemma issues_reads:
  assumes "\<And>rs. issues P (k rs)"
  shows "issues P (\<lambda>w. case reads q w of (rs, w3) \<Rightarrow> k rs w3)"
proof (rule issuesI)
  fix w r w'
  assume a: "(case reads q w of (rs, w3) \<Rightarrow> k rs w3) = (r, w')"
  obtain rs w3 where "reads q w = (rs, w3)" by fastforce
  moreover from this have "trace w3 = trace w" using trace_reads [of q w] by simp
  ultimately show "\<exists>ops. trace w' = trace w @ ops \<and> list_all P ops"
    using a issuesD [OF assms] by fastforce
qed

lemma issues_copy_file [issue_rules]:
  assumes "P (OpenWrite dst)" "P (Chmod dst)" "P (Write dst)"
  shows "issues P (copy_file src dst)"
proof -
  have "issues P (\<lambda>w. case node_at (root w0) q of
         Some (File a _) \<Rightarrow>
           io_bind (open_write True (mode a) dst) (\<lambda>h.
           io_bind (set_mode_at dst h (mode a)) (\<lambda>_. \<lambda>w2.
             case reads q w2 of (rs, w3) \<Rightarrow>
               io_map (\<lambda>r. case r of Inl e \<Rightarrow> io_err e | Inr bs \<Rightarrow> write_all_at dst h bs) rs w3)) w
       | _ \<Rightarrow> (Inl InvalidInput, w))" (is "issues P (?f q w0)") for w0 :: world and q
  proof (cases "\<exists>a bs. node_at (root w0) q = Some (File a bs)")
    case True
    then obtain a bs where "node_at (root w0) q = Some (File a bs)" by blast
    then show ?thesis using assms by (auto intro!: issue_rules issues_reads)
  next
    case False
    then have "?f q w0 = (\<lambda>w. (Inl InvalidInput, w))" by (auto split: option.splits node.splits)
    then show ?thesis by (auto simp: issues_def)
  qed
  from issues_here [of P "?f _", OF this]
  show ?thesis unfolding copy_file_def by (intro issues_bind issues_open_read issues_ok)
qed

lemma issues_create_dir_all [issue_rules]:
  "(\<And>q. prefix q p \<Longrightarrow> P (Mkdir q)) \<Longrightarrow> issues P (create_dir_all p)"
proof (induction p rule: create_dir_all.induct)
  case (1 p)
  have up: "prefix (butlast p) p" by (simp add: prefixeq_butlast)
  have "issues P (create_dir_all (butlast p))" if "p \<noteq> []"
    using "1.IH" [OF that] "1.prems" up by (meson prefix_order.trans)
  then show ?case
    by (subst create_dir_all.simps)
      (use "1.prems" in \<open>auto intro!: issue_rules split: unit.splits io_error_kind.splits\<close>)
qed

lemma issues_remove_tree: "issues P (remove_tree q n)" "issues P (remove_children q cs)"
  by (induction q n and q cs rule: remove_tree_remove_children.induct)
    (auto intro!: issue_rules simp: unlink_at_def)

lemma issues_remove_dir_all [issue_rules]: "P (RemoveTree p) \<Longrightarrow> issues P (remove_dir_all p)"
  unfolding remove_dir_all_def
  by (intro issue_rules) (auto intro!: issue_rules issues_remove_tree split: sum.splits option.splits)

end
