(* ===== verification/StdFs.thy ===== *)
theory StdFs
  imports FileSystem
begin

text \<open>
  More of the standard library, for the cluster code: \<open>std::path::Path\<close> as its list of components,
  which is what its equality, \<open>starts_with\<close>, \<open>parent\<close> and \<open>file_name\<close> look at; \<open>str::lines\<close> and the
  integer parsers; \<open>fs::read_to_string\<close>, \<open>fs::canonicalize\<close> and opening an existing file for writing.
\<close>

section \<open>Paths as components\<close>

definition path_parent :: "component list \<Rightarrow> component list option" where
  "path_parent cs = (if cs = [] \<or> last cs = RootDir then None else Some (butlast cs))"

definition path_file_name :: "component list \<Rightarrow> string option" where
  "path_file_name cs = (case rev cs of Normal n # _ \<Rightarrow> Some n | _ \<Rightarrow> None)"

definition is_absolute :: "component list \<Rightarrow> bool" where
  "is_absolute cs = (case cs of RootDir # _ \<Rightarrow> True | _ \<Rightarrow> False)"

text \<open>Where a path leads, relative names being taken from the working directory \<open>dir\<close>.\<close>

definition fs_path :: "path \<Rightarrow> component list \<Rightarrow> path" where
  "fs_path dir cs = (if is_absolute cs then [] else dir) @ List.map_filter component_name cs"

lemma path_components_absolute: "is_absolute (path_components s) \<longleftrightarrow> prefix ''/'' s"
proof (cases s)
  case (Cons c r)
  have "RootDir \<notin> set (List.map_filter parse_component ps)" for ps
    by (induction ps) (auto simp: List.map_filter_simps parse_component_def)
  moreover have "is_absolute xs \<Longrightarrow> RootDir \<in> set xs" for xs
    by (cases xs) (auto simp: is_absolute_def split: component.splits)
  ultimately have "is_absolute (List.map_filter parse_component ps) = False" for ps by blast
  then show ?thesis using Cons
    by (auto simp: path_components_def Let_def is_absolute_def split: list.splits component.splits)
qed (simp add: path_components_def is_absolute_def)

lemma abs_path_fs_path: "abs_path w s = fs_path (cwd w) (path_components s)"
  by (simp add: abs_path_def fs_path_def path_components_absolute path_names_def)

lemma fs_path_snoc [simp]:
  "fs_path dir (cs @ [Normal n]) = fs_path dir cs @ [n]"
  by (cases cs) (auto simp: fs_path_def is_absolute_def List.map_filter_simps List.map_filter_def component_name_def
      split: component.splits)

lemma path_file_name_Some: "path_file_name cs = Some n \<longleftrightarrow> (\<exists>ds. cs = ds @ [Normal n])"
  by (cases cs rule: rev_cases) (auto simp: path_file_name_def split: component.splits)

lemma path_file_name_snoc [simp]: "path_file_name (cs @ [Normal n]) = Some n"
  by (simp add: path_file_name_def)

lemma path_parent_snoc [simp]: "path_parent (cs @ [Normal n]) = Some cs"
  by (simp add: path_parent_def)

section \<open>Text\<close>

definition strip_suffix :: "string \<Rightarrow> string \<Rightarrow> string option" where
  "strip_suffix suf s = (if suffix suf s then Some (take (length s - length suf) s) else None)"

lemma strip_suffix_Some: "strip_suffix suf s = Some t \<longleftrightarrow> s = t @ suf"
  by (auto simp: strip_suffix_def suffix_def)

text \<open>\<open>str::lines\<close>: a final line needs no terminator; a carriage return before a terminator goes with it.\<close>

definition strip_cr :: "string \<Rightarrow> string" where
  "strip_cr s = (case strip_suffix [CHR 0x0D] s of Some t \<Rightarrow> t | None \<Rightarrow> s)"

definition str_lines :: "string \<Rightarrow> string list" where
  "str_lines s =
     (let ps = split_on (CHR 0x0A) s in map strip_cr (butlast ps) @ (if last ps = [] then [] else [last ps]))"

text \<open>\<open>str::parse\<close> into an unsigned integer below \<open>bound\<close>, and into \<open>i32\<close>.\<close>

definition parse_digits :: "int \<Rightarrow> string \<Rightarrow> nat option" where
  "parse_digits bound ds =
     (if ds \<noteq> [] \<and> list_all is_ascii_digit ds \<and> int (dec_value ds) < bound then Some (dec_value ds) else None)"

definition parse_unsigned :: "int \<Rightarrow> string \<Rightarrow> nat option" where
  "parse_unsigned bound s = parse_digits bound (case s of c # r \<Rightarrow> if c = CHR ''+'' then r else s | [] \<Rightarrow> [])"

definition parse_i32 :: "string \<Rightarrow> int option" where
  "parse_i32 s =
     (case s of
        c # r \<Rightarrow>
          if c = CHR ''-'' then map_option (\<lambda>n. - int n) (parse_digits (2 ^ 31 + 1) r)
          else if c = CHR ''+'' then map_option int (parse_digits (2 ^ 31) r)
          else map_option int (parse_digits (2 ^ 31) s)
      | [] \<Rightarrow> None)"

lemma parse_unsigned_bound: "parse_unsigned b s = Some n \<Longrightarrow> int n < b"
  by (auto simp: parse_unsigned_def parse_digits_def split: if_splits list.splits)

lemma parse_i32_bound: "parse_i32 s = Some n \<Longrightarrow> - (2 ^ 31) \<le> n \<and> n < 2 ^ 31"
  by (auto simp: parse_i32_def parse_digits_def split: if_splits list.splits)

section \<open>Files\<close>

definition read_to_string :: "path \<Rightarrow> string fs" where
  "read_to_string p =
     io_bind (open_read p) (\<lambda>q. \<lambda>w.
       case reads q w of (rs, w') \<Rightarrow>
         io_bind (io_of (res_map (\<lambda>r. r) rs)) (\<lambda>bss.
           let s = map (\<lambda>b. char_of (unat b)) (concat bss) in
           if is_utf8 s then io_ok s else io_err OtherIo) w')"

definition canonicalize :: "path \<Rightarrow> path fs" where
  "canonicalize p = open_read p"

text \<open>\<open>OpenOptions::new().read(true).write(true)\<close>: nothing is created or truncated.\<close>

definition open_existing :: "path \<Rightarrow> path fs" where
  "open_existing p = syscall (\<lambda>w.
     case resolve True (root w) p of
       Inl e \<Rightarrow> (Inl e, w)
     | Inr q \<Rightarrow>
         (case node_at (root w) q of
            Some (File _ _) \<Rightarrow> (Inr q, w)
          | Some _ \<Rightarrow> (Inl IsADirectory, w)
          | None \<Rightarrow> (Inl NotFound, w)))"

lemma issues_open_existing [issue_rules]: "issues P (open_existing p)"
  unfolding open_existing_def
  by (rule issues_syscall) (auto split: sum.splits option.splits node.splits)

lemma issues_canonicalize [issue_rules]: "issues P (canonicalize p)"
  unfolding canonicalize_def by (rule issues_open_read)

lemma issues_read_to_string [issue_rules]: "issues P (read_to_string p)"
  unfolding read_to_string_def Let_def
  by (intro issues_bind issues_open_read issues_reads issues_of issues_if issues_ok issues_err)

end
