(* ===== verification/Frames.thy ===== *)
theory Frames
  imports StdFs
begin

text \<open>
  What file operations leave alone. A projection of the world is static when it depends on neither
  the tree, the clock of system calls nor the trace; every file operation preserves every static
  projection: the fault schedule, the process's ids, its working directory and its variables.
\<close>

named_theorems frame_rules \<open>computations preserve a projection of the world\<close>

definition static :: "(world \<Rightarrow> 'x) \<Rightarrow> bool" where
  "static F \<longleftrightarrow> (\<forall>w r. F (w\<lparr>root := r\<rparr>) = F w) \<and> (\<forall>w t. F (w\<lparr>tick := t\<rparr>) = F w) \<and> (\<forall>w t. F (w\<lparr>trace := t\<rparr>) = F w)"

definition preserves :: "(world \<Rightarrow> 'x) \<Rightarrow> ('e, 'a) io \<Rightarrow> bool" where
  "preserves F m \<longleftrightarrow> (\<forall>w. F (snd (m w)) = F w)"

lemma preservesD: "preserves F m \<Longrightarrow> m w = (r, w') \<Longrightarrow> F w' = F w"
  unfolding preserves_def by (metis snd_conv)

lemma static_fields [simp]: "static fault" "static cwd" "static held_slots" "static watchers" "static slot_counter" "static pid"
  by (simp_all add: static_def)

lemma static_simps:
  assumes "static F"
  shows "F (w\<lparr>root := r\<rparr>) = F w" "F (w\<lparr>tick := t\<rparr>) = F w" "F (w\<lparr>trace := u\<rparr>) = F w" "F (set_root q v w) = F w"
  using assms by (simp_all add: static_def set_root_def)

section \<open>Composition\<close>

lemma preserves_ok [frame_rules]: "preserves F (io_ok x)"
  and preserves_err [frame_rules]: "preserves F (io_err e)"
  and preserves_of [frame_rules]: "preserves F (io_of r)"
  by (simp_all add: preserves_def io_ok_def io_err_def io_of_def)

lemma preserves_match [frame_rules]:
  "preserves F m \<Longrightarrow> (\<And>r. preserves F (k r)) \<Longrightarrow> preserves F (io_match m k)"
  by (simp add: preserves_def io_match_def split_beta)

lemma preserves_bind [frame_rules]:
  "preserves F m \<Longrightarrow> (\<And>x. preserves F (f x)) \<Longrightarrow> preserves F (io_bind m f)"
  unfolding preserves_def io_bind_def by (simp add: split_beta split: sum.split)

lemma preserves_map_err [frame_rules]: "preserves F m \<Longrightarrow> preserves F (io_map_err h m)"
  unfolding preserves_def io_map_err_def by (simp add: split_beta split: sum.split)

lemma preserves_map [frame_rules]: "(\<And>x. preserves F (f x)) \<Longrightarrow> preserves F (io_map f xs)"
  by (induction xs) (auto intro!: frame_rules)

lemma preserves_if [frame_rules]: "preserves F m \<Longrightarrow> preserves F k \<Longrightarrow> preserves F (if b then m else k)"
  by simp

lemma preserves_sum [frame_rules]:
  "(\<And>x. preserves F (f x)) \<Longrightarrow> (\<And>x. preserves F (g x)) \<Longrightarrow> preserves F (case r of Inl x \<Rightarrow> f x | Inr x \<Rightarrow> g x)"
  by (cases r) auto

lemma preserves_option [frame_rules]:
  "preserves F f \<Longrightarrow> (\<And>x. preserves F (g x)) \<Longrightarrow> preserves F (case r of None \<Rightarrow> f | Some x \<Rightarrow> g x)"
  by (cases r) auto

lemma preserves_prod [frame_rules]: "(\<And>x y. preserves F (f x y)) \<Longrightarrow> preserves F (case r of (x, y) \<Rightarrow> f x y)"
  by (cases r) auto

lemma preserves_unit [frame_rules]: "preserves F f \<Longrightarrow> preserves F (case r of () \<Rightarrow> f)"
  by (cases r) (simp only: unit.case)

section \<open>File operations\<close>

lemma preserves_syscall:
  assumes "static F" and "\<And>w. F (snd (f w)) = F w"
  shows "preserves F (syscall f)"
proof -
  have "F (snd (syscall f w)) = F w" for w
    using assms(2) [of "w\<lparr>tick := Suc (tick w)\<rparr>"] static_simps(2) [OF assms(1), where w = w and t = "Suc (tick w)"]
    by (cases "fault w (tick w)") (auto simp: syscall_def Let_def)
  then show ?thesis by (simp add: preserves_def)
qed

lemma preserves_record [frame_rules]: "static F \<Longrightarrow> preserves F m \<Longrightarrow> preserves F (record_op oper m)"
  unfolding preserves_def record_op_def using static_simps(3) by fastforce

lemma snd_stat_node [simp]: "snd (stat_node follow p w) = w"
  by (simp add: stat_node_def split: sum.split option.split)

lemma preserves_reading [frame_rules]:
  assumes "static F"
  shows "preserves F (metadata p)" "preserves F (symlink_metadata p)" "preserves F (open_read p)"
    "preserves F (read_link p)" "preserves F (read_dir p)" "preserves F (next_entry e)" "preserves F (open_existing p)"
  unfolding metadata_def symlink_metadata_def open_read_def read_link_def read_dir_def next_entry_def open_existing_def
  by (rule preserves_syscall [OF assms],
      simp add: io_ok_def stat_node_def split: sum.split option.split node.split prod.split)+

lemma preserves_writing [frame_rules]:
  assumes "static F"
  shows "preserves F (mkdir p)" "preserves F (open_write t m p)" "preserves F (open_create_new m p)"
    "preserves F (set_mode_at p q m)" "preserves F (chown_at p q u g)" "preserves F (remove_file p)"
    "preserves F (make_symlink l p)" "preserves F (rename_path p p2)" "preserves F (unlink_at q)"
  unfolding mkdir_def open_write_def open_create_new_def set_mode_at_def chown_at_def remove_file_def make_symlink_def
    rename_path_def unlink_at_def
  by (rule preserves_record [OF assms] preserves_syscall [OF assms];
      (rule preserves_syscall [OF assms])?, simp add: static_simps [OF assms] split: sum.split option.split node.split)+

lemma preserves_write_all_at [frame_rules]: "static F \<Longrightarrow> preserves F (write_all_at p q bs)"
  unfolding preserves_def write_all_at_def Let_def
proof (intro allI)
  fix w
  assume F: "static F"
  have "F (w\<lparr>tick := t, trace := u\<rparr>) = F w" for t u
    using static_simps(2,3) [OF F] by metis
  then show "F (snd (case node_at (root w) q of
        Some (File a old) \<Rightarrow>
          (case fault w (tick w) of
             Some (e, n) \<Rightarrow> (Inl e, set_root q (Some (File a (old @ take n bs))) (w\<lparr>tick := Suc (tick w), trace := trace w @ [Write p]\<rparr>))
           | None \<Rightarrow> (Inr (), set_root q (Some (File a (old @ bs))) (w\<lparr>tick := Suc (tick w), trace := trace w @ [Write p]\<rparr>)))
      | _ \<Rightarrow> (Inl InvalidInput, w\<lparr>tick := Suc (tick w), trace := trace w @ [Write p]\<rparr>))) = F w"
    using static_simps(4) [OF F] by (simp split: option.split node.split)
qed

lemma preserves_write_file_at [frame_rules]: "static F \<Longrightarrow> preserves F (write_file_at p bs)"
  unfolding write_file_at_def by (intro frame_rules)

lemma preserves_path_queries [frame_rules]:
  assumes "static F"
  shows "preserves F (path_exists p)" "preserves F (path_is_dir p)" "preserves F (path_is_file p)" "preserves F (canonicalize p)"
  unfolding path_exists_def path_is_dir_def path_is_file_def canonicalize_def by (intro frame_rules assms)+

lemma preserves_create_dir_all [frame_rules]: "static F \<Longrightarrow> preserves F (create_dir_all p)"
proof (induction p rule: create_dir_all.induct)
  case (1 p)
  then show ?case by (subst create_dir_all.simps) (auto intro!: frame_rules split: io_error_kind.split)
qed

lemma preserves_remove_tree:
  "static F \<Longrightarrow> preserves F (remove_tree q n)" "static F \<Longrightarrow> preserves F (remove_children q cs)"
  by (induction q n and q cs rule: remove_tree_remove_children.induct) (auto intro!: frame_rules)

lemma preserves_remove_dir_all [frame_rules]: "static F \<Longrightarrow> preserves F (remove_dir_all p)"
  unfolding remove_dir_all_def
  by (intro frame_rules preserves_syscall preserves_remove_tree) (auto split: sum.split option.split)

lemma snd_reads: "static F \<Longrightarrow> F (snd (reads q w)) = F w"
  using static_simps(2) [of F] by (auto simp: reads_def Let_def split: option.split node.split)

lemma preserves_reads:
  assumes "static F" and "\<And>rs. preserves F (k rs)"
  shows "preserves F (\<lambda>w. case reads q w of (rs, w3) \<Rightarrow> k rs w3)"
  using assms snd_reads [OF assms(1)] by (simp add: preserves_def split_beta)

lemma preserves_read_to_string [frame_rules]: "static F \<Longrightarrow> preserves F (read_to_string p)"
  unfolding read_to_string_def Let_def by (intro frame_rules preserves_reads)

end
