(* ===== verification/Processes.thy ===== *)
theory Processes
  imports Frames
begin

text \<open>
  The operating system's processes, as the cluster code sees them: signals, \<open>/proc\<close>, the monotonic
  clock, sleeping, starting a watcher process and reaping a child are services of the kernel, a parameter \<open>os\<close> of the definitions that use
  them. Signals other than the probe \<open>0\<close> are recorded in the trace, delivered or not. Waiting is a
  bounded poll: an exhausted bound is the value \<open>None\<close>, and \<open>poll_returns\<close> shows that it is not reached
  when the clock advances by what is slept.
\<close>

type_synonym 'a act = "world \<Rightarrow> 'a \<times> world"

definition io_lift :: "'a act \<Rightarrow> ('e, 'a) io" where
  "io_lift m w = (case m w of (x, w') \<Rightarrow> (Inr x, w'))"

datatype errno = ESRCH | EPERM | OtherErrno

record os =
  k_kill :: "int \<Rightarrow> nat \<Rightarrow> (errno, unit) io"
  k_comm :: "nat \<Rightarrow> string fs"
  k_cwd :: "nat \<Rightarrow> path fs"
  k_now :: "nat act"
  k_sleep :: "nat \<Rightarrow> world \<Rightarrow> world"
  k_spawn_watcher :: "path \<Rightarrow> path \<Rightarrow> nat fs"
  k_reap :: "nat \<Rightarrow> unit fs"

definition SIGQUIT :: nat where "SIGQUIT = 3"
definition SIGKILL :: nat where "SIGKILL = 9"
definition SIGTERM :: nat where "SIGTERM = 15"

definition os_signal :: "os \<Rightarrow> int \<Rightarrow> nat \<Rightarrow> (errno, unit) io" where
  "os_signal os p s = record_op (Signal p s) (k_kill os p s)"

text \<open>None of the services changes the tree by itself, nor sends a signal that was not asked for.\<close>

definition os_quiet :: "os \<Rightarrow> bool" where
  "os_quiet os \<longleftrightarrow>
     (\<forall>p s. issues (\<lambda>_. False) (k_kill os p s)) \<and> (\<forall>p. issues (\<lambda>_. False) (k_comm os p)) \<and>
     (\<forall>p. issues (\<lambda>_. False) (k_cwd os p)) \<and> (\<forall>l d. issues (\<lambda>_. False) (k_spawn_watcher os l d)) \<and>
     (\<forall>p. issues (\<lambda>_. False) (k_reap os p)) \<and> (\<forall>w. trace (snd (k_now os w)) = trace w) \<and>
     (\<forall>d w. trace (k_sleep os d w) = trace w)"

lemma issues_never: "issues (\<lambda>_. False) m \<Longrightarrow> issues P m"
  by (erule issues_mono) simp

lemma issues_lift [issue_rules]:
  "(\<And>w. \<exists>ops. trace (snd (m w)) = trace w @ ops \<and> list_all P ops) \<Longrightarrow> issues P (io_lift m)"
  unfolding issues_def io_lift_def by (simp add: split_beta)

lemma issues_kill: "os_quiet os \<Longrightarrow> issues P (k_kill os p s)"
  and issues_comm: "os_quiet os \<Longrightarrow> issues P (k_comm os q)"
  and issues_cwd: "os_quiet os \<Longrightarrow> issues P (k_cwd os q)"
  and issues_spawn: "os_quiet os \<Longrightarrow> issues P (k_spawn_watcher os l d)"
  and issues_reap: "os_quiet os \<Longrightarrow> issues P (k_reap os q)"
  by (auto simp: os_quiet_def intro: issues_never)

lemma issues_signal: "os_quiet os \<Longrightarrow> P (Signal p s) \<Longrightarrow> issues P (os_signal os p s)"
  unfolding os_signal_def by (intro issues_record issues_kill)

text \<open>Nor does any of them touch the process's own variables.\<close>

definition os_framed :: "(world \<Rightarrow> 'x) \<Rightarrow> os \<Rightarrow> bool" where
  "os_framed F os \<longleftrightarrow>
     (\<forall>p s. preserves F (k_kill os p s)) \<and> (\<forall>p. preserves F (k_comm os p)) \<and> (\<forall>p. preserves F (k_cwd os p)) \<and>
     (\<forall>l d. preserves F (k_spawn_watcher os l d)) \<and> (\<forall>p. preserves F (k_reap os p)) \<and>
     (\<forall>w. F (snd (k_now os w)) = F w) \<and> (\<forall>d w. F (k_sleep os d w) = F w)"

lemma preserves_lift [frame_rules]: "(\<And>w. F (snd (m w)) = F w) \<Longrightarrow> preserves F (io_lift m)"
  by (simp add: preserves_def io_lift_def split_beta)

section \<open>Polling\<close>

text \<open>Runs \<open>step\<close> until it gives a result, sleeping in between, at most \<open>n\<close> times.\<close>

fun poll :: "os \<Rightarrow> nat \<Rightarrow> 'r option act \<Rightarrow> nat \<Rightarrow> 'r option act" where
  "poll os interval step 0 w = (None, w)"
| "poll os interval step (Suc n) w =
     (case step w of
        (Some r, w1) \<Rightarrow> (Some r, w1)
      | (None, w1) \<Rightarrow> poll os interval step n (k_sleep os interval w1))"

text \<open>
  What \<open>Instant\<close> and \<open>thread::sleep\<close> document: time does not go back, and a sleep takes at least as
  long as asked. \<open>time\<close> is the clock a world stands at.
\<close>

definition clocked :: "os \<Rightarrow> (world \<Rightarrow> nat) \<Rightarrow> bool" where
  "clocked os time \<longleftrightarrow>
     (\<forall>w. time w \<le> fst (k_now os w) \<and> fst (k_now os w) \<le> time (snd (k_now os w))) \<and>
     (\<forall>d w. time w + d \<le> time (k_sleep os d w)) \<and>
     (\<forall>p s w. time w \<le> time (snd (k_kill os p s w)))"

text \<open>A step that never sets the clock back and always has a result once the deadline has passed.\<close>

definition meets_deadline :: "(world \<Rightarrow> nat) \<Rightarrow> nat \<Rightarrow> 'r option act \<Rightarrow> bool" where
  "meets_deadline time deadline step \<longleftrightarrow>
     (\<forall>w. time w \<le> time (snd (step w)) \<and> (deadline \<le> time w \<longrightarrow> fst (step w) \<noteq> None))"

lemma poll_returns:
  assumes "clocked os time" and "meets_deadline time deadline step"
  shows "deadline \<le> time w + n * interval \<Longrightarrow> \<exists>r. fst (poll os interval step (Suc n) w) = Some r"
proof (induction n arbitrary: w)
  case 0
  then have "fst (step w) \<noteq> None" using assms(2) by (simp add: meets_deadline_def)
  then show ?case by (auto split: prod.splits option.splits)
next
  case (Suc n)
  obtain r w1 where s: "step w = (r, w1)" by fastforce
  show ?case
  proof (cases r)
    case None
    let ?w = "k_sleep os interval w1"
    have "time w \<le> time w1" using assms(2) s unfolding meets_deadline_def by (metis snd_conv)
    moreover have "time w1 + interval \<le> time ?w" using assms(1) by (simp add: clocked_def)
    ultimately have "deadline \<le> time ?w + n * interval" using Suc.prems by simp
    from Suc.IH [OF this] show ?thesis using s None by simp
  qed (use s in simp)
qed

text \<open>What a poll issues is what its steps issue.\<close>

lemma trace_poll:
  assumes "\<And>w. \<exists>ops. trace (snd (step w)) = trace w @ ops \<and> list_all P ops"
    and "\<And>d w. trace (k_sleep os d w) = trace w"
  shows "\<exists>ops. trace (snd (poll os interval step n w)) = trace w @ ops \<and> list_all P ops"
proof (induction n arbitrary: w)
  case (Suc n)
  obtain r w1 where s: "step w = (r, w1)" by fastforce
  then obtain o1 where o1: "trace w1 = trace w @ o1" "list_all P o1" using assms(1) [of w] by auto
  show ?case
  proof (cases r)
    case None
    from Suc [of "k_sleep os interval w1"] obtain o2
      where "trace (snd (poll os interval step n (k_sleep os interval w1))) = trace w1 @ o2" "list_all P o2"
      using assms(2) by auto
    then show ?thesis using s None o1 by (intro exI [of _ "o1 @ o2"]) simp
  qed (use s o1 in auto)
qed simp

lemma preserves_poll:
  assumes "\<And>w. F (snd (step w)) = F w" and "\<And>d w. F (k_sleep os d w) = F w"
  shows "F (snd (poll os interval step n w)) = F w"
proof (induction n arbitrary: w)
  case (Suc n)
  obtain r w1 where s: "step w = (r, w1)" by fastforce
  then have "F w1 = F w" using assms(1) [of w] by simp
  then show ?case using s Suc [of "k_sleep os interval w1"] assms(2) by (cases r) simp_all
qed simp

text \<open>The result of a poll is the result of the last step it ran.\<close>

lemma poll_result: "poll os interval step n w = (Some r, w') \<Longrightarrow> \<exists>v. step v = (Some r, w')"
proof (induction n arbitrary: w)
  case (Suc n)
  obtain x w1 where s: "step w = (x, w1)" by fastforce
  then show ?case using Suc by (cases x) auto
qed simp

end
