(* ===== verification/Orphan.thy ===== *)
theory Orphan
  imports Processes
begin

text \<open>
  \<open>bootstrap/prepare/orphan.rs\<close>: stopping a server left running in a dead owner's data directory, as
  on Linux. A data directory is given by its path; a process id is a \<open>u32\<close>, here a natural number.
\<close>

section \<open>Operations\<close>

definition STOP_TIMEOUT :: nat where "STOP_TIMEOUT = 10000"

datatype server_state = Absent | Running nat | Unconfirmed nat

text \<open>The PID on the first line of \<open>postmaster.pid\<close>; \<open>None\<close> when it cannot be read.\<close>

definition parse_postmaster_pid :: "string \<Rightarrow> nat option" where
  "parse_postmaster_pid text =
     (case str_lines text of
        [] \<Rightarrow> None
      | l # _ \<Rightarrow>
          (case parse_unsigned (2 ^ 32) (trim l) of
             None \<Rightarrow> None
           | Some raw \<Rightarrow> if raw > 0 then Some raw else None))"

definition postmaster_pid :: "path \<Rightarrow> ('e, nat option) io" where
  "postmaster_pid d =
     io_match (read_to_string (d @ [''postmaster.pid''])) (\<lambda>r.
       io_ok (case r of Inl _ \<Rightarrow> None | Inr text \<Rightarrow> parse_postmaster_pid text))"

definition process_alive :: "os \<Rightarrow> nat \<Rightarrow> ('e, bool) io" where
  "process_alive os p =
     (if int p \<ge> 2 ^ 31 then io_ok False
      else io_match (k_kill os (int p) 0) (\<lambda>r.
             io_ok (case r of Inr _ \<Rightarrow> True | Inl e \<Rightarrow> e = EPERM)))"

definition names_postgres :: "string \<Rightarrow> bool" where
  "names_postgres comm \<longleftrightarrow> last (split_on (CHR ''/'') (trim comm)) = ''postgres''"

definition is_server_for :: "os \<Rightarrow> nat \<Rightarrow> path \<Rightarrow> ('e, bool option) io" where
  "is_server_for os p d =
     io_match (k_comm os p) (\<lambda>r.
       case r of
         Inl _ \<Rightarrow> io_ok None
       | Inr comm \<Rightarrow>
           if \<not> names_postgres comm then io_ok (Some False)
           else io_match (k_cwd os p) (\<lambda>r.
             case r of
               Inl _ \<Rightarrow> io_ok None
             | Inr c \<Rightarrow> io_match (canonicalize d) (\<lambda>r.
                 io_ok (case r of Inl _ \<Rightarrow> None | Inr q \<Rightarrow> Some (c = q)))))"

definition server_state :: "os \<Rightarrow> path \<Rightarrow> ('e, server_state) io" where
  "server_state os d =
     io_bind (postmaster_pid d) (\<lambda>pid.
       case pid of
         None \<Rightarrow> io_ok Absent
       | Some p \<Rightarrow>
           io_bind (process_alive os p) (\<lambda>alive.
             if \<not> alive then io_ok Absent
             else io_bind (is_server_for os p d) (\<lambda>s.
               io_ok (case s of
                        Some True \<Rightarrow> Running p
                      | Some False \<Rightarrow> Absent
                      | None \<Rightarrow> Unconfirmed p))))"

text \<open>
  \<open>wait_for_exit\<close>: 201 probes, 50 ms apart, outlast the timeout of ten seconds.
\<close>

definition alive_act :: "os \<Rightarrow> nat \<Rightarrow> bool act" where
  "alive_act os p w = (case process_alive os p w of (Inr a, w') \<Rightarrow> (a, w') | (Inl (_ :: unit), w') \<Rightarrow> (False, w'))"

definition wait_step :: "os \<Rightarrow> nat \<Rightarrow> nat \<Rightarrow> bool option act" where
  "wait_step os deadline p w =
     (case k_now os w of (t, w1) \<Rightarrow>
        case alive_act os p w1 of (alive, w2) \<Rightarrow>
          (if t < deadline then (if \<not> alive then Some True else None) else Some (\<not> alive), w2))"

definition wait_for_exit :: "os \<Rightarrow> nat \<Rightarrow> bool act" where
  "wait_for_exit os p w =
     (case k_now os w of (t, w1) \<Rightarrow>
        case poll os 50 (wait_step os (t + STOP_TIMEOUT) p) 201 w1 of (r, w2) \<Rightarrow> (r = Some True, w2))"

text \<open>\<open>SignalStop::stop\<close>, and the trait object as a function.\<close>

definition signal_stop :: "os \<Rightarrow> nat \<Rightarrow> bool act" where
  "signal_stop os p w =
     (if int p \<ge> 2 ^ 31 then (False, w)
      else case os_signal os (int p) SIGQUIT w of
             (Inl _, w1) \<Rightarrow> (case alive_act os p w1 of (a, w2) \<Rightarrow> (\<not> a, w2))
           | (Inr _, w1) \<Rightarrow> wait_for_exit os p w1)"

definition stop_running :: "(nat \<Rightarrow> bool act) \<Rightarrow> nat \<Rightarrow> ('e, bool) io" where
  "stop_running stop p = io_lift (stop p)"

definition stop_orphaned_server :: "os \<Rightarrow> (nat \<Rightarrow> bool act) \<Rightarrow> path \<Rightarrow> ('e, bool) io" where
  "stop_orphaned_server os stop d =
     io_bind (server_state os d) (\<lambda>s.
       case s of
         Absent \<Rightarrow> io_ok True
       | Unconfirmed _ \<Rightarrow> io_ok False
       | Running p \<Rightarrow> stop_running stop p)"

section \<open>Properties\<close>

lemma snd_alive_act [simp]: "snd (alive_act os p w) = snd (process_alive os p w :: (unit + bool) \<times> world)"
  by (auto simp: alive_act_def split: prod.splits sum.splits)

lemma issues_process_alive: "os_quiet os \<Longrightarrow> issues P (process_alive os p)"
  unfolding process_alive_def by (intro issue_rules issues_kill)

lemma issues_is_server_for: "os_quiet os \<Longrightarrow> issues P (is_server_for os p d)"
  unfolding is_server_for_def
  by (auto intro!: issue_rules issues_comm issues_cwd)

lemma issues_server_state: "os_quiet os \<Longrightarrow> issues P (server_state os d)"
  unfolding server_state_def postmaster_pid_def
  by (auto intro!: issue_rules issues_process_alive issues_is_server_for)

lemma trace_alive_act:
  assumes "os_quiet os"
  shows "trace (snd (alive_act os p w)) = trace w"
proof -
  have "issues (\<lambda>_. False) (process_alive os p :: (unit, bool) io)" using assms by (rule issues_process_alive)
  then obtain ops where "trace (snd (process_alive os p w :: (unit + bool) \<times> world)) = trace w @ ops"
    "list_all (\<lambda>_. False) ops" unfolding issues_def by blast
  then show ?thesis by (cases ops) simp_all
qed

lemma trace_wait_for_exit:
  assumes "os_quiet os"
  shows "\<exists>ops. trace (snd (wait_for_exit os p w)) = trace w @ ops \<and> list_all P ops"
proof -
  have now: "trace (snd (k_now os v)) = trace v" for v using assms by (simp add: os_quiet_def)
  have step: "\<exists>ops. trace (snd (wait_step os dl p v)) = trace v @ ops \<and> list_all P ops" for dl v
    using now [of v] trace_alive_act [OF assms] by (auto simp: wait_step_def split_beta intro: exI [of _ "[]"])
  have sleep: "trace (k_sleep os d v) = trace v" for d v using assms by (simp add: os_quiet_def)
  obtain t w1 where n: "k_now os w = (t, w1)" by fastforce
  from trace_poll [OF step [where dl = "t + STOP_TIMEOUT"] sleep, where interval = 50 and n = 201 and w = w1] now [of w] n show ?thesis
    by (auto simp: wait_for_exit_def split_beta)
qed

lemma issues_signal_stop:
  assumes "os_quiet os" and "p < 2 ^ 31 \<Longrightarrow> P (Signal (int p) SIGQUIT)"
  shows "\<exists>ops. trace (snd (signal_stop os p w)) = trace w @ ops \<and> list_all P ops"
proof (cases "int p \<ge> 2 ^ 31")
  case True
  then show ?thesis by (auto simp: signal_stop_def)
next
  case False
  then have "P (Signal (int p) SIGQUIT)" using assms(2) by (simp add: nat_less_iff)
  from issues_signal [OF assms(1), of P, OF this] obtain r w1 o1
    where s: "os_signal os (int p) SIGQUIT w = (r, w1)" "trace w1 = trace w @ o1" "list_all P o1"
    unfolding issues_def by (metis prod.collapse)
  obtain o2 where "trace (snd (wait_for_exit os p w1)) = trace w1 @ o2" "list_all P o2"
    using trace_wait_for_exit [OF assms(1), of p w1 P] by blast
  then show ?thesis using s False trace_alive_act [OF assms(1), of p w1]
    by (auto simp: signal_stop_def split_beta split: sum.splits intro: exI [of _ "o1 @ o2"])
qed

text \<open>Stopping an orphan leaves the process's own variables alone.\<close>

lemma preserves_process_alive: "os_framed F os \<Longrightarrow> preserves F (process_alive os p)"
  unfolding process_alive_def by (intro frame_rules) (simp add: os_framed_def)

lemma preserves_server_state: "os_framed F os \<Longrightarrow> static F \<Longrightarrow> preserves F (server_state os d)"
  unfolding server_state_def postmaster_pid_def is_server_for_def
  by (intro frame_rules preserves_process_alive) (auto simp: os_framed_def)

lemma framed_signal_stop:
  assumes "os_framed F os" and "static F"
  shows "F (snd (signal_stop os p w)) = F w"
proof -
  have a: "F (snd (alive_act os p v)) = F v" for v
    unfolding snd_alive_act by (rule preserves_process_alive [OF assms(1), unfolded preserves_def, rule_format])
  have now: "F (snd (k_now os v)) = F v" and sleep: "F (k_sleep os t v) = F v" for v t
    using assms(1) by (simp_all add: os_framed_def)
  have "F (snd (wait_step os dl p v)) = F v" for dl v
    using a now by (simp add: wait_step_def split_beta)
  from preserves_poll [OF this sleep] have "F (snd (wait_for_exit os p v)) = F v" for v
    using now by (simp add: wait_for_exit_def split_beta)
  moreover have "F (snd (os_signal os q s v)) = F v" for q s v
    using assms preserves_record [OF assms(2), of "k_kill os q s"] by (simp add: os_signal_def os_framed_def preserves_def)
  ultimately show ?thesis using a by (simp add: signal_stop_def split_beta split: sum.split)
qed

lemma preserves_stop_orphaned_server:
  assumes "os_framed F os" and "static F"
  shows "preserves F (stop_orphaned_server os (signal_stop os) d)"
  unfolding stop_orphaned_server_def stop_running_def using framed_signal_stop [OF assms]
  by (intro preserves_bind preserves_server_state assms) (auto intro!: frame_rules split: server_state.split)

text \<open>Waiting always ends with an answer: the bound of 201 probes is not what ends it.\<close>

lemma wait_step_deadline:
  assumes "clocked os time"
  shows "meets_deadline time deadline (wait_step os deadline p)"
proof -
  have alive: "time v \<le> time (snd (alive_act os p v))" for v
    using assms by (auto simp: clocked_def process_alive_def io_ok_def io_match_def split_beta)
  have "time v \<le> time (snd (wait_step os deadline p v)) \<and> (deadline \<le> time v \<longrightarrow> fst (wait_step os deadline p v) \<noteq> None)" for v
  proof -
    obtain t v1 where n: "k_now os v = (t, v1)" by fastforce
    obtain a v2 where a: "alive_act os p v1 = (a, v2)" by fastforce
    have "time v \<le> t" "t \<le> time v1" using assms n unfolding clocked_def by (metis fst_conv snd_conv)+
    moreover have "time v1 \<le> time v2" using alive [of v1] a by simp
    ultimately show ?thesis by (simp add: wait_step_def n a)
  qed
  then show ?thesis unfolding meets_deadline_def by blast
qed

lemma wait_for_exit_decides:
  assumes "clocked os time" and "k_now os w = (t, w1)"
  shows "\<exists>r. fst (poll os 50 (wait_step os (t + STOP_TIMEOUT) p) 201 w1) = Some r"
proof -
  have "t \<le> time w1" using assms unfolding clocked_def by (metis fst_conv snd_conv)
  then have le: "t + STOP_TIMEOUT \<le> time w1 + 200 * 50" by (simp add: STOP_TIMEOUT_def)
  have e: "Suc 200 = (201 :: nat)" by simp
  from poll_returns [OF assms(1) wait_step_deadline [OF assms(1)] le, of p]
  show ?thesis unfolding e .
qed

text \<open>
  The probes that confirm a process as the server of a data directory, one after the other from the world in
  which the orphan is to be stopped: \<open>postmaster.pid\<close> names the process, it is alive, its name is \<open>postgres\<close>, and
  its working directory is where the path of the data directory leads in the tree as it is.
\<close>

definition confirmed_server :: "os \<Rightarrow> world \<Rightarrow> path \<Rightarrow> nat \<Rightarrow> bool" where
  "confirmed_server os w d p \<longleftrightarrow>
     (\<exists>w1 w2 w3 w4 comm c.
        (postmaster_pid d w :: (unit + nat option) \<times> world) = (Inr (Some p), w1) \<and> alive_act os p w1 = (True, w2) \<and>
        k_comm os p w2 = (Inr comm, w3) \<and> names_postgres comm \<and>
        k_cwd os p w3 = (Inr c, w4) \<and> resolve True (root w) d = Inr c)"

lemma postmaster_pid_pos: "postmaster_pid d w = (Inr (Some p), w') \<Longrightarrow> 0 < p"
  by (auto simp: postmaster_pid_def io_match_def io_ok_def parse_postmaster_pid_def
      split: prod.splits sum.splits list.splits option.splits if_splits)

text \<open>These probes never fail themselves, so the type of their errors does not matter.\<close>

lemma probes_any_error:
  "(postmaster_pid d w :: ('e + _) \<times> world) = (Inr x, w') \<Longrightarrow> (postmaster_pid d w :: ('f + _) \<times> world) = (Inr x, w')"
  "(process_alive os p w :: ('e + _) \<times> world) = (Inr a, w') \<Longrightarrow> alive_act os p w = (a, w')"
  by (auto simp: postmaster_pid_def alive_act_def process_alive_def io_match_def io_ok_def split: prod.splits if_splits)

lemma canonicalize_resolves: "canonicalize d w = (Inr c, w') \<Longrightarrow> resolve True (root w) d = Inr c"
  by (auto simp: canonicalize_def open_read_def syscall_def Let_def split: option.splits sum.splits)

lemma root_postmaster_pid:
  assumes "postmaster_pid d w = (r, w')"
  shows "root w' = root w"
proof -
  obtain x w1 where o: "open_read (d @ [''postmaster.pid'']) w = (x, w1)" by fastforce
  have w1: "root w1 = root w"
    using o by (auto simp: open_read_def syscall_def Let_def split: option.splits sum.splits)
  have rd: "root (snd (reads q v)) = root v" for q v by (auto simp: reads_def Let_def split: option.split node.split)
  have "root (snd (read_to_string (d @ [''postmaster.pid'']) w)) = root w"
    unfolding read_to_string_def io_bind_def o using w1 rd
    by (auto simp: io_of_def io_ok_def io_err_def Let_def split: sum.split prod.split) (metis snd_conv)+
  then show ?thesis using assms by (auto simp: postmaster_pid_def io_match_def io_ok_def split: prod.splits)
qed

lemma server_state_Running:
  assumes os: "os_framed root os" and run: "(server_state os d :: ('e, server_state) io) w = (Inr (Running p), w')"
  shows "confirmed_server os w d p" and "0 < p"
proof -
  from run obtain w1 w2 where pid: "(postmaster_pid d :: ('e, _) io) w = (Inr (Some p), w1)"
    and alive: "(process_alive os p :: ('e, _) io) w1 = (Inr True, w2)"
    and "(is_server_for os p d :: ('e, _) io) w2 = (Inr (Some True), w')"
    by (auto simp: server_state_def io_bind_def io_ok_def
        split: prod.splits sum.splits option.splits if_splits bool.splits)
  then obtain comm w3 c w4 w5 where k: "k_comm os p w2 = (Inr comm, w3)" "names_postgres comm"
      "k_cwd os p w3 = (Inr c, w4)" "canonicalize d w4 = (Inr c, w5)"
    by (auto simp: is_server_for_def io_match_def io_ok_def split: prod.splits sum.splits if_splits)
  have "root w1 = root w" by (rule root_postmaster_pid [OF pid])
  moreover have "root w2 = root w1" using preserves_process_alive [OF os] alive by (metis preserves_def snd_conv)
  moreover have "root w3 = root w2" "root w4 = root w3"
    using os k(1,3) unfolding os_framed_def preserves_def by (metis snd_conv)+
  ultimately have "resolve True (root w) d = Inr c" using canonicalize_resolves [OF k(4)] by simp
  then show "confirmed_server os w d p"
    unfolding confirmed_server_def using probes_any_error(1) [OF pid] probes_any_error(2) [OF alive] k(1-3) by blast
  show "0 < p" by (rule postmaster_pid_pos [OF pid])
qed

lemma stop_orphaned_server_trace:
  assumes "os_quiet os" and "os_framed root os"
  shows "\<exists>ops. trace (snd ((stop_orphaned_server os (signal_stop os) d :: ('e, bool) io) w)) = trace w @ ops \<and>
    list_all (\<lambda>oper. \<exists>p. oper = Signal (int p) SIGQUIT \<and> 0 < p \<and> p < 2 ^ 31 \<and> confirmed_server os w d p) ops"
    (is "\<exists>ops. _ \<and> list_all ?P ops")
proof -
  obtain r w1 where s: "(server_state os d :: ('e, server_state) io) w = (r, w1)" by fastforce
  have "trace w1 = trace w"
    using quiet_trace [OF issues_server_state [OF assms(1)], of d w] s by (metis snd_conv)
  have stop: "\<exists>ops. trace (snd (signal_stop os p w1)) = trace w1 @ ops \<and> list_all ?P ops" if "r = Inr (Running p)" for p
    using issues_signal_stop [OF assms(1), of p ?P w1] server_state_Running [OF assms(2) s [unfolded that]] by blast
  show ?thesis
  proof (cases r)
    case (Inr x)
    then show ?thesis using s stop \<open>trace w1 = trace w\<close>
      by (cases x) (auto simp: stop_orphaned_server_def io_bind_def io_ok_def stop_running_def io_lift_def split: prod.splits intro: exI [of _ "[]"])
  qed (use s \<open>trace w1 = trace w\<close> in \<open>auto simp: stop_orphaned_server_def io_bind_def intro: exI [of _ "[]"]\<close>)
qed

text \<open>Any way of stopping a server that touches no file keeps the whole operation from touching one.\<close>

definition touches_no_file :: "(nat \<Rightarrow> bool act) \<Rightarrow> bool" where
  "touches_no_file stop \<longleftrightarrow>
     (\<forall>p w. \<exists>ops. trace (snd (stop p w)) = trace w @ ops \<and> list_all (\<lambda>oper. op_paths oper = []) ops)"

lemma issues_stop_orphan:
  assumes "os_quiet os" and "touches_no_file stop" and "\<And>oper. op_paths oper = [] \<Longrightarrow> P oper"
  shows "issues P (stop_orphaned_server os stop d)"
proof -
  have "\<exists>ops. trace (snd (stop p v)) = trace v @ ops \<and> list_all P ops" for p v
    using assms(2,3) unfolding touches_no_file_def by (metis (mono_tags, lifting) list.pred_mono_strong)
  then show ?thesis unfolding stop_orphaned_server_def stop_running_def
    by (intro issues_bind issues_server_state assms(1)) (auto split: server_state.splits intro!: issue_rules)
qed

lemma signal_stop_touches_no_file: "os_quiet os \<Longrightarrow> touches_no_file (signal_stop os)"
  unfolding touches_no_file_def by (intro allI issues_signal_stop) simp_all

text \<open>
  C19: only the data directory's own server is signalled. Stopping an orphan sends no signal but \<open>SIGQUIT\<close>, to a
  positive \<open>pid_t\<close>, and only to the live process that \<open>postmaster.pid\<close> of the directory names and that \<open>/proc\<close>
  shows to be a \<open>postgres\<close> whose working directory is the directory itself, all links followed; and it changes
  no file. Looking at \<open>/proc\<close> is assumed to change no file either.
\<close>

theorem only_own_server_signalled:
  assumes "os_quiet os" and "os_framed root os"
  shows "\<exists>ops. trace (snd ((stop_orphaned_server os (signal_stop os) d :: ('e, bool) io) w)) = trace w @ ops \<and>
    list_all (\<lambda>oper. \<exists>p. oper = Signal (int p) SIGQUIT \<and> 0 < p \<and> p < 2 ^ 31 \<and> confirmed_server os w d p) ops"
  by (rule stop_orphaned_server_trace [OF assms])

text \<open>A kernel on which every process is a \<open>postgres\<close> in \<open>d\<close>, with a clock that counts system calls.\<close>

definition demo_os :: "path \<Rightarrow> os" where
  "demo_os d = \<lparr>k_kill = (\<lambda>p s. io_ok ()), k_comm = (\<lambda>p. io_ok ''postgres''), k_cwd = (\<lambda>p. io_ok d),
     k_now = (\<lambda>w. (tick w, w)), k_sleep = (\<lambda>t w. w\<lparr>tick := tick w + t\<rparr>),
     k_spawn_watcher = (\<lambda>l d. io_ok 1000), k_reap = (\<lambda>p. io_ok ())\<rparr>"

lemma demo_os_quiet: "os_quiet (demo_os d)"
  by (auto simp: os_quiet_def demo_os_def intro: issue_rules)

lemma demo_os_clocked: "clocked (demo_os d) tick"
  by (simp add: clocked_def demo_os_def io_ok_def)

text \<open>A data directory reached through a link, with the server 77 in it.\<close>

definition demo_orphan :: world where
  "demo_orphan = \<lparr>root = Dir \<lparr>mode = 493, uid = 0, gid = 0\<rparr>
       [(''pg'', Dir \<lparr>mode = 448, uid = 0, gid = 0\<rparr> [(''postmaster.pid'', File \<lparr>mode = 384, uid = 0, gid = 0\<rparr> [55, 55, 10])]),
        (''data'', Symlink ''pg'')],
     tick = 0, fault = (\<lambda>_. None), trace = [], umask = 18, euid = 0, egid = 0, cwd = [], pid = 7, nanos = (\<lambda>_. 5),
     temp_counter = 0, slot_counter = 0, held_slots = [], watchers = Map.empty\<rparr>"

text \<open>The kernel on which the server exits when it is signalled.\<close>

definition demo_quitting :: "path \<Rightarrow> os" where
  "demo_quitting d = (demo_os d)\<lparr>k_kill := (\<lambda>p s w. (if s = 0 \<and> trace w \<noteq> [] then Inl ESRCH else Inr (), w))\<rparr>"

lemma demo_quitting_os: "os_quiet (demo_quitting d)" "os_framed root (demo_quitting d)"
  by (auto simp: os_quiet_def os_framed_def demo_quitting_def demo_os_def preserves_def io_ok_def issues_def)

definition demo_stop :: "(unit + bool) \<times> world" where
  "demo_stop = stop_orphaned_server (demo_quitting [''pg'']) (signal_stop (demo_quitting [''pg''])) [''data''] demo_orphan"

lemma demo_stop_signals: "trace (snd demo_stop) = [Signal 77 SIGQUIT]"
  by code_simp

theorem only_own_server_signalled_witness:
  "trace (snd demo_stop) = [Signal 77 SIGQUIT] \<and> confirmed_server (demo_quitting [''pg'']) demo_orphan [''data''] 77"
proof -
  have e: "trace demo_orphan = []" by (simp add: demo_orphan_def)
  have n: "int p = 77 \<Longrightarrow> p = 77" for p by simp
  have "\<exists>ops. trace (snd demo_stop) = trace demo_orphan @ ops \<and>
      list_all (\<lambda>oper. \<exists>p. oper = Signal (int p) SIGQUIT \<and> 0 < p \<and> p < 2 ^ 31 \<and> confirmed_server (demo_quitting [''pg'']) demo_orphan [''data''] p) ops"
    unfolding demo_stop_def by (rule only_own_server_signalled [OF demo_quitting_os])
  then show ?thesis unfolding demo_stop_signals e by (auto dest!: n [OF sym])
qed

end
