(* ===== verification/ClusterSlot.thy ===== *)
theory ClusterSlot
  imports Orphan
begin

text \<open>
  \<open>bootstrap/prepare/cluster_slot\<close>: per-cluster data directories under a shared root. A slot \<open>n\<close> is the
  directory \<open><parent>/n\<close>, the password file \<open>n.pgpass\<close> and the lock file \<open>n.lock\<close>. The kernel lock on a
  file is taken by the \<open>fs4\<close> crate, a parameter; a handle is the resolved path of its file, and a
  dropped handle gives its lock up. The parent is a path; a slot's paths are the parent's with one
  more piece, which \<open>norm_path\<close> reads as the file system does (a piece \<open>.\<close> names the parent itself).
\<close>

section \<open>Data\<close>

datatype try_lock_error = WouldBlock | LockError io_error_kind

record fs4_crate =
  fs4_lock :: "path \<Rightarrow> unit fs"
  fs4_try_lock :: "path \<Rightarrow> (try_lock_error, unit) io"

definition LOCK_SUFFIX :: string where "LOCK_SUFFIX = ''.lock''"
definition PASSWORD_SUFFIX :: string where "PASSWORD_SUFFIX = ''.pgpass''"
definition CLAIM_GUARD :: string where "CLAIM_GUARD = ''.claim-guard''"

record cluster_slot =
  slot_data_dir :: path
  slot_password_file :: path

datatype slot_lookup = Slot "component list" | NotSlot | UnknownSlot

definition norm_path :: "path \<Rightarrow> path" where
  "norm_path p = filter (\<lambda>c. c \<noteq> ''.'') p"

definition slot_error :: "io_error_kind \<Rightarrow> bootstrap_error" where
  "slot_error e = extension_error Other"

section \<open>Names and lookups\<close>

definition slot_paths :: "path \<Rightarrow> string \<Rightarrow> cluster_slot" where
  "slot_paths parent name =
     \<lparr>slot_data_dir = parent @ [name], slot_password_file = parent @ [name @ PASSWORD_SUFFIX]\<rparr>"

definition lock_path :: "path \<Rightarrow> path" where
  "lock_path d = butlast d @ [last d @ LOCK_SUFFIX]"

definition lock_stem :: "string \<Rightarrow> string option" where
  "lock_stem name =
     (if is_utf8 name
      then (case strip_suffix LOCK_SUFFIX name of Some stem \<Rightarrow> if stem = [] then None else Some stem | None \<Rightarrow> None)
      else None)"

text \<open>The process id, the time and a counter of this process.\<close>

definition slot_name :: "string act" where
  "slot_name w =
     (show_nat (pid w) @ ''-'' @ show_nat (nanos w (tick w)) @ ''-'' @ show_nat (unat (slot_counter w)),
      w\<lparr>slot_counter := slot_counter w + 1\<rparr>)"

text \<open>\<open>acquire\<close>, \<open>claim_guard_for\<close> and \<open>slot_lookup\<close>; \<open>dir\<close> is the working directory.\<close>

definition guard_acquire :: "fs4_crate \<Rightarrow> path \<Rightarrow> path fs" where
  "guard_acquire fs4 parent =
     io_bind (open_write False 438 (parent @ [CLAIM_GUARD])) (\<lambda>file.
     io_bind (fs4_lock fs4 file) (\<lambda>_. io_ok file))"

definition slot_lookup :: "path \<Rightarrow> component list \<Rightarrow> ('e, slot_lookup) io" where
  "slot_lookup dir data_dir =
     (case (path_parent data_dir, Option.bind (path_file_name data_dir) (\<lambda>n. if is_utf8 n then Some n else None)) of
        (Some parent, Some own) \<Rightarrow>
          io_match (metadata (fs_path dir parent @ [own @ LOCK_SUFFIX])) (\<lambda>r.
            io_ok (case r of
                     Inr n \<Rightarrow> if is_file_node n then Slot parent else NotSlot
                   | Inl e \<Rightarrow> if e = NotFound then NotSlot else UnknownSlot))
      | _ \<Rightarrow> io_ok NotSlot)"

text \<open>\<open>None\<close> when the directory is no slot; otherwise the guard or why it could not be taken.\<close>

definition claim_guard_for :: "fs4_crate \<Rightarrow> path \<Rightarrow> component list \<Rightarrow> (bootstrap_error, (io_error_kind + path) option) io" where
  "claim_guard_for fs4 dir data_dir =
     io_bind (slot_lookup dir data_dir) (\<lambda>s.
       case s of
         NotSlot \<Rightarrow> io_ok None
       | Slot parent \<Rightarrow> io_match (guard_acquire fs4 (fs_path dir parent)) (\<lambda>r. io_ok (Some r))
       | UnknownSlot \<Rightarrow> io_ok (Some (Inl PermissionDenied)))"

definition slot_lock_path :: "path \<Rightarrow> component list \<Rightarrow> (io_error_kind, path option) io" where
  "slot_lock_path dir data_dir =
     io_bind (slot_lookup dir data_dir) (\<lambda>s.
       case s of
         Slot parent \<Rightarrow>
           io_ok (map_option (\<lambda>own. fs_path dir parent @ [own @ LOCK_SUFFIX])
                    (Option.bind (path_file_name data_dir) (\<lambda>n. if is_utf8 n then Some n else None)))
       | NotSlot \<Rightarrow> io_ok None
       | UnknownSlot \<Rightarrow> io_err PermissionDenied)"

section \<open>Live peers\<close>

definition is_lock_free :: "fs4_crate \<Rightarrow> path \<Rightarrow> (bootstrap_error, bool) io" where
  "is_lock_free fs4 p =
     io_match (open_existing p) (\<lambda>r.
       case r of
         Inl _ \<Rightarrow> io_ok False
       | Inr file \<Rightarrow> io_match (fs4_try_lock fs4 file) (\<lambda>l. io_ok (case l of Inr _ \<Rightarrow> True | Inl _ \<Rightarrow> False)))"

fun any_entry_held :: "fs4_crate \<Rightarrow> path \<Rightarrow> string option \<Rightarrow> (string \<times> node) list \<Rightarrow> (bootstrap_error, bool) io" where
  "any_entry_held fs4 parent own [] = io_ok False"
| "any_entry_held fs4 parent own (e # es) =
     io_match (next_entry e) (\<lambda>r.
       case r of
         Inl _ \<Rightarrow> io_ok True
       | Inr (entry_name, _) \<Rightarrow>
           (case lock_stem entry_name of
              None \<Rightarrow> any_entry_held fs4 parent own es
            | Some name \<Rightarrow>
                if Some name = own then any_entry_held fs4 parent own es
                else io_bind (is_lock_free fs4 (parent @ [name @ LOCK_SUFFIX])) (\<lambda>free.
                       if free then any_entry_held fs4 parent own es else io_ok True)))"

definition any_slot_held :: "fs4_crate \<Rightarrow> path \<Rightarrow> string option \<Rightarrow> (bootstrap_error, bool) io" where
  "any_slot_held fs4 parent own =
     io_match (read_dir parent) (\<lambda>r.
       case r of Inl _ \<Rightarrow> io_ok True | Inr entries \<Rightarrow> any_entry_held fs4 parent own entries)"

definition has_live_peers :: "fs4_crate \<Rightarrow> path \<Rightarrow> component list \<Rightarrow> (bootstrap_error, bool) io" where
  "has_live_peers fs4 dir data_dir =
     io_bind (slot_lookup dir data_dir) (\<lambda>s.
       case s of
         NotSlot \<Rightarrow> io_ok False
       | UnknownSlot \<Rightarrow> io_ok True
       | Slot parent \<Rightarrow>
           (case Option.bind (path_file_name data_dir) (\<lambda>n. if is_utf8 n then Some n else None) of
              None \<Rightarrow> io_ok False
            | Some own \<Rightarrow> any_slot_held fs4 (fs_path dir parent) (Some own)))"

definition has_live_slots_in :: "fs4_crate \<Rightarrow> path \<Rightarrow> component list \<Rightarrow> (bootstrap_error, bool) io" where
  "has_live_slots_in fs4 dir parent = any_slot_held fs4 (fs_path dir parent) None"

definition derived_slot_parent :: "component list \<Rightarrow> component list option" where
  "derived_slot_parent install_dir =
     (let named = (\<lambda>d. path_file_name d = Some ''install'');
          candidates = install_dir # (case path_parent install_dir of None \<Rightarrow> [] | Some p \<Rightarrow> [p]) in
      case find named candidates of
        None \<Rightarrow> None
      | Some install_root \<Rightarrow>
          (case path_parent install_root of None \<Rightarrow> None | Some p \<Rightarrow> Some (p @ [Normal ''data''])))"

definition claim_guard_at :: "fs4_crate \<Rightarrow> path \<Rightarrow> component list \<Rightarrow> path fs" where
  "claim_guard_at fs4 dir parent =
     io_bind (create_dir_all (fs_path dir parent)) (\<lambda>_. guard_acquire fs4 (fs_path dir parent))"

section \<open>Sweeping\<close>

definition take_dead_lock :: "fs4_crate \<Rightarrow> path \<Rightarrow> string \<Rightarrow> (bootstrap_error, path option) io" where
  "take_dead_lock fs4 parent name =
     io_match (open_existing (parent @ [name @ LOCK_SUFFIX])) (\<lambda>r.
       case r of
         Inl _ \<Rightarrow> io_ok None
       | Inr file \<Rightarrow>
           io_match (fs4_try_lock fs4 file) (\<lambda>l. io_ok (case l of Inr _ \<Rightarrow> Some file | Inl _ \<Rightarrow> None)))"

definition remove_if_present :: "io_error_kind + unit \<Rightarrow> io_error_kind + unit" where
  "remove_if_present r = (if r = Inl NotFound then Inr () else r)"

text \<open>
  \<open>fs::remove_dir_all\<close> on a path whose last piece is \<open>.\<close> or \<open>..\<close> empties the directory it names; the
  kernel refuses only to remove the directory itself by such a name.
\<close>

definition remove_slot_dir :: "path \<Rightarrow> unit fs" where
  "remove_slot_dir d =
     (if last d \<in> {''.'', ''..''} then
        record_op (RemoveTree (norm_path d))
          (io_bind (syscall (\<lambda>w. (resolve False (root w) (norm_path d), w))) (\<lambda>q.
           io_bind (read_dir (norm_path d)) (\<lambda>cs.
           io_bind (remove_children q cs) (\<lambda>_. io_err InvalidInput))))
      else remove_dir_all d)"

text \<open>All three removals are attempted; the first failure is the result.\<close>

definition remove_slot_files :: "cluster_slot \<Rightarrow> unit fs" where
  "remove_slot_files slot =
     io_match (remove_slot_dir (slot_data_dir slot)) (\<lambda>r1.
     io_match (remove_file (slot_password_file slot)) (\<lambda>r2.
     io_match (remove_file (lock_path (slot_data_dir slot))) (\<lambda>r3.
       io_of (res_bind (res_map (\<lambda>r. remove_if_present r) [r1, r2, r3]) (\<lambda>_. Inr ())))))"

definition remove_slot :: "cluster_slot \<Rightarrow> (bootstrap_error, unit) io" where
  "remove_slot slot = io_match (remove_slot_files slot) (\<lambda>_. io_ok ())"

definition sweep_one :: "fs4_crate \<Rightarrow> os \<Rightarrow> (nat \<Rightarrow> bool act) \<Rightarrow> path \<Rightarrow> string \<Rightarrow> (bootstrap_error, bool) io" where
  "sweep_one fs4 os stop parent name =
     io_bind (take_dead_lock fs4 parent name) (\<lambda>lock.
       case lock of
         None \<Rightarrow> io_ok False
       | Some _ \<Rightarrow>
           (let slot = slot_paths parent name in
            io_bind (stop_orphaned_server os stop (norm_path (slot_data_dir slot))) (\<lambda>stopped.
              if \<not> stopped then io_ok False
              else io_bind (remove_slot slot) (\<lambda>_. io_ok True))))"

fun sweep_entries :: "fs4_crate \<Rightarrow> os \<Rightarrow> (nat \<Rightarrow> bool act) \<Rightarrow> path \<Rightarrow> (string \<times> node) list \<Rightarrow> (bootstrap_error, nat) io" where
  "sweep_entries fs4 os stop parent [] = io_ok 0"
| "sweep_entries fs4 os stop parent (e # es) =
     io_match (next_entry e) (\<lambda>r.
       case r of
         Inl _ \<Rightarrow> sweep_entries fs4 os stop parent es
       | Inr (entry_name, _) \<Rightarrow>
           (case lock_stem entry_name of
              None \<Rightarrow> sweep_entries fs4 os stop parent es
            | Some name \<Rightarrow>
                io_bind (sweep_one fs4 os stop parent name) (\<lambda>s.
                io_bind (sweep_entries fs4 os stop parent es) (\<lambda>swept.
                  io_ok ((if s then 1 else 0) + swept)))))"

definition sweep_dead_slots :: "fs4_crate \<Rightarrow> os \<Rightarrow> (nat \<Rightarrow> bool act) \<Rightarrow> path \<Rightarrow> (bootstrap_error, nat) io" where
  "sweep_dead_slots fs4 os stop parent =
     io_bind (io_map_err slot_error (read_dir parent)) (\<lambda>entries. sweep_entries fs4 os stop parent entries)"

section \<open>Claiming\<close>

definition lock_new_slot :: "fs4_crate \<Rightarrow> path \<Rightarrow> string \<Rightarrow> (bootstrap_error, path) io" where
  "lock_new_slot fs4 parent name =
     io_bind (io_map_err slot_error (open_create_new 438 (parent @ [name @ LOCK_SUFFIX]))) (\<lambda>file.
       io_match (fs4_try_lock fs4 file) (\<lambda>l.
         case l of
           Inr _ \<Rightarrow> io_ok file
         | Inl WouldBlock \<Rightarrow> io_err (extension_error Other)
         | Inl (LockError e) \<Rightarrow> io_err (slot_error e)))"

text \<open>The lock joins the list held for the life of the process.\<close>

definition hold_lock :: "path \<Rightarrow> unit act" where
  "hold_lock file w = ((), w\<lparr>held_slots := held_slots w @ [file]\<rparr>)"

definition claim_slot_with_hooks ::
  "fs4_crate \<Rightarrow> path \<Rightarrow> (path \<Rightarrow> (bootstrap_error, nat) io) \<Rightarrow> unit act \<Rightarrow> (bootstrap_error, cluster_slot) io" where
  "claim_slot_with_hooks fs4 parent sweep created =
     io_bind (io_map_err slot_error (create_dir_all parent)) (\<lambda>_.
     io_bind (io_map_err slot_error (guard_acquire fs4 parent)) (\<lambda>_.
     io_bind (sweep parent) (\<lambda>_.
     io_bind (io_lift slot_name) (\<lambda>name.
     io_bind (lock_new_slot fs4 parent name) (\<lambda>lock.
     io_bind (io_lift created) (\<lambda>_.
     io_bind (io_lift (hold_lock lock)) (\<lambda>_.
       io_ok (slot_paths parent name))))))))"

definition claim_slot :: "fs4_crate \<Rightarrow> os \<Rightarrow> path \<Rightarrow> (bootstrap_error, cluster_slot) io" where
  "claim_slot fs4 os parent =
     claim_slot_with_hooks fs4 parent (\<lambda>slots. sweep_dead_slots fs4 os (signal_stop os) slots) (\<lambda>w. ((), w))"

section \<open>Sweeping spares live slots\<close>

text \<open>Locking neither changes the tree nor issues anything.\<close>

definition fs4_quiet :: "fs4_crate \<Rightarrow> bool" where
  "fs4_quiet fs4 \<longleftrightarrow>
     (\<forall>h w. root (snd (fs4_lock fs4 h w)) = root w \<and> trace (snd (fs4_lock fs4 h w)) = trace w) \<and>
     (\<forall>h w. root (snd (fs4_try_lock fs4 h w)) = root w \<and> trace (snd (fs4_try_lock fs4 h w)) = trace w)"

definition fs4_framed :: "(world \<Rightarrow> 'x) \<Rightarrow> fs4_crate \<Rightarrow> bool" where
  "fs4_framed F fs4 \<longleftrightarrow> (\<forall>h. preserves F (fs4_lock fs4 h)) \<and> (\<forall>h. preserves F (fs4_try_lock fs4 h))"

lemma issues_fs4:
  assumes "fs4_quiet fs4"
  shows "issues P (fs4_lock fs4 h)" and "issues P (fs4_try_lock fs4 h)"
  using assms by (auto simp: fs4_quiet_def issues_def)

text \<open>A slot is live when opening its lock file never leads to its lock: another process holds it.\<close>

definition live_slot :: "fs4_crate \<Rightarrow> path \<Rightarrow> string \<Rightarrow> bool" where
  "live_slot fs4 parent n \<longleftrightarrow>
     (\<forall>w h w1 u. open_existing (parent @ [n @ LOCK_SUFFIX]) w = (Inr h, w1) \<longrightarrow> fst (fs4_try_lock fs4 h w1) \<noteq> Inr u)"

lemma take_dead_lock_live:
  assumes "live_slot fs4 parent n" and "take_dead_lock fs4 parent n w = (Inr r, w')"
  shows "r = None"
  using assms
  by (fastforce simp: live_slot_def take_dead_lock_def io_match_def io_ok_def split: prod.splits sum.splits)

lemma is_lock_free_live:
  assumes "live_slot fs4 parent n"
  shows "fst (is_lock_free fs4 (parent @ [n @ LOCK_SUFFIX]) w) = Inr False"
  using assms
  by (fastforce simp: live_slot_def is_lock_free_def io_match_def io_ok_def split: prod.splits sum.splits)

text \<open>What a call may touch: entries of the parent other than \<open>n\<close>.\<close>

definition spares :: "path \<Rightarrow> string \<Rightarrow> op \<Rightarrow> bool" where
  "spares parent n oper \<longleftrightarrow> list_all (\<lambda>p. \<exists>x. p = parent @ [x] \<and> x \<notin> {n, ''.'', ''..''}) (op_paths oper)"

lemma issues_remove_slot:
  assumes "m \<notin> {n, ''.'', ''..''}" and "CHR ''.'' \<notin> set n"
  shows "issues (spares parent n) (remove_slot (slot_paths parent m))"
proof -
  have m: "m @ PASSWORD_SUFFIX \<noteq> n" "m @ LOCK_SUFFIX \<noteq> n"
    using assms(2) by (auto simp: PASSWORD_SUFFIX_def LOCK_SUFFIX_def)
  have dots: "m @ PASSWORD_SUFFIX \<noteq> ''.''" "m @ PASSWORD_SUFFIX \<noteq> ''..''" "m @ LOCK_SUFFIX \<noteq> ''.''" "m @ LOCK_SUFFIX \<noteq> ''..''"
    by (cases m; cases "tl m"; simp add: PASSWORD_SUFFIX_def LOCK_SUFFIX_def)+
  have "spares parent n (RemoveTree (parent @ [m]))"
    "spares parent n (Unlink (parent @ [m @ PASSWORD_SUFFIX]))"
    "spares parent n (Unlink (lock_path (parent @ [m])))"
    using assms(1) m dots by (auto simp: spares_def lock_path_def)
  then show ?thesis using assms(1)
    unfolding remove_slot_def remove_slot_files_def slot_paths_def remove_slot_dir_def
    by (auto intro!: issue_rules)
qed

lemma spares_signal [simp]: "spares parent n (Signal p s)"
  by (simp add: spares_def)

lemma issues_take_dead_lock: "fs4_quiet fs4 \<Longrightarrow> issues P (take_dead_lock fs4 parent m)"
  unfolding take_dead_lock_def by (intro issue_rules issues_fs4)

lemma issues_sweep_one:
  assumes "os_quiet os" "fs4_quiet fs4" "live_slot fs4 parent n" "CHR ''.'' \<notin> set n"
    and "m \<notin> {''.'', ''..''}" and "touches_no_file stop"
  shows "issues (spares parent n) (sweep_one fs4 os stop parent m)"
  unfolding sweep_one_def Let_def
proof (rule issues_bind_val [OF issues_take_dead_lock [OF assms(2)]])
  fix w l w'
  assume l: "take_dead_lock fs4 parent m w = (Inr l, w')"
  have stop: "issues (spares parent n) (stop_orphaned_server os stop d)" for d
    using assms(1,6) by (rule issues_stop_orphan) (simp add: spares_def)
  have "m \<noteq> n" if "l \<noteq> None" using take_dead_lock_live [OF assms(3)] l that by blast
  then have "m \<notin> {n, ''.'', ''..''}" if "l \<noteq> None" using assms(5) that by simp
  note rm = issues_remove_slot [OF this assms(4)]
  show "issues (spares parent n) (case l of None \<Rightarrow> io_ok False | Some _ \<Rightarrow>
      io_bind (stop_orphaned_server os stop (norm_path (slot_data_dir (slot_paths parent m)))) (\<lambda>stopped.
        if \<not> stopped then io_ok False else io_bind (remove_slot (slot_paths parent m)) (\<lambda>_. io_ok True)))"
    using rm by (cases l) (auto intro!: issue_rules stop)
qed

lemma lock_stem_Some: "lock_stem f = Some m \<longleftrightarrow> is_utf8 f \<and> f = m @ LOCK_SUFFIX \<and> m \<noteq> []"
  using strip_suffix_Some [of LOCK_SUFFIX f]
  by (cases "strip_suffix LOCK_SUFFIX f") (auto simp: lock_stem_def)

lemma issues_sweep_entries:
  assumes "os_quiet os" "fs4_quiet fs4" "live_slot fs4 parent n" "CHR ''.'' \<notin> set n" "touches_no_file stop"
  shows "fst ` set es \<inter> {''..lock'', ''...lock''} = {} \<Longrightarrow>
    issues (spares parent n) (sweep_entries fs4 os stop parent es)"
proof (induction es)
  case (Cons e es)
  from Cons.prems have "fst ` set es \<inter> {''..lock'', ''...lock''} = {}" by auto
  note IH = Cons.IH [OF this]
  have one: "issues (spares parent n) (sweep_one fs4 os stop parent m)" if "lock_stem (fst e) = Some m" for m
    using that Cons.prems by (intro issues_sweep_one assms) (auto simp: lock_stem_Some LOCK_SUFFIX_def)
  have entry: "next_entry e w = (Inr e', w') \<Longrightarrow> e' = e" for w e' w'
    by (auto simp: next_entry_def syscall_def io_ok_def Let_def split: option.splits)
  show ?case unfolding sweep_entries.simps
    by (rule issues_match_val [OF issues_next_entry])
      (auto dest!: entry intro!: issue_rules IH one split: sum.splits prod.splits)
qed (simp add: issues_ok)

text \<open>
  C2: a live cluster's files survive every sweep. Whatever else the slot parent holds and whatever
  fails, sweeping it for dead slots touches only direct entries of the parent, and never the data
  directory of a slot whose lock another process holds: not it, not anything in it, and nothing above it.
  (Slot names have no dot; a stray \<open>..lock\<close> or \<open>...lock\<close> file is excluded.)
\<close>

theorem sweep_spares_live:
  assumes "os_quiet os" and "fs4_quiet fs4" and "live_slot fs4 parent n" and "CHR ''.'' \<notin> set n"
    and "touches_no_file stop" and "\<forall>cs w1. read_dir parent w = (Inr cs, w1) \<longrightarrow> fst ` set cs \<inter> {''..lock'', ''...lock''} = {}"
  shows "\<exists>ops. trace (snd (sweep_dead_slots fs4 os stop parent w)) = trace w @ ops \<and>
    list_all (\<lambda>oper. list_all (\<lambda>p. (\<exists>x. p = parent @ [x]) \<and> \<not> prefix p (parent @ [n]) \<and> \<not> prefix (parent @ [n]) p)
      (op_paths oper)) ops"
proof -
  obtain r w1 where rd: "read_dir parent w = (r, w1)" by fastforce
  from issuesD [OF issues_read_dir rd, of "\<lambda>_. False"] have t: "trace w1 = trace w"
    by (metis append_Nil2 list.pred_inject(2) neq_Nil_conv)
  have weaken: "list_all (\<lambda>p. (\<exists>x. p = parent @ [x]) \<and> \<not> prefix p (parent @ [n]) \<and> \<not> prefix (parent @ [n]) p)
      (op_paths oper)" if "spares parent n oper" for oper
    using that by (auto simp: spares_def list_all_iff)
  show ?thesis
  proof (cases r)
    case (Inl e)
    then show ?thesis using rd t by (simp add: sweep_dead_slots_def io_bind_def io_map_err_def)
  next
    case (Inr cs)
    then have "fst ` set cs \<inter> {''..lock'', ''...lock''} = {}" using assms(6) rd by blast
    note i = issues_mono [OF issues_sweep_entries [OF assms(1-5) this] weaken]
    have run: "sweep_dead_slots fs4 os stop parent w = sweep_entries fs4 os stop parent cs w1"
      using Inr rd by (simp add: sweep_dead_slots_def io_bind_def io_map_err_def)
    show ?thesis unfolding run t [symmetric] by (rule i [unfolded issues_def, rule_format])
  qed
qed

text \<open>A lock table: the files that the given names lead to are locked by others.\<close>

definition demo_fs4 :: "path list \<Rightarrow> fs4_crate" where
  "demo_fs4 locked = \<lparr>fs4_lock = (\<lambda>h. io_ok ()),
     fs4_try_lock = (\<lambda>h w. (if list_ex (\<lambda>p. resolve True (root w) p = Inr h) locked then Inl WouldBlock else Inr (), w))\<rparr>"

lemma demo_fs4_quiet: "fs4_quiet (demo_fs4 locked)"
  by (simp add: fs4_quiet_def demo_fs4_def io_ok_def)

lemma demo_fs4_live: "parent @ [n @ LOCK_SUFFIX] \<in> set locked \<Longrightarrow> live_slot (demo_fs4 locked) parent n"
  by (auto simp: live_slot_def demo_fs4_def open_existing_def syscall_def Let_def list_ex_iff
      split: option.splits sum.splits node.splits)

definition slots_world :: "(string \<times> node) list \<Rightarrow> world" where
  "slots_world cs = \<lparr>root = Dir \<lparr>mode = 493, uid = 0, gid = 0\<rparr> [(''data'', Dir \<lparr>mode = 493, uid = 0, gid = 0\<rparr> cs)],
     tick = 0, fault = (\<lambda>_. None), trace = [], umask = 18, euid = 0, egid = 0, cwd = [], pid = 9, nanos = (\<lambda>_. 5),
     temp_counter = 0, slot_counter = 0, held_slots = [], watchers = Map.empty\<rparr>"

definition slot_entries :: "string \<Rightarrow> (string \<times> node) list" where
  "slot_entries n = [(n, Dir \<lparr>mode = 448, uid = 0, gid = 0\<rparr> [(''PG_VERSION'', File \<lparr>mode = 384, uid = 0, gid = 0\<rparr> [49])]),
     (n @ ''.lock'', File \<lparr>mode = 420, uid = 0, gid = 0\<rparr> [])]"

text \<open>Slot \<open>7-1-0\<close> is live and slot \<open>5-1-0\<close> dead: the sweep removes the one and leaves the other.\<close>

definition demo_sweep :: "(string \<times> node) list \<Rightarrow> (bootstrap_error + nat) \<times> world" where
  "demo_sweep cs = sweep_dead_slots (demo_fs4 [[''data'', ''7-1-0.lock'']]) (demo_os []) (\<lambda>p w. (True, w)) [''data''] (slots_world cs)"

theorem sweep_spares_live_witness:
  "(\<exists>ops. trace (snd (demo_sweep (slot_entries ''7-1-0'' @ slot_entries ''5-1-0''))) = [] @ ops \<and>
    list_all (\<lambda>oper. list_all (\<lambda>p. (\<exists>x. p = [''data''] @ [x]) \<and> \<not> prefix p ([''data''] @ [''7-1-0'']) \<and>
      \<not> prefix ([''data''] @ [''7-1-0'']) p) (op_paths oper)) ops) \<and>
   (case demo_sweep (slot_entries ''7-1-0'' @ slot_entries ''5-1-0'') of (r, w) \<Rightarrow>
      r = Inr 1 \<and> node_at (root w) [''data'', ''5-1-0''] = None \<and> node_at (root w) [''data'', ''7-1-0''] \<noteq> None)"
proof
  let ?w = "slots_world (slot_entries ''7-1-0'' @ slot_entries ''5-1-0'')"
  have live: "live_slot (demo_fs4 [[''data'', ''7-1-0.lock'']]) [''data''] ''7-1-0''"
    by (rule demo_fs4_live) (simp add: LOCK_SUFFIX_def)
  have "case fst (read_dir [''data''] ?w) of Inr cs \<Rightarrow> fst ` set cs \<inter> {''..lock'', ''...lock''} = {} | Inl _ \<Rightarrow> True" by code_simp
  then have l: "\<forall>cs w1. read_dir [''data''] ?w = (Inr cs, w1) \<longrightarrow> fst ` set cs \<inter> {''..lock'', ''...lock''} = {}"
    by (intro allI impI) simp
  have "trace ?w = []" by (simp add: slots_world_def)
  with sweep_spares_live [OF demo_os_quiet demo_fs4_quiet live _ _ l, of "\<lambda>p w. (True, w)" "[]"]
  show "\<exists>ops. trace (snd (demo_sweep (slot_entries ''7-1-0'' @ slot_entries ''5-1-0''))) = [] @ ops \<and>
    list_all (\<lambda>oper. list_all (\<lambda>p. (\<exists>x. p = [''data''] @ [x]) \<and> \<not> prefix p ([''data''] @ [''7-1-0'']) \<and>
      \<not> prefix ([''data''] @ [''7-1-0'']) p) (op_paths oper)) ops"
    unfolding demo_sweep_def by (simp add: touches_no_file_def)
  show "case demo_sweep (slot_entries ''7-1-0'' @ slot_entries ''5-1-0'') of (r, w) \<Rightarrow>
      r = Inr 1 \<and> node_at (root w) [''data'', ''5-1-0''] = None \<and> node_at (root w) [''data'', ''7-1-0''] \<noteq> None"
    by code_simp
qed

text \<open>
  The names excluded above are not excluded by the code: a file \<open>..lock\<close> in the slot parent, which no
  slot owns, is read as the lock of a slot named \<open>.\<close>, and sweeping it empties the parent, live slots
  included.
\<close>

lemma dot_lock_removes_live_slots:
  "case demo_sweep ((''..lock'', File \<lparr>mode = 420, uid = 0, gid = 0\<rparr> []) # slot_entries ''7-1-0'') of (r, w) \<Rightarrow>
     node_at (root w) [''data'', ''7-1-0''] = None"
  by code_simp

section \<open>A claimed slot\<close>

lemma open_create_new_absent:
  "open_create_new m p w = (Inr q, w') \<Longrightarrow> node_at (root w) q = None"
  by (auto simp: open_create_new_def record_op_def syscall_def Let_def split: option.splits sum.splits node.splits)

lemma lock_new_slot_ok:
  assumes "fs4_quiet fs4" and "lock_new_slot fs4 parent n w = (Inr h, w')"
  shows "\<exists>w1. open_create_new 438 (parent @ [n @ LOCK_SUFFIX]) w = (Inr h, w1) \<and> fs4_try_lock fs4 h w1 = (Inr (), w') \<and>
    node_at (root w) h = None \<and> resolve False (root w') (parent @ [n @ LOCK_SUFFIX]) = Inr h \<and> (\<exists>a. node_at (root w') h = Some (File a []))"
proof -
  obtain w1 where c: "open_create_new 438 (parent @ [n @ LOCK_SUFFIX]) w = (Inr h, w1)"
    and l: "fs4_try_lock fs4 h w1 = (Inr (), w')"
    using assms(2)
    by (auto simp: lock_new_slot_def io_bind_def io_map_err_def io_match_def io_ok_def io_err_def
        split: prod.splits sum.splits try_lock_error.splits)
  have "root w' = root w1" using assms(1) l unfolding fs4_quiet_def by (metis snd_conv)
  then show ?thesis using open_create_new_ok [OF c] open_create_new_absent [OF c] c l by simp
qed

lemma slot_name_dotless: "slot_name w = (n, w') \<Longrightarrow> CHR ''.'' \<notin> set n \<and> n \<noteq> []"
  using show_nat_digits by (fastforce simp: slot_name_def is_ascii_digit_def list_all_iff)

lemma preserves_fs4: "fs4_framed F fs4 \<Longrightarrow> preserves F (fs4_lock fs4 h)" "fs4_framed F fs4 \<Longrightarrow> preserves F (fs4_try_lock fs4 h)"
  by (simp_all add: fs4_framed_def)

lemma preserves_sweep:
  assumes "os_framed F os" and "fs4_framed F fs4" and F: "static F"
  shows "preserves F (sweep_dead_slots fs4 os (signal_stop os) parent)"
proof -
  have dir: "preserves F (remove_slot_dir d)" for d
    unfolding remove_slot_dir_def
    by (intro frame_rules preserves_remove_tree preserves_syscall F) simp
  have one: "preserves F (sweep_one fs4 os (signal_stop os) parent m)" for m
    unfolding sweep_one_def take_dead_lock_def remove_slot_def remove_slot_files_def Let_def
    by (intro frame_rules preserves_fs4 preserves_stop_orphaned_server dir assms)
  have "preserves F (sweep_entries fs4 os (signal_stop os) parent es)" for es
    by (induction es) (auto intro!: frame_rules one F)
  then show ?thesis unfolding sweep_dead_slots_def by (intro frame_rules F)
qed

text \<open>
  C18: a claimed slot is new and owned. When claiming succeeds, the slot is named by a name without
  dots under the parent; its lock file was created by this claim, exclusively and being absent just before, and
  is the empty regular file its path now leads to; trying to lock it right after its creation succeeded; and its
  handle is added to the handles the process keeps until it exits, none of which is given up.
\<close>

theorem claimed_slot_owned:
  assumes "fs4_quiet fs4" and "fs4_framed held_slots fs4" and "os_framed held_slots os"
    and "claim_slot fs4 os parent w = (Inr slot, w')"
  shows "\<exists>n h. slot = slot_paths parent n \<and> CHR ''.'' \<notin> set n \<and> n \<noteq> [] \<and>
    held_slots w' = held_slots w @ [h] \<and>
    resolve False (root w') (lock_path (slot_data_dir slot)) = Inr h \<and> (\<exists>a. node_at (root w') h = Some (File a [])) \<and>
    (\<exists>v v1 v2. node_at (root v) h = None \<and> open_create_new 438 (lock_path (slot_data_dir slot)) v = (Inr h, v1) \<and>
       fs4_try_lock fs4 h v1 = (Inr (), v2) \<and> w' = v2\<lparr>held_slots := held_slots v2 @ [h]\<rparr>)"
proof -
  let ?before = "io_bind (io_map_err slot_error (create_dir_all parent)) (\<lambda>_.
     io_bind (io_map_err slot_error (guard_acquire fs4 parent)) (\<lambda>_. sweep_dead_slots fs4 os (signal_stop os) parent))"
  obtain k w1 n w2 h w3 where prep: "?before w = (Inr k, w1)" and name: "slot_name w1 = (n, w2)"
    and lock: "lock_new_slot fs4 parent n w2 = (Inr h, w3)"
    and slot: "slot = slot_paths parent n" and w': "w' = w3\<lparr>held_slots := held_slots w3 @ [h]\<rparr>"
    using assms(4)
    by (auto simp: claim_slot_def claim_slot_with_hooks_def io_bind_def io_lift_def hold_lock_def io_ok_def
        split: prod.splits sum.splits)
  have "preserves held_slots ?before" unfolding guard_acquire_def
    by (intro frame_rules preserves_fs4 preserves_sweep static_fields assms)
  then have "held_slots w1 = held_slots w" using prep by (rule preservesD)
  moreover have "preserves held_slots (lock_new_slot fs4 parent n)" unfolding lock_new_slot_def
    by (auto intro!: frame_rules preserves_fs4 assms split: try_lock_error.split)
  then have "held_slots w3 = held_slots w2" using lock by (rule preservesD)
  moreover have "held_slots w2 = held_slots w1" using name by (auto simp: slot_name_def)
  moreover have "lock_path (slot_data_dir slot) = parent @ [n @ LOCK_SUFFIX]"
    by (simp add: slot lock_path_def slot_paths_def)
  ultimately show ?thesis
    using lock_new_slot_ok [OF assms(1) lock] slot_name_dotless [OF name] slot w'
    by (intro exI [of _ n] exI [of _ h]) auto
qed

definition demo_claim :: "(bootstrap_error + cluster_slot) \<times> world" where
  "demo_claim = claim_slot (demo_fs4 []) (demo_os []) [''data''] (slots_world [])"

theorem claimed_slot_owned_witness:
  "\<exists>slot w' n h. demo_claim = (Inr slot, w') \<and> slot = slot_paths [''data''] n \<and> held_slots w' = [h] \<and>
    resolve False (root w') (lock_path (slot_data_dir slot)) = Inr h \<and>
    (\<exists>v1 v2. fs4_try_lock (demo_fs4 []) h v1 = (Inr (), v2) \<and> root w' = root v2)"
proof -
  have "case fst demo_claim of Inr _ \<Rightarrow> True | Inl _ \<Rightarrow> False" by code_simp
  then obtain slot w' where run: "demo_claim = (Inr slot, w')"
    by (metis (no_types, lifting) prod.collapse sum.case_eq_if sum.collapse(2))
  have "fs4_framed held_slots (demo_fs4 [])" "os_framed held_slots (demo_os [])"
    by (auto simp: fs4_framed_def demo_fs4_def os_framed_def demo_os_def preserves_def io_ok_def)
  from claimed_slot_owned [OF demo_fs4_quiet this run [unfolded demo_claim_def]] obtain n h v1 v2 where
    "slot = slot_paths [''data''] n" "held_slots w' = held_slots (slots_world []) @ [h]"
    "resolve False (root w') (lock_path (slot_data_dir slot)) = Inr h"
    "fs4_try_lock (demo_fs4 []) h v1 = (Inr (), v2)" "w' = v2\<lparr>held_slots := held_slots v2 @ [h]\<rparr>" by blast
  moreover from this(5) have "root w' = root v2" by simp
  moreover have "held_slots (slots_world []) = []" by (simp add: slots_world_def)
  ultimately have "demo_claim = (Inr slot, w') \<and> slot = slot_paths [''data''] n \<and> held_slots w' = [h] \<and>
      resolve False (root w') (lock_path (slot_data_dir slot)) = Inr h \<and>
      fs4_try_lock (demo_fs4 []) h v1 = (Inr (), v2) \<and> root w' = root v2" using run by simp
  then show ?thesis by blast
qed

section \<open>Live peers are seen\<close>

lemma any_entry_held_live:
  assumes "live_slot fs4 parent m" and "is_utf8 (m @ LOCK_SUFFIX)" and "m \<noteq> []" and "own \<noteq> Some m"
  shows "m @ LOCK_SUFFIX \<in> fst ` set es \<Longrightarrow> fst (any_entry_held fs4 parent own es w) = Inr True"
proof (induction es arbitrary: w)
  case (Cons e es)
  obtain x w1 where n: "next_entry e w = (x, w1)" by fastforce
  show ?case
  proof (cases x)
    case (Inl err)
    then show ?thesis using n by (simp add: io_match_def io_ok_def)
  next
    case (Inr e')
    then have e': "e' = e" using n by (auto simp: next_entry_def syscall_def io_ok_def Let_def split: option.splits)
    obtain f nd where e: "e = (f, nd)" by fastforce
    show ?thesis
    proof (cases "f = m @ LOCK_SUFFIX")
      case True
      then have "lock_stem f = Some m" using assms(2,3) by (simp add: lock_stem_Some)
      moreover obtain w2 where "is_lock_free fs4 (parent @ [m @ LOCK_SUFFIX]) w1 = (Inr False, w2)"
        using is_lock_free_live [OF assms(1), of w1] by (metis prod.collapse)
      ultimately show ?thesis using n Inr e e' assms(4) by (auto simp: io_match_def io_bind_def io_ok_def)
    next
      case False
      then have IH: "fst (any_entry_held fs4 parent own es v) = Inr True" for v using Cons e by auto
      show ?thesis using n Inr e e' IH
        by (auto simp: io_match_def io_bind_def io_ok_def is_lock_free_def split: option.splits prod.splits sum.splits)
    qed
  qed
qed simp

lemma any_slot_held_live:
  assumes "live_slot fs4 parent m" and "is_utf8 (m @ LOCK_SUFFIX)" and "m \<noteq> []" and "own \<noteq> Some m"
    and "\<And>cs w1. read_dir parent w = (Inr cs, w1) \<Longrightarrow> m @ LOCK_SUFFIX \<in> fst ` set cs"
  shows "fst (any_slot_held fs4 parent own w) = Inr True"
  using any_entry_held_live [OF assms(1-4)] assms(5)
  by (auto simp: any_slot_held_def io_match_def io_ok_def split: prod.splits sum.splits)

end
