(* ===== verification/OrphanWatch.thy ===== *)
theory OrphanWatch
  imports ClusterSlot
begin

text \<open>
  The watcher that stops a server outliving a killed owner: \<open>orphan_watch.rs\<close> and its registry
  (\<open>orphan_watch_registry.rs\<close>). Spawning \<open>setsid flock <lock> sh -c <script>\<close> is a service of the system;
  the registry maps a data directory to the process id of its watcher.
\<close>

section \<open>The registry\<close>

definition end_child :: "os \<Rightarrow> nat \<Rightarrow> unit fs" where
  "end_child os child =
     io_match (os_signal os (int child) SIGKILL) (\<lambda>killed.
     io_match (k_reap os child) (\<lambda>reaped.
       io_of (case killed of Inl _ \<Rightarrow> Inl OtherIo | Inr _ \<Rightarrow> reaped)))"

text \<open>How ending a replaced or removed watcher went; \<open>None\<close> when there was none.\<close>

definition register_watcher :: "os \<Rightarrow> component list \<Rightarrow> nat \<Rightarrow> ('e, (io_error_kind + unit) option) io" where
  "register_watcher os data_dir child w =
     (let w1 = w\<lparr>watchers := (watchers w)(data_dir \<mapsto> child)\<rparr> in
      case watchers w data_dir of
        None \<Rightarrow> io_ok None w1
      | Some old \<Rightarrow> io_match (end_child os old) (\<lambda>r. io_ok (Some r)) w1)"

definition remove_and_kill :: "os \<Rightarrow> component list \<Rightarrow> ('e, (io_error_kind + unit) option) io" where
  "remove_and_kill os data_dir w =
     (case watchers w data_dir of
        None \<Rightarrow> io_ok None w
      | Some old \<Rightarrow>
          io_match (end_child os old) (\<lambda>r. io_ok (Some r)) (w\<lparr>watchers := (watchers w)(data_dir := None)\<rparr>))"

section \<open>Watching and releasing\<close>

definition OPT_OUT_VAR :: string where "OPT_OUT_VAR = ''PG_EMBED_ORPHAN_WATCHER''"

definition watcher_disabled :: "(string \<Rightarrow> string option) \<Rightarrow> bool" where
  "watcher_disabled lookup \<longleftrightarrow> lookup OPT_OUT_VAR = Some ''off''"

definition watch_slot_owner :: "os \<Rightarrow> (string \<Rightarrow> string option) \<Rightarrow> path \<Rightarrow> component list \<Rightarrow> ('e, bool) io" where
  "watch_slot_owner os env dir data_dir =
     (if watcher_disabled env then io_ok False
      else io_match (slot_lock_path dir data_dir) (\<lambda>r.
        case r of
          Inl _ \<Rightarrow> io_ok False
        | Inr None \<Rightarrow> io_ok False
        | Inr (Some lock) \<Rightarrow>
            io_match (k_spawn_watcher os lock (fs_path dir data_dir)) (\<lambda>c.
              case c of
                Inl _ \<Rightarrow> io_ok False
              | Inr child \<Rightarrow> io_bind (register_watcher os data_dir child) (\<lambda>_. io_ok True))))"

definition release_watcher :: "os \<Rightarrow> component list \<Rightarrow> ('e, bool) io" where
  "release_watcher os data_dir = io_bind (remove_and_kill os data_dir) (\<lambda>r. io_ok (r \<noteq> None))"

section \<open>Properties\<close>

lemma issues_end_child:
  "os_quiet os \<Longrightarrow> P (Signal (int c) SIGKILL) \<Longrightarrow> issues P (end_child os c)"
  unfolding end_child_def by (intro issue_rules issues_signal issues_reap)

lemma preserves_end_child:
  assumes "os_framed watchers os"
  shows "preserves watchers (end_child os c)"
proof -
  have "preserves watchers (os_signal os p s)" for p s
    using assms unfolding os_signal_def by (intro preserves_record) (simp_all add: os_framed_def)
  then show ?thesis unfolding end_child_def
    using assms by (intro preserves_match preserves_of) (auto simp: os_framed_def)
qed

lemma issues_release_watcher:
  assumes "os_quiet os" and "\<And>c. P (Signal c SIGKILL)"
  shows "issues P (release_watcher os d)"
proof -
  have "issues P (remove_and_kill os d)" for d
  proof (rule issuesI)
    fix w r w'
    assume a: "remove_and_kill os d w = (r, w')"
    show "\<exists>ops. trace w' = trace w @ ops \<and> list_all P ops"
    proof (cases "watchers w d")
      case None
      then show ?thesis using a by (simp add: remove_and_kill_def io_ok_def)
    next
      case (Some c)
      have "issues P (io_match (end_child os c) (\<lambda>r. io_ok (Some r)))"
        using assms by (intro issue_rules issues_end_child)
      from issuesD [OF this] a Some show ?thesis by (fastforce simp: remove_and_kill_def)
    qed
  qed
  then show ?thesis unfolding release_watcher_def by (intro issue_rules)
qed

text \<open>Releasing ends exactly the registered watcher and forgets it; a second release finds none.\<close>

lemma release_watcher_behaviour:
  assumes "os_framed watchers os" and "os_quiet os"
  shows "case release_watcher os d w of (r, w') \<Rightarrow>
     r = Inr (watchers w d \<noteq> None) \<and> watchers w' = (watchers w)(d := None) \<and>
     trace w' = trace w @ (case watchers w d of None \<Rightarrow> [] | Some c \<Rightarrow> [Signal (int c) SIGKILL])"
proof (cases "watchers w d")
  case None
  then show ?thesis by (auto simp: release_watcher_def remove_and_kill_def io_bind_def io_ok_def)
next
  case (Some c)
  let ?w = "w\<lparr>watchers := (watchers w)(d := None)\<rparr>"
  obtain r w' where e: "end_child os c ?w = (r, w')" by fastforce
  have "watchers w' = watchers ?w" using preservesD [OF preserves_end_child [OF assms(1)] e] .
  moreover have "trace w' = trace w @ [Signal (int c) SIGKILL]"
  proof -
    obtain k w1 where k: "k_kill os (int c) SIGKILL (?w\<lparr>trace := trace ?w @ [Signal (int c) SIGKILL]\<rparr>) = (k, w1)" by fastforce
    obtain k2 w2 where k2: "k_reap os c w1 = (k2, w2)" by fastforce
    have "trace w1 = trace w @ [Signal (int c) SIGKILL]"
      using issuesD [OF issues_kill [OF assms(2)] k, of "\<lambda>_. False"]
      by (auto, metis append_Nil2 list.pred_inject(2) neq_Nil_conv)
    moreover have "trace w2 = trace w1"
      using issuesD [OF issues_reap [OF assms(2)] k2, of "\<lambda>_. False"]
      by (auto, metis list.pred_inject(2) neq_Nil_conv)
    ultimately show ?thesis using e k k2
      by (simp add: end_child_def io_match_def os_signal_def record_op_def io_of_def)
  qed
  ultimately show ?thesis using e Some
    by (simp add: release_watcher_def remove_and_kill_def io_bind_def io_match_def io_ok_def)
qed

end
