(* ===== verification/CleanupHelpers.thy ===== *)
theory CleanupHelpers
  imports StdFs
begin

text \<open>
  \<open>cleanup_helpers.rs\<close>: guarded removal of directory trees, as on Unix (no path prefixes). A path is
  its list of components; \<open>dir\<close> is the working directory relative paths are taken from.
\<close>

datatype removal_outcome = Removed | RemovalMissing

definition has_parent_dir :: "component list \<Rightarrow> bool" where
  "has_parent_dir cs \<longleftrightarrow> list_ex (\<lambda>c. c = ParentDir) cs"

definition is_empty_or_root :: "component list \<Rightarrow> bool" where
  "is_empty_or_root cs =
     (case cs of
        [] \<Rightarrow> True
      | CurDir # rest \<Rightarrow> rest = []
      | RootDir # rest \<Rightarrow> rest = []
      | _ \<Rightarrow> False)"

definition guard_removal_path :: "component list \<Rightarrow> io_error_kind + unit" where
  "guard_removal_path cs = (if is_empty_or_root cs \<or> has_parent_dir cs then Inl InvalidInput else Inr ())"

definition try_remove_dir_all :: "path \<Rightarrow> component list \<Rightarrow> removal_outcome fs" where
  "try_remove_dir_all dir cs =
     io_bind (io_of (guard_removal_path cs)) (\<lambda>_.
       io_match (remove_dir_all (fs_path dir cs)) (\<lambda>r.
         case r of
           Inr () \<Rightarrow> io_ok Removed
         | Inl e \<Rightarrow> if e = NotFound then io_ok RemovalMissing else io_err e))"

section \<open>The guard\<close>

lemma parse_component_cases:
  "c \<in> set (List.map_filter parse_component ps) \<Longrightarrow> c = ParentDir \<or> (\<exists>n. c = Normal n)"
  by (auto simp: List.map_filter_def parse_component_def split: if_splits)

lemma path_components_shape:
  "\<exists>hd rest. path_components s = hd @ rest \<and> hd \<in> {[], [RootDir], [CurDir]} \<and>
     list_all (\<lambda>c. c = ParentDir \<or> (\<exists>n. c = Normal n)) rest"
proof -
  let ?r = "List.map_filter parse_component (split_on (CHR ''/'') s)"
  have "list_all (\<lambda>c. c = ParentDir \<or> (\<exists>n. c = Normal n)) ?r"
    using parse_component_cases by (fastforce simp: list_all_iff)
  then show ?thesis
    by (cases "s = []"; cases "hd s = CHR ''/''")
      (auto simp: path_components_def Let_def intro: exI [of _ "[]"] exI [of _ "[RootDir]"] exI [of _ "[CurDir]"])
qed

lemma named_components:
  "list_all (\<lambda>c. c = ParentDir \<or> (\<exists>n. c = Normal n)) rest \<Longrightarrow>
   List.map_filter component_name rest = map (\<lambda>c. case c of Normal n \<Rightarrow> n | _ \<Rightarrow> ''..'') rest"
  by (induction rest) (auto simp: List.map_filter_simps component_name_def)

lemma guard_removal_path_iff:
  "guard_removal_path (path_components s) = Inr () \<longleftrightarrow> path_names s \<noteq> [] \<and> ''..'' \<notin> set (path_names s)"
proof -
  obtain h rest where c: "path_components s = h @ rest" "h \<in> {[], [RootDir], [CurDir]}"
    and r: "list_all (\<lambda>c. c = ParentDir \<or> (\<exists>n. c = Normal n)) rest"
    using path_components_shape by blast
  have plain: "n \<noteq> ''..''" if "Normal n \<in> set rest" for n
    using path_components_Normal_plain [of n s] that c by (auto simp: plain_name_def)
  have names: "path_names s = map (\<lambda>c. case c of Normal n \<Rightarrow> n | _ \<Rightarrow> ''..'') rest"
    using c named_components [OF r] by (auto simp: path_names_def List.map_filter_simps component_name_def)
  have "is_empty_or_root (path_components s) \<longleftrightarrow> rest = []"
    using c r by (cases rest) (auto simp: is_empty_or_root_def)
  moreover have "has_parent_dir (path_components s) \<longleftrightarrow> ''..'' \<in> set (path_names s)"
    using c r plain by (force simp: has_parent_dir_def names list_ex_iff list_all_iff)
  ultimately show ?thesis using names by (simp add: guard_removal_path_def)
qed

section \<open>Guarded removal\<close>

lemma trace_remove_dir_all: "trace (snd (remove_dir_all p w)) = trace w @ [RemoveTree p]"
proof -
  have quiet: "trace (snd (m w1)) = trace w1" if "issues (\<lambda>_. False) m" for m :: "unit fs" and w1
    using that unfolding issues_def by (metis (no_types, lifting) append_Nil2 list.pred_inject(2) neq_Nil_conv)
  show ?thesis
    unfolding remove_dir_all_def record_op_def
    by (subst quiet) (auto intro!: issue_rules issues_remove_tree split: sum.splits option.splits)
qed

lemma issues_try_remove_dir_all [issue_rules]:
  assumes "guard_removal_path cs = Inr () \<Longrightarrow> P (RemoveTree (fs_path dir cs))"
  shows "issues P (try_remove_dir_all dir cs)"
proof (cases "guard_removal_path cs")
  case (Inl e)
  then show ?thesis by (simp add: try_remove_dir_all_def io_bind_def io_of_def issues_def)
next
  case (Inr u)
  then show ?thesis using assms unfolding try_remove_dir_all_def
    by (intro issue_rules) (auto intro!: issue_rules split: unit.splits)
qed

text \<open>
  removal never reaches a root. \<open>try_remove_dir_all\<close> refuses, without touching anything, exactly
  the paths that name nothing below their base (the empty path, \<open>.\<close>, \<open>/\<close>) or go upward; for every other
  path the one tree-changing call it issues removes a tree named by plain components strictly
  below the file system root or the working directory.
\<close>

theorem guarded_removal:
  "if path_names s = [] \<or> ''..'' \<in> set (path_names s)
   then try_remove_dir_all (cwd w) (path_components s) w = (Inl InvalidInput, w)
   else trace (snd (try_remove_dir_all (cwd w) (path_components s) w)) = trace w @ [RemoveTree (abs_path w s)] \<and>
        (\<exists>base. abs_path w s = base @ path_names s \<and> strict_prefix base (abs_path w s) \<and>
                (base = [] \<or> base = cwd w))"
proof (cases "path_names s = [] \<or> ''..'' \<in> set (path_names s)")
  case True
  then have "guard_removal_path (path_components s) = Inl InvalidInput"
    using guard_removal_path_iff [of s] by (auto simp: guard_removal_path_def split: if_splits)
  then show ?thesis using True by (simp add: try_remove_dir_all_def io_bind_def io_of_def)
next
  case False
  then have g: "guard_removal_path (path_components s) = Inr ()" using guard_removal_path_iff by blast
  obtain r w1 where rd: "remove_dir_all (abs_path w s) w = (r, w1)" by fastforce
  have "snd (try_remove_dir_all (cwd w) (path_components s) w) = w1"
    using g rd by (simp add: try_remove_dir_all_def io_bind_def io_of_def io_match_def io_ok_def io_err_def
        abs_path_fs_path split: sum.splits unit.splits)
  then have "trace (snd (try_remove_dir_all (cwd w) (path_components s) w)) = trace w @ [RemoveTree (abs_path w s)]"
    using rd trace_remove_dir_all [of "abs_path w s" w] by simp
  then show ?thesis using False
    by (auto simp: abs_path_def strict_prefix_def intro: exI [of _ "if prefix ''/'' s then [] else cwd w"])
qed

end
