(* ===== verification/ClusterSettings.thy ===== *)
theory ClusterSettings
  imports StdFs
begin

text \<open>
  \<open>postgresql_embedded::Settings\<close>, as far as the sources read or write it. Paths and texts are byte
  strings, a version requirement is its text, a timeout is in milliseconds; \<open>configuration\<close> is the map of
  server settings.
\<close>

record settings =
  s_releases_url :: string
  s_version :: string
  s_installation_dir :: string
  s_password_file :: string
  s_data_dir :: string
  s_host :: string
  s_port :: nat
  s_username :: string
  s_password :: string
  s_temporary :: bool
  s_timeout :: "nat option"
  s_configuration :: "string \<rightharpoonup> string"
  s_trust_installation_dir :: bool
  s_socket_dir :: "string option"

text \<open>Ordinary settings, for examples.\<close>

definition demo_settings :: settings where
  "demo_settings = \<lparr>s_releases_url = [], s_version = [], s_installation_dir = ''/pg/install'',
     s_password_file = ''/pg/install/sub/.pgpass'', s_data_dir = ''/pg/data/7-1-0'', s_host = ''localhost'', s_port = 5432,
     s_username = ''postgres'', s_password = [], s_temporary = False, s_timeout = None, s_configuration = Map.empty,
     s_trust_installation_dir = False, s_socket_dir = None\<rparr>"

end
