(* ===== verification/ClusterCleanup.thy ===== *)
theory ClusterCleanup
  imports OrphanWatch CleanupHelpers ClusterSettings
begin

text \<open>
  What a stopped cluster leaves behind: \<open>cluster/cleanup.rs\<close> in the test process and
  \<open>bin/pg_worker\<close> (\<open>cleanup.rs\<close>, \<open>removal.rs\<close>) in the privileged worker, with the operations the two agree on
  (\<open>cluster/worker_operation.rs\<close>). \<open>dir\<close> is the working directory; failures of a removal are logged by the
  one and collected by the other.
\<close>

section \<open>Operations of the test process\<close>

datatype cleanup_mode = DataOnly | Full | NoCleanup

datatype worker_operation = Setup | Start | Stop | Cleanup | CleanupFull

fun worker_operation_as_str :: "worker_operation \<Rightarrow> string" where
  "worker_operation_as_str Setup = ''setup''"
| "worker_operation_as_str Start = ''start''"
| "worker_operation_as_str Stop = ''stop''"
| "worker_operation_as_str Cleanup = ''cleanup''"
| "worker_operation_as_str CleanupFull = ''cleanup-full''"

record cleanup_plan =
  plan_mode :: cleanup_mode
  plan_guard :: "path option"

definition should_remove_data :: "cleanup_mode \<Rightarrow> bool" where
  "should_remove_data m \<longleftrightarrow> m = DataOnly \<or> m = Full"

definition should_remove_install :: "cleanup_mode \<Rightarrow> bool" where
  "should_remove_install m \<longleftrightarrow> m = Full"

fun cleanup_operation :: "cleanup_mode \<Rightarrow> worker_operation option" where
  "cleanup_operation DataOnly = Some Cleanup"
| "cleanup_operation Full = Some CleanupFull"
| "cleanup_operation NoCleanup = None"

definition should_remove_install_root :: "component list \<Rightarrow> settings \<Rightarrow> bool" where
  "should_remove_install_root parent st \<longleftrightarrow>
     parent \<noteq> path_components (s_installation_dir st) \<and> \<not> has_parent_dir parent \<and>
     prefix (path_components (s_installation_dir st)) parent"

definition is_dangerous_cleanup_path :: "component list \<Rightarrow> bool" where
  "is_dangerous_cleanup_path cs \<longleftrightarrow> cs = [] \<or> (is_absolute cs \<and> path_parent cs = None)"

definition remove_dir_all_if_exists :: "path \<Rightarrow> component list \<Rightarrow> (bootstrap_error, unit) io" where
  "remove_dir_all_if_exists dir cs =
     (if is_dangerous_cleanup_path cs then io_ok ()
      else io_match (try_remove_dir_all dir cs) (\<lambda>_. io_ok ()))"

definition plan_for_unslotted :: "fs4_crate \<Rightarrow> path \<Rightarrow> settings \<Rightarrow> (bootstrap_error, cleanup_plan) io" where
  "plan_for_unslotted fs4 dir st =
     (case derived_slot_parent (path_components (s_installation_dir st)) of
        None \<Rightarrow> io_ok \<lparr>plan_mode = Full, plan_guard = None\<rparr>
      | Some parent \<Rightarrow>
          if parent = path_components (s_data_dir st) then io_ok \<lparr>plan_mode = Full, plan_guard = None\<rparr>
          else io_match (claim_guard_at fs4 dir parent) (\<lambda>r.
            case r of
              Inl _ \<Rightarrow> io_ok \<lparr>plan_mode = DataOnly, plan_guard = None\<rparr>
            | Inr guard \<Rightarrow>
                io_bind (has_live_slots_in fs4 dir parent) (\<lambda>live.
                  io_ok (if live then \<lparr>plan_mode = DataOnly, plan_guard = None\<rparr>
                         else \<lparr>plan_mode = Full, plan_guard = Some guard\<rparr>))))"

definition plan_cleanup :: "fs4_crate \<Rightarrow> path \<Rightarrow> cleanup_mode \<Rightarrow> settings \<Rightarrow> (bootstrap_error, cleanup_plan) io" where
  "plan_cleanup fs4 dir requested st =
     (if requested \<noteq> Full then io_ok \<lparr>plan_mode = requested, plan_guard = None\<rparr>
      else io_bind (claim_guard_for fs4 dir (path_components (s_data_dir st))) (\<lambda>g.
        case g of
          None \<Rightarrow> plan_for_unslotted fs4 dir st
        | Some (Inl _) \<Rightarrow> io_ok \<lparr>plan_mode = DataOnly, plan_guard = None\<rparr>
        | Some (Inr guard) \<Rightarrow>
            io_bind (has_live_peers fs4 dir (path_components (s_data_dir st))) (\<lambda>live.
              io_ok (if live then \<lparr>plan_mode = DataOnly, plan_guard = None\<rparr>
                     else \<lparr>plan_mode = requested, plan_guard = Some guard\<rparr>))))"

definition cleanup_data_dir :: "path \<Rightarrow> cleanup_mode \<Rightarrow> settings \<Rightarrow> (bootstrap_error, unit) io" where
  "cleanup_data_dir dir m st =
     (if should_remove_data m then remove_dir_all_if_exists dir (path_components (s_data_dir st)) else io_ok ())"

definition cleanup_install_dir :: "path \<Rightarrow> cleanup_mode \<Rightarrow> settings \<Rightarrow> (bootstrap_error, unit) io" where
  "cleanup_install_dir dir m st =
     (if \<not> should_remove_install m then io_ok ()
      else io_bind (remove_dir_all_if_exists dir (path_components (s_installation_dir st))) (\<lambda>_.
        case path_parent (path_components (s_password_file st)) of
          None \<Rightarrow> io_ok ()
        | Some parent \<Rightarrow>
            if should_remove_install_root parent st then remove_dir_all_if_exists dir parent else io_ok ()))"

text \<open>The two removals of a cleanup whose mode is settled, and the whole cleanup.\<close>

definition cleanup_directories :: "path \<Rightarrow> cleanup_mode \<Rightarrow> settings \<Rightarrow> (bootstrap_error, unit) io" where
  "cleanup_directories dir m st =
     io_bind (cleanup_data_dir dir m st) (\<lambda>_. cleanup_install_dir dir m st)"

definition cleanup_in_process ::
  "fs4_crate \<Rightarrow> os \<Rightarrow> cleanup_mode \<Rightarrow> settings \<Rightarrow> (bootstrap_error, unit) io" where
  "cleanup_in_process fs4 os requested st w =
     (let dir = cwd w in
      io_bind (release_watcher os (path_components (s_data_dir st))) (\<lambda>_.
      io_bind (plan_cleanup fs4 dir requested st) (\<lambda>plan.
        if plan_mode plan = NoCleanup then io_ok ()
        else cleanup_directories dir (plan_mode plan) st)) w)"

section \<open>The worker's cleanup\<close>

text \<open>\<open>removal.rs\<close> and \<open>cleanup.rs\<close>: the labels of the directories that could not be removed.\<close>

datatype worker_error =
    InvalidArgs | ConfigRead | ConfigParse | SettingsConversion | RuntimeInit | PostgresOperation
  | CleanupFailed "string list" | DataDirRecovery

definition collect_removal_error :: "path \<Rightarrow> component list \<Rightarrow> string \<Rightarrow> string list \<Rightarrow> (worker_error, string list) io" where
  "collect_removal_error dir cs label failures =
     io_match (try_remove_dir_all dir cs) (\<lambda>r.
       io_ok (case r of Inr _ \<Rightarrow> failures | Inl _ \<Rightarrow> failures @ [label]))"

definition execute_cleanup ::
  "path \<Rightarrow> component list \<Rightarrow> component list option \<Rightarrow> component list option \<Rightarrow> (worker_error, unit) io" where
  "execute_cleanup dir data_dir install_dir install_root =
     io_bind (collect_removal_error dir data_dir ''data'' []) (\<lambda>f1.
     io_bind (case install_dir of None \<Rightarrow> io_ok f1 | Some p \<Rightarrow> collect_removal_error dir p ''installation'' f1) (\<lambda>f2.
     io_bind (case install_root of
                None \<Rightarrow> io_ok f2
              | Some p \<Rightarrow>
                  if install_dir = Some p then io_ok f2
                  else collect_removal_error dir p ''installation-root'' f2) (\<lambda>f3.
       if f3 = [] then io_ok () else io_err (CleanupFailed f3))))"

definition extract_utf8 :: "string \<Rightarrow> worker_error + component list" where
  "extract_utf8 s = (if is_utf8 s then Inr (path_components s) else Inl SettingsConversion)"

definition extract_install_root :: "settings \<Rightarrow> component list \<Rightarrow> worker_error + component list option" where
  "extract_install_root st install_dir =
     res_bind (extract_utf8 (s_password_file st)) (\<lambda>pgpass.
       Inr (case path_parent pgpass of
              None \<Rightarrow> None
            | Some parent \<Rightarrow>
                if parent = [] \<or> parent = [RootDir] then None
                else if parent = install_dir then None
                else if list_ex (\<lambda>c. c = ParentDir) parent then None
                else if \<not> prefix install_dir parent then None
                else Some parent))"

text \<open>The cleanup operations of \<open>run_worker\<close>, on settings that were read from the payload.\<close>

definition run_cleanup :: "path \<Rightarrow> worker_operation \<Rightarrow> settings \<Rightarrow> (worker_error, unit) io" where
  "run_cleanup dir oper st =
     io_bind (io_of (extract_utf8 (s_data_dir st))) (\<lambda>data_dir.
       if oper = CleanupFull then
         io_bind (io_of (extract_utf8 (s_installation_dir st))) (\<lambda>install_dir.
         io_bind (io_of (extract_install_root st install_dir)) (\<lambda>install_root.
           execute_cleanup dir data_dir (Some install_dir) install_root))
       else execute_cleanup dir data_dir None None)"

section \<open>The worker removes what the test process would\<close>

text \<open>Paths as \<open>Path::components\<close> gives them, and their parents.\<close>

definition path_shaped :: "component list \<Rightarrow> bool" where
  "path_shaped cs \<longleftrightarrow> RootDir \<notin> set (tl cs)"

lemma path_components_shaped: "path_shaped (path_components s)"
proof -
  obtain h rest where c: "path_components s = h @ rest" "h \<in> {[], [RootDir], [CurDir]}"
    and r: "list_all (\<lambda>c. c = ParentDir \<or> (\<exists>n. c = Normal n)) rest"
    using path_components_shape by blast
  from r have "RootDir \<notin> set rest" by (auto simp: list_all_iff)
  then have "RootDir \<notin> set (tl rest)" by (cases rest) auto
  then show ?thesis using c \<open>RootDir \<notin> set rest\<close> by (auto simp: path_shaped_def)
qed

lemma path_parent_shaped: "path_shaped cs \<Longrightarrow> path_parent cs = Some p \<Longrightarrow> path_shaped p"
  by (cases cs) (auto simp: path_parent_def path_shaped_def split: if_splits dest: in_set_butlastD)

lemma dangerous_refused:
  assumes "path_shaped cs" and "is_dangerous_cleanup_path cs"
  shows "guard_removal_path cs = Inl InvalidInput"
proof -
  have "cs = [] \<or> cs = [RootDir]"
    using assms
    by (cases cs) (auto simp: is_dangerous_cleanup_path_def path_parent_def path_shaped_def is_absolute_def
        split: component.splits if_splits dest: last_in_set)
  then show ?thesis by (auto simp: guard_removal_path_def is_empty_or_root_def)
qed

lemma snd_remove_dir_all_if_exists:
  assumes "path_shaped cs"
  shows "snd (remove_dir_all_if_exists dir cs w) = snd (try_remove_dir_all dir cs w)"
  using dangerous_refused [OF assms]
  by (auto simp: remove_dir_all_if_exists_def io_match_def io_ok_def split_beta try_remove_dir_all_def io_bind_def io_of_def)

lemma remove_dir_all_if_exists_ok: "fst (remove_dir_all_if_exists dir cs w) = Inr ()"
  by (simp add: remove_dir_all_if_exists_def io_match_def io_ok_def split_beta)

lemma collect_removal_error_run:
  "collect_removal_error dir cs l f w =
     (Inr (case fst (try_remove_dir_all dir cs w) of Inr _ \<Rightarrow> f | Inl _ \<Rightarrow> f @ [l]), snd (try_remove_dir_all dir cs w))"
  by (simp add: collect_removal_error_def io_match_def io_ok_def split_beta)

lemma snd_bind_ok: "fst (m w) = Inr x \<Longrightarrow> snd (io_bind m f w) = snd (f x (snd (m w)))"
  by (cases "m w") (auto simp: io_bind_def)

text \<open>
  C15: the privileged worker and the test process agree. For settings whose paths are UTF-8, the
  worker's cleanup operation for a mode changes the world exactly as the in-process cleanup in that
  mode does: the same trees, in the same order, with the same refusals, although the two decide
  separately which directories a full cleanup covers.
\<close>

theorem worker_cleanup_agrees:
  assumes "cleanup_operation m = Some oper"
    and "is_utf8 (s_data_dir st)" and "is_utf8 (s_installation_dir st)" and "is_utf8 (s_password_file st)"
  shows "snd (run_cleanup dir oper st w) = snd (cleanup_directories dir m st w)"
proof -
  let ?d = "path_components (s_data_dir st)" and ?i = "path_components (s_installation_dir st)"
    and ?p = "path_components (s_password_file st)"
  let ?w1 = "snd (try_remove_dir_all dir ?d w)"
  let ?w2 = "snd (try_remove_dir_all dir ?i ?w1)"
  note rm = snd_remove_dir_all_if_exists [OF path_components_shaped] remove_dir_all_if_exists_ok
  note snd = snd_bind_ok [OF remove_dir_all_if_exists_ok]
  have data: "should_remove_data m" using assms(1) by (cases m) (simp_all add: should_remove_data_def)
  have utf: "extract_utf8 (s_data_dir st) = Inr ?d" "extract_utf8 (s_installation_dir st) = Inr ?i"
    "extract_utf8 (s_password_file st) = Inr ?p" using assms(2-4) by (simp_all add: extract_utf8_def)
  show ?thesis
  proof (cases m)
    case DataOnly
    then have "oper = Cleanup" using assms(1) by simp
    then show ?thesis using utf data DataOnly rm
      by (simp add: run_cleanup_def execute_cleanup_def cleanup_directories_def cleanup_data_dir_def cleanup_install_dir_def
          should_remove_install_def snd io_bind_def io_of_def collect_removal_error_run io_ok_def io_err_def split_beta
          split: sum.split)
  next
    case Full
    then have oper: "oper = CleanupFull" using assms(1) by simp
    have "snd (cleanup_directories dir m st w) =
        (case path_parent ?p of None \<Rightarrow> ?w2 | Some r \<Rightarrow>
           if should_remove_install_root r st then snd (try_remove_dir_all dir r ?w2) else ?w2)"
      using data Full path_parent_shaped [OF path_components_shaped]
      by (auto simp: cleanup_directories_def cleanup_data_dir_def cleanup_install_dir_def should_remove_install_def
          snd rm snd_remove_dir_all_if_exists io_ok_def split: option.split)
    moreover have "snd (run_cleanup dir oper st w) =
        (case path_parent ?p of None \<Rightarrow> ?w2 | Some r \<Rightarrow>
           if r \<noteq> [] \<and> r \<noteq> [RootDir] \<and> should_remove_install_root r st then snd (try_remove_dir_all dir r ?w2) else ?w2)"
      using oper utf
      by (auto simp: run_cleanup_def execute_cleanup_def extract_install_root_def res_bind_def io_bind_def io_of_def
          collect_removal_error_run io_ok_def io_err_def should_remove_install_root_def has_parent_dir_def
          split: option.splits sum.splits)
    moreover have "snd (try_remove_dir_all dir r v) = v" if "r = [] \<or> r = [RootDir]" for r v
      using that by (auto simp: try_remove_dir_all_def guard_removal_path_def is_empty_or_root_def io_bind_def io_of_def)
    ultimately show ?thesis by (auto split: option.split)
  qed (use assms(1) in simp)
qed

text \<open>The hypotheses are met by ordinary settings; here the worker removes all three directories.\<close>

theorem worker_cleanup_agrees_witness:
  "snd (run_cleanup [] CleanupFull demo_settings (slots_world [])) = snd (cleanup_directories [] Full demo_settings (slots_world [])) \<and>
   trace (snd (cleanup_directories [] Full demo_settings (slots_world []))) =
     [RemoveTree [''pg'', ''data'', ''7-1-0''], RemoveTree [''pg'', ''install''], RemoveTree [''pg'', ''install'', ''sub'']]"
proof
  show "snd (run_cleanup [] CleanupFull demo_settings (slots_world [])) = snd (cleanup_directories [] Full demo_settings (slots_world []))"
  proof (rule worker_cleanup_agrees)
    show "is_utf8 (s_data_dir demo_settings)" "is_utf8 (s_installation_dir demo_settings)"
      "is_utf8 (s_password_file demo_settings)" by code_simp+
  qed simp
  show "trace (snd (cleanup_directories [] Full demo_settings (slots_world []))) =
     [RemoveTree [''pg'', ''data'', ''7-1-0''], RemoveTree [''pg'', ''install''], RemoveTree [''pg'', ''install'', ''sub'']]"
    by code_simp
qed

section \<open>A shared install tree is kept\<close>

text \<open>Filling an absent place hides nothing that was there.\<close>

lemma put_absent_keeps:
  assumes "node_at r q = None" and "node_at r x \<noteq> None"
  shows "same_shape (node_at r x) (node_at (put_at r q v) x)"
proof -
  consider "x = q" | "strict_prefix x q" | "strict_prefix q x" | "\<not> prefix q x \<and> \<not> prefix x q"
    by (auto simp: strict_prefix_def)
  then show ?thesis
  proof cases
    case 2
    then show ?thesis by (rule node_at_put_above)
  next
    case 3
    then obtain y ys where "x = q @ y # ys" by (auto elim!: strict_prefixE')
    then show ?thesis using assms by (simp add: node_at_append)
  next
    case 4
    then show ?thesis using node_at_put_other [of q x r v] by simp
  qed (use assms in simp)
qed

lemma open_write_root:
  assumes "open_write False m p w = (r, w')"
  shows "root w' = root w \<or> (\<exists>q a. resolve True (root w) p = Inr q \<and> node_at (root w) q = None \<and>
    root w' = put_at (root w) q (Some (File a [])))"
  using assms
  by (auto simp: open_write_def record_op_def syscall_def Let_def set_root_def
      split: option.splits sum.splits node.splits if_splits)

text \<open>
  What a cluster sees of a slot parent: where the parent is, that its own lock file is there, and
  that a peer's is. Taking the claim guard does not change it.
\<close>

definition sees_peer :: "path \<Rightarrow> string \<Rightarrow> string \<Rightarrow> node \<Rightarrow> bool" where
  "sees_peer parent own m r \<longleftrightarrow>
     (\<exists>q. resolve True r parent = Inr q \<and> (\<exists>a cs. node_at r q = Some (Dir a cs)) \<and>
          node_at r (q @ [m @ LOCK_SUFFIX]) \<noteq> None) \<and>
     (\<exists>q a bs. resolve True r (parent @ [own @ LOCK_SUFFIX]) = Inr q \<and> node_at r q = Some (File a bs))"

lemma sees_peer_open_write:
  assumes "sees_peer parent own m (root w)" and "open_write False k p w = (r, w')"
  shows "sees_peer parent own m (root w')"
proof (cases "root w' = root w")
  case False
  then obtain q a where q: "resolve True (root w) p = Inr q" "node_at (root w) q = None"
    and r: "root w' = put_at (root w) q (Some (File a []))" using open_write_root [OF assms(2)] by blast
  obtain qp b cs ql c bs where s: "resolve True (root w) parent = Inr qp" "node_at (root w) qp = Some (Dir b cs)"
    "node_at (root w) (qp @ [m @ LOCK_SUFFIX]) \<noteq> None"
    "resolve True (root w) (parent @ [own @ LOCK_SUFFIX]) = Inr ql" "node_at (root w) ql = Some (File c bs)"
    using assms(1) unfolding sees_peer_def by blast
  have "dir_root w" using s(2) by (cases "root w"; cases qp) (auto simp: dir_root_def)
  then have "\<exists>a cs. node_at (root w) (butlast q) = Some (Dir a cs)" using q(1) by (rule resolve_parent)
  moreover have "q \<noteq> []" using q(2) by (cases q) auto
  ultimately have "keeps_names (root w) (root w')" unfolding r using q(2) by (intro keeps_names_put_file) auto
  note k = resolve_keeps_names [OF this]
  note same = put_absent_keeps [OF q(2), of _ "Some (File a [])", folded r]
  have "\<exists>a cs. node_at (root w') qp = Some (Dir a cs)" using same [of qp] s(2) by (auto elim!: same_shape.elims)
  moreover have "node_at (root w') (qp @ [m @ LOCK_SUFFIX]) \<noteq> None"
    using same [of "qp @ [m @ LOCK_SUFFIX]"] s(3) by (auto elim!: same_shape.elims)
  moreover have "node_at (root w') ql = Some (File c bs)" using same [of ql] s(5) by (auto elim!: same_shape.elims)
  ultimately show ?thesis unfolding sees_peer_def using k [OF s(1)] k [OF s(4)] by blast
qed (use assms in simp)

lemma slot_lookup_sees_peer:
  assumes "sees_peer (fs_path dir parent) own m (root w)" and "is_utf8 own"
    and "slot_lookup dir (parent @ [Normal own]) w = (r, w')"
  shows "r \<in> {Inr (Slot parent), Inr UnknownSlot} \<and> root w' = root w"
proof -
  have "path_file_name (parent @ [Normal own]) = Some own" by (simp add: path_file_name_Some)
  then show ?thesis using assms
    by (auto simp: slot_lookup_def sees_peer_def metadata_def syscall_def stat_node_def io_match_def io_ok_def Let_def
        fault_error_def split: option.splits sum.splits if_splits)
qed

lemma guard_acquire_sees_peer:
  assumes "fs4_quiet fs4" and "sees_peer parent own m (root w)" and "guard_acquire fs4 q w = (r, w')"
  shows "sees_peer parent own m (root w')"
proof -
  obtain h w1 where o: "open_write False 438 (q @ [CLAIM_GUARD]) w = (h, w1)" by fastforce
  have "root w' = root w1" using assms(1,3) o unfolding fs4_quiet_def
    by (auto simp: guard_acquire_def io_bind_def io_ok_def split: sum.splits prod.splits) (metis snd_conv)+
  then show ?thesis using sees_peer_open_write [OF assms(2) o] by simp
qed

lemma read_dir_sees_peer:
  assumes "sees_peer parent own m (root w)" and "read_dir parent w = (Inr cs, w1)"
  shows "m @ LOCK_SUFFIX \<in> fst ` set cs"
proof -
  obtain q a where "resolve True (root w) parent = Inr q" "node_at (root w) q = Some (Dir a cs)"
    using assms(2)
    by (auto simp: read_dir_def syscall_def Let_def stat_node_def split: option.splits sum.splits node.splits)
  then have "map_of cs (m @ LOCK_SUFFIX) \<noteq> None"
    using assms(1) by (auto simp: sees_peer_def node_at_append split: option.splits)
  then show ?thesis by (simp add: map_of_eq_None_iff)
qed

lemma plan_keeps_install:
  assumes "fs4_quiet fs4" and "is_utf8 own" and "path_components (s_data_dir st) = parent @ [Normal own]"
    and "sees_peer (fs_path dir parent) own m (root w)" and "live_slot fs4 (fs_path dir parent) m"
    and "is_utf8 (m @ LOCK_SUFFIX)" and "m \<noteq> []" and "m \<noteq> own"
    and "plan_cleanup fs4 dir requested st w = (Inr plan, w')"
  shows "plan_mode plan \<noteq> Full"
proof (cases "requested = Full")
  case True
  obtain l w1 where l: "(slot_lookup dir (parent @ [Normal own]) :: (bootstrap_error, _) io) w = (l, w1)" by fastforce
  note sl = slot_lookup_sees_peer [OF assms(4,2) l]
  have held: "fst (has_live_peers fs4 dir (parent @ [Normal own]) v) = Inr True"
    if v: "sees_peer (fs_path dir parent) own m (root v)" for v
  proof -
    obtain k v1 where k: "(slot_lookup dir (parent @ [Normal own]) :: (bootstrap_error, _) io) v = (k, v1)" by fastforce
    note s = slot_lookup_sees_peer [OF v assms(2) k]
    have "fst (any_slot_held fs4 (fs_path dir parent) (Some own) v1) = Inr True"
      using assms(5-8) read_dir_sees_peer [of _ own m v1] v s by (intro any_slot_held_live) auto
    then show ?thesis using k s assms(2)
      by (auto simp: has_live_peers_def io_bind_def io_ok_def)
  qed
  show ?thesis
  proof (cases "l = Inr (Slot parent)")
    case False
    then show ?thesis using assms(9) True l sl
      by (auto simp: plan_cleanup_def claim_guard_for_def assms(3) io_bind_def io_ok_def)
  next
    case slot: True
    obtain g w2 where g: "guard_acquire fs4 (fs_path dir parent) w1 = (g, w2)" by fastforce
    have "sees_peer (fs_path dir parent) own m (root w2)"
      using guard_acquire_sees_peer [OF assms(1) _ g] sl assms(4) by simp
    from held [OF this] obtain w3 where h: "has_live_peers fs4 dir (parent @ [Normal own]) w2 = (Inr True, w3)"
      by (metis prod.collapse)
    show ?thesis using assms(9) True l slot g h
      by (cases g) (auto simp: plan_cleanup_def claim_guard_for_def assms(3) io_bind_def io_ok_def io_match_def)
  qed
qed (use assms(9) in \<open>auto simp: plan_cleanup_def io_ok_def\<close>)

lemma issues_slot_lookup: "issues P (slot_lookup dir d)"
  unfolding slot_lookup_def by (auto intro!: issue_rules split: option.splits)

lemma issues_any_entry_held: "fs4_quiet fs4 \<Longrightarrow> issues P (any_entry_held fs4 p own es)"
  by (induction es) (auto intro!: issue_rules issues_fs4 simp: is_lock_free_def split: prod.splits option.splits)

lemma issues_has_live_peers: "fs4_quiet fs4 \<Longrightarrow> issues P (has_live_peers fs4 dir d)"
  unfolding has_live_peers_def any_slot_held_def
  by (auto intro!: issue_rules issues_slot_lookup issues_any_entry_held split: slot_lookup.splits)

lemma issues_plan_cleanup:
  assumes "fs4_quiet fs4" and "P (OpenWrite (fs_path dir parent @ [CLAIM_GUARD]))"
    and st: "path_components (s_data_dir st) = parent @ [Normal own]" and "is_utf8 own"
    and "sees_peer (fs_path dir parent) own m (root w)" and run: "plan_cleanup fs4 dir requested st w = (r, w')"
  shows "\<exists>ops. trace w' = trace w @ ops \<and> list_all P ops"
proof (cases "requested = Full")
  case True
  let ?dataonly = "io_ok \<lparr>plan_mode = DataOnly, plan_guard = None\<rparr> :: (bootstrap_error, cleanup_plan) io"
  let ?guarded = "io_match (guard_acquire fs4 (fs_path dir parent)) (\<lambda>g. case g of Inl _ \<Rightarrow> ?dataonly
      | Inr guard \<Rightarrow> io_bind (has_live_peers fs4 dir (parent @ [Normal own])) (\<lambda>live.
          io_ok (if live then \<lparr>plan_mode = DataOnly, plan_guard = None\<rparr> else \<lparr>plan_mode = Full, plan_guard = Some guard\<rparr>)))"
  obtain l w1 where l: "(slot_lookup dir (parent @ [Normal own]) :: (bootstrap_error, _) io) w = (l, w1)" by fastforce
  note sl = slot_lookup_sees_peer [OF assms(5,4) l]
  obtain o1 where o1: "trace w1 = trace w @ o1" "list_all P o1" using issuesD [OF issues_slot_lookup l] by blast
  have "issues P ?guarded" unfolding guard_acquire_def
    using assms(1,2) by (intro issue_rules issues_fs4 issues_has_live_peers)
  moreover have "(if l = Inr (Slot parent) then ?guarded else ?dataonly) w1 = (r, w')"
    using run True l sl st
    by (auto simp: plan_cleanup_def claim_guard_for_def io_bind_def io_ok_def io_match_def split: prod.splits sum.splits)
  ultimately obtain o2 where "trace w' = trace w1 @ o2" "list_all P o2"
    using issuesD [OF issues_if [OF _ issues_ok], of "l = Inr (Slot parent)" P ?guarded] by blast
  then show ?thesis using o1 by (intro exI [of _ "o1 @ o2"]) simp
qed (use run in \<open>auto simp: plan_cleanup_def io_ok_def\<close>)

lemma preserves_release_watcher:
  assumes "os_framed F os" and "\<And>w x. F (w\<lparr>trace := x\<rparr>) = F w" and "\<And>w x. F (w\<lparr>watchers := x\<rparr>) = F w"
  shows "preserves F (release_watcher os d :: ('e, bool) io)"
proof -
  have "F (snd (os_signal os p s w)) = F w" for p s w
    using assms(1,2) unfolding os_signal_def record_op_def os_framed_def preserves_def by simp
  then have "preserves F (end_child os c)" for c
    unfolding end_child_def using assms(1)
    by (intro preserves_match preserves_of) (auto simp: os_framed_def preserves_def)
  then have "F (snd ((remove_and_kill os d :: ('e, _) io) w)) = F w" for w
    using assms(3) by (auto simp: remove_and_kill_def io_ok_def io_match_def preserves_def split_beta split: option.split)
  then have "preserves F (remove_and_kill os d :: ('e, _) io)" by (simp add: preserves_def)
  then show ?thesis unfolding release_watcher_def by (intro frame_rules)
qed

text \<open>
  C4: a running cluster keeps its binaries. When a cluster in a slot of its own is cleaned up, in
  whatever mode and however calls fail on the way, while the slot parent also holds the lock file of
  another slot whose lock is held, then nothing is removed but the cluster's own data directory:
  the only calls issued end its watcher, open the claim guard, and remove that directory.
\<close>

theorem cleanup_spares_shared_install:
  assumes "os_quiet os" and "os_framed root os" and "fs4_quiet fs4"
    and "path_components (s_data_dir st) = parent @ [Normal own]" and "is_utf8 own"
    and "sees_peer (fs_path (cwd w) parent) own m (root w)" and "live_slot fs4 (fs_path (cwd w) parent) m"
    and "is_utf8 (m @ LOCK_SUFFIX)" and "m \<noteq> []" and "m \<noteq> own"
  shows "\<exists>ops. trace (snd (cleanup_in_process fs4 os requested st w)) = trace w @ ops \<and>
    list_all (\<lambda>oper. (\<exists>c. oper = Signal c SIGKILL) \<or> oper = OpenWrite (fs_path (cwd w) parent @ [CLAIM_GUARD]) \<or>
      oper = RemoveTree (fs_path (cwd w) (path_components (s_data_dir st)))) ops"
    (is "\<exists>ops. _ \<and> list_all ?P ops")
proof -
  let ?dir = "cwd w"
  obtain b w1 where rel: "(release_watcher os (path_components (s_data_dir st)) :: (bootstrap_error, bool) io) w = (b, w1)"
    by fastforce
  have "issues ?P (release_watcher os (path_components (s_data_dir st)) :: (bootstrap_error, bool) io)"
    using assms(1) by (rule issues_release_watcher) blast
  from issuesD [OF this rel] obtain o1 where o1: "trace w1 = trace w @ o1" "list_all ?P o1" by blast
  have "root w1 = root w" using preservesD [OF preserves_release_watcher [OF assms(2)] rel] by simp
  then have sees: "sees_peer (fs_path ?dir parent) own m (root w1)" using assms(6) by simp
  obtain r w2 where plan: "plan_cleanup fs4 ?dir requested st w1 = (r, w2)" by fastforce
  obtain o2 where o2: "trace w2 = trace w1 @ o2" "list_all ?P o2"
    using issues_plan_cleanup [OF assms(3) _ assms(4,5) sees plan, of ?P] by blast
  have "plan_mode p \<noteq> Full" if "r = Inr p" for p
    using plan_keeps_install [OF assms(3,5,4) sees assms(7-10)] plan that by blast
  have data: "issues ?P (cleanup_directories ?dir m' st)" if "m' \<noteq> Full" for m'
    unfolding cleanup_directories_def cleanup_data_dir_def cleanup_install_dir_def remove_dir_all_if_exists_def
      should_remove_install_def
    using that by (auto intro!: issue_rules)
  let ?k = "case r of Inl e \<Rightarrow> io_err e | Inr p \<Rightarrow> if plan_mode p = NoCleanup then io_ok () else cleanup_directories ?dir (plan_mode p) st"
  have "issues ?P ?k" using data \<open>\<And>p. r = Inr p \<Longrightarrow> plan_mode p \<noteq> Full\<close>
    by (cases r) (auto intro!: issue_rules)
  then obtain o3 where o3: "trace (snd (?k w2)) = trace w2 @ o3" "list_all ?P o3" unfolding issues_def by blast
  have "fst (release_watcher os (path_components (s_data_dir st)) w :: (bootstrap_error + bool) \<times> world) = Inr (watchers w (path_components (s_data_dir st)) \<noteq> None)"
    by (auto simp: release_watcher_def remove_and_kill_def io_bind_def io_ok_def io_match_def split_beta split: option.split)
  then obtain bb where "b = Inr bb" using rel by auto
  then have "snd (cleanup_in_process fs4 os requested st w) = snd (?k w2)"
    using rel plan by (auto simp: cleanup_in_process_def Let_def io_bind_def io_err_def split: sum.split)
  then show ?thesis using o1 o2 o3 by (intro exI [of _ "o1 @ o2 @ o3"]) simp
qed

theorem cleanup_spares_shared_install_witness:
  "\<exists>ops. trace (snd (cleanup_in_process (demo_fs4 [[''data'', ''7-1-0.lock'']]) (demo_os []) Full
      (demo_settings\<lparr>s_data_dir := ''/data/5-1-0''\<rparr>) (slots_world (slot_entries ''7-1-0'' @ slot_entries ''5-1-0'')))) = ops \<and>
    list_all (\<lambda>oper. (\<exists>c. oper = Signal c SIGKILL) \<or> oper = OpenWrite [''data'', ''.claim-guard''] \<or>
      oper = RemoveTree [''data'', ''5-1-0'']) ops"
proof -
  let ?fs4 = "demo_fs4 [[''data'', ''7-1-0.lock'']]" and ?st = "demo_settings\<lparr>s_data_dir := ''/data/5-1-0''\<rparr>"
    and ?w = "slots_world (slot_entries ''7-1-0'' @ slot_entries ''5-1-0'')"
  have cs: "path_components (s_data_dir ?st) = [RootDir, Normal ''data''] @ [Normal ''5-1-0'']" by code_simp
  have p: "fs_path (cwd ?w) [RootDir, Normal ''data''] = [''data'']"
    "fs_path (cwd ?w) ([RootDir, Normal ''data''] @ [Normal ''5-1-0'']) = [''data'', ''5-1-0'']" by code_simp+
  have "resolve True (root ?w) [''data''] = Inr [''data'']"
    "resolve True (root ?w) ([''data''] @ [''5-1-0'' @ LOCK_SUFFIX]) = Inr [''data'', ''5-1-0.lock'']"
    "map_option is_dir_node (node_at (root ?w) [''data'']) = Some True"
    "map_option is_file_node (node_at (root ?w) [''data'', ''5-1-0.lock'']) = Some True"
    "map_option is_file_node (node_at (root ?w) ([''data''] @ [''7-1-0'' @ LOCK_SUFFIX])) = Some True" by code_simp+
  then have sees: "sees_peer [''data''] ''5-1-0'' ''7-1-0'' (root ?w)"
    unfolding sees_peer_def by (auto elim!: is_dir_node.elims is_file_node.elims)
  have live: "live_slot ?fs4 [''data''] ''7-1-0''" by (rule demo_fs4_live) (simp add: LOCK_SUFFIX_def)
  have framed: "os_framed root (demo_os [])" by (auto simp: os_framed_def demo_os_def preserves_def io_ok_def)
  have utf: "is_utf8 ''5-1-0''" "is_utf8 (''7-1-0'' @ LOCK_SUFFIX)" by code_simp+
  have "trace ?w = []" "fs_path (cwd ?w) (path_components (s_data_dir ?st)) = [''data'', ''5-1-0'']"
    using cs p by (simp_all add: slots_world_def)
  with cleanup_spares_shared_install [OF demo_os_quiet framed demo_fs4_quiet cs utf(1), of ?w "''7-1-0''" _ Full, unfolded p,
      OF sees live utf(2)]
  show ?thesis by (simp add: CLAIM_GUARD_def)
qed

end
