(* ===== verification/ShutdownHook.thy ===== *)
theory ShutdownHook
  imports ClusterCleanup
begin

text \<open>
  The process-exit hook that stops a forgotten cluster's server (\<open>cluster/shutdown_hook\<close>, as on Unix):
  reading \<open>postmaster.pid\<close>, asking the server to stop and then forcing it, and the registration of the
  hook, at most once per process, by threads that race for it. A thread that finds the registration reserved
  sleeps on the condition variable: \<open>sleepers\<close> are the threads it has to wake, and a thread that sleeps takes
  no step of the registration until it is notified or wakes up spuriously.
\<close>

section \<open>The PID file\<close>

definition parse_pid :: "string \<Rightarrow> int option" where
  "parse_pid raw =
     (case parse_i32 (trim raw) of None \<Rightarrow> None | Some p \<Rightarrow> if p > 0 then Some p else None)"

definition parse_postmaster_process :: "string \<Rightarrow> int option" where
  "parse_postmaster_process contents = (case str_lines contents of [] \<Rightarrow> None | l # _ \<Rightarrow> parse_pid l)"

definition read_postmaster_pid_file :: "path \<Rightarrow> (bootstrap_error, string) io" where
  "read_postmaster_pid_file p =
     io_match (read_to_string p) (\<lambda>r.
       case r of
         Inr contents \<Rightarrow> io_ok contents
       | Inl e \<Rightarrow> if e = NotFound then io_ok [] else io_err (extension_error Other))"

definition read_postmaster_pid :: "path \<Rightarrow> (bootstrap_error, int option) io" where
  "read_postmaster_pid d =
     io_bind (read_postmaster_pid_file (d @ [''postmaster.pid''])) (\<lambda>contents.
       case str_lines contents of
         [] \<Rightarrow> io_ok None
       | l # _ \<Rightarrow>
           if trim l = [] then io_ok None
           else (case parse_pid l of Some p \<Rightarrow> io_ok (Some p) | None \<Rightarrow> io_err (extension_error Other)))"

definition read_postmaster_process_from_dir :: "path \<Rightarrow> (bootstrap_error, int option) io" where
  "read_postmaster_process_from_dir d =
     io_bind (read_postmaster_pid_file (d @ [''postmaster.pid''])) (\<lambda>contents.
       if trim contents = [] then io_ok None
       else (case parse_postmaster_process contents of
               Some p \<Rightarrow> io_ok (Some p)
             | None \<Rightarrow> io_err (extension_error Other)))"

section \<open>Stopping the server\<close>

definition process_is_running_for_platform :: "os \<Rightarrow> int \<Rightarrow> (bootstrap_error, bool) io" where
  "process_is_running_for_platform os p =
     (if p \<le> 0 then io_ok False
      else io_match (k_kill os p 0) (\<lambda>r.
        case r of
          Inr _ \<Rightarrow> io_ok True
        | Inl e \<Rightarrow> if e = ESRCH then io_ok False else io_err (extension_error Other)))"

text \<open>A probe that fails counts as running.\<close>

definition running_for_shutdown :: "os \<Rightarrow> int \<Rightarrow> bool act" where
  "running_for_shutdown os p w =
     (case process_is_running_for_platform os p w of (Inr b, w') \<Rightarrow> (b, w') | (Inl _, w') \<Rightarrow> (True, w'))"

definition send_signal :: "os \<Rightarrow> int \<Rightarrow> nat \<Rightarrow> world \<Rightarrow> world" where
  "send_signal os p s w = (if p \<le> 0 then w else snd (os_signal os p s w))"

definition request_shutdown :: "os \<Rightarrow> int \<Rightarrow> world \<Rightarrow> world" where
  "request_shutdown os p = send_signal os p SIGTERM"

definition force_shutdown :: "os \<Rightarrow> int \<Rightarrow> world \<Rightarrow> world" where
  "force_shutdown os p = send_signal os p SIGKILL"

definition POLL_INTERVAL :: nat where "POLL_INTERVAL = 50"
definition POST_SIGKILL_GRACE :: nat where "POST_SIGKILL_GRACE = 100"

definition hook_wait_step :: "os \<Rightarrow> nat \<Rightarrow> int \<Rightarrow> bool option act" where
  "hook_wait_step os deadline p w =
     (case running_for_shutdown os p w of (running, w1) \<Rightarrow>
        if \<not> running then (Some True, w1)
        else case k_now os w1 of (t, w2) \<Rightarrow> (if deadline \<le> t then Some False else None, w2))"

text \<open>
  \<open>wait_for_exit\<close>: whether the process was seen to be gone in time; \<open>timeout / 50 ms + 2\<close> probes outlast
  the timeout.
\<close>

definition hook_wait_for_exit :: "os \<Rightarrow> int \<Rightarrow> nat \<Rightarrow> bool act" where
  "hook_wait_for_exit os p timeout w =
     (case k_now os w of (t, w1) \<Rightarrow>
        case poll os POLL_INTERVAL (hook_wait_step os (t + timeout) p) (Suc (Suc (timeout div POLL_INTERVAL))) w1 of
          (r, w2) \<Rightarrow> (r = Some True, w2))"

definition stop_postmaster :: "os \<Rightarrow> int \<Rightarrow> nat \<Rightarrow> world \<Rightarrow> world" where
  "stop_postmaster os p timeout w =
     (case hook_wait_for_exit os p timeout (request_shutdown os p w) of (gone, w1) \<Rightarrow>
        if gone then w1 else k_sleep os POST_SIGKILL_GRACE (force_shutdown os p w1))"

record shutdown_work =
  hook_settings :: settings
  hook_timeout :: nat
  hook_mode :: cleanup_mode

definition best_effort_cleanup :: "fs4_crate \<Rightarrow> os \<Rightarrow> shutdown_work \<Rightarrow> world \<Rightarrow> world" where
  "best_effort_cleanup fs4 os work w = snd (cleanup_in_process fs4 os (hook_mode work) (hook_settings work) w)"

text \<open>
  The registration cell; \<open>locked\<close> says whether some thread holds its mutex when the callback tries it. A
  poisoned mutex is entered all the same.
\<close>

datatype registration = Empty | Registering | Registered shutdown_work

definition callback_work :: "bool \<Rightarrow> registration \<Rightarrow> shutdown_work option" where
  "callback_work locked st = (if locked then None else case st of Registered wk \<Rightarrow> Some wk | _ \<Rightarrow> None)"

definition shutdown_callback :: "fs4_crate \<Rightarrow> os \<Rightarrow> bool \<Rightarrow> registration \<Rightarrow> world \<Rightarrow> world" where
  "shutdown_callback fs4 os locked st w =
     (case callback_work locked st of
        None \<Rightarrow> w
      | Some wk \<Rightarrow>
          (case read_postmaster_process_from_dir (abs_path w (s_data_dir (hook_settings wk))) w of
             (Inl _, w1) \<Rightarrow> w1
           | (Inr None, w1) \<Rightarrow> best_effort_cleanup fs4 os wk w1
           | (Inr (Some p), w1) \<Rightarrow>
               (case running_for_shutdown os p w1 of (running, w2) \<Rightarrow>
                  if \<not> running then best_effort_cleanup fs4 os wk w2
                  else best_effort_cleanup fs4 os wk (stop_postmaster os p (hook_timeout wk) w2))))"

section \<open>Registration\<close>

text \<open>
  What the registering threads share: the cell, the threads asleep on the condition variable
  \<open>SHUTDOWN_STATE_CHANGED\<close>, the callbacks \<open>atexit\<close> has accepted, and the world. Each critical section of the code is
  one operation on it.
\<close>

record hook_shared =
  cell :: registration
  sleepers :: "nat set"
  handlers :: nat
  hook_world :: world

text \<open>
  \<open>Condvar::wait\<close> gives up the mutex and puts the thread to sleep in one step; \<open>Condvar::notify_all\<close> wakes
  every sleeper.
\<close>

definition condvar_wait :: "nat \<Rightarrow> hook_shared \<Rightarrow> hook_shared" where
  "condvar_wait t sh = sh\<lparr>sleepers := insert t (sleepers sh)\<rparr>"

definition notify_all :: "hook_shared \<Rightarrow> hook_shared" where
  "notify_all sh = sh\<lparr>sleepers := {}\<rparr>"

text \<open>
  One round of the loop of \<open>reserve_shutdown_registration\<close> by the thread \<open>t\<close>, under the mutex: its answer, or \<open>None\<close>
  when it went to sleep; when it is woken it looks at the cell again.
\<close>

definition reserve_shutdown_registration :: "nat \<Rightarrow> hook_shared \<Rightarrow> bool option \<times> hook_shared" where
  "reserve_shutdown_registration t sh =
     (case cell sh of
        Empty \<Rightarrow> (Some True, sh\<lparr>cell := Registering\<rparr>)
      | Registered _ \<Rightarrow> (Some False, sh)
      | Registering \<Rightarrow> (None, condvar_wait t sh))"

text \<open>\<open>rc\<close> is what \<open>libc::atexit\<close> returns.\<close>

definition register_atexit :: "int \<Rightarrow> hook_shared \<Rightarrow> (bootstrap_error + unit) \<times> hook_shared" where
  "register_atexit rc sh =
     (if rc \<noteq> 0 then (Inl (extension_error Other), sh) else (Inr (), sh\<lparr>handlers := Suc (handlers sh)\<rparr>))"

definition build_shutdown_state ::
  "int \<Rightarrow> settings \<Rightarrow> nat \<Rightarrow> cleanup_mode \<Rightarrow> hook_shared \<Rightarrow> (bootstrap_error + shutdown_work) \<times> hook_shared"
where
  "build_shutdown_state rc settings timeout cm sh =
     (case read_postmaster_process_from_dir (abs_path (hook_world sh) (s_data_dir settings)) (hook_world sh) of
        (Inl e, w1) \<Rightarrow> (Inl e, sh\<lparr>hook_world := w1\<rparr>)
      | (Inr _, w1) \<Rightarrow>
          (case register_atexit rc (sh\<lparr>hook_world := w1\<rparr>) of
             (Inl e, sh1) \<Rightarrow> (Inl e, sh1)
           | (Inr _, sh1) \<Rightarrow>
               (Inr \<lparr>hook_settings = settings, hook_timeout = timeout, hook_mode = cm\<rparr>, sh1)))"

definition commit_shutdown_registration :: "shutdown_work \<Rightarrow> hook_shared \<Rightarrow> hook_shared" where
  "commit_shutdown_registration wk sh = notify_all (sh\<lparr>cell := Registered wk\<rparr>)"

definition rollback_shutdown_registration :: "hook_shared \<Rightarrow> hook_shared" where
  "rollback_shutdown_registration sh = notify_all (sh\<lparr>cell := Empty\<rparr>)"

text \<open>
  \<open>register_shutdown_hook\<close>, cut where the mutex is released: where a thread stands, and its next step,
  or \<open>None\<close> while it sleeps or when it has returned.
\<close>

datatype hook_pc =
  Reserve shutdown_work
| Waiting shutdown_work
| Build shutdown_work
| Commit shutdown_work
| Rollback bootstrap_error
| Returned "bootstrap_error + unit"

fun register_shutdown_hook :: "int \<Rightarrow> nat \<Rightarrow> hook_pc \<Rightarrow> hook_shared \<Rightarrow> (hook_pc \<times> hook_shared) option" where
  "register_shutdown_hook rc t (Reserve wk) sh =
     (case reserve_shutdown_registration t sh of
        (None, sh1) \<Rightarrow> Some (Waiting wk, sh1)
      | (Some False, sh1) \<Rightarrow> Some (Returned (Inr ()), sh1)
      | (Some True, sh1) \<Rightarrow> Some (Build wk, sh1))"
| "register_shutdown_hook rc t (Waiting wk) sh = (if t \<in> sleepers sh then None else Some (Reserve wk, sh))"
| "register_shutdown_hook rc t (Build wk) sh =
     (case build_shutdown_state rc (hook_settings wk) (hook_timeout wk) (hook_mode wk) sh of
        (Inr state, sh1) \<Rightarrow> Some (Commit state, sh1)
      | (Inl e, sh1) \<Rightarrow> Some (Rollback e, sh1))"
| "register_shutdown_hook rc t (Commit wk) sh = Some (Returned (Inr ()), commit_shutdown_registration wk sh)"
| "register_shutdown_hook rc t (Rollback e) sh = Some (Returned (Inl e), rollback_shutdown_registration sh)"
| "register_shutdown_hook rc t (Returned r) sh = None"

section \<open>What the server is told\<close>

lemma parse_pid_pos: "parse_pid s = Some p \<Longrightarrow> 0 < p \<and> p < 2 ^ 31"
  using parse_i32_bound by (fastforce simp: parse_pid_def split: option.splits if_splits)

lemma read_process_pos: "read_postmaster_process_from_dir d w = (Inr (Some p), w') \<Longrightarrow> 0 < p \<and> p < 2 ^ 31"
  by (auto simp: read_postmaster_process_from_dir_def parse_postmaster_process_def io_bind_def io_ok_def io_err_def
      dest!: parse_pid_pos split: prod.splits sum.splits option.splits list.splits if_splits)

lemma trace_running: "os_quiet os \<Longrightarrow> trace (snd (running_for_shutdown os p w)) = trace w"
proof -
  assume q: "os_quiet os"
  have "issues (\<lambda>_. False) (process_is_running_for_platform os p)"
    unfolding process_is_running_for_platform_def using q by (intro issue_rules issues_kill)
  then have "trace (snd (process_is_running_for_platform os p w)) = trace w"
    unfolding issues_def by (metis (no_types, lifting) append_Nil2 list.pred_inject(2) neq_Nil_conv)
  then show ?thesis by (auto simp: running_for_shutdown_def split: prod.splits sum.splits)
qed

lemma trace_send_signal:
  assumes "os_quiet os" and "0 < p"
  shows "trace (send_signal os p s w) = trace w @ [Signal p s]"
proof -
  let ?w = "w\<lparr>trace := trace w @ [Signal p s]\<rparr>"
  have "issues (\<lambda>_. False) (k_kill os p s)" using assms(1) by (rule issues_kill)
  then have "trace (snd (k_kill os p s ?w)) = trace ?w"
    unfolding issues_def by (metis (no_types, lifting) append_Nil2 list.pred_inject(2) neq_Nil_conv)
  then show ?thesis using assms(2) by (simp add: send_signal_def os_signal_def record_op_def)
qed

lemma trace_hook_wait: "os_quiet os \<Longrightarrow> trace (snd (hook_wait_for_exit os p timeout w)) = trace w"
proof -
  assume q: "os_quiet os"
  have now: "trace (snd (k_now os v)) = trace v" and sleep: "trace (k_sleep os d v) = trace v" for v d
    using q by (simp_all add: os_quiet_def)
  have "trace (snd (hook_wait_step os dl p v)) = trace v" for dl v
    using trace_running [OF q, of p] now by (simp add: hook_wait_step_def split_beta)
  then have "trace (snd (poll os i (hook_wait_step os dl p) n v)) = trace v" for i dl n v
    using sleep by (intro preserves_poll) simp_all
  then show ?thesis using now by (simp add: hook_wait_for_exit_def split_beta del: poll.simps)
qed

lemma stop_postmaster_signals:
  assumes "os_quiet os" and "0 < p"
  shows "trace (stop_postmaster os p timeout w) = trace w @ Signal p SIGTERM #
    (if fst (hook_wait_for_exit os p timeout (request_shutdown os p w)) then [] else [Signal p SIGKILL])"
proof -
  have "trace (k_sleep os d v) = trace v" for d v using assms(1) by (simp add: os_quiet_def)
  then show ?thesis
    using trace_send_signal [OF assms] trace_hook_wait [OF assms(1)]
    by (simp add: stop_postmaster_def force_shutdown_def request_shutdown_def split_beta)
qed

section \<open>Waiting ends\<close>

lemma time_running: "clocked os time \<Longrightarrow> time w \<le> time (snd (running_for_shutdown os p w))"
  by (auto simp: clocked_def running_for_shutdown_def process_is_running_for_platform_def io_ok_def io_err_def io_match_def
      split: prod.splits sum.splits if_splits) (metis snd_conv)+

lemma hook_wait_step_deadline:
  assumes "clocked os time"
  shows "meets_deadline time deadline (hook_wait_step os deadline p)"
proof -
  have "time v \<le> time (snd (hook_wait_step os deadline p v)) \<and>
      (deadline \<le> time v \<longrightarrow> fst (hook_wait_step os deadline p v) \<noteq> None)" for v
  proof -
    obtain r v1 where r: "running_for_shutdown os p v = (r, v1)" by fastforce
    obtain t v2 where n: "k_now os v1 = (t, v2)" by fastforce
    have "time v \<le> time v1" using time_running [OF assms, of v p] r by simp
    moreover have "time v1 \<le> t" "t \<le> time v2" using assms n unfolding clocked_def by (metis fst_conv snd_conv)+
    ultimately show ?thesis by (cases r) (auto simp: hook_wait_step_def r n)
  qed
  then show ?thesis unfolding meets_deadline_def by blast
qed

text \<open>
  How a process is watched: it is probed; the watch ends with the first probe that finds it gone, or with one
  that finds it running when the deadline has come; before the deadline it goes on after a pause.
\<close>

inductive watched :: "os \<Rightarrow> nat \<Rightarrow> int \<Rightarrow> world \<Rightarrow> bool \<Rightarrow> world \<Rightarrow> bool" for os deadline p where
  seen_gone: "running_for_shutdown os p w = (False, w1) \<Longrightarrow> watched os deadline p w True w1"
| too_late: "running_for_shutdown os p w = (True, w1) \<Longrightarrow> k_now os w1 = (t, w2) \<Longrightarrow> deadline \<le> t \<Longrightarrow> watched os deadline p w False w2"
| still_running: "running_for_shutdown os p w = (True, w1) \<Longrightarrow> k_now os w1 = (t, w2) \<Longrightarrow> t < deadline \<Longrightarrow>
    watched os deadline p (k_sleep os POLL_INTERVAL w2) gone w' \<Longrightarrow> watched os deadline p w gone w'"

lemma poll_watched:
  "poll os POLL_INTERVAL (hook_wait_step os deadline p) n w = (Some gone, w') \<Longrightarrow> watched os deadline p w gone w'"
proof (induction n arbitrary: w)
  case (Suc n)
  obtain ru w1 where ru: "running_for_shutdown os p w = (ru, w1)" by fastforce
  obtain t w2 where n: "k_now os w1 = (t, w2)" by fastforce
  show ?case
  proof (cases "ru \<and> t < deadline")
    case True
    then have "hook_wait_step os deadline p w = (None, w2)" using ru n by (simp add: hook_wait_step_def)
    then have "poll os POLL_INTERVAL (hook_wait_step os deadline p) n (k_sleep os POLL_INTERVAL w2) = (Some gone, w')"
      using Suc.prems by simp
    from Suc.IH [OF this] show ?thesis using still_running [of os p w w1 t w2 deadline gone w'] True ru n by simp
  next
    case False
    then show ?thesis using Suc.prems ru n by (cases ru) (auto simp: hook_wait_step_def intro: watched.intros)
  qed
qed simp

lemma hook_wait_outcome:
  assumes "clocked os time" and "hook_wait_for_exit os p timeout w = (gone, w')"
  shows "\<exists>t v. k_now os w = (t, v) \<and> watched os (t + timeout) p v gone w' \<and> (if gone then True else t + timeout \<le> time w')"
proof -
  obtain t w1 where n: "k_now os w = (t, w1)" by fastforce
  let ?step = "hook_wait_step os (t + timeout) p"
  obtain r where run: "poll os POLL_INTERVAL ?step (Suc (Suc (timeout div POLL_INTERVAL))) w1 = (r, w')" and g: "gone \<longleftrightarrow> r = Some True"
    using assms(2) n by (auto simp: hook_wait_for_exit_def split: prod.splits)
  have "t \<le> time w1" using assms(1) n unfolding clocked_def by (metis fst_conv snd_conv)
  moreover have "timeout \<le> Suc (timeout div POLL_INTERVAL) * POLL_INTERVAL" by (simp add: POLL_INTERVAL_def)
  ultimately have "t + timeout \<le> time w1 + Suc (timeout div POLL_INTERVAL) * POLL_INTERVAL" by linarith
  from poll_returns [OF assms(1) hook_wait_step_deadline [OF assms(1)] this, of p]
  obtain b where r: "r = Some b" using run by (metis fst_conv)
  from poll_result [OF run [unfolded r]] obtain v where v: "?step v = (Some b, w')" by (rule exE)
  obtain ru v1 where ru: "running_for_shutdown os p v = (ru, v1)" by fastforce
  obtain t2 v2 where n2: "k_now os v1 = (t2, v2)" by fastforce
  have "t2 \<le> time v2" using assms(1) n2 unfolding clocked_def by (metis fst_conv snd_conv)
  moreover have "watched os (t + timeout) p w1 gone w'"
    using poll_watched [OF run [unfolded r]] r g by (cases b) simp_all
  ultimately show ?thesis using v ru n2 r g n by (auto simp: hook_wait_step_def split: if_splits)
qed

text \<open>
  C31: a server is forced only after its grace period, and only if it is still there. Stopping the server sends
  \<open>SIGTERM\<close> first and then watches the process until the timeout has passed since the request: at the first probe
  that finds it gone it stops and sends nothing more; it sends \<open>SIGKILL\<close>, to the same process, only when every
  probe found it running, the last of them at or after the deadline. It always comes to one of the two.
\<close>

theorem forced_only_after_timeout:
  assumes "os_quiet os" and "clocked os time" and "0 < p"
  shows "\<exists>t v gone w1. k_now os (request_shutdown os p w) = (t, v) \<and> watched os (t + timeout) p v gone w1 \<and>
    trace w1 = trace w @ [Signal p SIGTERM] \<and>
    (if gone then stop_postmaster os p timeout w = w1
     else stop_postmaster os p timeout w = k_sleep os POST_SIGKILL_GRACE (force_shutdown os p w1) \<and>
          trace (stop_postmaster os p timeout w) = trace w1 @ [Signal p SIGKILL] \<and> t + timeout \<le> time w1)"
proof -
  obtain gone w1 where h: "hook_wait_for_exit os p timeout (request_shutdown os p w) = (gone, w1)" by fastforce
  from hook_wait_outcome [OF assms(2) h] obtain t v where tv: "k_now os (request_shutdown os p w) = (t, v)"
    "watched os (t + timeout) p v gone w1" "if gone then True else t + timeout \<le> time w1" by blast
  have tr: "trace w1 = trace w @ [Signal p SIGTERM]"
    using trace_hook_wait [OF assms(1), of p timeout "request_shutdown os p w"] trace_send_signal [OF assms(1,3), of SIGTERM w] h
    by (simp add: request_shutdown_def)
  have "stop_postmaster os p timeout w = (if gone then w1 else k_sleep os POST_SIGKILL_GRACE (force_shutdown os p w1))"
    using h by (simp add: stop_postmaster_def)
  then show ?thesis using tv tr stop_postmaster_signals [OF assms(1,3), of timeout w] h by (intro exI [of _ t] exI [of _ v] exI [of _ gone] exI [of _ w1]) auto
qed

text \<open>A server that never exits is watched for the whole timeout and then killed.\<close>

lemma demo_forced: "trace (stop_postmaster (demo_os []) 42 100 (slots_world [])) = [Signal 42 SIGTERM, Signal 42 SIGKILL]"
  by code_simp

theorem forced_only_after_timeout_witness:
  "\<exists>t v w1. k_now (demo_os []) (request_shutdown (demo_os []) 42 (slots_world [])) = (t, v) \<and>
     watched (demo_os []) (t + 100) 42 v False w1 \<and> t + 100 \<le> tick w1 \<and>
     trace (stop_postmaster (demo_os []) 42 100 (slots_world [])) = trace w1 @ [Signal 42 SIGKILL]"
proof -
  have e: "trace (slots_world []) = []" by (simp add: slots_world_def)
  from forced_only_after_timeout [OF demo_os_quiet demo_os_clocked, of 42 "[]" "slots_world []" 100]
  obtain t v gone w1 where x: "k_now (demo_os []) (request_shutdown (demo_os []) 42 (slots_world [])) = (t, v)"
    "watched (demo_os []) (t + 100) 42 v gone w1" "trace w1 = [Signal 42 SIGTERM]"
    "if gone then stop_postmaster (demo_os []) 42 100 (slots_world []) = w1
     else trace (stop_postmaster (demo_os []) 42 100 (slots_world [])) = trace w1 @ [Signal 42 SIGKILL] \<and> t + 100 \<le> tick w1"
    unfolding e by (auto split: if_splits)
  have "\<not> gone" using x(3,4) demo_forced by auto
  then show ?thesis using x by auto
qed

section \<open>Racing registrations\<close>

text \<open>
  The process: its threads call \<open>register_shutdown_hook\<close>, as often as they like, and run in any order;
  the world may change under them at any time, and a sleeper may wake without having been notified.
\<close>

record hook_sys =
  shared :: hook_shared
  callers :: "nat \<Rightarrow> hook_pc option"

definition hook_init :: "hook_sys \<Rightarrow> bool" where
  "hook_init s \<longleftrightarrow> cell (shared s) = Empty \<and> sleepers (shared s) = {} \<and> handlers (shared s) = 0 \<and> callers s = (\<lambda>_. None)"

inductive hook_step :: "hook_sys \<Rightarrow> hook_sys \<Rightarrow> bool" where
  hook_call: "callers s t = None \<or> (\<exists>r. callers s t = Some (Returned r)) \<Longrightarrow>
    hook_step s (s\<lparr>callers := (callers s)(t \<mapsto> Reserve wk)\<rparr>)"
| hook_run: "callers s t = Some pc \<Longrightarrow> register_shutdown_hook rc t pc (shared s) = Some (pc', sh') \<Longrightarrow>
    hook_step s (s\<lparr>shared := sh', callers := (callers s)(t \<mapsto> pc')\<rparr>)"
| hook_wake: "hook_step s (s\<lparr>shared := (shared s)\<lparr>sleepers := sleepers (shared s) - {t}\<rparr>\<rparr>)"
| hook_env: "hook_step s (s\<lparr>shared := (shared s)\<lparr>hook_world := w\<rparr>\<rparr>)"

inductive_cases hook_stepE: "hook_step s s'"

fun holds_slot :: "hook_pc option \<Rightarrow> bool" where
  "holds_slot (Some (Build _)) \<longleftrightarrow> True"
| "holds_slot (Some (Commit _)) \<longleftrightarrow> True"
| "holds_slot (Some (Rollback _)) \<longleftrightarrow> True"
| "holds_slot _ \<longleftrightarrow> False"

text \<open>How many callbacks a thread at this point has had accepted.\<close>

fun accepted :: "hook_pc option \<Rightarrow> nat" where
  "accepted (Some (Commit _)) = 1"
| "accepted _ = 0"

text \<open>
  At most one thread holds the slot, exactly while the cell says so; the callbacks accepted are those
  of a thread about to commit or of a registered cell; a call that succeeded finds the cell registered; and
  a thread sleeps only in the wait, while the cell is reserved.
\<close>

definition hook_inv :: "hook_sys \<Rightarrow> bool" where
  "hook_inv s \<longleftrightarrow>
     (\<forall>t u. holds_slot (callers s t) \<and> holds_slot (callers s u) \<longrightarrow> t = u) \<and>
     ((\<exists>t. holds_slot (callers s t)) \<longleftrightarrow> cell (shared s) = Registering) \<and>
     (\<forall>t. holds_slot (callers s t) \<longrightarrow> handlers (shared s) = accepted (callers s t)) \<and>
     (cell (shared s) \<noteq> Registering \<longrightarrow> handlers (shared s) = (if cell (shared s) = Empty then 0 else 1)) \<and>
     (\<forall>t. callers s t = Some (Returned (Inr ())) \<longrightarrow> cell (shared s) \<notin> {Empty, Registering}) \<and>
     (\<forall>t. t \<in> sleepers (shared s) \<longrightarrow> cell (shared s) = Registering \<and> (\<exists>wk. callers s t = Some (Waiting wk)))"

lemma build_state_cases:
  assumes "build_shutdown_state rc st tm cm sh = (r, sh')"
  shows "cell sh' = cell sh \<and> sleepers sh' = sleepers sh \<and> handlers sh' = handlers sh + (case r of Inl _ \<Rightarrow> 0 | Inr _ \<Rightarrow> 1)"
  using assms by (auto simp: build_shutdown_state_def register_atexit_def split: prod.splits sum.splits if_splits)

text \<open>What a thread's next step does to the cell and to the count of callbacks.\<close>

lemma register_step_cases:
  assumes "register_shutdown_hook rc t pc sh = Some (pc', sh')"
  obtains (reserved) wk where "pc = Reserve wk" "pc' = Build wk" "cell sh = Empty" "sh' = sh\<lparr>cell := Registering\<rparr>"
    | (already) wk v where "pc = Reserve wk" "pc' = Returned (Inr ())" "cell sh = Registered v" "sh' = sh"
    | (asleep) wk where "pc = Reserve wk" "pc' = Waiting wk" "cell sh = Registering" "sh' = condvar_wait t sh"
    | (woken) wk where "pc = Waiting wk" "pc' = Reserve wk" "t \<notin> sleepers sh" "sh' = sh"
    | (built) wk v where "pc = Build wk" "pc' = Commit v" "cell sh' = cell sh" "sleepers sh' = sleepers sh" "handlers sh' = Suc (handlers sh)"
    | (failed) wk e where "pc = Build wk" "pc' = Rollback e" "cell sh' = cell sh" "sleepers sh' = sleepers sh" "handlers sh' = handlers sh"
    | (committed) wk where "pc = Commit wk" "pc' = Returned (Inr ())" "sh' = notify_all (sh\<lparr>cell := Registered wk\<rparr>)"
    | (undone) e where "pc = Rollback e" "pc' = Returned (Inl e)" "sh' = notify_all (sh\<lparr>cell := Empty\<rparr>)"
proof (cases pc)
  case (Reserve wk)
  then show ?thesis using assms reserved already asleep
    by (auto simp: reserve_shutdown_registration_def split: registration.splits)
next
  case (Waiting wk)
  then show ?thesis using assms woken by (auto split: if_splits)
next
  case (Build wk)
  then show ?thesis using assms built failed
    by (auto dest!: build_state_cases split: prod.splits sum.splits)
next
  case (Commit wk)
  then show ?thesis using assms committed by (auto simp: commit_shutdown_registration_def)
next
  case (Rollback e)
  then show ?thesis using assms undone by (auto simp: rollback_shutdown_registration_def)
qed (use assms in simp)

text \<open>A step of a thread that does not hold the reservation and does not take it.\<close>

lemma hook_inv_idle:
  assumes inv: "hook_inv s" and idle: "\<not> holds_slot (callers s t)" "\<not> holds_slot (Some pc')" "pc' \<noteq> Returned (Inr ())"
    and kept: "cell sh' = cell (shared s)" "handlers sh' = handlers (shared s)"
    and slept: "\<And>u. u \<in> sleepers sh' \<Longrightarrow> cell (shared s) = Registering \<and>
      (if u = t then \<exists>wk. pc' = Waiting wk else \<exists>wk. callers s u = Some (Waiting wk))"
  shows "hook_inv (s\<lparr>shared := sh', callers := (callers s)(t \<mapsto> pc')\<rparr>)" (is "hook_inv ?s")
proof -
  have h: "holds_slot (callers ?s u) \<longleftrightarrow> holds_slot (callers s u)" for u using idle by (cases "u = t") simp_all
  have c: "holds_slot (callers s u) \<Longrightarrow> callers ?s u = callers s u" for u using idle by (cases "u = t") simp_all
  have r: "callers ?s u = Some (Returned (Inr ())) \<Longrightarrow> callers s u = Some (Returned (Inr ()))" for u
    using idle by (cases "u = t") simp_all
  have w: "u \<in> sleepers (shared ?s) \<Longrightarrow> cell (shared ?s) = Registering \<and> (\<exists>wk. callers ?s u = Some (Waiting wk))" for u
    using slept [of u] kept by (cases "u = t") auto
  have k: "cell (shared ?s) = cell (shared s)" "handlers (shared ?s) = handlers (shared s)" using kept by simp_all
  note i = inv [unfolded hook_inv_def]
  show ?thesis unfolding hook_inv_def h k
  proof (intro conjI)
    show "\<forall>u. holds_slot (callers s u) \<longrightarrow> handlers (shared s) = accepted (callers ?s u)" using i c by metis
    show "\<forall>u. callers ?s u = Some (Returned (Inr ())) \<longrightarrow> cell (shared s) \<notin> {Empty, Registering}" using i r by blast
    show "\<forall>u. u \<in> sleepers (shared ?s) \<longrightarrow> cell (shared s) = Registering \<and> (\<exists>wk. callers ?s u = Some (Waiting wk))"
      using w k by metis
  qed (use i in blast)+
qed

lemma hook_inv_run:
  assumes inv: "hook_inv s" and pc: "callers s t = Some pc"
    and run: "register_shutdown_hook rc t pc (shared s) = Some (pc', sh')"
  shows "hook_inv (s\<lparr>shared := sh', callers := (callers s)(t \<mapsto> pc')\<rparr>)"
proof -
  have others: "holds_slot (Some pc) \<Longrightarrow> u \<noteq> t \<Longrightarrow> \<not> holds_slot (callers s u)" for u
    using inv pc unfolding hook_inv_def by metis
  have mine: "holds_slot (Some pc) \<Longrightarrow> cell (shared s) = Registering \<and> handlers (shared s) = accepted (Some pc)"
    using inv pc unfolding hook_inv_def by metis
  have unfinished: "holds_slot (Some pc) \<Longrightarrow> callers s u \<noteq> Some (Returned (Inr ()))" for u
    using inv mine unfolding hook_inv_def by (metis insertCI)
  have free: "cell (shared s) = Empty \<Longrightarrow> handlers (shared s) = 0 \<and> \<not> holds_slot (callers s u) \<and> callers s u \<noteq> Some (Returned (Inr ()))" for u
    using inv unfolding hook_inv_def by (metis insertCI registration.distinct(1))
  have slept: "u \<in> sleepers (shared s) \<Longrightarrow> cell (shared s) = Registering \<and> (\<exists>wk. callers s u = Some (Waiting wk))" for u
    using inv unfolding hook_inv_def by blast
  from run show ?thesis
  proof (cases rule: register_step_cases)
    case reserved
    then show ?thesis using free slept by (auto simp: hook_inv_def)
  next
    case already
    then show ?thesis using inv slept by (auto simp: hook_inv_def)
  next
    case asleep
    have x: "cell (shared s) = Registering \<and> (if u = t then \<exists>wk. pc' = Waiting wk else \<exists>wk. callers s u = Some (Waiting wk))"
      if "u \<in> sleepers sh'" for u
      using that asleep slept [of u] by (cases "u = t") (simp_all add: condvar_wait_def)
    show ?thesis using asleep pc by (intro hook_inv_idle [OF inv _ _ _ _ _ x]) (simp_all add: condvar_wait_def)
  next
    case woken
    have x: "cell (shared s) = Registering \<and> (if u = t then \<exists>wk. pc' = Waiting wk else \<exists>wk. callers s u = Some (Waiting wk))"
      if "u \<in> sleepers sh'" for u
      using that woken slept [of u] by (cases "u = t") simp_all
    show ?thesis using woken pc by (intro hook_inv_idle [OF inv _ _ _ _ _ x]) simp_all
  next
    case built
    then show ?thesis using mine others unfinished slept pc by (auto simp: hook_inv_def) (metis hook_pc.distinct option.inject)?
  next
    case failed
    then show ?thesis using mine others unfinished slept pc by (auto simp: hook_inv_def) (metis hook_pc.distinct option.inject)?
  next
    case committed
    then show ?thesis using mine others unfinished by (auto simp: hook_inv_def notify_all_def)
  next
    case undone
    then show ?thesis using mine others unfinished by (auto simp: hook_inv_def notify_all_def)
  qed
qed

lemma hook_inv_call:
  assumes "hook_inv s" and "callers s t = None \<or> (\<exists>r. callers s t = Some (Returned r))"
  shows "hook_inv (s\<lparr>callers := (callers s)(t \<mapsto> Reserve wk)\<rparr>)"
proof -
  have x: "cell (shared s) = Registering \<and> (if u = t then \<exists>v. Reserve wk = Waiting v else \<exists>wk. callers s u = Some (Waiting wk))"
    if "u \<in> sleepers (shared s)" for u
  proof -
    have "cell (shared s) = Registering" "\<exists>wk. callers s u = Some (Waiting wk)"
      using assms(1) that unfolding hook_inv_def by blast+
    then show ?thesis using assms(2) by auto
  qed
  have "hook_inv (s\<lparr>shared := shared s, callers := (callers s)(t \<mapsto> Reserve wk)\<rparr>)"
    by (rule hook_inv_idle [OF assms(1) _ _ _ _ _ x]) (use assms(2) in auto)
  then show ?thesis by (cases s) simp
qed

lemma hook_inv_step: "hook_inv s \<Longrightarrow> hook_step s s' \<Longrightarrow> hook_inv s'"
proof (erule hook_stepE)
  fix t
  assume "hook_inv s" and "s' = s\<lparr>shared := (shared s)\<lparr>sleepers := sleepers (shared s) - {t}\<rparr>\<rparr>"
  then show ?thesis by (auto simp: hook_inv_def)
next
  fix w
  assume "hook_inv s" and "s' = s\<lparr>shared := (shared s)\<lparr>hook_world := w\<rparr>\<rparr>"
  then show ?thesis by (simp add: hook_inv_def)
qed (simp_all add: hook_inv_run hook_inv_call)

lemma hook_inv_init: "hook_init s \<Longrightarrow> hook_inv s"
  by (simp add: hook_init_def hook_inv_def)

interpretation hook_machine: step_invariant hook_init hook_step hook_inv
  by unfold_locales (fact hook_inv_init hook_inv_step)+

lemma registered_stays:
  assumes "hook_inv s" and "hook_step s s'" and "cell (shared s) = Registered wk"
  shows "cell (shared s') = Registered wk"
  using assms(2)
proof (cases rule: hook_step.cases)
  case (hook_run t pc rc pc' sh')
  have "\<not> holds_slot (Some pc)" using assms(1,3) hook_run(2) unfolding hook_inv_def by (metis registration.distinct(5))
  with hook_run(3) show ?thesis using assms(3) hook_run(1) by (cases rule: register_step_cases) auto
qed (use assms(3) in simp_all)

text \<open>Two threads race; the first holds the slot, then has registered its cluster.\<close>

definition demo_work :: shutdown_work where
  "demo_work = \<lparr>hook_settings = demo_settings, hook_timeout = 5000, hook_mode = DataOnly\<rparr>"

definition demo_race :: "hook_shared \<Rightarrow> hook_pc \<Rightarrow> hook_sys" where
  "demo_race sh pc = \<lparr>shared = sh, callers = [0 \<mapsto> pc, 1 \<mapsto> Reserve demo_work]\<rparr>"

definition demo_shared :: "registration \<Rightarrow> hook_shared" where
  "demo_shared st = \<lparr>cell = st, sleepers = {}, handlers = 0, hook_world = slots_world []\<rparr>"

definition demo_build :: "(bootstrap_error + shutdown_work) \<times> hook_shared" where
  "demo_build = build_shutdown_state 0 demo_settings 5000 DataOnly (demo_shared Registering)"

definition demo_registered :: hook_shared where
  "demo_registered = commit_shutdown_registration demo_work (snd demo_build)"

lemma demo_reads: "fst (read_postmaster_process_from_dir (abs_path (slots_world []) (s_data_dir demo_settings)) (slots_world [])) = Inr None"
  by code_simp

lemma demo_builds: "fst demo_build = Inr demo_work"
  using demo_reads
  by (auto simp: demo_build_def build_shutdown_state_def demo_shared_def register_atexit_def demo_work_def
      split: prod.splits sum.splits)

lemma reach_demo_race: "reach hook_init hook_step (demo_race (demo_shared Registering) (Build demo_work))"
proof -
  let ?s = "\<lparr>shared = demo_shared Empty, callers = \<lambda>_. None\<rparr>"
  have "reach hook_init hook_step ?s" by (rule reach_init) (simp add: hook_init_def demo_shared_def)
  from reach_step [OF this hook_call [of ?s 0 demo_work]]
  have "reach hook_init hook_step \<lparr>shared = demo_shared Empty, callers = [0 \<mapsto> Reserve demo_work]\<rparr>" (is "reach _ _ ?s1") by simp
  from reach_step [OF this hook_call [of ?s1 1 demo_work]]
  have "reach hook_init hook_step (demo_race (demo_shared Empty) (Reserve demo_work))" (is "reach _ _ ?s2") by (simp add: demo_race_def)
  from reach_step [OF this hook_run [of ?s2 0 "Reserve demo_work" 0 "Build demo_work" "demo_shared Registering"]]
  show ?thesis by (simp add: demo_race_def demo_shared_def reserve_shutdown_registration_def fun_upd_twist)
qed

lemma reach_demo_registered: "reach hook_init hook_step (demo_race demo_registered (Returned (Inr ())))"
proof -
  let ?s = "demo_race (demo_shared Registering) (Build demo_work)"
  let ?s1 = "demo_race (snd demo_build) (Commit demo_work)"
  have b: "register_shutdown_hook 0 0 (Build demo_work) (demo_shared Registering) = Some (Commit demo_work, snd demo_build)"
    using demo_builds by (cases demo_build) (simp add: demo_build_def demo_work_def)
  from reach_step [OF reach_demo_race hook_run [of ?s 0 "Build demo_work" 0 "Commit demo_work" "snd demo_build"]]
  have "reach hook_init hook_step ?s1" using b by (simp add: demo_race_def fun_upd_twist)
  from reach_step [OF this hook_run [of ?s1 0 "Commit demo_work" 0 "Returned (Inr ())" demo_registered]]
  show ?thesis by (simp add: demo_race_def demo_registered_def fun_upd_twist)
qed

text \<open>
  C29: the exit callback is registered at most once. However many threads call \<open>register_shutdown_hook\<close>,
  and in whatever order they run, \<open>atexit\<close> accepts at most one callback; a call that returned success
  means that it has accepted one and that a cluster is registered, which no later step replaces.
\<close>

theorem hook_registered_once:
  assumes "reach hook_init hook_step s"
  shows "handlers (shared s) \<le> 1 \<and>
    (callers s t = Some (Returned (Inr ())) \<longrightarrow> (\<exists>wk. cell (shared s) = Registered wk) \<and> handlers (shared s) = 1) \<and>
    (cell (shared s) = Registered wk \<and> hook_step s s' \<longrightarrow> cell (shared s') = Registered wk)"
proof (intro conjI impI; (elim conjE)?)
  note inv = hook_machine.reach_inv [OF assms]
  have "accepted pc \<le> 1" for pc by (cases pc rule: accepted.cases) simp_all
  then show "handlers (shared s) \<le> 1" using inv unfolding hook_inv_def by (metis le_numeral_extra(4) zero_le_one)
  show "\<exists>wk. cell (shared s) = Registered wk" "handlers (shared s) = 1" if "callers s t = Some (Returned (Inr ()))"
    using inv that unfolding hook_inv_def by (cases "cell (shared s)"; auto)+
  show "cell (shared s') = Registered wk" if "cell (shared s) = Registered wk" and "hook_step s s'"
    using registered_stays [OF inv that(2,1)] .
qed

theorem hook_registered_once_witness:
  "handlers demo_registered = 1 \<and> (\<exists>s. hook_step (demo_race demo_registered (Returned (Inr ()))) s \<and>
     callers s 1 = Some (Returned (Inr ())) \<and> cell (shared s) = Registered demo_work)"
proof -
  let ?s = "demo_race demo_registered (Returned (Inr ()))"
  let ?s1 = "?s\<lparr>shared := demo_registered, callers := (callers ?s)(1 \<mapsto> Returned (Inr ()))\<rparr>"
  have c: "cell demo_registered = Registered demo_work" by (simp add: demo_registered_def commit_shutdown_registration_def notify_all_def)
  then have "hook_step ?s ?s1"
    by (intro hook_run [of _ _ "Reserve demo_work"]) (simp_all add: demo_race_def reserve_shutdown_registration_def)
  then show ?thesis using hook_registered_once [OF reach_demo_registered, of 0 demo_work ?s1] c
    by (auto simp: demo_race_def intro!: exI [of _ ?s1])
qed

text \<open>
  C30: no registration waits for ever. A thread in the wait either has been woken, and then its next step looks at
  the cell again; or it sleeps while another thread holds the reservation, and that thread is not waiting itself
  and, whatever \<open>atexit\<close> answers, frees the cell and wakes the sleeper within two steps of its own. No thread is
  left asleep on a cell that is free.
\<close>

theorem hook_waiter_freed:
  assumes "reach hook_init hook_step s" and "callers s t = Some (Waiting wk)"
  shows "if t \<in> sleepers (shared s)
    then cell (shared s) = Registering \<and>
      (\<exists>u pc pc1 sh1. u \<noteq> t \<and> callers s u = Some pc \<and> register_shutdown_hook rc u pc (shared s) = Some (pc1, sh1) \<and>
        (cell sh1 \<noteq> Registering \<and> t \<notin> sleepers sh1 \<or>
         (\<exists>pc2 sh2. register_shutdown_hook rc u pc1 sh1 = Some (pc2, sh2) \<and> cell sh2 \<noteq> Registering \<and> t \<notin> sleepers sh2)))
    else register_shutdown_hook rc t (Waiting wk) (shared s) = Some (Reserve wk, shared s)"
proof (cases "t \<in> sleepers (shared s)")
  case True
  note inv = hook_machine.reach_inv [OF assms(1)]
  have reg: "cell (shared s) = Registering" using inv True unfolding hook_inv_def by blast
  then obtain u where u: "holds_slot (callers s u)" using inv unfolding hook_inv_def by blast
  then obtain pc where pc: "callers s u = Some pc" by (cases "callers s u") auto
  have "u \<noteq> t" using u assms(2) by auto
  have "\<exists>pc1 sh1. register_shutdown_hook rc u pc (shared s) = Some (pc1, sh1) \<and>
    (cell sh1 \<noteq> Registering \<and> t \<notin> sleepers sh1 \<or>
     (\<exists>pc2 sh2. register_shutdown_hook rc u pc1 sh1 = Some (pc2, sh2) \<and> cell sh2 \<noteq> Registering \<and> t \<notin> sleepers sh2))"
  proof (cases pc)
    case (Build v)
    obtain r sh1 where b: "build_shutdown_state rc (hook_settings v) (hook_timeout v) (hook_mode v) (shared s) = (r, sh1)"
      by fastforce
    show ?thesis
      by (cases r) (simp_all add: Build b commit_shutdown_registration_def rollback_shutdown_registration_def notify_all_def)
  qed (use u pc in \<open>auto simp: commit_shutdown_registration_def rollback_shutdown_registration_def notify_all_def\<close>)
  then show ?thesis using True reg pc \<open>u \<noteq> t\<close> by auto
qed simp

text \<open>The second thread of the race has gone to sleep.\<close>

definition demo_asleep :: hook_sys where
  "demo_asleep = \<lparr>shared = condvar_wait 1 (demo_shared Registering), callers = [0 \<mapsto> Build demo_work, 1 \<mapsto> Waiting demo_work]\<rparr>"

lemma reach_demo_asleep: "reach hook_init hook_step demo_asleep"
proof -
  let ?s = "demo_race (demo_shared Registering) (Build demo_work)"
  from reach_step [OF reach_demo_race hook_run [of ?s 1 "Reserve demo_work" 0 "Waiting demo_work" "condvar_wait 1 (demo_shared Registering)"]]
  show ?thesis by (simp add: demo_race_def demo_asleep_def demo_shared_def reserve_shutdown_registration_def)
qed

theorem hook_waiter_freed_witness:
  "\<exists>u pc pc1 sh1. u \<noteq> 1 \<and> callers demo_asleep u = Some pc \<and> register_shutdown_hook 0 u pc (shared demo_asleep) = Some (pc1, sh1) \<and>
    (cell sh1 \<noteq> Registering \<and> 1 \<notin> sleepers sh1 \<or>
     (\<exists>pc2 sh2. register_shutdown_hook 0 u pc1 sh1 = Some (pc2, sh2) \<and> cell sh2 \<noteq> Registering \<and> 1 \<notin> sleepers sh2))"
proof -
  have "callers demo_asleep 1 = Some (Waiting demo_work)" "1 \<in> sleepers (shared demo_asleep)"
    by (simp_all add: demo_asleep_def condvar_wait_def)
  with hook_waiter_freed [OF reach_demo_asleep this(1), of 0] show ?thesis by simp
qed

end
