(* ===== verification/Growth.thy ===== *)
theory Growth
  imports Frames
begin

text \<open>
  Computations that only add directories and change attributes. Two facts about them carry the
  bootstrap proofs: names keep leading where they led, and files keep their contents.
\<close>

section \<open>Growing a tree\<close>

text \<open>
  A tree grows when directories are added and attributes change: what was there is still there, with
  its contents.
\<close>

definition grows :: "node \<Rightarrow> node \<Rightarrow> bool" where
  "grows r r' \<longleftrightarrow> (\<forall>x.
     case node_at r x of
       Some (File _ bs) \<Rightarrow> (\<exists>a. node_at r' x = Some (File a bs))
     | Some (Dir _ _) \<Rightarrow> (\<exists>a cs. node_at r' x = Some (Dir a cs))
     | Some (Symlink t) \<Rightarrow> node_at r' x = Some (Symlink t)
     | None \<Rightarrow> node_at r' x = None \<or> (\<exists>a cs. node_at r' x = Some (Dir a cs)))"

lemma growsD:
  assumes "grows r r'"
  shows "node_at r x = Some (File a bs) \<Longrightarrow> \<exists>a. node_at r' x = Some (File a bs)"
    and "node_at r x = Some (Dir a cs) \<Longrightarrow> \<exists>a cs. node_at r' x = Some (Dir a cs)"
    and "node_at r x = Some (Symlink t) \<Longrightarrow> node_at r' x = Some (Symlink t)"
    and "node_at r x = None \<Longrightarrow> node_at r' x = None \<or> (\<exists>a cs. node_at r' x = Some (Dir a cs))"
  using spec [OF assms [unfolded grows_def], of x] by auto

lemma grows_refl [simp]: "grows r r"
  by (simp add: grows_def split: option.splits node.splits)

lemma grows_trans:
  assumes "grows r s" and "grows s t"
  shows "grows r t"
proof -
  note d = growsD [OF assms(1)] growsD [OF assms(2)]
  have "case node_at r x of
       Some (File _ bs) \<Rightarrow> (\<exists>a. node_at t x = Some (File a bs))
     | Some (Dir _ _) \<Rightarrow> (\<exists>a cs. node_at t x = Some (Dir a cs))
     | Some (Symlink l) \<Rightarrow> node_at t x = Some (Symlink l)
     | None \<Rightarrow> node_at t x = None \<or> (\<exists>a cs. node_at t x = Some (Dir a cs))" for x
  proof (cases "node_at r x")
    case None
    then show ?thesis using d(4) [OF None] d(8) [of x] d(6) [of x] by auto
  next
    case (Some n)
    then show ?thesis
    proof (cases n)
      case (File a bs)
      then obtain b where "node_at s x = Some (File b bs)" using d(1) Some by blast
      from d(5) [OF this] show ?thesis using Some File by simp
    next
      case (Dir a cs)
      then obtain b ds where "node_at s x = Some (Dir b ds)" using d(2) Some by blast
      from d(6) [OF this] show ?thesis using Some Dir by simp
    next
      case (Symlink l)
      then have "node_at s x = Some (Symlink l)" using d(3) Some by blast
      from d(7) [OF this] show ?thesis using Some Symlink by simp
    qed
  qed
  then show ?thesis unfolding grows_def by blast
qed

text \<open>A name that led somewhere still leads there.\<close>

lemma grows_within: "grows r r' \<Longrightarrow> within r r'"
  unfolding within_def
proof (intro allI impI)
  fix x n assume g: "grows r r'" and n: "node_at r x = Some n"
  show "\<exists>m. node_at r' x = Some m \<and> same_kind n m"
    using growsD [OF g, of x] n by (cases n) fastforce+
qed

lemmas walk_grows = walk_within [OF grows_within]
lemmas resolve_grows = resolve_within [OF grows_within]

section \<open>Relations along a computation\<close>

text \<open>The world a computation ends in stands in relation \<open>R\<close> to the one it started in.\<close>

definition moves :: "(world \<Rightarrow> world \<Rightarrow> bool) \<Rightarrow> ('e, 'a) io \<Rightarrow> bool" where
  "moves R m \<longleftrightarrow> (\<forall>w. R w (snd (m w)))"

lemma movesD: "moves R m \<Longrightarrow> m w = (r, w') \<Longrightarrow> R w w'"
  unfolding moves_def by (metis snd_conv)

locale io_relation =
  fixes R :: "world \<Rightarrow> world \<Rightarrow> bool"
  assumes R_refl: "R w w"
    and R_trans: "R w1 w2 \<Longrightarrow> R w2 w3 \<Longrightarrow> R w1 w3"
begin

lemma moves_ok: "moves R (io_ok x)"
  and moves_err: "moves R (io_err e)"
  and moves_of: "moves R (io_of r)"
  by (simp_all add: moves_def io_ok_def io_err_def io_of_def R_refl)

lemma moves_match: "moves R m \<Longrightarrow> (\<And>r. moves R (k r)) \<Longrightarrow> moves R (io_match m k)"
  unfolding moves_def io_match_def by (auto simp: split_beta intro: R_trans)

lemma moves_bind: "moves R m \<Longrightarrow> (\<And>x. moves R (f x)) \<Longrightarrow> moves R (io_bind m f)"
proof -
  assume m: "moves R m" and f: "\<And>x. moves R (f x)"
  have "R w (snd (io_bind m f w))" for w
  proof -
    obtain r w1 where r: "m w = (r, w1)" by fastforce
    note movesD [OF m r]
    moreover have "R w1 (snd (f x w1))" for x using f by (simp add: moves_def)
    ultimately show ?thesis by (cases r) (auto simp: io_bind_def r intro: R_trans)
  qed
  then show ?thesis by (simp add: moves_def)
qed

lemma moves_map_err: "moves R m \<Longrightarrow> moves R (io_map_err h m)"
  unfolding moves_def io_map_err_def by (simp add: split_beta split: sum.split)

lemma moves_if: "moves R m \<Longrightarrow> moves R k \<Longrightarrow> moves R (if b then m else k)"
  by simp

lemma moves_sum: "(\<And>x. moves R (f x)) \<Longrightarrow> (\<And>x. moves R (g x)) \<Longrightarrow> moves R (case r of Inl x \<Rightarrow> f x | Inr x \<Rightarrow> g x)"
  by (cases r) auto

lemma moves_option: "moves R f \<Longrightarrow> (\<And>x. moves R (g x)) \<Longrightarrow> moves R (case r of None \<Rightarrow> f | Some x \<Rightarrow> g x)"
  by (cases r) auto

lemma moves_prod: "(\<And>x y. moves R (f x y)) \<Longrightarrow> moves R (case r of (x, y) \<Rightarrow> f x y)"
  by (cases r) auto

lemma moves_map: "(\<And>x. moves R (f x)) \<Longrightarrow> moves R (io_map f xs)"
  by (induction xs) (auto intro!: moves_ok moves_bind)

lemmas moves_rules = moves_ok moves_err moves_of moves_match moves_bind moves_map_err moves_if moves_sum
  moves_option moves_prod moves_map

end

definition growing :: "world \<Rightarrow> world \<Rightarrow> bool" where
  "growing w w' \<longleftrightarrow> grows (root w) (root w')"

interpretation growth: io_relation growing
  by unfold_locales (auto simp: growing_def intro: grows_trans)

lemma moves_reading:
  assumes "preserves root m"
  shows "moves growing m"
  using assms by (simp add: moves_def growing_def preserves_def)

section \<open>What grows a tree\<close>

lemma grows_put:
  assumes par: "q = [] \<or> (\<exists>a cs. node_at r (butlast q) = Some (Dir a cs))"
    and here: "case node_at r q of Some n \<Rightarrow> grows n v | None \<Rightarrow> \<exists>a. v = Dir a []"
  shows "grows r (put_at r q (Some v))"
proof -
  let ?r = "put_at r q (Some v)"
  have v: "node_at ?r (q @ y) = node_at v y" for y
    using node_at_put_same [OF par, of v] by (simp add: node_at_append)
  have "case node_at r x of
       Some (File _ bs) \<Rightarrow> (\<exists>a. node_at ?r x = Some (File a bs))
     | Some (Dir _ _) \<Rightarrow> (\<exists>a cs. node_at ?r x = Some (Dir a cs))
     | Some (Symlink t) \<Rightarrow> node_at ?r x = Some (Symlink t)
     | None \<Rightarrow> node_at ?r x = None \<or> (\<exists>a cs. node_at ?r x = Some (Dir a cs))" for x
  proof -
    consider y where "x = q @ y" | "strict_prefix x q" | "\<not> prefix q x \<and> \<not> prefix x q"
      by (auto simp: strict_prefix_def prefix_def)
    then show ?thesis
    proof cases
      case 1
      then show ?thesis
      proof (cases "node_at r q")
        case None
        then obtain a where "v = Dir a []" using here by auto
        then have "node_at v y = None \<or> node_at v y = Some (Dir a [])" by (cases y) auto
        then show ?thesis using None v [of y] by (auto simp: 1 node_at_append)
      next
        case (Some n)
        then have "grows n v" using here by simp
        moreover have "node_at ?r x = node_at v y" "node_at r x = node_at n y"
          using Some v [of y] by (simp_all add: 1 node_at_append)
        ultimately show ?thesis by (metis (no_types) grows_def)
      qed
    next
      case 2
      then show ?thesis using node_at_put_above [OF 2, of r "Some v"]
        by (cases "(node_at r x, node_at ?r x)" rule: same_shape.cases) (auto split: option.splits node.splits)
    next
      case 3
      then show ?thesis using node_at_put_other [of q x] by (auto split: option.splits node.splits)
    qed
  qed
  then show ?thesis unfolding grows_def by blast
qed

lemma grows_same_below:
  assumes "\<And>c x. node_at r' (c # x) = node_at r (c # x)"
    and "case r of File _ bs \<Rightarrow> \<exists>a. r' = File a bs | Dir _ _ \<Rightarrow> \<exists>a cs. r' = Dir a cs | Symlink t \<Rightarrow> r' = Symlink t"
  shows "grows r r'"
  unfolding grows_def
proof
  fix x
  show "case node_at r x of
       Some (File _ bs) \<Rightarrow> (\<exists>a. node_at r' x = Some (File a bs))
     | Some (Dir _ _) \<Rightarrow> (\<exists>a cs. node_at r' x = Some (Dir a cs))
     | Some (Symlink t) \<Rightarrow> node_at r' x = Some (Symlink t)
     | None \<Rightarrow> node_at r' x = None \<or> (\<exists>a cs. node_at r' x = Some (Dir a cs))"
    using assms by (cases x) (auto split: option.split node.split node.splits)
qed

lemma grows_attr: "grows (File a bs) (File b bs)" "grows (Dir a cs) (Dir b cs)"
  by (intro grows_same_below; simp)+

lemma moves_syscall:
  assumes "\<And>w. growing w (snd (f w))"
  shows "moves growing (syscall f)"
proof -
  have "growing w (snd (syscall f w))" for w
    using assms [of "w\<lparr>tick := Suc (tick w)\<rparr>"] by (auto simp: syscall_def Let_def growing_def split: option.splits)
  then show ?thesis by (simp add: moves_def)
qed

lemma moves_record: "moves growing m \<Longrightarrow> moves growing (record_op x m)"
  unfolding moves_def record_op_def growing_def by (metis select_convs(1) surjective update_convs(4))

lemma parent_of_present: "node_at r q = Some n \<Longrightarrow> q = [] \<or> (\<exists>a cs. node_at r (butlast q) = Some (Dir a cs))"
  using node_at_parent_dir by blast

lemma moves_set_mode_at: "moves growing (set_mode_at p q m)"
  and moves_chown_at: "moves growing (chown_at p q u g)"
  unfolding set_mode_at_def chown_at_def
  by (intro moves_record moves_syscall,
      auto simp: growing_def set_root_def dest: parent_of_present intro!: grows_put grows_attr split: option.split node.split)+

lemma moves_set_permissions: "moves growing (set_permissions p m)"
proof -
  have "moves growing (set_mode_at p q m)" "moves growing (record_op (Chmod p) (syscall (io_err e)))" for q e
    by (intro moves_set_mode_at moves_record moves_syscall; simp add: io_err_def growing_def)+
  then show ?thesis unfolding moves_def set_permissions_def by (auto split: sum.split)
qed

lemma moves_queries:
  "moves growing (metadata p)" "moves growing (symlink_metadata p)" "moves growing (open_read p)" "moves growing (read_dir p)"
  "moves growing (next_entry e)"
  unfolding metadata_def symlink_metadata_def open_read_def read_dir_def next_entry_def
  by (intro moves_syscall; simp add: growing_def io_ok_def stat_node_def split: sum.split option.split node.split)+

lemma moves_path_queries:
  "moves growing (path_exists p)" "moves growing (path_is_dir p)" "moves growing (path_is_file p)"
  unfolding path_exists_def path_is_dir_def path_is_file_def by (intro growth.moves_rules moves_queries)+

text \<open>Nothing can be put below a name that is not a directory.\<close>

lemma put_at_no_parent:
  "p \<noteq> [] \<Longrightarrow> \<not> (\<exists>a cs. node_at r (butlast p) = Some (Dir a cs)) \<Longrightarrow> put_at r p v = r"
proof (induction r p v rule: put_at.induct)
  case (2 a cs c p v)
  then have "p \<noteq> []" by auto
  then show ?case using "2.IH" "2.prems" by (auto simp: update_triv split: option.splits)
qed auto

lemma moves_mkdir: "moves growing (mkdir p)"
proof -
  have "grows r (put_at r q (Some (Dir a [])))" if "node_at r q = None" for r q a
  proof (cases "\<exists>a cs. node_at r (butlast q) = Some (Dir a cs)")
    case True
    then show ?thesis using that by (intro grows_put) auto
  next
    case False
    moreover have "q \<noteq> []" using that by auto
    ultimately show ?thesis using put_at_no_parent [of q r] by simp
  qed
  then show ?thesis unfolding mkdir_def
    by (intro moves_record moves_syscall) (auto simp: growing_def set_root_def split: sum.split option.split)
qed

lemma moves_create_dir_all: "moves growing (create_dir_all p)"
proof (induction p rule: create_dir_all.induct)
  case (1 p)
  note rules = growth.moves_rules moves_mkdir moves_path_queries
  show ?case
  proof (cases "p = []")
    case True
    then show ?thesis by (subst create_dir_all.simps) (simp add: growth.moves_ok)
  next
    case False
    have retry: "moves growing (io_bind (path_is_dir p) (\<lambda>d. if d then io_ok () else io_err e))" for e
      by (intro rules)
    have "moves growing (io_match (mkdir p) (\<lambda>r2. case r2 of Inr () \<Rightarrow> io_ok ()
        | Inl e \<Rightarrow> io_bind (path_is_dir p) (\<lambda>d. if d then io_ok () else io_err e)))"
      by (intro rules retry) (simp add: growth.moves_ok split: unit.split)
    then have up: "moves growing (io_bind (create_dir_all (butlast p)) (\<lambda>_. io_match (mkdir p) (\<lambda>r2. case r2 of Inr () \<Rightarrow> io_ok ()
        | Inl e \<Rightarrow> io_bind (path_is_dir p) (\<lambda>d. if d then io_ok () else io_err e))))"
      using 1 False by (intro growth.moves_bind) auto
    show ?thesis
      apply (subst create_dir_all.simps)
      apply (simp only: False if_False)
      apply (rule growth.moves_match, rule moves_mkdir, rule growth.moves_sum)
      subgoal for r e by (cases e) (simp_all only: io_error_kind.case retry up)
      subgoal by (simp add: growth.moves_ok split: unit.split)
      done
  qed
qed

end
