(* ===== verification/CapFs.thy ===== *)
theory CapFs
  imports Growth
begin

text \<open>
  The shared filesystem helpers of \<open>fs.rs\<close>, over \<open>cap_std\<close> directory handles. \<open>cap_std\<close> is another
  crate, a parameter; a handle is the link-free path of the directory it was opened on. What the
  helpers and their clients rely on is the locale \<open>dir_caps\<close>: the operations used here create directories and
  change attributes, and touch nothing else. Reports are the kinds of the \<open>io::Error\<close>s they wrap.
\<close>

section \<open>The parameter\<close>

record dir_cap =
  dc_open_ambient :: "path \<Rightarrow> path fs"
  dc_create_dir_all :: "path \<Rightarrow> component list \<Rightarrow> unit fs"
  dc_set_permissions :: "path \<Rightarrow> component list \<Rightarrow> u32 \<Rightarrow> unit fs"
  dc_metadata :: "path \<Rightarrow> component list \<Rightarrow> node fs"
  dc_dir_metadata :: "path \<Rightarrow> node fs"
  dc_open_nofollow :: "path \<Rightarrow> component list \<Rightarrow> path fs"
  dc_entries :: "path \<Rightarrow> (string \<times> node) list fs"

section \<open>The helpers\<close>

text \<open>\<open>Path::ancestors\<close>: the path itself and its parents.\<close>

function path_ancestors :: "component list \<Rightarrow> component list list" where
  "path_ancestors cs = cs # (case path_parent cs of None \<Rightarrow> [] | Some p \<Rightarrow> path_ancestors p)"
  by pat_completeness auto
termination
  by (relation "measure length") (auto simp: path_parent_def split: if_splits)

declare path_ancestors.simps [simp del]

text \<open>\<open>dir\<close> is the working directory; an empty remainder marks the root itself.\<close>

definition ambient_dir_and_path :: "dir_cap \<Rightarrow> path \<Rightarrow> component list \<Rightarrow> (path \<times> component list) fs" where
  "ambient_dir_and_path cap dir p =
     (if is_absolute p
      then (case path_parent p of
              Some parent \<Rightarrow>
                io_bind (dc_open_ambient cap (fs_path dir parent)) (\<lambda>h. io_ok (h, drop (length parent) p))
            | None \<Rightarrow> io_bind (dc_open_ambient cap (fs_path dir p)) (\<lambda>h. io_ok (h, [])))
      else io_bind (dc_open_ambient cap dir) (\<lambda>h. io_ok (h, p)))"

fun existing_ancestor_loop ::
  "dir_cap \<Rightarrow> path \<Rightarrow> component list \<Rightarrow> component list list \<Rightarrow> io_error_kind option \<Rightarrow> (path \<times> component list) fs"
where
  "existing_ancestor_loop cap dir p [] last_err = io_err (case last_err of Some e \<Rightarrow> e | None \<Rightarrow> NotFound)"
| "existing_ancestor_loop cap dir p (a # as) last_err =
     io_match (dc_open_ambient cap (if a = [] then dir else fs_path dir a)) (\<lambda>r.
       case r of
         Inr h \<Rightarrow> io_ok (h, drop (length a) p)
       | Inl e \<Rightarrow>
           if e = NotFound \<or> e = NotADirectory then existing_ancestor_loop cap dir p as (Some e) else io_err e)"

definition find_existing_ancestor :: "dir_cap \<Rightarrow> path \<Rightarrow> component list \<Rightarrow> (path \<times> component list) fs" where
  "find_existing_ancestor cap dir p = existing_ancestor_loop cap dir p (path_ancestors p) None"

definition handle_existing_metadata :: "node \<Rightarrow> unit fs" where
  "handle_existing_metadata m = (if is_dir_node m then io_ok () else io_err NotADirectory)"

definition ensure_existing_path_is_dir :: "dir_cap \<Rightarrow> path \<Rightarrow> component list \<Rightarrow> unit fs" where
  "ensure_existing_path_is_dir cap dir p =
     io_bind (ambient_dir_and_path cap dir p) (\<lambda>(h, rel).
     io_bind (if rel = [] then dc_dir_metadata cap h else dc_metadata cap h rel) handle_existing_metadata)"

definition handle_dir_creation_error :: "dir_cap \<Rightarrow> path \<Rightarrow> component list \<Rightarrow> io_error_kind \<Rightarrow> unit fs" where
  "handle_dir_creation_error cap dir p e =
     (if e = AlreadyExists then ensure_existing_path_is_dir cap dir p else io_err e)"

definition ensure_dir_exists_inner :: "dir_cap \<Rightarrow> path \<Rightarrow> component list \<Rightarrow> path \<Rightarrow> component list \<Rightarrow> unit fs" where
  "ensure_dir_exists_inner cap dir p h rel =
     (if rel = [] then io_ok ()
      else io_match (dc_create_dir_all cap h rel) (\<lambda>r.
        case r of Inr _ \<Rightarrow> io_ok () | Inl e \<Rightarrow> handle_dir_creation_error cap dir p e))"

definition ensure_dir_exists :: "dir_cap \<Rightarrow> path \<Rightarrow> component list \<Rightarrow> unit fs" where
  "ensure_dir_exists cap dir p =
     io_bind (find_existing_ancestor cap dir p) (\<lambda>(h, rel). ensure_dir_exists_inner cap dir p h rel)"

definition set_permissions_inner :: "dir_cap \<Rightarrow> u32 \<Rightarrow> path \<Rightarrow> component list \<Rightarrow> unit fs" where
  "set_permissions_inner cap m h rel = (if rel = [] then io_ok () else dc_set_permissions cap h rel m)"

definition set_path_permissions :: "dir_cap \<Rightarrow> path \<Rightarrow> component list \<Rightarrow> u32 \<Rightarrow> unit fs" where
  "set_path_permissions cap dir p m =
     io_bind (ambient_dir_and_path cap dir p) (\<lambda>(h, rel). set_permissions_inner cap m h rel)"

section \<open>The interface\<close>

text \<open>
  What \<open>cap_std\<close> promises of these operations. Opening and asking change nothing; a handle names the
  directory the path leads to, and an open that reports \<open>NotFound\<close> found nothing; creating directories and
  setting permissions only grow the tree.
\<close>

locale dir_caps =
  fixes cap :: dir_cap
  assumes open_root: "dc_open_ambient cap p w = (r, w') \<Longrightarrow> root w' = root w"
    and open_dir: "dc_open_ambient cap p w = (Inr h, w') \<Longrightarrow>
      resolve True (root w) p = Inr h \<and> (\<exists>a cs. node_at (root w) h = Some (Dir a cs))"
    and open_absent: "dc_open_ambient cap p w = (Inl NotFound, w') \<Longrightarrow>
      resolve True (root w) p = Inr h \<Longrightarrow> node_at (root w) h = None"
    and entries_root: "dc_entries cap h w = (re, w') \<Longrightarrow> root w' = root w"
    and entries_dir: "dc_entries cap h w = (Inr es, w') \<Longrightarrow> \<exists>a. node_at (root w) h = Some (Dir a es)"
    and metadata_root: "dc_metadata cap h rel w = (rm, w') \<Longrightarrow> root w' = root w"
    and dir_metadata_root: "dc_dir_metadata cap h w = (rm, w') \<Longrightarrow> root w' = root w"
    and nofollow_root: "dc_open_nofollow cap h rel w = (ro, w') \<Longrightarrow> root w' = root w"
    and create_grows: "moves growing (dc_create_dir_all cap h rel)"
    and permissions_grow: "moves growing (dc_set_permissions cap h rel m)"
begin

lemma reading_grows:
  "moves growing (dc_open_ambient cap p)" "moves growing (dc_entries cap h)" "moves growing (dc_metadata cap h rel)"
  "moves growing (dc_dir_metadata cap h)" "moves growing (dc_open_nofollow cap h rel)"
  unfolding moves_def growing_def
  using open_root entries_root metadata_root dir_metadata_root nofollow_root by (metis grows_refl prod.collapse)+

lemmas cap_grows = growth.moves_rules reading_grows create_grows permissions_grow

lemma existing_ancestor_grows: "moves growing (existing_ancestor_loop cap dir p as e)"
proof (induction as arbitrary: e)
  case (Cons a as)
  show ?case unfolding existing_ancestor_loop.simps by (intro cap_grows Cons)
qed (simp add: growth.moves_err)

lemma ambient_grows: "moves growing (ambient_dir_and_path cap dir p)"
  unfolding ambient_dir_and_path_def by (intro cap_grows)

lemma ensure_dir_exists_grows: "moves growing (ensure_dir_exists cap dir p)"
  unfolding ensure_dir_exists_def find_existing_ancestor_def ensure_dir_exists_inner_def handle_dir_creation_error_def
    ensure_existing_path_is_dir_def handle_existing_metadata_def
  by (intro cap_grows existing_ancestor_grows ambient_grows)

lemma set_path_permissions_grows: "moves growing (set_path_permissions cap dir p m)"
  unfolding set_path_permissions_def set_permissions_inner_def by (intro cap_grows ambient_grows)

end

section \<open>An instance\<close>

text \<open>The operations over the system calls themselves, without the sandbox.\<close>

definition fs_open_dir :: "path \<Rightarrow> path fs" where
  "fs_open_dir p = syscall (\<lambda>w.
     case resolve True (root w) p of
       Inl e \<Rightarrow> (Inl e, w)
     | Inr q \<Rightarrow>
         (case node_at (root w) q of
            None \<Rightarrow> (Inl NotFound, w)
          | Some (Dir _ _) \<Rightarrow> (Inr q, w)
          | Some _ \<Rightarrow> (Inl NotADirectory, w)))"

definition fs_entries :: "path \<Rightarrow> (string \<times> node) list fs" where
  "fs_entries h = syscall (\<lambda>w. case node_at (root w) h of Some (Dir _ cs) \<Rightarrow> (Inr cs, w) | _ \<Rightarrow> (Inl NotADirectory, w))"

definition fs_open_nofollow :: "path \<Rightarrow> path fs" where
  "fs_open_nofollow p = syscall (\<lambda>w.
     case resolve False (root w) p of
       Inl e \<Rightarrow> (Inl e, w)
     | Inr q \<Rightarrow>
         (case node_at (root w) q of
            None \<Rightarrow> (Inl NotFound, w)
          | Some (Symlink _) \<Rightarrow> (Inl FilesystemLoop, w)
          | Some _ \<Rightarrow> (Inr q, w)))"

definition fs_dir_cap :: dir_cap where
  "fs_dir_cap = \<lparr>dc_open_ambient = fs_open_dir, dc_create_dir_all = (\<lambda>h rel. create_dir_all (fs_path h rel)),
     dc_set_permissions = (\<lambda>h rel m. set_permissions (fs_path h rel) m), dc_metadata = (\<lambda>h rel. metadata (fs_path h rel)),
     dc_dir_metadata = metadata, dc_open_nofollow = (\<lambda>h rel. fs_open_nofollow (fs_path h rel)), dc_entries = fs_entries\<rparr>"

interpretation dirs: dir_caps fs_dir_cap
proof unfold_locales
  fix p w r w' h
  show "dc_open_ambient fs_dir_cap p w = (r, w') \<Longrightarrow> root w' = root w"
    and "dc_open_ambient fs_dir_cap p w = (Inr h, w') \<Longrightarrow>
      resolve True (root w) p = Inr h \<and> (\<exists>a cs. node_at (root w) h = Some (Dir a cs))"
    and "dc_open_ambient fs_dir_cap p w = (Inl NotFound, w') \<Longrightarrow>
      resolve True (root w) p = Inr h \<Longrightarrow> node_at (root w) h = None"
    by (auto simp: fs_dir_cap_def fs_open_dir_def syscall_def Let_def fault_error_def
        split: option.splits sum.splits node.splits if_splits)
next
  fix h w re w' es
  show "dc_entries fs_dir_cap h w = (re, w') \<Longrightarrow> root w' = root w"
    and "dc_entries fs_dir_cap h w = (Inr es, w') \<Longrightarrow> \<exists>a. node_at (root w) h = Some (Dir a es)"
    by (auto simp: fs_dir_cap_def fs_entries_def syscall_def Let_def split: option.splits node.splits)
next
  fix h rel w rm w' ro
  show "dc_metadata fs_dir_cap h rel w = (rm, w') \<Longrightarrow> root w' = root w"
    and "dc_dir_metadata fs_dir_cap h w = (rm, w') \<Longrightarrow> root w' = root w"
    by (auto simp: fs_dir_cap_def metadata_def stat_node_def syscall_def Let_def split: option.splits sum.splits)
  show "dc_open_nofollow fs_dir_cap h rel w = (ro, w') \<Longrightarrow> root w' = root w"
    by (auto simp: fs_dir_cap_def fs_open_nofollow_def syscall_def Let_def split: option.splits sum.splits node.splits)
next
  fix h rel m
  show "moves growing (dc_create_dir_all fs_dir_cap h rel)" "moves growing (dc_set_permissions fs_dir_cap h rel m)"
    by (simp_all add: fs_dir_cap_def moves_create_dir_all moves_set_permissions)
qed

end
