(* ===== verification/ExtHttp.thy ===== *)
theory ExtHttp
  imports Errors
begin

text \<open>
  The HTTP transport of \<open>src/src/extensions/http.rs\<close>: which URLs may be fetched, how they are
  rendered without their secrets, and the bounded, retrying GET. \<open>Url::parse\<close> (the \<open>url\<close> crate)
  and the client's answers (\<open>reqwest\<close>) are parameters; the IP address parser is the standard
  library's, written out.
\<close>

section \<open>IP address literals\<close>

definition digit_value :: "nat \<Rightarrow> char \<Rightarrow> nat option" where
  "digit_value radix c =
     (let b = byte_of c;
          v = (if 48 \<le> b \<and> b \<le> 57 then b - 48
               else if 97 \<le> b \<and> b \<le> 102 then b - 87
               else if 65 \<le> b \<and> b \<le> 70 then b - 55 else 99)
      in if v < radix then Some v else None)"

fun read_digits :: "nat \<Rightarrow> string \<Rightarrow> nat list \<times> string" where
  "read_digits radix [] = ([], [])"
| "read_digits radix (c # cs) =
     (case digit_value radix c of
        None \<Rightarrow> ([], c # cs)
      | Some d \<Rightarrow> (let (ds, r) = read_digits radix cs in (d # ds, r)))"

text \<open>\<open>Parser::read_number\<close>: at most \<open>max_digits\<close> digits, the value below \<open>bound\<close>.\<close>

definition read_number :: "nat \<Rightarrow> nat \<Rightarrow> nat \<Rightarrow> bool \<Rightarrow> string \<Rightarrow> (nat \<times> string) option" where
  "read_number radix max_digits bound allow_zero_prefix s =
     (let (ds, r) = read_digits radix s; v = foldl (\<lambda>n d. radix * n + d) 0 ds in
      if ds = [] \<or> max_digits < length ds \<or> bound \<le> v
         \<or> (\<not> allow_zero_prefix \<and> hd ds = 0 \<and> 1 < length ds)
      then None else Some (v, r))"

definition read_given_char :: "char \<Rightarrow> string \<Rightarrow> string option" where
  "read_given_char c s = (case s of x # r \<Rightarrow> if x = c then Some r else None | [] \<Rightarrow> None)"

definition read_octet :: "bool \<Rightarrow> string \<Rightarrow> (nat \<times> string) option" where
  "read_octet sep s =
     Option.bind (if sep then read_given_char (CHR ''.'') s else Some s) (read_number 10 3 256 False)"

definition read_ipv4_addr :: "string \<Rightarrow> (nat list \<times> string) option" where
  "read_ipv4_addr s =
     Option.bind (read_octet False s) (\<lambda>(a, s1).
     Option.bind (read_octet True s1) (\<lambda>(b, s2).
     Option.bind (read_octet True s2) (\<lambda>(c, s3).
     Option.bind (read_octet True s3) (\<lambda>(d, s4). Some ([a, b, c, d], s4)))))"

definition read_sep :: "nat \<Rightarrow> string \<Rightarrow> string option" where
  "read_sep i s = (if 0 < i then read_given_char (CHR '':'') s else Some s)"

text \<open>\<open>read_groups\<close>: \<open>left\<close> group slots remain, \<open>i\<close> have been read.\<close>

fun read_groups :: "nat \<Rightarrow> nat \<Rightarrow> string \<Rightarrow> nat list \<times> bool \<times> string" where
  "read_groups 0 i s = ([], False, s)"
| "read_groups (Suc left) i s =
     (case (if 0 < left then Option.bind (read_sep i s) read_ipv4_addr else None) of
        Some (os, r) \<Rightarrow> ([256 * os ! 0 + os ! 1, 256 * os ! 2 + os ! 3], True, r)
      | None \<Rightarrow>
          (case Option.bind (read_sep i s) (read_number 16 4 65536 True) of
             None \<Rightarrow> ([], False, s)
           | Some (g, r) \<Rightarrow> (let (gs, v4, r') = read_groups left (Suc i) r in (g # gs, v4, r'))))"

definition read_ipv6_addr :: "string \<Rightarrow> (nat list \<times> string) option" where
  "read_ipv6_addr s =
     (let (head, v4, r) = read_groups 8 0 s in
      if length head = 8 then Some (head, r)
      else if v4 then None
      else
        Option.bind (read_given_char (CHR '':'') r) (\<lambda>r1.
        Option.bind (read_given_char (CHR '':'') r1) (\<lambda>r2.
        let (tl, _, r3) = read_groups (8 - (length head + 1)) 0 r2
        in Some (head @ replicate (8 - length head - length tl) 0 @ tl, r3))))"

datatype ip_addr = V4 "nat list" | V6 "nat list"

definition parse_ip_addr :: "string \<Rightarrow> ip_addr option" where
  "parse_ip_addr s =
     (case (case read_ipv4_addr s of
              Some (os, r) \<Rightarrow> Some (V4 os, r)
            | None \<Rightarrow> map_option (\<lambda>(gs, r). (V6 gs, r)) (read_ipv6_addr s)) of
        Some (a, []) \<Rightarrow> Some a
      | _ \<Rightarrow> None)"

definition is_loopback :: "ip_addr \<Rightarrow> bool" where
  "is_loopback a = (case a of V4 os \<Rightarrow> os ! 0 = 127 | V6 gs \<Rightarrow> gs = [0, 0, 0, 0, 0, 0, 0, 1])"

section \<open>URL policy\<close>

text \<open>The parts of a parsed URL the code reads; userinfo, query and fragment it never reads.\<close>

record url =
  scheme :: string
  host_str :: "string option"
  port :: "nat option"
  url_path :: string
  userinfo :: string
  query :: "string option"
  fragment :: "string option"

type_synonym url_parser = "string \<Rightarrow> url option"

definition trim_brackets :: "string \<Rightarrow> string" where
  "trim_brackets s =
     (let b = (\<lambda>c. c = CHR ''['' \<or> c = CHR '']'') in rev (dropWhile b (rev (dropWhile b s))))"

definition is_loopback_host :: "string \<Rightarrow> bool" where
  "is_loopback_host host \<longleftrightarrow>
     host = ''localhost'' \<or>
     (case parse_ip_addr (trim_brackets host) of Some ip \<Rightarrow> is_loopback ip | None \<Rightarrow> False)"

definition is_permitted :: "url \<Rightarrow> bool" where
  "is_permitted u =
     (if scheme u = ''https'' then True
      else if scheme u = ''http'' then
        (case host_str u of Some h \<Rightarrow> is_loopback_host h | None \<Rightarrow> False)
      else False)"

definition is_permitted_url :: "url_parser \<Rightarrow> string \<Rightarrow> bool" where
  "is_permitted_url parse s = (case parse s of Some u \<Rightarrow> is_permitted u | None \<Rightarrow> False)"

definition redact_url :: "url_parser \<Rightarrow> string \<Rightarrow> string" where
  "redact_url parse s =
     (case parse s of
        None \<Rightarrow> ''<unparsable url>''
      | Some u \<Rightarrow>
          (let host = (case host_str u of Some h \<Rightarrow> h | None \<Rightarrow> ''<no host>'') in
           case port u of
             None \<Rightarrow> scheme u @ ''://'' @ host @ url_path u
           | Some p \<Rightarrow> scheme u @ ''://'' @ host @ '':'' @ show_nat p @ url_path u))"

datatype redirect_action = Follow | RedirectError string

definition redirect_policy :: "url list \<Rightarrow> url \<Rightarrow> redirect_action" where
  "redirect_policy previous u =
     (if 10 \<le> length previous then RedirectError ''too many redirects''
      else if is_permitted u then Follow
      else RedirectError ''redirect to a URL that is not permitted'')"

section \<open>The bounded, retrying GET\<close>

definition HTTP_ATTEMPTS :: nat where "HTTP_ATTEMPTS = 3"
definition HTTP_BACKOFF :: nat where "HTTP_BACKOFF = 200"

text \<open>What one request gives: a transport error, or a status and a body read in pieces.\<close>

record response =
  status :: nat
  body :: "(io_error_kind + bytes) list"

datatype transport = TransportError bool | Response response

datatype failure = Transient | Permanent

definition is_success :: "nat \<Rightarrow> bool" where "is_success s \<longleftrightarrow> 200 \<le> s \<and> s < 300"
definition is_server_error :: "nat \<Rightarrow> bool" where "is_server_error s \<longleftrightarrow> 500 \<le> s \<and> s < 600"

definition send :: "transport \<Rightarrow> failure + response" where
  "send t =
     (case t of
        TransportError is_redirect \<Rightarrow> Inl (if is_redirect then Permanent else Transient)
      | Response r \<Rightarrow>
          if is_success (status r) then Inr r
          else if is_server_error (status r) \<or> status r = 429 then Inl Transient
          else Inl Permanent)"

datatype http_error = NotPermitted | ClientBuildFailed | PermanentFailure | GaveUp nat | BodyReadFailed

text \<open>
  The loop of \<open>fetch_with_retry\<close>: \<open>net n\<close> is what the \<open>n\<close>-th attempt gives. Beside the result
  it returns the delays slept, in milliseconds, oldest first.
\<close>

function fetch_with_retry :: "(nat \<Rightarrow> transport) \<Rightarrow> nat \<Rightarrow> (http_error + response \<times> nat) \<times> nat list" where
  "fetch_with_retry net attempt =
     (case send (net attempt) of
        Inr r \<Rightarrow> (Inr (r, attempt), [])
      | Inl Permanent \<Rightarrow> (Inl PermanentFailure, [])
      | Inl Transient \<Rightarrow>
          if HTTP_ATTEMPTS \<le> attempt then (Inl (GaveUp attempt), [])
          else (let (res, delays) = fetch_with_retry net (attempt + 1)
                in (res, HTTP_BACKOFF * 2 ^ (attempt - 1) # delays)))"
  by pat_completeness auto
termination
  by (relation "measure (\<lambda>(net, attempt). HTTP_ATTEMPTS - attempt)") auto

declare fetch_with_retry.simps [simp del]

text \<open>\<open>io::copy\<close> of \<open>reader.take(limit)\<close>.\<close>

fun copy_limited :: "nat \<Rightarrow> (io_error_kind + bytes) list \<Rightarrow> bytes \<Rightarrow> io_error_kind + bytes" where
  "copy_limited 0 rs acc = Inr acc"
| "copy_limited (Suc n) [] acc = Inr acc"
| "copy_limited (Suc n) (Inl e # rs) acc = Inl e"
| "copy_limited (Suc n) (Inr c # rs) acc =
     (if c = [] then Inr acc else copy_limited (Suc n - length c) rs (acc @ take (Suc n) c))"

text \<open>
  \<open>http_get\<close>: \<open>client_ok\<close> is whether the client could be built, \<open>net u n\<close> the answer to the
  \<open>n\<close>-th request for \<open>u\<close>. The result is the bytes streamed to the writer.
\<close>

definition http_get ::
  "url_parser \<Rightarrow> bool \<Rightarrow> (url \<Rightarrow> nat \<Rightarrow> transport) \<Rightarrow> string \<Rightarrow> u64 \<Rightarrow> http_error + bytes" where
  "http_get parse client_ok net s cap =
     (case parse s of
        None \<Rightarrow> Inl NotPermitted
      | Some u \<Rightarrow>
          if \<not> is_permitted u then Inl NotPermitted
          else if \<not> client_ok then Inl ClientBuildFailed
          else
            (case fst (fetch_with_retry (net u) 1) of
               Inl e \<Rightarrow> Inl e
             | Inr (r, attempts) \<Rightarrow>
                 (case copy_limited (unat (cap + 1)) (body r) [] of
                    Inl e \<Rightarrow> Inl BodyReadFailed
                  | Inr bs \<Rightarrow> Inr bs)))"

section \<open>Properties\<close>

lemma copy_limited_length:
  "copy_limited n rs acc = Inr bs \<Longrightarrow> length bs \<le> length acc + n"
  by (induction n rs acc rule: copy_limited.induct) (auto split: if_splits)

text \<open>
  C26: the URL policy. A URL is fetched only over https, or over http when its host is the name
  \<open>localhost\<close>, an IPv4 literal in 127.0.0.0/8 or the IPv6 literal ::1, and a fetched body has at
  most one byte more than the cap.
\<close>

theorem http_get_permitted_and_bounded:
  assumes "http_get parse client_ok net s cap = Inr bs"
  shows "\<exists>u. parse s = Some u \<and> is_permitted_url parse s \<and>
    (scheme u = ''https'' \<or>
     scheme u = ''http'' \<and> (\<exists>h. host_str u = Some h \<and>
       (h = ''localhost'' \<or> (\<exists>b c d. parse_ip_addr (trim_brackets h) = Some (V4 [127, b, c, d])) \<or>
        parse_ip_addr (trim_brackets h) = Some (V6 [0, 0, 0, 0, 0, 0, 0, 1])))) \<and>
    length bs \<le> unat (cap + 1)"
proof -
  from assms obtain u where u: "parse s = Some u" "is_permitted u" and len: "length bs \<le> unat (cap + 1)"
    using copy_limited_length [of "unat (cap + 1)" _ "[]" bs]
    by (auto simp: http_get_def split: option.splits if_splits sum.splits)
  have v4: "\<exists>a b c d. os = [a, b, c, d]" if "parse_ip_addr t = Some (V4 os)" for t os
    using that
    by (auto simp: parse_ip_addr_def read_ipv4_addr_def bind_eq_Some_conv
        split: option.splits list.splits prod.splits)
  have loop: "(\<exists>b c d. parse_ip_addr t = Some (V4 [127, b, c, d])) \<or> parse_ip_addr t = Some (V6 [0, 0, 0, 0, 0, 0, 0, 1])"
    if "parse_ip_addr t = Some ip" "is_loopback ip" for t ip
    using that v4 [of t] by (cases ip) (fastforce simp: is_loopback_def)+
  have host: "h = ''localhost'' \<or> (\<exists>ip. parse_ip_addr (trim_brackets h) = Some ip \<and> is_loopback ip)"
    if "is_loopback_host h" for h
    using that by (auto simp: is_loopback_host_def split: option.splits)
  have "scheme u = ''https'' \<or>
      scheme u = ''http'' \<and> (\<exists>h. host_str u = Some h \<and> is_loopback_host h)"
    using u(2) by (auto simp: is_permitted_def split: if_splits option.splits)
  with u len host loop show ?thesis unfolding is_permitted_url_def by (simp only: option.case) blast
qed

theorem http_get_permitted_and_bounded_witness:
  "http_get (\<lambda>_. Some \<lparr>scheme = ''http'', host_str = Some ''127.0.0.1'', port = None, url_path = ''/m'',
       userinfo = [], query = None, fragment = None\<rparr>) True
     (\<lambda>_ n. Response \<lparr>status = 200, body = [Inr [1, 2], Inr [3]]\<rparr>) ''http://127.0.0.1/m'' 1 = Inr [1, 2] \<and>
   length [1 :: u8, 2] \<le> unat (1 + 1 :: u64)"
proof -
  let ?u = "\<lparr>scheme = ''http'', host_str = Some ''127.0.0.1'', port = None, url_path = ''/m'',
       userinfo = [], query = None, fragment = None\<rparr>"
  let ?r = "\<lparr>status = 200, body = [Inr [1, 2 :: u8], Inr [3]]\<rparr>"
  have "is_loopback_host ''127.0.0.1''"
    by (simp add: is_loopback_host_def trim_brackets_def parse_ip_addr_def read_ipv4_addr_def
        read_octet_def read_number_def digit_value_def Let_def read_given_char_def is_loopback_def)
  then have ok: "is_permitted ?u" by (simp add: is_permitted_def)
  have "fst (fetch_with_retry (\<lambda>n. Response ?r) 1) = Inr (?r, 1)"
    by (subst fetch_with_retry.simps) (simp add: send_def is_success_def)
  moreover have two: "copy_limited 2 (body ?r) [] = Inr [1, 2]"
    by (simp add: numeral_2_eq_2)
  ultimately have run: "http_get (\<lambda>_. Some ?u) True (\<lambda>_ n. Response ?r) ''http://127.0.0.1/m'' 1 = Inr [1, 2]"
    using ok two by (simp add: http_get_def)
  from http_get_permitted_and_bounded [OF run] run show ?thesis by blast
qed

text \<open>
  the retry loop sends at most three requests. It returns the first response that succeeds,
  stops at the first permanent failure, gives up after three transient ones, and sleeps 200 ms and
  then 400 ms between attempts.
\<close>

theorem fetch_with_retry_unrolled:
  "fetch_with_retry net 1 =
     (case send (net 1) of
        Inr r \<Rightarrow> (Inr (r, 1), [])
      | Inl Permanent \<Rightarrow> (Inl PermanentFailure, [])
      | Inl Transient \<Rightarrow>
          (case send (net 2) of
             Inr r \<Rightarrow> (Inr (r, 2), [200])
           | Inl Permanent \<Rightarrow> (Inl PermanentFailure, [200])
           | Inl Transient \<Rightarrow>
               (case send (net 3) of
                  Inr r \<Rightarrow> (Inr (r, 3), [200, 400])
                | Inl Permanent \<Rightarrow> (Inl PermanentFailure, [200, 400])
                | Inl Transient \<Rightarrow> (Inl (GaveUp 3), [200, 400]))))"
  by (subst fetch_with_retry.simps, subst fetch_with_retry.simps, subst fetch_with_retry.simps)
    (simp add: HTTP_ATTEMPTS_def HTTP_BACKOFF_def numeral_2_eq_2 numeral_3_eq_3
      split: sum.splits failure.splits)

text \<open>A chain of redirects the client follows, given the URLs it has visited so far.\<close>

fun follows :: "url list \<Rightarrow> url list \<Rightarrow> bool" where
  "follows previous [] = True"
| "follows previous (u # us) = (redirect_policy previous u = Follow \<and> follows (previous @ [u]) us)"

lemma follows_permitted:
  "follows previous us \<Longrightarrow> list_all is_permitted us \<and> (us \<noteq> [] \<longrightarrow> length previous + length us \<le> 10)"
  by (induction previous us rule: follows.induct) (auto simp: redirect_policy_def split: if_splits)

text \<open>
  redirects. Every URL of a redirect chain the client follows from its first request is itself
  permitted by the same rule, and the chain has at most nine hops.
\<close>

theorem redirect_chain_permitted:
  assumes "follows [u] us"
  shows "list_all is_permitted us \<and> length us \<le> 9"
  using follows_permitted [OF assms] by auto

theorem redirect_chain_permitted_witness:
  "\<exists>u v. is_permitted v \<and> follows [u] [v]"
proof -
  let ?u = "\<lparr>scheme = ''https'', host_str = Some ''a'', port = None, url_path = [],
       userinfo = [], query = None, fragment = None\<rparr>"
  have f: "follows [?u] [?u]" by (simp add: redirect_policy_def is_permitted_def)
  from redirect_chain_permitted [OF f] f show ?thesis by auto
qed

text \<open>
  redaction. What is logged or reported for a URL is determined by its scheme, host, port and
  path: two URLs that differ in userinfo, query or fragment render the same, and a text that does
  not parse is not echoed.
\<close>

theorem redact_url_hides_secrets:
  "redact_url parse s =
     (case parse s of
        None \<Rightarrow> ''<unparsable url>''
      | Some u \<Rightarrow> redact_url (\<lambda>_. Some (u\<lparr>userinfo := [], query := None, fragment := None\<rparr>)) [])"
  by (simp add: redact_url_def Let_def split: option.splits)

end
