(* ===== verification/Password.thy ===== *)
theory Password
  imports CapFs ClusterSettings ExtHttp
begin

text \<open>
  The superuser password of an existing cluster (\<open>bootstrap/prepare/password.rs\<close> and
  \<open>stale_password.rs\<close>): which password a bootstrap reports, and when a password file left by a
  cluster that is gone is removed. Log events and metrics are left out; their labels are kept.
\<close>

section \<open>Definitions\<close>

definition PG_VERSION_MARKER :: string where "PG_VERSION_MARKER = ''PG_VERSION''"
definition MAX_PASSWORD_FILE_BYTES :: nat where "MAX_PASSWORD_FILE_BYTES = 4096"

datatype password_reuse_outcome = Reused | ExplicitPassword | NoCluster

record password_query_failure =
  fail_outcome :: string
  fail_error :: bootstrap_error

definition query_failure :: "string \<Rightarrow> bootstrap_error_kind \<Rightarrow> password_query_failure" where
  "query_failure label k = \<lparr>fail_outcome = label, fail_error = extension_error k\<rparr>"

definition has_cluster_marker :: "path \<Rightarrow> (password_query_failure, bool) io" where
  "has_cluster_marker data_dir =
     io_match (metadata (data_dir @ [PG_VERSION_MARKER])) (\<lambda>r.
       case r of
         Inr m \<Rightarrow> io_ok (is_file_node m)
       | Inl e \<Rightarrow>
           if e = NotFound then io_ok False
           else io_err (query_failure ''probe_failed'' ClusterPasswordUnreadable))"

text \<open>\<open>open_without_blocking\<close>, and the metadata of the opened file.\<close>

definition open_without_blocking :: "path \<Rightarrow> path fs" where
  "open_without_blocking p = open_read p"

definition handle_metadata :: "path \<Rightarrow> node fs" where
  "handle_metadata q = syscall (\<lambda>w. case node_at (root w) q of Some n \<Rightarrow> (Inr n, w) | None \<Rightarrow> (Inl OtherIo, w))"

definition read_bounded :: "path \<Rightarrow> string fs" where
  "read_bounded p =
     io_bind (open_without_blocking p) (\<lambda>q.
     io_bind (handle_metadata q) (\<lambda>m.
       if \<not> is_file_node m then io_err InvalidInput
       else if node_len m > MAX_PASSWORD_FILE_BYTES then io_err OtherIo
       else (\<lambda>w.
         case reads q w of (rs, w') \<Rightarrow>
           io_bind (io_of (copy_limited (MAX_PASSWORD_FILE_BYTES + 1) rs [])) (\<lambda>bs.
             let raw = map (\<lambda>b. char_of (unat b)) bs in
             if \<not> is_utf8 raw then io_err OtherIo
             else if length raw > MAX_PASSWORD_FILE_BYTES then io_err OtherIo
             else io_ok raw) w')))"

definition trim_end_newlines :: "string \<Rightarrow> string" where
  "trim_end_newlines s = rev (dropWhile (\<lambda>c. c = CHR 0x0A \<or> c = CHR 0x0D) (rev s))"

definition read_stored_password :: "path \<Rightarrow> (password_query_failure, string) io" where
  "read_stored_password password_file =
     io_bind (io_map_err (\<lambda>e.
         if e = NotFound then query_failure ''missing_file'' ClusterPasswordMissing
         else query_failure ''unreadable_file'' ClusterPasswordUnreadable) (read_bounded password_file)) (\<lambda>raw.
       let stored = trim_end_newlines raw in
       if stored = [] then io_err (query_failure ''empty_file'' ClusterPasswordEmpty) else io_ok stored)"

definition query_stored_password :: "path \<Rightarrow> path \<Rightarrow> (password_query_failure, string option) io" where
  "query_stored_password data_dir password_file =
     io_bind (has_cluster_marker data_dir) (\<lambda>present.
       if \<not> present then io_ok None
       else io_bind (read_stored_password password_file) (\<lambda>s. io_ok (Some s)))"

definition stored_cluster_password :: "path \<Rightarrow> path \<Rightarrow> (bootstrap_error, string option) io" where
  "stored_cluster_password data_dir password_file = io_map_err fail_error (query_stored_password data_dir password_file)"

definition reuse_existing_password ::
  "settings \<Rightarrow> path \<Rightarrow> path \<Rightarrow> bool \<Rightarrow> (bootstrap_error, password_reuse_outcome \<times> settings) io"
where
  "reuse_existing_password settings data_dir password_file is_password_explicit =
     (if is_password_explicit then io_ok (ExplicitPassword, settings)
      else io_match (query_stored_password data_dir password_file) (\<lambda>r.
        case r of
          Inr (Some stored) \<Rightarrow> io_ok (Reused, settings\<lparr>s_password := stored\<rparr>)
        | Inr None \<Rightarrow> io_ok (NoCluster, settings)
        | Inl failure \<Rightarrow> io_err (fail_error failure)))"

definition discard_orphaned_password_file :: "path \<Rightarrow> path \<Rightarrow> (bootstrap_error, bool) io" where
  "discard_orphaned_password_file data_dir password_file =
     io_bind (io_map_err fail_error (has_cluster_marker data_dir)) (\<lambda>present.
       if present then io_ok False
       else io_match (remove_file password_file) (\<lambda>r.
         case r of
           Inr _ \<Rightarrow> io_ok True
         | Inl e \<Rightarrow> if e = NotFound then io_ok False else io_err (extension_error ClusterPasswordUnreadable)))"

section \<open>What the file system holds\<close>

text \<open>A regular file under a name, followed through links.\<close>

definition file_named :: "node \<Rightarrow> path \<Rightarrow> attr \<Rightarrow> bytes \<Rightarrow> bool" where
  "file_named r p a bs \<longleftrightarrow> (\<exists>q. resolve True r p = Inr q \<and> node_at r q = Some (File a bs))"

definition cluster_at :: "node \<Rightarrow> path \<Rightarrow> bool" where
  "cluster_at r data_dir \<longleftrightarrow> (\<exists>a bs. file_named r (data_dir @ [PG_VERSION_MARKER]) a bs)"

definition stores_password :: "node \<Rightarrow> path \<Rightarrow> string \<Rightarrow> bool" where
  "stores_password r p s \<longleftrightarrow>
     (\<exists>a bs. file_named r p a bs \<and> length bs \<le> MAX_PASSWORD_FILE_BYTES \<and>
        s = trim_end_newlines (map (\<lambda>b. char_of (unat b)) bs) \<and> s \<noteq> [])"

lemma has_cluster_marker_ok:
  assumes "has_cluster_marker d w = (r, w')"
  shows "root w' = root w" and "r = Inr b \<Longrightarrow> b = cluster_at (root w) d"
  using assms
  by (auto simp: has_cluster_marker_def metadata_def syscall_def Let_def stat_node_def io_match_def io_ok_def io_err_def
      cluster_at_def file_named_def fault_error_def elim!: is_file_node.elims
      split: option.splits sum.splits if_splits node.splits)

lemma open_read_ok:
  assumes "open_read p w = (r, w')"
  shows "root w' = root w" and "r = Inr q \<Longrightarrow> resolve True (root w) p = Inr q \<and> node_at (root w) q \<noteq> None"
  using assms by (auto simp: open_read_def syscall_def Let_def split: option.splits sum.splits)

lemma handle_metadata_ok:
  assumes "handle_metadata q w = (r, w')"
  shows "root w' = root w" and "r = Inr n \<Longrightarrow> node_at (root w) q = Some n"
  using assms by (auto simp: handle_metadata_def syscall_def Let_def split: option.splits)

lemma root_reads [simp]: "root (snd (reads q w)) = root w"
  by (simp add: reads_def Let_def split: option.split node.split)

lemma copy_limited_reads:
  assumes "reads q w = (rs, w')" and "node_at (root w) q = Some (File a bs)" and "copy_limited (Suc n) rs [] = Inr c" and "length bs \<le> n"
  shows "c = bs"
  using assms by (auto simp: reads_def Let_def Suc_diff_le min_le_iff_disj split: option.splits if_splits)

lemma read_bounded_ok:
  assumes "read_bounded p w = (r, w')"
  shows "root w' = root w"
    and "r = Inr s \<Longrightarrow> \<exists>a bs. file_named (root w) p a bs \<and> length bs \<le> MAX_PASSWORD_FILE_BYTES \<and> s = map (\<lambda>b. char_of (unat b)) bs"
proof -
  obtain ro w1 where o: "open_read p w = (ro, w1)" by fastforce
  note o1 = open_read_ok [OF o]
  have both: "root w' = root w \<and> (\<forall>s. r = Inr s \<longrightarrow>
      (\<exists>a bs. file_named (root w) p a bs \<and> length bs \<le> MAX_PASSWORD_FILE_BYTES \<and> s = map (\<lambda>b. char_of (unat b)) bs))"
  proof (cases ro)
    case (Inl e)
    then show ?thesis using assms o o1(1) by (auto simp: read_bounded_def open_without_blocking_def io_bind_def)
  next
    case (Inr q)
    obtain rm w2 where m: "handle_metadata q w1 = (rm, w2)" by fastforce
    note m1 = handle_metadata_ok [OF m]
    obtain rs w3 where rs: "reads q w2 = (rs, w3)" by fastforce
    then have r3: "root w3 = root w2" by (metis root_reads snd_conv)
    have eq: "read_bounded p w = (case rm of Inl e \<Rightarrow> (Inl e, w2) | Inr m \<Rightarrow>
        if \<not> is_file_node m then (Inl InvalidInput, w2)
        else if node_len m > MAX_PASSWORD_FILE_BYTES then (Inl OtherIo, w2)
        else case copy_limited (MAX_PASSWORD_FILE_BYTES + 1) rs [] of
               Inl e \<Rightarrow> (Inl e, w3)
             | Inr bs \<Rightarrow>
                 (let raw = map (\<lambda>b. char_of (unat b)) bs in
                  if \<not> is_utf8 raw then (Inl OtherIo, w3)
                  else if length raw > MAX_PASSWORD_FILE_BYTES then (Inl OtherIo, w3) else (Inr raw, w3)))"
      using o Inr m rs
      by (auto simp: read_bounded_def open_without_blocking_def io_bind_def io_of_def io_err_def io_ok_def Let_def split: sum.splits)
    have "\<exists>a bs. file_named (root w) p a bs \<and> length bs \<le> MAX_PASSWORD_FILE_BYTES \<and> s = map (\<lambda>b. char_of (unat b)) bs"
      if ok: "r = Inr s" for s
    proof -
      obtain n c where n: "rm = Inr n" "is_file_node n" "node_len n \<le> MAX_PASSWORD_FILE_BYTES"
        and c: "copy_limited (MAX_PASSWORD_FILE_BYTES + 1) rs [] = Inr c" "s = map (\<lambda>b. char_of (unat b)) c"
        using eq assms ok by (auto simp: Let_def split: sum.splits if_splits)
      then obtain a bs where f: "n = File a bs" by (auto elim!: is_file_node.elims)
      have "node_at (root w2) q = Some (File a bs)" using m1 n(1) f by simp
      then have "c = bs" using copy_limited_reads [OF rs _ c(1) [unfolded Suc_eq_plus1 [symmetric]]] n(3) f by simp
      then show ?thesis using c(2) n(3) f m1 n(1) o1 Inr by (auto simp: file_named_def)
    qed
    moreover have "root w' = root w" using eq assms r3 m1(1) o1(1) by (auto simp: Let_def split: sum.splits if_splits)
    ultimately show ?thesis by blast
  qed
  then show "root w' = root w"
    and "r = Inr s \<Longrightarrow> \<exists>a bs. file_named (root w) p a bs \<and> length bs \<le> MAX_PASSWORD_FILE_BYTES \<and> s = map (\<lambda>b. char_of (unat b)) bs"
    by blast+
qed

lemma read_stored_password_ok:
  assumes "read_stored_password p w = (r, w')"
  shows "root w' = root w" and "r = Inr s \<Longrightarrow> stores_password (root w) p s"
proof -
  obtain rb w1 where b: "read_bounded p w = (rb, w1)" by fastforce
  note b1 = read_bounded_ok [OF b]
  show "root w' = root w" using assms b b1(1)
    by (auto simp: read_stored_password_def io_bind_def io_map_err_def Let_def io_err_def io_ok_def split: sum.splits if_splits)
  assume "r = Inr s"
  then obtain raw where raw: "rb = Inr raw" "s = trim_end_newlines raw" "s \<noteq> []" using assms b
    by (auto simp: read_stored_password_def io_bind_def io_map_err_def Let_def io_err_def io_ok_def split: sum.splits if_splits)
  from b1(2) [OF raw(1)] raw(2,3) show "stores_password (root w) p s" unfolding stores_password_def by blast
qed

lemma reuse_ok:
  assumes "reuse_existing_password s d p explicit w = (r, w')"
  shows "root w' = root w"
    and "r = Inr (out, s') \<Longrightarrow>
      (case out of
         ExplicitPassword \<Rightarrow> explicit \<and> s' = s
       | NoCluster \<Rightarrow> \<not> explicit \<and> s' = s \<and> \<not> cluster_at (root w) d
       | Reused \<Rightarrow> \<not> explicit \<and> s' = s\<lparr>s_password := s_password s'\<rparr> \<and> cluster_at (root w) d \<and>
           stores_password (root w) p (s_password s'))"
proof -
  obtain rm w1 where m: "has_cluster_marker d w = (rm, w1)" by fastforce
  obtain rs w2 where s: "read_stored_password p w1 = (rs, w2)" by fastforce
  note f = has_cluster_marker_ok [OF m] read_stored_password_ok [OF s]
  show "root w' = root w" using assms m s f(1,3)
    by (auto simp: reuse_existing_password_def query_stored_password_def io_match_def io_bind_def io_ok_def io_err_def
        split: sum.splits if_splits)
  assume "r = Inr (out, s')"
  then show "case out of
         ExplicitPassword \<Rightarrow> explicit \<and> s' = s
       | NoCluster \<Rightarrow> \<not> explicit \<and> s' = s \<and> \<not> cluster_at (root w) d
       | Reused \<Rightarrow> \<not> explicit \<and> s' = s\<lparr>s_password := s_password s'\<rparr> \<and> cluster_at (root w) d \<and>
           stores_password (root w) p (s_password s')"
    using assms m s f
    by (auto simp: reuse_existing_password_def query_stored_password_def io_match_def io_bind_def io_ok_def io_err_def
        split: sum.splits if_splits)
qed

section \<open>Paths without links\<close>

text \<open>A name none of whose prefixes is a link, and that never goes up, can only mean itself.\<close>

definition link_free :: "node \<Rightarrow> path \<Rightarrow> bool" where
  "link_free r p \<longleftrightarrow> ''..'' \<notin> set p \<and> (\<forall>x t. prefix x p \<longrightarrow> node_at r x \<noteq> Some (Symlink t))"

lemma walk_link_free:
  "link_free r (cur @ rest) \<Longrightarrow> walk n follow r cur rest = Inr q \<Longrightarrow> q = cur @ rest"
proof (induction rest arbitrary: cur)
  case (Cons c cs)
  have "node_at r (cur @ [c]) \<noteq> Some (Symlink t)" for t using Cons.prems(1) by (auto simp: link_free_def)
  moreover have "c \<noteq> ''..''" using Cons.prems(1) by (auto simp: link_free_def)
  ultimately show ?case using Cons.prems Cons.IH [of "cur @ [c]"]
    by (auto simp: walk_Cons split: option.splits node.splits if_splits)
qed simp

lemma walk_present:
  "link_free r (cur @ rest) \<Longrightarrow> node_at r (cur @ rest) = Some m \<Longrightarrow> walk n follow r cur rest = Inr (cur @ rest)"
proof (induction rest arbitrary: cur)
  case (Cons c cs)
  have l: "node_at r (cur @ [c]) \<noteq> Some (Symlink t)" for t using Cons.prems(1) by (auto simp: link_free_def)
  have c: "c \<noteq> ''..''" using Cons.prems(1) by (auto simp: link_free_def)
  obtain k where k: "node_at r (cur @ [c]) = Some k" "node_at k cs = Some m"
    using Cons.prems(2) node_at_append [of r "cur @ [c]" cs] by (cases "node_at r (cur @ [c])") auto
  show ?case
  proof (cases cs)
    case Nil
    then show ?thesis using k l c by (cases k) (auto simp: walk_Cons)
  next
    case (Cons d ds)
    then obtain a es where "k = Dir a es" using k(2) node_at_non_dir by blast
    then show ?thesis using k c Cons.IH [of "cur @ [c]"] Cons.prems by (simp add: walk_Cons)
  qed
qed simp

lemma resolve_link_free: "link_free r p \<Longrightarrow> resolve follow r p = Inr q \<Longrightarrow> q = p"
  unfolding resolve_def using walk_link_free [of r "[]" p] by simp

lemma file_named_link_free: "link_free r p \<Longrightarrow> file_named r p a bs \<longleftrightarrow> node_at r p = Some (File a bs)"
  using resolve_link_free [of r p True] walk_present [of r "[]" p] by (auto simp: file_named_def resolve_def)

lemma link_free_grows:
  assumes "grows r r'" and "link_free r p"
  shows "link_free r' p"
proof -
  have "node_at r' x \<noteq> Some (Symlink t)" if "prefix x p" for x t
  proof
    assume l: "node_at r' x = Some (Symlink t)"
    have "node_at r x \<noteq> Some (Symlink t')" for t' using assms(2) that by (auto simp: link_free_def)
    then show False using l growsD [OF assms(1), of x] by (cases "node_at r x"; cases "the (node_at r x)") auto
  qed
  then show ?thesis using assms(2) by (simp add: link_free_def)
qed

lemma file_grows:
  assumes "grows r r'" and "link_free r p"
  shows "(\<exists>a. file_named r' p a bs) \<longleftrightarrow> (\<exists>a. file_named r p a bs)"
proof -
  have "node_at r p \<noteq> Some (Symlink t)" for t using assms(2) by (auto simp: link_free_def)
  then have "(\<exists>a. node_at r' p = Some (File a bs)) \<longleftrightarrow> (\<exists>a. node_at r p = Some (File a bs))"
    using growsD [OF assms(1), of p] by (cases "node_at r p"; cases "the (node_at r p)") auto
  then show ?thesis using file_named_link_free [OF assms(2)] file_named_link_free [OF link_free_grows [OF assms]] by simp
qed

lemma cluster_grows:
  assumes "grows r r'" and "link_free r (d @ [PG_VERSION_MARKER])"
  shows "cluster_at r' d \<longleftrightarrow> cluster_at r d"
  unfolding cluster_at_def using file_grows [OF assms] by blast

lemma password_grows:
  assumes "grows r r'" and "link_free r p"
  shows "stores_password r' p s \<longleftrightarrow> stores_password r p s"
  unfolding stores_password_def using file_grows [OF assms] by blast

text \<open>What is there after a removal was there before.\<close>

lemma node_at_removed:
  assumes "node_at (put_at r q None) x = Some n" and "\<not> is_dir_node n"
  shows "node_at r x = Some n"
proof (cases "q = []")
  case False
  note gone = node_at_put_gone [OF False, of r]
  consider y where "x = q @ y" | "strict_prefix x q" | "\<not> prefix q x \<and> \<not> prefix x q"
    by (auto simp: strict_prefix_def prefix_def)
  then show ?thesis
  proof cases
    case 1
    then show ?thesis using assms(1) gone by (simp add: node_at_append)
  next
    case 2
    from node_at_put_above [OF this, of r None] show ?thesis using assms
      by (cases "(node_at r x, node_at (put_at r q None) x)" rule: same_shape.cases) auto
  next
    case 3
    then show ?thesis using assms(1) node_at_put_other [of q x] by simp
  qed
qed (use assms in simp)

lemma link_free_removed: "link_free r p \<Longrightarrow> link_free (put_at r q None) p"
  unfolding link_free_def using node_at_removed by (metis is_dir_node.simps(3))

lemma file_removed:
  assumes "link_free r p" and "file_named (put_at r q None) p a bs"
  shows "file_named r p a bs"
proof -
  have "node_at (put_at r q None) p = Some (File a bs)"
    using assms(2) file_named_link_free [OF link_free_removed [OF assms(1)]] by blast
  from node_at_removed [OF this] show ?thesis using file_named_link_free [OF assms(1)] by simp
qed

lemma remove_file_cases:
  assumes "remove_file p w = (r, w')" and "link_free (root w) p"
  shows "r = Inr () \<Longrightarrow> root w' = put_at (root w) p None" and "r \<noteq> Inr () \<Longrightarrow> root w' = root w"
    and "r = Inl NotFound \<Longrightarrow> node_at (root w) p = None"
proof -
  show "r \<noteq> Inr () \<Longrightarrow> root w' = root w"
    using assms(1) by (auto simp: remove_file_def record_op_def syscall_def Let_def split: option.splits sum.splits node.splits)
  show "r = Inr () \<Longrightarrow> root w' = put_at (root w) p None"
    using assms(1) resolve_link_free [OF assms(2), of False]
    by (auto simp: remove_file_def record_op_def syscall_def Let_def set_root_def split: option.splits sum.splits node.splits)
  show "node_at (root w) p = None" if nf: "r = Inl NotFound"
  proof (cases "node_at (root w) p")
    case (Some m)
    then have "resolve False (root w) p = Inr p" using walk_present [of "root w" "[]" p] assms(2) by (simp add: resolve_def)
    then show ?thesis using assms(1) nf Some
      by (auto simp: remove_file_def record_op_def syscall_def Let_def fault_error_def split: option.splits node.splits if_splits)
  qed simp
qed

lemma discard_ok:
  assumes "discard_orphaned_password_file d p w = (Inr b, w')"
    and "link_free (root w) p" and "link_free (root w) (d @ [PG_VERSION_MARKER])" and "p \<noteq> []"
  shows "cluster_at (root w') d = cluster_at (root w) d" and "link_free (root w') p" and "link_free (root w') (d @ [PG_VERSION_MARKER])"
    and "cluster_at (root w) d \<Longrightarrow> root w' = root w"
    and "\<not> cluster_at (root w) d \<Longrightarrow> \<not> file_named (root w') p a bs"
proof -
  obtain rm w1 where m: "has_cluster_marker d w = (rm, w1)" by fastforce
  note m1 = has_cluster_marker_ok [OF m]
  obtain rr w2 where rf: "remove_file p w1 = (rr, w2)" by fastforce
  note rc = remove_file_cases [OF rf, unfolded m1(1), OF assms(2)]
  have cases: "if cluster_at (root w) d then root w' = root w else w' = w2 \<and> (rr = Inr () \<or> rr = Inl NotFound)"
    using assms(1) m m1 rf
    by (auto simp: discard_orphaned_password_file_def io_bind_def io_map_err_def io_match_def io_ok_def io_err_def
        split: sum.splits if_splits)
  show same: "cluster_at (root w) d \<Longrightarrow> root w' = root w" using cases by simp
  have either: "root w' = root w \<or> root w' = put_at (root w) p None" using cases rc by (auto split: if_splits)
  then show l: "link_free (root w') p" "link_free (root w') (d @ [PG_VERSION_MARKER])"
    using assms(2,3) link_free_removed by metis+
  have "cluster_at (put_at (root w) p None) d \<Longrightarrow> cluster_at (root w) d"
    using file_removed [OF assms(3)] unfolding cluster_at_def by blast
  then show "cluster_at (root w') d = cluster_at (root w) d" using either same by metis
  show "\<not> file_named (root w') p a bs" if "\<not> cluster_at (root w) d"
  proof -
    have "node_at (root w') p = None" using cases that rc node_at_put_gone [OF assms(4), of "root w"] by auto
    then show ?thesis using file_named_link_free [OF l(1)] by auto
  qed
qed

section \<open>The password a bootstrap reports\<close>

text \<open>
  The reported password is the one that will open the server: an existing cluster's file holds it,
  unless the caller named it; where there is no cluster, no file is left for \<open>initdb\<close> to take another
  from.
\<close>

definition password_settled :: "node \<Rightarrow> path \<Rightarrow> path \<Rightarrow> bool \<Rightarrow> string \<Rightarrow> bool" where
  "password_settled r d p explicit pw \<longleftrightarrow>
     (if cluster_at r d then explicit \<or> stores_password r p pw else (\<forall>a bs. \<not> file_named r p a bs))"

lemma password_settledI:
  assumes reuse: "reuse_existing_password s d p explicit w1 = (Inr (out, s'), w2)"
    and grown: "grows (root w2) (root w3)"
    and discard: "discard_orphaned_password_file d p w3 = (Inr b, w4)"
    and grown2: "grows (root w4) (root w5)"
    and free: "link_free (root w1) p" "link_free (root w1) (d @ [PG_VERSION_MARKER])" and p: "p \<noteq> []"
  shows "password_settled (root w5) d p explicit (s_password s')"
proof -
  note r = reuse_ok [OF reuse]
  have f2: "link_free (root w2) p" "link_free (root w2) (d @ [PG_VERSION_MARKER])" using free r(1) by simp_all
  note f3 = f2 [THEN link_free_grows [OF grown]]
  note dc = discard_ok [OF discard f3 p]
  have c: "cluster_at (root w5) d = cluster_at (root w1) d"
    using cluster_grows [OF grown f2(2)] cluster_grows [OF grown2 dc(3)] dc(1) r(1) by simp
  show ?thesis
  proof (cases "cluster_at (root w1) d")
    case True
    then have "cluster_at (root w3) d" using cluster_grows [OF grown f2(2)] r(1) by simp
    then have "root w4 = root w3" by (rule dc(4))
    moreover have "explicit \<or> stores_password (root w1) p (s_password s')"
      using r(2) [OF refl] True by (cases out) auto
    ultimately show ?thesis
      using c True password_grows [OF grown f2(1)] password_grows [OF grown2 dc(2)] r(1) by (auto simp: password_settled_def)
  next
    case False
    then have "\<not> cluster_at (root w3) d" using cluster_grows [OF grown f2(2)] r(1) by simp
    then show ?thesis using c False dc(5) file_grows [OF grown2 dc(2)] by (auto simp: password_settled_def)
  qed
qed

end
