(* ===== verification/Privileges.thy ===== *)
theory Privileges
  imports CapFs
begin

text \<open>
  Handing directories to another user (\<open>privileges.rs\<close>). \<open>chown\<close> follows links, as \<open>nix::unistd::chown\<close>
  does. The walk over a tree keeps a stack of directories; its fuel is the number of directories of
  the file system, and \<open>tree_walk_returns\<close> shows that this is enough.
\<close>

section \<open>Definitions\<close>

record user =
  user_uid :: u32
  user_gid :: u32

definition chown_entry :: "path \<Rightarrow> user \<Rightarrow> unit fs" where
  "chown_entry p u w =
     (case resolve True (root w) p of
        Inl e \<Rightarrow> record_op (Chown p) (syscall (io_err e)) w
      | Inr q \<Rightarrow> chown_at p q (user_uid u) (user_gid u) w)"

definition ensure_dir_for_user_inner :: "dir_cap \<Rightarrow> path \<Rightarrow> component list \<Rightarrow> user \<Rightarrow> u32 \<Rightarrow> unit fs" where
  "ensure_dir_for_user_inner cap dir p u m =
     io_bind (ensure_dir_exists cap dir p) (\<lambda>_.
     io_bind (chown_entry (fs_path dir p) u) (\<lambda>_. set_path_permissions cap dir p m))"

definition ensure_dir_for_user :: "dir_cap \<Rightarrow> path \<Rightarrow> component list \<Rightarrow> user \<Rightarrow> u32 \<Rightarrow> unit fs" where
  "ensure_dir_for_user cap dir p u m = ensure_dir_for_user_inner cap dir p u m"

definition make_dir_accessible :: "dir_cap \<Rightarrow> path \<Rightarrow> component list \<Rightarrow> user \<Rightarrow> unit fs" where
  "make_dir_accessible cap dir p u = ensure_dir_for_user cap dir p u 493"

definition make_data_dir_private :: "dir_cap \<Rightarrow> path \<Rightarrow> component list \<Rightarrow> user \<Rightarrow> unit fs" where
  "make_data_dir_private cap dir p u = ensure_dir_for_user cap dir p u 448"

text \<open>The entries of one directory; the stack's top is its head.\<close>

fun own_entries :: "path \<Rightarrow> user \<Rightarrow> (string \<times> node) list \<Rightarrow> path list \<Rightarrow> path list fs" where
  "own_entries p u [] stack = io_ok stack"
| "own_entries p u (e # es) stack =
     io_bind (next_entry e) (\<lambda>(name, n).
       if \<not> is_utf8 name then io_err OtherIo
       else io_bind (chown_entry (p @ [name]) u) (\<lambda>_.
         own_entries p u es (if is_dir_node n then (p @ [name]) # stack else stack)))"

fun own_tree_loop :: "dir_cap \<Rightarrow> user \<Rightarrow> nat \<Rightarrow> path list \<Rightarrow> world \<Rightarrow> ((io_error_kind + unit) \<times> world) option" where
  "own_tree_loop cap u n [] w = Some (Inr (), w)"
| "own_tree_loop cap u 0 (p # stack) w = None"
| "own_tree_loop cap u (Suc n) (p # stack) w =
     (case dc_open_ambient cap p w of
        (Inl e, w1) \<Rightarrow> if e = NotFound then own_tree_loop cap u n stack w1 else Some (Inl e, w1)
      | (Inr h, w1) \<Rightarrow>
          (case dc_entries cap h w1 of
             (Inl e, w2) \<Rightarrow> Some (Inl e, w2)
           | (Inr es, w2) \<Rightarrow>
               (case own_entries p u es stack w2 of
                  (Inl e, w3) \<Rightarrow> Some (Inl e, w3)
                | (Inr stack', w3) \<Rightarrow> own_tree_loop cap u n stack' w3)))"

fun dir_count :: "node \<Rightarrow> nat" where
  "dir_count (Dir a cs) = Suc (\<Sum>e\<leftarrow>cs. dir_count (snd e))"
| "dir_count _ = 0"

definition ensure_tree_owned_by_user :: "dir_cap \<Rightarrow> user \<Rightarrow> path \<Rightarrow> unit fs" where
  "ensure_tree_owned_by_user cap u p w =
     (case own_tree_loop cap u (dir_count (root w)) [p] w of Some r \<Rightarrow> r | None \<Rightarrow> (Inl OtherIo, w))"

text \<open>\<open>looked_up\<close> is what \<open>User::from_name\<close> gives for \<open>nobody\<close>.\<close>

definition nobody_uid :: "io_error_kind + user option \<Rightarrow> u32" where
  "nobody_uid looked_up = (case looked_up of Inr (Some u) \<Rightarrow> user_uid u | _ \<Rightarrow> 65534)"

definition default_root_for :: "u32 \<Rightarrow> string" where
  "default_root_for u = ''/var/tmp/pg-embed-'' @ show_nat (unat u)"

section \<open>Attributes aside\<close>

text \<open>The tree without owners and modes: what name resolution and the walk depend on.\<close>

definition no_attr :: attr where
  "no_attr = \<lparr>mode = 0, uid = 0, gid = 0\<rparr>"

fun bare :: "node \<Rightarrow> node" where
  "bare (File a bs) = File no_attr bs"
| "bare (Dir a cs) = Dir no_attr (map (\<lambda>e. (fst e, bare (snd e))) cs)"
| "bare (Symlink t) = Symlink t"

lemma map_of_bare: "map_of (map (\<lambda>e. (fst e, bare (snd e))) cs) c = map_option bare (map_of cs c)"
  by (induction cs) auto

lemma node_at_bare: "node_at (bare r) x = map_option bare (node_at r x)"
proof (induction r x rule: node_at.induct)
  case (2 a cs c p)
  then show ?case by (cases "map_of cs c") (auto simp: map_of_bare)
qed simp_all

lemma is_dir_bare [simp]: "is_dir_node (bare n) = is_dir_node n"
  by (cases n) simp_all

lemma dir_count_bare [simp]: "dir_count (bare n) = dir_count n"
proof (induction n rule: dir_count.induct)
  case (1 a cs)
  then have "map (\<lambda>e. dir_count (bare (snd e))) cs = map (\<lambda>e. dir_count (snd e)) cs" by auto
  then show ?case by (simp only: bare.simps dir_count.simps map_map comp_def snd_conv)
qed simp_all

lemma bare_put:
  assumes "node_at r q = Some n" and "bare v = bare n"
  shows "bare (put_at r q (Some v)) = bare r"
  using assms
proof (induction r q "Some v" rule: put_at.induct)
  case (2 a cs c p)
  have upd: "map (\<lambda>e. (fst e, bare (snd e))) (AList.update c x cs) = map (\<lambda>e. (fst e, bare (snd e))) cs"
    if "map_of cs c = Some y" "bare x = bare y" for x y
    using that by (induction cs) auto
  show ?case using 2 upd by (cases "map_of cs c") auto
qed (auto split: if_splits)

lemma walk_bare: "walk n follow (bare r) cur rest = walk n follow r cur rest"
proof (induction n follow r cur rest rule: walk.induct)
  case (1 n follow r cur rest)
  show ?case
  proof (cases rest)
    case (Cons c ds)
    note IH = 1 [OF Cons]
    show ?thesis
    proof (cases "c = ''..''")
      case False
      then show ?thesis using IH(2,3)
        by (cases "node_at r (cur @ [c])"; cases "the (node_at r (cur @ [c]))")
          (auto simp: Cons walk_Cons node_at_bare split: nat.split)
    qed (use IH(1) in \<open>simp add: Cons walk_Cons\<close>)
  qed simp
qed

lemma resolve_bare: "bare r' = bare r \<Longrightarrow> resolve follow r' p = resolve follow r p"
  unfolding resolve_def using walk_bare by metis

section \<open>Names below a directory\<close>

text \<open>The entries of a directory have different names, none of them \<open>..\<close>.\<close>

definition proper_dirs :: "node \<Rightarrow> bool" where
  "proper_dirs r \<longleftrightarrow> (\<forall>x a cs. node_at r x = Some (Dir a cs) \<longrightarrow> distinct (map fst cs) \<and> ''..'' \<notin> set (map fst cs))"

lemma bare_dir: "bare m = Dir b ds \<Longrightarrow> \<exists>a cs. m = Dir a cs \<and> ds = map (\<lambda>e. (fst e, bare (snd e))) cs"
  by (cases m) auto

lemma node_at_same_bare:
  assumes "bare r' = bare r" and "node_at r x = Some n"
  shows "\<exists>n'. node_at r' x = Some n' \<and> bare n' = bare n"
  using assms node_at_bare [of r x] node_at_bare [of r' x] by (cases "node_at r' x") auto

lemma proper_dirs_bare: "bare r' = bare r \<Longrightarrow> proper_dirs r \<Longrightarrow> proper_dirs r'"
  unfolding proper_dirs_def
proof (intro allI impI)
  fix x a cs
  assume eq: "bare r' = bare r" and ok: "\<forall>x a cs. node_at r x = Some (Dir a cs) \<longrightarrow> distinct (map fst cs) \<and> ''..'' \<notin> set (map fst cs)"
    and n: "node_at r' x = Some (Dir a cs)"
  from node_at_same_bare [OF eq [symmetric] n] obtain n' where n': "node_at r x = Some n'" "bare n' = bare (Dir a cs)" by blast
  from bare_dir [of n'] n'(2) obtain b ds where "n' = Dir b ds"
    "map (\<lambda>e. (fst e, bare (snd e))) cs = map (\<lambda>e. (fst e, bare (snd e))) ds" by fastforce
  then have "map fst cs = map fst ds" by (metis (no_types, lifting) comp_def fst_conv map_cong map_map)
  then show "distinct (map fst cs) \<and> ''..'' \<notin> set (map fst cs)" using ok n'(1) \<open>n' = Dir b ds\<close> by simp
qed

lemma walk_snoc:
  "walk n True r cur rest = Inr q \<Longrightarrow> node_at r q = Some (Dir a cs) \<Longrightarrow> c \<noteq> ''..'' \<Longrightarrow>
   node_at r (q @ [c]) = Some m \<Longrightarrow> \<not> is_symlink_node m \<Longrightarrow> walk n True r cur (rest @ [c]) = Inr (q @ [c])"
proof (induction n True r cur rest rule: walk.induct)
  case (1 n r cur rest)
  show ?case
  proof (cases rest)
    case Nil
    then show ?thesis using "1.prems" by (cases m) (auto simp: walk_Cons)
  next
    case (Cons d ds)
    note w = "1.prems"(1) [unfolded Cons walk_Cons]
    show ?thesis
    proof (cases "d = ''..''")
      case True
      then show ?thesis using w "1.hyps"(1) [OF Cons True] "1.prems" by (simp add: Cons walk_Cons)
    next
      case False
      note IH = "1.hyps"(2) [OF Cons False] "1.hyps"(3) [OF Cons False]
      show ?thesis
      proof (cases "node_at r (cur @ [d])")
        case None
        then show ?thesis using w False "1.prems"(2) by (auto split: if_splits)
      next
        case (Some x)
        then show ?thesis
        proof (cases x)
          case (File b bs)
          then show ?thesis using w False Some "1.prems"(2) by (auto split: if_splits)
        next
          case (Dir b es)
          then show ?thesis using w False Some IH(1) [OF Some Dir] "1.prems" by (simp add: Cons walk_Cons)
        next
          case (Symlink t)
          then show ?thesis using w False Some IH(2) [OF Some Symlink] "1.prems"
            by (auto simp: Cons walk_Cons split: nat.splits)
        qed
      qed
    qed
  qed
qed

lemma resolve_child:
  assumes "resolve True r p = Inr q" and "node_at r q = Some (Dir a cs)" and "proper_dirs r"
    and "(c, m) \<in> set cs" and "\<not> is_symlink_node m"
  shows "node_at r (q @ [c]) = Some m" and "resolve True r (p @ [c]) = Inr (q @ [c])"
proof -
  have d: "distinct (map fst cs)" "c \<noteq> ''..''" using assms(2-4) unfolding proper_dirs_def by force+
  then show n: "node_at r (q @ [c]) = Some m" using assms(2,4) by (simp add: node_at_append)
  show "resolve True r (p @ [c]) = Inr (q @ [c])"
    using walk_snoc [OF _ assms(2) d(2) n assms(5)] assms(1) by (simp add: resolve_def)
qed

section \<open>Changing owners\<close>

fun owned :: "user \<Rightarrow> node \<Rightarrow> bool" where
  "owned u (File a _) \<longleftrightarrow> uid a = user_uid u \<and> gid a = user_gid u"
| "owned u (Dir a _) \<longleftrightarrow> uid a = user_uid u \<and> gid a = user_gid u"
| "owned u (Symlink _) \<longleftrightarrow> True"

definition owned_at :: "user \<Rightarrow> node \<Rightarrow> path \<Rightarrow> bool" where
  "owned_at u r x \<longleftrightarrow> (\<forall>n. node_at r x = Some n \<longrightarrow> owned u n)"

text \<open>Nothing but owners changes, and what the user owned stays theirs.\<close>

definition hands_over :: "user \<Rightarrow> world \<Rightarrow> world \<Rightarrow> bool" where
  "hands_over u w w' \<longleftrightarrow> bare (root w') = bare (root w) \<and> (\<forall>x. owned_at u (root w) x \<longrightarrow> owned_at u (root w') x)"

interpretation handing: io_relation "hands_over u"
  by unfold_locales (auto simp: hands_over_def)

lemma hands_over_root: "root w' = root w \<Longrightarrow> hands_over u w w'"
  by (simp add: hands_over_def)

lemma owned_put:
  assumes n: "node_at r q = Some n" and v: "bare v = bare n" "owned u v"
    and below: "\<And>c y. node_at v (c # y) = node_at n (c # y)"
  shows "owned_at u (put_at r q (Some v)) q" and "owned_at u r x \<Longrightarrow> owned_at u (put_at r q (Some v)) x"
proof -
  have same: "node_at (put_at r q (Some v)) q = Some v" using parent_of_present [OF n] by (rule node_at_put_same)
  then show "owned_at u (put_at r q (Some v)) q" using v(2) by (simp add: owned_at_def)
  assume o: "owned_at u r x"
  consider "x = q" | c y where "x = q @ c # y" | "strict_prefix x q" | "\<not> prefix q x \<and> \<not> prefix x q"
    by (metis append_Nil2 neq_Nil_conv prefix_def strict_prefix_def)
  then show "owned_at u (put_at r q (Some v)) x"
  proof cases
    case 2
    then show ?thesis using o same n below by (simp add: owned_at_def node_at_append)
  next
    case 3
    from node_at_put_above [OF this, of r "Some v"] o show ?thesis
      by (cases "(node_at r x, node_at (put_at r q (Some v)) x)" rule: same_shape.cases) (auto simp: owned_at_def)
  next
    case 4
    then show ?thesis using o node_at_put_other [of q x] by (simp add: owned_at_def)
  qed (use same v(2) in \<open>simp add: owned_at_def\<close>)
qed

lemma node_at_attr: "node_at (Dir a cs) (c # y) = node_at (Dir b cs) (c # y)" "node_at (File a bs) (c # y) = node_at (File b bs) (c # y)"
  by simp_all

lemma chown_entry_hands_over: "hands_over u w (snd (chown_entry p u w))"
  and chown_entry_owned: "chown_entry p u w = (Inr (), w') \<Longrightarrow> resolve True (root w) p = Inr q \<Longrightarrow> owned_at u (root w') q"
proof -
  have step: "hands_over u w (snd (chown_at p q (user_uid u) (user_gid u) w)) \<and>
      (fst (chown_at p q (user_uid u) (user_gid u) w) = Inr () \<longrightarrow> owned_at u (root (snd (chown_at p q (user_uid u) (user_gid u) w))) q)" for q
  proof (cases "node_at (root w) q")
    case (Some n)
    then show ?thesis
      using owned_put [OF Some, of "File (a\<lparr>uid := user_uid u, gid := user_gid u\<rparr>) bs" u for a bs]
        owned_put [OF Some, of "Dir (a\<lparr>uid := user_uid u, gid := user_gid u\<rparr>) cs" u for a cs]
        bare_put [OF Some, of "File (a\<lparr>uid := user_uid u, gid := user_gid u\<rparr>) bs" for a bs]
        bare_put [OF Some, of "Dir (a\<lparr>uid := user_uid u, gid := user_gid u\<rparr>) cs" for a cs]
      by (cases n) (auto simp: chown_at_def record_op_def syscall_def Let_def set_root_def hands_over_def split: option.splits)
  qed (auto simp: chown_at_def record_op_def syscall_def Let_def hands_over_def split: option.splits)
  show "hands_over u w (snd (chown_entry p u w))"
    using step by (auto simp: chown_entry_def record_op_def syscall_def Let_def io_err_def hands_over_def split: sum.split option.split)
  show "owned_at u (root w') q" if "chown_entry p u w = (Inr (), w')" "resolve True (root w) p = Inr q"
    using step [of q] that by (simp add: chown_entry_def)
qed

lemma moves_chown_entry: "moves (hands_over u) (chown_entry p u)"
  by (simp add: moves_def chown_entry_hands_over)

lemma next_entry_eq: "next_entry e w = (Inr x, w') \<Longrightarrow> x = e"
  and next_entry_root: "next_entry e w = (r, w') \<Longrightarrow> root w' = root w"
  by (auto simp: next_entry_def syscall_def Let_def io_ok_def split: option.splits)

lemma moves_next_entry: "moves (hands_over u) (next_entry e)"
  unfolding moves_def using next_entry_root by (metis hands_over_root prod.collapse)

lemma own_entries_hands_over: "moves (hands_over u) (own_entries p u es stack)"
proof (induction es arbitrary: stack)
  case (Cons e es)
  show ?case unfolding own_entries.simps by (intro handing.moves_rules moves_next_entry moves_chown_entry Cons)
qed (simp add: handing.moves_ok)

lemma grows_bare:
  assumes "bare r' = bare r"
  shows "grows r r'"
proof -
  have eq: "map_option bare (node_at r' x) = map_option bare (node_at r x)" for x using assms node_at_bare by metis
  have b: "(node_at r x = None \<and> node_at r' x = None) \<or>
      (\<exists>n n'. node_at r x = Some n \<and> node_at r' x = Some n' \<and> bare n' = bare n)" for x
    using eq [of x] by (cases "node_at r x"; cases "node_at r' x") simp_all
  have "case node_at r x of
       Some (File _ bs) \<Rightarrow> (\<exists>a. node_at r' x = Some (File a bs))
     | Some (Dir _ _) \<Rightarrow> (\<exists>a cs. node_at r' x = Some (Dir a cs))
     | Some (Symlink t) \<Rightarrow> node_at r' x = Some (Symlink t)
     | None \<Rightarrow> node_at r' x = None \<or> (\<exists>a cs. node_at r' x = Some (Dir a cs))" for x
    using b [of x]
  proof (elim disjE exE conjE)
    fix n n'
    assume "node_at r x = Some n" "node_at r' x = Some n'" "bare n' = bare n"
    then show ?thesis by (cases n; cases n') auto
  qed simp
  then show ?thesis unfolding grows_def by blast
qed

lemma hands_over_grows: "hands_over u w w' \<Longrightarrow> growing w w'"
  by (simp add: hands_over_def growing_def grows_bare)

text \<open>The directories found are pushed, and every entry belongs to the user.\<close>

lemma own_entries_ok:
  assumes "own_entries p u es stack w = (Inr stack', w')" and "resolve True (root w) p = Inr q"
    and "node_at (bare (root w)) q = Some (Dir no_attr (map (\<lambda>e. (fst e, bare (snd e))) cs))"
    and "proper_dirs (root w)" and "set es \<subseteq> set cs"
  shows "stack' = rev (map (\<lambda>e. p @ [fst e]) (filter (\<lambda>e. is_dir_node (snd e)) es)) @ stack \<and>
    (\<forall>(c, n) \<in> set es. owned_at u (root w') (q @ [c]))"
  using assms
proof (induction es arbitrary: stack w)
  case (Cons e es)
  obtain c n where e: "e = (c, n)" by fastforce
  obtain w1 w2 where w1: "next_entry e w = (Inr e, w1)" and w2: "chown_entry (p @ [c]) u w1 = (Inr (), w2)"
    and rest: "own_entries p u es (if is_dir_node n then (p @ [c]) # stack else stack) w2 = (Inr stack', w')"
    using Cons.prems(1) e by (auto simp: io_bind_def io_err_def dest: next_entry_eq split: prod.splits sum.splits if_splits)
  note r1 = next_entry_root [OF w1]
  have "hands_over u w1 w2" using movesD [OF moves_chown_entry w2] .
  then have b: "bare (root w2) = bare (root w)" and own: "owned_at u (root w1) x \<Longrightarrow> owned_at u (root w2) x" for x
    using r1 by (auto simp: hands_over_def)
  note IH = Cons.IH [OF rest]
  have ok: "stack' = rev (map (\<lambda>e. p @ [fst e]) (filter (\<lambda>e. is_dir_node (snd e)) es)) @ (if is_dir_node n then (p @ [c]) # stack else stack)"
    and later: "\<forall>(c, n) \<in> set es. owned_at u (root w') (q @ [c])"
    using IH resolve_bare [OF b] proper_dirs_bare [OF b Cons.prems(4)] Cons.prems(2,3,5) b by simp_all
  have "owned_at u (root w2) (q @ [c])"
  proof -
    obtain a' ds where d: "node_at (root w) q = Some (Dir a' ds)" "map (\<lambda>e. (fst e, bare (snd e))) ds = map (\<lambda>e. (fst e, bare (snd e))) cs"
      using Cons.prems(3) bare_dir by (fastforce simp: node_at_bare)
    have "(c, bare n) \<in> set (map (\<lambda>e. (fst e, bare (snd e))) cs)" using Cons.prems(5) e by force
    then have "(c, bare n) \<in> set (map (\<lambda>e. (fst e, bare (snd e))) ds)" by (simp only: d(2))
    then obtain m where m: "(c, m) \<in> set ds" "bare m = bare n" by auto
    show ?thesis
    proof (cases "is_symlink_node m")
      case True
      then obtain t where "m = Symlink t" by (cases m) auto
      have "distinct (map fst ds)" using d(1) Cons.prems(4) by (auto simp: proper_dirs_def)
      then have "node_at (root w) (q @ [c]) = Some m" using d(1) m(1) by (simp add: node_at_append)
      then have "owned_at u (root w) (q @ [c])" using \<open>m = Symlink t\<close> by (simp add: owned_at_def)
      then show ?thesis using own r1 by simp
    next
      case False
      from resolve_child(2) [OF Cons.prems(2) d(1) Cons.prems(4) m(1) False] chown_entry_owned [OF w2] r1
      show ?thesis by simp
    qed
  qed
  then have "owned_at u (root w') (q @ [c])" using movesD [OF own_entries_hands_over rest] by (simp add: hands_over_def)
  then show ?case using ok later e by auto
qed (simp add: io_ok_def)

section \<open>The walk\<close>

definition dir_at :: "node \<Rightarrow> path \<Rightarrow> path \<Rightarrow> bool" where
  "dir_at r p q \<longleftrightarrow> resolve True r p = Inr q \<and> (\<exists>a cs. node_at r q = Some (Dir a cs))"

lemma dir_at_bare: "bare r' = bare r \<Longrightarrow> dir_at r p q \<Longrightarrow> dir_at r' p q"
  unfolding dir_at_def using resolve_bare node_at_same_bare bare_dir by (metis bare.simps(2))

text \<open>How many directories lie at or below the ones still on the stack.\<close>

definition pending :: "node \<Rightarrow> path list \<Rightarrow> nat" where
  "pending r qs = (\<Sum>q\<leftarrow>qs. case node_at r q of Some n \<Rightarrow> dir_count n | None \<Rightarrow> 0)"

lemma pending_bare: "bare r' = bare r \<Longrightarrow> pending r' qs = pending r qs"
proof -
  assume b: "bare r' = bare r"
  have "map_option bare (node_at r' q) = map_option bare (node_at r q)" for q using b node_at_bare by metis
  then have "map_option dir_count (node_at r' q) = map_option dir_count (node_at r q)" for q
    by (metis (no_types, lifting) dir_count_bare map_option_cong option.map_comp comp_def)
  then have "(case node_at r' q of Some n \<Rightarrow> dir_count n | None \<Rightarrow> 0) = (case node_at r q of Some n \<Rightarrow> dir_count n | None \<Rightarrow> 0)" for q
    by (cases "node_at r' q"; cases "node_at r q"; simp) (metis option.map(2) option.map(1) option.distinct(1) option.inject)+
  then show ?thesis by (simp add: pending_def)
qed

lemma pending_append [simp]: "pending r (ps @ qs) = pending r ps + pending r qs"
  and pending_rev [simp]: "pending r (rev qs) = pending r qs"
  by (simp_all add: pending_def rev_map [symmetric])

definition subdirs :: "path \<Rightarrow> (string \<times> node) list \<Rightarrow> path list" where
  "subdirs q es = map (\<lambda>e. q @ [fst e]) (filter (\<lambda>e. is_dir_node (snd e)) es)"

lemma subdirs_at:
  assumes "dir_at r p q" and n: "node_at r q = Some (Dir a es)" and "proper_dirs r"
  shows "list_all2 (dir_at r) (subdirs p es) (subdirs q es)" and "pending r (subdirs q es) = (\<Sum>e\<leftarrow>es. dir_count (snd e))"
proof -
  have child: "node_at r (q @ [fst e]) = Some (snd e)" "dir_at r (p @ [fst e]) (q @ [fst e])"
    if "e \<in> set es" "is_dir_node (snd e)" for e
  proof -
    have l: "\<not> is_symlink_node (snd e)" and d: "\<exists>a cs. snd e = Dir a cs" using that(2) by (cases "snd e"; auto)+
    have p: "resolve True r p = Inr q" and i: "(fst e, snd e) \<in> set es" using assms(1) that(1) by (auto simp: dir_at_def)
    note ch = resolve_child [OF p n assms(3) i l]
    then show "node_at r (q @ [fst e]) = Some (snd e)" "dir_at r (p @ [fst e]) (q @ [fst e])"
      using d by (simp_all add: dir_at_def)
  qed
  show "list_all2 (dir_at r) (subdirs p es) (subdirs q es)"
    unfolding subdirs_def by (auto simp: list.rel_map intro!: list.rel_refl_strong child)
  have "pending r (map (\<lambda>e. q @ [fst e]) (filter (\<lambda>e. is_dir_node (snd e)) fs)) = (\<Sum>e\<leftarrow>fs. dir_count (snd e))"
    if "set fs \<subseteq> set es" for fs
    using that
  proof (induction fs)
    case (Cons e fs)
    then show ?case using child(1) [of e] by (cases "snd e") (auto simp: pending_def)
  qed (simp add: pending_def)
  then show "pending r (subdirs q es) = (\<Sum>e\<leftarrow>es. dir_count (snd e))" by (simp add: subdirs_def)
qed

context dir_caps
begin

lemma open_dir_at:
  assumes "dir_at (root w) p q" and "dc_open_ambient cap p w = (r, w1)"
  shows "root w1 = root w" and "r \<noteq> Inl NotFound" and "r = Inr h \<Longrightarrow> h = q"
  using open_root [OF assms(2)] open_dir [of p w _ w1] open_absent [of p w w1 q] assms by (auto simp: dir_at_def)

lemma read_dir_at:
  assumes "dir_at (root w) p q" and "dc_open_ambient cap p w = (Inr h, w1)" and "dc_entries cap h w1 = (Inr es, w2)"
  shows "root w2 = root w \<and> (\<exists>a. node_at (root w) q = Some (Dir a es))"
  using open_dir_at [OF assms(1,2)] entries_root [OF assms(3)] entries_dir [OF assms(3)] by simp

text \<open>One round of the walk: the stack it goes on with, and the directories it stands for.\<close>

lemma own_round:
  assumes "dir_at (root w) p q" and "dc_open_ambient cap p w = (Inr h, w1)" and "dc_entries cap h w1 = (Inr es, w2)"
    and "own_entries p u es stack w2 = (Inr stack', w3)" and "proper_dirs (root w)"
    and "list_all2 (dir_at (root w)) stack qs"
  shows "hands_over u w w3" and "proper_dirs (root w3)" and "list_all2 (dir_at (root w3)) stack' (rev (subdirs q es) @ qs)"
    and "pending (root w) (q # qs) = Suc (pending (root w3) (rev (subdirs q es) @ qs))"
    and "(c, n) \<in> set es \<Longrightarrow> owned_at u (root w3) (q @ [c])"
proof -
  obtain a where r2: "root w2 = root w" and n: "node_at (root w) q = Some (Dir a es)"
    using read_dir_at [OF assms(1-3)] by blast
  have h: "hands_over u w2 w3" using movesD [OF own_entries_hands_over assms(4)] .
  then show "hands_over u w w3" using r2 by (simp add: hands_over_def)
  then have b: "bare (root w3) = bare (root w)" by (simp add: hands_over_def)
  then show "proper_dirs (root w3)" using assms(5) by (rule proper_dirs_bare)
  have "node_at (bare (root w2)) q = Some (Dir no_attr (map (\<lambda>e. (fst e, bare (snd e))) es))"
    using n by (simp add: node_at_bare r2)
  note ok = own_entries_ok [OF assms(4) _ this _ subset_refl, unfolded r2, OF _ assms(5)]
  then have s: "stack' = rev (subdirs p es) @ stack" and own: "\<forall>(c, n) \<in> set es. owned_at u (root w3) (q @ [c])"
    using assms(1) by (auto simp: dir_at_def subdirs_def)
  show "(c, n) \<in> set es \<Longrightarrow> owned_at u (root w3) (q @ [c])" using own by blast
  note sub = subdirs_at [OF assms(1) n assms(5)]
  have "list_all2 (dir_at (root w)) stack' (rev (subdirs q es) @ qs)"
    unfolding s using sub(1) assms(6) by (intro list_all2_appendI) simp_all
  then show "list_all2 (dir_at (root w3)) stack' (rev (subdirs q es) @ qs)"
    by (rule list_all2_mono) (rule dir_at_bare [OF b])
  show "pending (root w) (q # qs) = Suc (pending (root w3) (rev (subdirs q es) @ qs))"
    using sub(2) n by (simp add: pending_bare [OF b]) (simp add: pending_def)
qed

lemma own_tree_returns:
  "list_all2 (dir_at (root w)) stack qs \<Longrightarrow> proper_dirs (root w) \<Longrightarrow> pending (root w) qs \<le> n \<Longrightarrow>
   \<exists>r. own_tree_loop cap u n stack w = Some r"
proof (induction n arbitrary: w stack qs)
  case 0
  then show ?case
  proof (cases stack)
    case (Cons p s)
    then obtain q qs' where "qs = q # qs'" "dir_at (root w) p q" using 0 by (auto simp: list_all2_Cons1)
    then show ?thesis using 0 by (auto simp: pending_def dir_at_def)
  qed simp
next
  case (Suc n)
  show ?case
  proof (cases stack)
    case (Cons p s)
    then obtain q qs' where q: "qs = q # qs'" "dir_at (root w) p q" "list_all2 (dir_at (root w)) s qs'"
      using Suc.prems by (auto simp: list_all2_Cons1)
    obtain r w1 where o: "dc_open_ambient cap p w = (r, w1)" by fastforce
    obtain re w2 where e: "dc_entries cap q w1 = (re, w2)" by fastforce
    obtain rs w3 where rs: "own_entries p u (case re of Inr es \<Rightarrow> es | Inl _ \<Rightarrow> []) s w2 = (rs, w3)" by fastforce
    show ?thesis
    proof (cases "\<exists>h es s'. r = Inr h \<and> re = Inr es \<and> rs = Inr s'")
      case True
      then obtain es s' where t: "r = Inr q" "re = Inr es" "rs = Inr s'" using open_dir_at(3) [OF q(2) o] by auto
      note rd = own_round [OF q(2) o [unfolded t] e [unfolded t] _ Suc.prems(2) q(3)]
      have "\<exists>r. own_tree_loop cap u n s' w3 = Some r"
        using Suc.IH [OF rd(3,2)] rd(4) rs t Suc.prems(3) q(1) by simp
      then show ?thesis using o e rs t by (simp add: Cons)
    next
      case False
      then show ?thesis using o e rs open_dir_at [OF q(2) o] by (auto simp: Cons split: sum.splits)
    qed
  qed simp
qed

lemma own_tree_owns:
  "list_all2 (dir_at (root w)) stack qs \<Longrightarrow> proper_dirs (root w) \<Longrightarrow>
   own_tree_loop cap u n stack w = Some (Inr (), w') \<Longrightarrow>
   hands_over u w w' \<and> (\<forall>q \<in> set qs. \<forall>c y. owned_at u (root w') (q @ c # y))"
proof (induction n arbitrary: w stack qs)
  case 0
  then show ?case by (cases stack) (auto simp: handing.R_refl)
next
  case (Suc n)
  show ?case
  proof (cases stack)
    case (Cons p s)
    then obtain q qs' where q: "qs = q # qs'" "dir_at (root w) p q" "list_all2 (dir_at (root w)) s qs'"
      using Suc.prems by (auto simp: list_all2_Cons1)
    obtain w1 es w2 s' w3 where o: "dc_open_ambient cap p w = (Inr q, w1)" and e: "dc_entries cap q w1 = (Inr es, w2)"
      and rs: "own_entries p u es s w2 = (Inr s', w3)" and rest: "own_tree_loop cap u n s' w3 = Some (Inr (), w')"
    proof -
      obtain r w1 where o: "dc_open_ambient cap p w = (r, w1)" by fastforce
      note od = open_dir_at [OF q(2) o]
      then have "r = Inr q" using Suc.prems(3) o by (cases r) (auto simp: Cons split: if_splits)
      then show ?thesis using that Suc.prems(3) o by (auto simp: Cons split: prod.splits sum.splits)
    qed
    note rd = own_round [OF q(2) o e rs Suc.prems(2) q(3)]
    note IH = Suc.IH [OF rd(3,2) rest]
    obtain a where n: "node_at (root w) q = Some (Dir a es)" using read_dir_at [OF q(2) o e] by blast
    have h: "hands_over u w w'" using handing.R_trans [OF rd(1) conjunct1 [OF IH]] .
    have "owned_at u (root w') (q @ c # y)" for c y
    proof (cases "map_of es c")
      case None
      then have "node_at (bare (root w)) (q @ c # y) = None" using n by (simp add: node_at_bare node_at_append map_of_bare)
      then have "node_at (root w') (q @ c # y) = None"
        using h node_at_bare [of "root w'" "q @ c # y"] by (simp add: hands_over_def)
      then show ?thesis by (simp add: owned_at_def)
    next
      case (Some m)
      then have m: "(c, m) \<in> set es" by (rule map_of_SomeD)
      show ?thesis
      proof (cases y)
        case Nil
        then show ?thesis using rd(5) [OF m] IH by (simp add: hands_over_def)
      next
        case (Cons d z)
        show ?thesis
        proof (cases "is_dir_node m")
          case True
          then have "q @ [c] \<in> set (subdirs q es)" using m by (force simp: subdirs_def)
          then show ?thesis using IH Cons by (metis Un_iff append.assoc append_Cons append_Nil set_append set_rev)
        next
          case False
          then have "node_at (root w) (q @ c # y) = None" using n Some Cons by (cases m) (simp_all add: node_at_append)
          then have "node_at (root w') (q @ c # y) = None"
            using h node_at_bare [of "root w'" "q @ c # y"] node_at_bare [of "root w" "q @ c # y"] by (simp add: hands_over_def)
          then show ?thesis by (simp add: owned_at_def)
        qed
      qed
    qed
    then show ?thesis using h IH q(1) by auto
  qed (use Suc.prems in \<open>auto simp: handing.R_refl\<close>)
qed

end

context dir_caps
begin

lemma own_tree_hands_over: "own_tree_loop cap u n stack w = Some (r, w') \<Longrightarrow> hands_over u w w'"
proof (induction n arbitrary: stack w)
  case 0
  then show ?case by (cases stack) (auto simp: handing.R_refl)
next
  case (Suc n)
  show ?case
  proof (cases stack)
    case (Cons p s)
    obtain ro w1 where o: "dc_open_ambient cap p w = (ro, w1)" by fastforce
    note h1 = hands_over_root [OF open_root [OF o], of u]
    show ?thesis
    proof (cases ro)
      case (Inl e)
      then show ?thesis using Suc o h1 by (auto simp: Cons intro: handing.R_trans split: if_splits)
    next
      case (Inr h)
      obtain re w2 where e: "dc_entries cap h w1 = (re, w2)" by fastforce
      note h2 = handing.R_trans [OF h1 hands_over_root [OF entries_root [OF e]]]
      show ?thesis
      proof (cases re)
        case (Inl x)
        then show ?thesis using Suc.prems o Inr e h2 by (simp add: Cons \<open>ro = Inr h\<close>)
      next
        case (Inr es)
        obtain rs w3 where s: "own_entries p u es s w2 = (rs, w3)" by fastforce
        note h3 = handing.R_trans [OF h2 movesD [OF own_entries_hands_over s]]
        show ?thesis using Suc.prems Suc.IH o e s h3 Inr \<open>ro = Inr h\<close>
          by (cases rs) (auto simp: Cons intro: handing.R_trans)
      qed
    qed
  qed (use Suc.prems in \<open>auto simp: handing.R_refl\<close>)
qed

lemma ensure_tree_grows: "moves growing (ensure_tree_owned_by_user cap u p)"
proof -
  have "growing w (snd (ensure_tree_owned_by_user cap u p w))" for w
    using own_tree_hands_over [of u "dir_count (root w)" "[p]" w] hands_over_grows
    by (auto simp: ensure_tree_owned_by_user_def growth.R_refl split: option.split)
  then show ?thesis by (simp add: moves_def)
qed

lemma chown_entry_grows: "moves growing (chown_entry p u)"
  unfolding moves_def using chown_entry_hands_over hands_over_grows by blast

lemma ensure_dir_for_user_grows: "moves growing (ensure_dir_for_user cap dir p u m)"
  unfolding ensure_dir_for_user_def ensure_dir_for_user_inner_def
  by (intro growth.moves_rules ensure_dir_exists_grows chown_entry_grows set_path_permissions_grows)

end

lemma dir_count_node_at: "node_at r q = Some n \<Longrightarrow> dir_count n \<le> dir_count r"
proof (induction r q rule: node_at.induct)
  case (2 a cs c p)
  then obtain m where m: "map_of cs c = Some m" "node_at m p = Some n" by (auto split: option.splits)
  have "dir_count m \<in> set (map (\<lambda>e. dir_count (snd e)) cs)" using map_of_SomeD [OF m(1)] by force
  then have "dir_count m \<le> (\<Sum>e\<leftarrow>cs. dir_count (snd e))" by (simp add: member_le_sum_list)
  then show ?case using 2 m by fastforce
qed simp_all

text \<open>
  C32: handing a tree over. On a directory of a file system whose directories have distinct names, the
  walk always ends within its bound; when it succeeds, every file and directory below belongs to the
  user, and nothing but owners has changed anywhere: no name, no contents, no link.
\<close>

theorem tree_owned:
  assumes "dir_caps cap" and "proper_dirs (root w)" and "resolve True (root w) p = Inr q"
    and "node_at (root w) q = Some (Dir a cs)"
  shows "(\<exists>r. own_tree_loop cap u (dir_count (root w)) [p] w = Some r) \<and>
    (ensure_tree_owned_by_user cap u p w = (Inr (), w') \<longrightarrow>
       bare (root w') = bare (root w) \<and>
       (\<forall>c y n. node_at (root w') (q @ c # y) = Some n \<longrightarrow> owned u n))"
proof -
  have s: "list_all2 (dir_at (root w)) [p] [q]" using assms(3,4) by (auto simp: dir_at_def)
  have "pending (root w) [q] \<le> dir_count (root w)" using dir_count_node_at [OF assms(4)] by (simp add: pending_def assms(4))
  from dir_caps.own_tree_returns [OF assms(1) s assms(2) this, of u]
  obtain r where r: "own_tree_loop cap u (dir_count (root w)) [p] w = Some r" by blast
  from r dir_caps.own_tree_owns [OF assms(1) s assms(2), of u "dir_count (root w)" w']
  show ?thesis by (auto simp: ensure_tree_owned_by_user_def hands_over_def owned_at_def)
qed

text \<open>An installation tree with a file and a link; \<open>/etc/passwd\<close> is outside it.\<close>

definition demo_tree :: "(string \<times> node) list \<Rightarrow> world" where
  "demo_tree links =
     (let at = \<lparr>mode = 493, uid = 0, gid = 0\<rparr>;
          bin = Dir at [(''initdb'', File at [])] in
      \<lparr>root = Dir at [(''etc'', Dir at [(''passwd'', File at [])]), (''srv'', Dir at ((''bin'', bin) # links))],
       tick = 0, fault = (\<lambda>_. None), trace = [], umask = 18, euid = 0, egid = 0, cwd = [], pid = 1,
       nanos = (\<lambda>_. 0), temp_counter = 0, slot_counter = 0, held_slots = [], watchers = (\<lambda>_. None)\<rparr>)"

definition nobody :: user where
  "nobody = \<lparr>user_uid = 65534, user_gid = 65534\<rparr>"

definition demo_handover :: "(string \<times> node) list \<Rightarrow> (io_error_kind + unit) \<times> world" where
  "demo_handover links = ensure_tree_owned_by_user fs_dir_cap nobody [''srv''] (demo_tree links)"

lemma demo_handover_ok: "fst (demo_handover []) = Inr ()"
  by code_simp

lemma demo_tree_proper: "proper_dirs (root (demo_tree []))"
proof -
  have "node_at (root (demo_tree [])) x = Some (Dir a cs) \<Longrightarrow> distinct (map fst cs) \<and> ''..'' \<notin> set (map fst cs)" for x a cs
    by (cases x; cases "tl x"; cases "tl (tl x)"; cases "tl (tl (tl x))")
      (auto simp: demo_tree_def Let_def split: option.splits if_splits)
  then show ?thesis by (simp add: proper_dirs_def)
qed

theorem tree_owned_witness:
  "bare (root (snd (demo_handover []))) = bare (root (demo_tree [])) \<and>
   (\<forall>c y. owned_at nobody (root (snd (demo_handover []))) ([''srv''] @ c # y))"
proof -
  have "demo_handover [] = (Inr (), snd (demo_handover []))" using demo_handover_ok by (metis prod.collapse)
  moreover have "resolve True (root (demo_tree [])) [''srv''] = Inr [''srv'']" by code_simp
  moreover have "\<exists>a cs. node_at (root (demo_tree [])) [''srv''] = Some (Dir a cs)" by (simp add: demo_tree_def Let_def)
  ultimately show ?thesis
    using tree_owned [OF dirs.dir_caps_axioms demo_tree_proper, of "[''srv'']" "[''srv'']"]
    unfolding demo_handover_def owned_at_def by blast
qed

text \<open>
  A link in the tree is followed: its target, outside the tree, changes hands; and a dangling link
  makes the whole hand-over fail.
\<close>

lemma handover_leaves_tree:
  "fst (demo_handover [(''x'', Symlink ''/etc/passwd'')]) = Inr ()"
  "map_option (owned nobody) (node_at (root (snd (demo_handover [(''x'', Symlink ''/etc/passwd'')]))) [''etc'', ''passwd'']) = Some True"
  "map_option (owned nobody) (node_at (root (demo_tree [(''x'', Symlink ''/etc/passwd'')])) [''etc'', ''passwd'']) = Some False"
  by code_simp+

lemma handover_fails_on_dangling_link: "fst (demo_handover [(''x'', Symlink ''gone'')]) = Inl NotFound"
  by code_simp

end
