(* ===== verification/CacheConfig.thy ===== *)
theory CacheConfig
  imports Prelude
begin

text \<open>
  Where the shared binary cache lives (\<open>cache/config.rs\<close>). Paths are kept as the byte strings the
  code builds; the environment is a lookup of byte strings, and \<open>dirs::home_dir\<close> is a parameter.
\<close>

section \<open>Standard library\<close>

text \<open>\<open>std::env::var\<close>: present and valid UTF-8, or an error.\<close>

definition env_var :: "(string \<Rightarrow> string option) \<Rightarrow> string \<Rightarrow> string option" where
  "env_var env key = (case env key of Some v \<Rightarrow> if is_utf8 v then Some v else None | None \<Rightarrow> None)"

text \<open>\<open>PathBuf::join\<close> on path text: an absolute argument replaces the base.\<close>

definition path_push :: "string \<Rightarrow> string \<Rightarrow> string" where
  "path_push base p =
     (if prefix ''/'' p then p
      else base @ (if base = [] \<or> last base = CHR ''/'' then [] else ''/'') @ p)"

definition temp_dir :: "(string \<Rightarrow> string option) \<Rightarrow> string" where
  "temp_dir env = (case env ''TMPDIR'' of Some v \<Rightarrow> v | None \<Rightarrow> ''/tmp'')"

text \<open>\<open>Utf8PathBuf::from_path_buf\<close>.\<close>

definition from_path_buf :: "string \<Rightarrow> string + string" where
  "from_path_buf p = (if is_utf8 p then Inr p else Inl p)"

definition result_ok :: "'e + 'a \<Rightarrow> 'a option" where
  "result_ok r = (case r of Inl _ \<Rightarrow> None | Inr x \<Rightarrow> Some x)"

section \<open>The binary cache directory\<close>

definition CACHE_SUBDIR :: string where "CACHE_SUBDIR = ''pg-embedded/binaries''"

record binary_cache_config =
  cache_dir :: string

definition resolve_from_env :: "(string \<Rightarrow> string option) \<Rightarrow> string option" where
  "resolve_from_env env =
     Option.bind (env_var env ''PG_BINARY_CACHE_DIR'') (\<lambda>raw.
       let trimmed = trim raw in
       if trimmed = [] then None else result_ok (from_path_buf trimmed))"

definition resolve_from_xdg_cache :: "(string \<Rightarrow> string option) \<Rightarrow> string option" where
  "resolve_from_xdg_cache env =
     Option.bind (env_var env ''XDG_CACHE_HOME'') (\<lambda>raw.
       let trimmed = trim raw in
       if trimmed = [] then None
       else Option.bind (result_ok (from_path_buf trimmed)) (\<lambda>p. Some (path_push p CACHE_SUBDIR)))"

definition resolve_from_home :: "string option \<Rightarrow> string option" where
  "resolve_from_home home_dir =
     Option.bind home_dir (\<lambda>home.
     Option.bind (result_ok (from_path_buf home)) (\<lambda>p.
       Some (path_push (path_push p ''.cache'') CACHE_SUBDIR)))"

definition resolve_cache_dir :: "(string \<Rightarrow> string option) \<Rightarrow> string option \<Rightarrow> string" where
  "resolve_cache_dir env home_dir =
     (case resolve_from_env env of
        Some dir \<Rightarrow> dir
      | None \<Rightarrow>
          (case resolve_from_xdg_cache env of
             Some dir \<Rightarrow> dir
           | None \<Rightarrow>
               (case resolve_from_home home_dir of
                  Some dir \<Rightarrow> dir
                | None \<Rightarrow>
                    (let temp_path = path_push (path_push (temp_dir env) ''pg-embedded'') ''binaries''
                     in case from_path_buf temp_path of
                          Inr dir \<Rightarrow> dir
                        | Inl p \<Rightarrow> from_utf8_lossy p))))"

definition binary_cache_config_new :: "(string \<Rightarrow> string option) \<Rightarrow> string option \<Rightarrow> binary_cache_config" where
  "binary_cache_config_new env home_dir = \<lparr>cache_dir = resolve_cache_dir env home_dir\<rparr>"

definition with_dir :: "string \<Rightarrow> binary_cache_config" where
  "with_dir dir = \<lparr>cache_dir = dir\<rparr>"

section \<open>Trimming keeps text valid\<close>

text \<open>
  The value of a variable is checked to be UTF-8 before it is trimmed, and \<open>from_path_buf\<close> checks
  again afterwards. Trimming removes whole characters, so the second check never fails.
\<close>

lemma path_push_nonempty [simp]: "path_push b p = [] \<longleftrightarrow> b = [] \<and> p = []"
  by (auto simp: path_push_def)

lemma from_utf8_lossy_nonempty: "s \<noteq> [] \<Longrightarrow> from_utf8_lossy s \<noteq> []"
  using utf8_step_pos [of s] by (subst from_utf8_lossy.simps) (simp add: replacement_char_def)

lemma utf8_step_before_char:
  assumes "t \<noteq> []" and "w \<noteq> []" and "\<not> is_cont (hd w)" and "fst (utf8_step (t @ w))"
  shows "utf8_step t = utf8_step (t @ w) \<and> snd (utf8_step (t @ w)) \<le> length t"
proof -
  obtain c w' where w: "w = c # w'" using assms(2) by (cases w) auto
  obtain b t' where t: "t = b # t'" using assms(1) by (cases t) auto
  have nc: "\<not> is_cont c" "\<not> second_ok b c" using assms(3) by (simp_all add: w second_ok_def)
  show ?thesis
  proof (cases t')
    case Nil
    then show ?thesis using assms(4) nc by (auto simp: t w utf8_step.simps split: if_splits)
  next
    case (Cons b2 t2)
    note c1 = Cons
    show ?thesis
    proof (cases t2)
      case Nil
      then show ?thesis using assms(4) nc c1 by (auto simp: t w utf8_step.simps split: if_splits)
    next
      case (Cons b3 t3)
      then show ?thesis using assms(4) nc c1
        by (cases t3) (auto simp: t w utf8_step.simps split: if_splits)
    qed
  qed
qed

lemma is_utf8_drop_last_char:
  "is_utf8 (t @ w) \<Longrightarrow> w \<noteq> [] \<Longrightarrow> \<not> is_cont (hd w) \<Longrightarrow> is_utf8 t"
proof (induction t rule: is_utf8.induct)
  case (1 t)
  show ?case
  proof (cases "t = []")
    case True
    then show ?thesis by (simp add: is_utf8.simps)
  next
    case False
    then have step: "fst (utf8_step (t @ w))" and rest: "is_utf8 (drop (snd (utf8_step (t @ w))) (t @ w))"
      using "1.prems" by (simp_all add: is_utf8.simps [of "t @ w"] split: if_splits)
    note same = utf8_step_before_char [OF False "1.prems"(2,3) step]
    then have "is_utf8 (drop (snd (utf8_step t)) t @ w)" using rest by simp
    then show ?thesis using "1.IH" [OF False] "1.prems"(2,3) same step
      by (simp add: is_utf8.simps [of t])
  qed
qed

lemma ws_encodings_chars:
  "list_all (\<lambda>w. w \<noteq> [] \<and> \<not> is_cont (hd w) \<and> fst (utf8_step w) \<and> snd (utf8_step w) = length w) ws_encodings"
  by (simp add: ws_encodings_def utf8_step.simps is_cont_def second_ok_def)

lemma utf8_step_append:
  "fst (utf8_step w) \<Longrightarrow> utf8_step (w @ s) = utf8_step w"
  by (cases w) (auto simp: utf8_step.simps split: if_splits list.splits)

lemma find_SomeD: "find P xs = Some x \<Longrightarrow> x \<in> set xs \<and> P x"
  by (auto simp: find_Some_iff)

lemma is_utf8_trim_start: "is_utf8 s \<Longrightarrow> is_utf8 (trim_start s)"
proof (induction s rule: trim_start.induct)
  case (1 s)
  show ?case
  proof (cases "s = [] \<or> ws_prefix s = 0")
    case True
    then show ?thesis using "1.prems" by (simp add: trim_start.simps [of s])
  next
    case False
    then obtain w where w: "w \<in> set ws_encodings" "prefix w s" "ws_prefix s = length w"
      by (auto simp: ws_prefix_def dest!: find_SomeD split: option.splits)
    then obtain r where "s = w @ r" by (auto simp: prefix_def)
    moreover have "fst (utf8_step w)" "snd (utf8_step w) = length w"
      using ws_encodings_chars w(1) by (auto simp: list_all_iff)
    ultimately have "utf8_step s = (True, length w)" by (simp add: utf8_step_append prod_eq_iff)
    then have "is_utf8 (drop (ws_prefix s) s)"
      using "1.prems" False w(3) by (simp add: is_utf8.simps [of s])
    then show ?thesis using "1.IH" False by (simp add: trim_start.simps [of s])
  qed
qed

lemma is_utf8_trim_end: "is_utf8 s \<Longrightarrow> is_utf8 (trim_end s)"
proof (induction s rule: trim_end.induct)
  case (1 s)
  show ?case
  proof (cases "s = [] \<or> ws_suffix s = 0")
    case True
    then show ?thesis using "1.prems" by (simp add: trim_end.simps [of s])
  next
    case False
    then obtain w where w: "w \<in> set ws_encodings" "suffix w s" "ws_suffix s = length w"
      by (auto simp: ws_suffix_def dest!: find_SomeD split: option.splits)
    then obtain r where r: "s = r @ w" by (auto simp: suffix_def)
    moreover have "w \<noteq> []" "\<not> is_cont (hd w)" using ws_encodings_chars w(1) by (auto simp: list_all_iff)
    ultimately have "is_utf8 r" using "1.prems" is_utf8_drop_last_char by blast
    then show ?thesis using "1.IH" False w(3) r by (simp add: trim_end.simps [of "r @ w"])
  qed
qed

lemma is_utf8_trim: "is_utf8 s \<Longrightarrow> is_utf8 (trim s)"
  by (simp add: trim_def is_utf8_trim_start is_utf8_trim_end)

end
