(* ===== verification/BootEnv.thy ===== *)
theory BootEnv
  imports CapFs CacheConfig
begin

text \<open>
  The environment a bootstrap runs in (\<open>bootstrap/mode.rs\<close>, \<open>env.rs\<close> and \<open>env_types.rs\<close>): the process's
  privileges, the worker binary, the shutdown timeout and the time zone. The target is Linux; \<open>env\<close> is
  the process environment, \<open>dir\<close> its working directory.
\<close>

section \<open>Privileges and execution mode\<close>

datatype execution_privileges = Root | Unprivileged

datatype execution_mode = InProcess | Subprocess

definition PRIVILEGED_UNIX_TARGET_OS :: "string list" where
  "PRIVILEGED_UNIX_TARGET_OS = [''linux'', ''android'', ''freebsd'', ''openbsd'', ''dragonfly'']"

definition is_privileged_unix_platform :: "string option \<Rightarrow> bool" where
  "is_privileged_unix_platform target_os =
     (case target_os of Some os \<Rightarrow> os \<in> set PRIVILEGED_UNIX_TARGET_OS | None \<Rightarrow> False)"

definition detect_execution_privileges :: "world \<Rightarrow> execution_privileges" where
  "detect_execution_privileges w = (if euid w = 0 then Root else Unprivileged)"

definition root_privilege_drop_supported :: bool where
  "root_privilege_drop_supported = is_privileged_unix_platform (Some ''linux'')"

definition unsupported_root_privilege_drop_error :: bootstrap_error where
  "unsupported_root_privilege_drop_error = extension_error Other"

definition determine_execution_mode :: "execution_privileges \<Rightarrow> string option \<Rightarrow> bootstrap_error + execution_mode" where
  "determine_execution_mode privileges worker_binary =
     (case privileges of
        Root \<Rightarrow>
          if \<not> root_privilege_drop_supported then Inl unsupported_root_privilege_drop_error
          else if worker_binary = None then Inl (extension_error Other)
          else Inr Subprocess
      | Unprivileged \<Rightarrow> Inr InProcess)"

section \<open>The worker binary\<close>

definition WORKER_BINARY_NAME :: string where "WORKER_BINARY_NAME = ''pg_worker''"

definition text_path :: "path \<Rightarrow> string \<Rightarrow> path" where
  "text_path dir s = fs_path dir (path_components s)"

definition node_executable :: "node \<Rightarrow> bool" where
  "node_executable n \<longleftrightarrow> and (node_mode n) 73 \<noteq> 0"

definition is_executable :: "path \<Rightarrow> ('e, bool) io" where
  "is_executable p = io_match (metadata p) (\<lambda>r. io_ok (case r of Inr m \<Rightarrow> node_executable m | Inl _ \<Rightarrow> False))"

fun discover_in :: "path \<Rightarrow> string list \<Rightarrow> (bootstrap_error, string option) io" where
  "discover_in dir [] = io_ok None"
| "discover_in dir (entry # entries) =
     (case from_path_buf entry of
        Inl _ \<Rightarrow> io_err (extension_error WorkerBinaryPathNonUtf8)
      | Inr d \<Rightarrow>
          if d = [] \<or> d = ''.'' then discover_in dir entries
          else
            (let worker_path = path_push d WORKER_BINARY_NAME in
             io_bind (path_is_file (text_path dir worker_path)) (\<lambda>is_file.
             io_bind (if is_file then is_executable (text_path dir worker_path) else io_ok False) (\<lambda>found.
               if found then io_ok (Some worker_path) else discover_in dir entries))))"

definition discover_worker_from_path_value :: "path \<Rightarrow> string option \<Rightarrow> (bootstrap_error, string option) io" where
  "discover_worker_from_path_value dir path_var =
     (case path_var of None \<Rightarrow> io_ok None | Some v \<Rightarrow> discover_in dir (split_on (CHR '':'') v))"

definition discover_worker_from_path :: "path \<Rightarrow> (string \<Rightarrow> string option) \<Rightarrow> (bootstrap_error, string option) io" where
  "discover_worker_from_path dir env = discover_worker_from_path_value dir (env ''PATH'')"

definition worker_binary_error :: "io_error_kind \<Rightarrow> bootstrap_error" where
  "worker_binary_error e = extension_error (if e = NotFound then WorkerBinaryMissing else Other)"

definition validate_worker_binary :: "dir_cap \<Rightarrow> path \<Rightarrow> string \<Rightarrow> (bootstrap_error, unit) io" where
  "validate_worker_binary cap dir p =
     io_bind (io_map_err worker_binary_error (ambient_dir_and_path cap dir (path_components p))) (\<lambda>(h, rel).
     io_bind (io_map_err worker_binary_error (dc_metadata cap h rel)) (\<lambda>m.
       if \<not> is_file_node m then io_err (extension_error Other)
       else if \<not> node_executable m then io_err (extension_error Other)
       else io_ok ()))"

definition validate_worker_path :: "dir_cap \<Rightarrow> path \<Rightarrow> string \<Rightarrow> (bootstrap_error, unit) io" where
  "validate_worker_path cap dir p =
     (if p = [] then io_err (extension_error Other)
      else if p = ''/'' then io_err (extension_error Other)
      else validate_worker_binary cap dir p)"

definition worker_binary_from_env ::
  "dir_cap \<Rightarrow> path \<Rightarrow> (string \<Rightarrow> string option) \<Rightarrow> execution_privileges \<Rightarrow> (bootstrap_error, string option) io"
where
  "worker_binary_from_env cap dir env privileges =
     (if privileges \<noteq> Root \<or> \<not> root_privilege_drop_supported then io_ok None
      else
        (case env ''PG_EMBEDDED_WORKER'' of
           Some raw \<Rightarrow>
             (case from_path_buf raw of
                Inl _ \<Rightarrow> io_err (extension_error Other)
              | Inr p \<Rightarrow> io_bind (validate_worker_path cap dir p) (\<lambda>_. io_ok (Some p)))
         | None \<Rightarrow>
             io_bind (discover_worker_from_path dir env) (\<lambda>found.
               (case found of
                  Some worker \<Rightarrow> io_bind (validate_worker_path cap dir worker) (\<lambda>_. io_ok (Some worker))
                | None \<Rightarrow> io_ok None))))"

section \<open>The shutdown timeout\<close>

definition DEFAULT_SHUTDOWN_TIMEOUT :: nat where "DEFAULT_SHUTDOWN_TIMEOUT = 15"
definition MAX_SHUTDOWN_TIMEOUT_SECS :: nat where "MAX_SHUTDOWN_TIMEOUT_SECS = 600"
definition SHUTDOWN_TIMEOUT_ENV :: string where "SHUTDOWN_TIMEOUT_ENV = ''PG_SHUTDOWN_TIMEOUT_SECS''"

definition validate_shutdown_timeout_secs :: "nat \<Rightarrow> bootstrap_error + nat" where
  "validate_shutdown_timeout_secs seconds =
     (if seconds = 0 then Inl (extension_error Other)
      else if seconds > MAX_SHUTDOWN_TIMEOUT_SECS then Inl (extension_error Other)
      else Inr seconds)"

definition parse_shutdown_timeout :: "string \<Rightarrow> bootstrap_error + nat" where
  "parse_shutdown_timeout trimmed =
     (if trimmed = [] then Inl (extension_error Other)
      else
        (case parse_unsigned (2 ^ 64) trimmed of
           None \<Rightarrow> Inl (extension_error Other)
         | Some seconds \<Rightarrow> validate_shutdown_timeout_secs seconds))"

definition shutdown_timeout_from_env :: "(string \<Rightarrow> string option) \<Rightarrow> bootstrap_error + nat" where
  "shutdown_timeout_from_env env =
     (case env SHUTDOWN_TIMEOUT_ENV of
        None \<Rightarrow> Inr DEFAULT_SHUTDOWN_TIMEOUT
      | Some raw \<Rightarrow> if is_utf8 raw then parse_shutdown_timeout (trim raw) else Inl (extension_error Other))"

section \<open>The time zone and the prepared environment\<close>

definition TZDIR_CANDIDATES :: "string list" where
  "TZDIR_CANDIDATES = [''/usr/share/zoneinfo'', ''/usr/lib/zoneinfo'', ''/etc/zoneinfo'', ''/share/zoneinfo'']"

record timezone_env =
  tz_dir :: "string option"
  tz_zone :: string

record xdg_dirs =
  xdg_home :: string
  xdg_cache :: string
  xdg_runtime :: string

record test_bootstrap_environment =
  env_home :: string
  env_xdg_cache_home :: string
  env_xdg_runtime_dir :: string
  env_pgpass_file :: string
  env_tz_dir :: "string option"
  env_timezone :: string

fun find_existing :: "path \<Rightarrow> string list \<Rightarrow> (bootstrap_error, string option) io" where
  "find_existing dir [] = io_ok None"
| "find_existing dir (c # cs) =
     io_bind (path_exists (text_path dir c)) (\<lambda>found. if found then io_ok (Some c) else find_existing dir cs)"

definition find_timezone_dir :: "path \<Rightarrow> (bootstrap_error, string option) io" where
  "find_timezone_dir dir = find_existing dir TZDIR_CANDIDATES"

definition discover_timezone_dir :: "path \<Rightarrow> (bootstrap_error, string option) io" where
  "discover_timezone_dir dir =
     io_bind (find_timezone_dir dir) (\<lambda>found.
       case found of None \<Rightarrow> io_err (extension_error Other) | Some c \<Rightarrow> io_ok (Some c))"

definition prepare_timezone_env :: "path \<Rightarrow> (string \<Rightarrow> string option) \<Rightarrow> (bootstrap_error, timezone_env) io" where
  "prepare_timezone_env dir env =
     io_bind
       (case env ''TZDIR'' of
          Some d \<Rightarrow>
            (case from_path_buf d of
               Inl _ \<Rightarrow> io_err (extension_error Other)
             | Inr p \<Rightarrow>
                 io_bind (path_exists (text_path dir p)) (\<lambda>found.
                   if found then io_ok (Some p) else io_err (extension_error Other)))
        | None \<Rightarrow> discover_timezone_dir dir)
       (\<lambda>d.
          case env ''TZ'' of
            None \<Rightarrow> io_ok \<lparr>tz_dir = d, tz_zone = ''UTC''\<rparr>
          | Some v \<Rightarrow>
              if \<not> is_utf8 v then io_err (extension_error Other)
              else io_ok \<lparr>tz_dir = d, tz_zone = (if trim v = [] then ''UTC'' else v)\<rparr>)"

definition from_components :: "xdg_dirs \<Rightarrow> string \<Rightarrow> timezone_env \<Rightarrow> test_bootstrap_environment" where
  "from_components xdg pgpass_file tz =
     \<lparr>env_home = xdg_home xdg, env_xdg_cache_home = xdg_cache xdg, env_xdg_runtime_dir = xdg_runtime xdg,
      env_pgpass_file = pgpass_file, env_tz_dir = tz_dir tz, env_timezone = tz_zone tz\<rparr>"

definition to_env :: "test_bootstrap_environment \<Rightarrow> (string \<times> string option) list" where
  "to_env e =
     [(''HOME'', Some (env_home e)), (''XDG_CACHE_HOME'', Some (env_xdg_cache_home e)),
      (''XDG_RUNTIME_DIR'', Some (env_xdg_runtime_dir e)), (''PGPASSFILE'', Some (env_pgpass_file e)),
      (''TZDIR'', env_tz_dir e), (''TZ'', Some (env_timezone e))]"

section \<open>Properties\<close>

text \<open>The questions asked here change nothing and issue nothing.\<close>

definition unchanged :: "world \<Rightarrow> world \<Rightarrow> bool" where
  "unchanged w w' \<longleftrightarrow> root w' = root w \<and> trace w' = trace w"

interpretation asking: io_relation unchanged
  by unfold_locales (simp_all add: unchanged_def)

lemma unchanged_metadata: "moves unchanged (metadata p)"
  by (simp add: moves_def unchanged_def metadata_def syscall_def Let_def stat_node_def split: option.split sum.split)

lemma unchanged_queries:
  "moves unchanged (path_exists p)" "moves unchanged (path_is_file p)" "moves unchanged (is_executable p)"
  unfolding path_exists_def path_is_file_def is_executable_def by (intro asking.moves_rules unchanged_metadata)+

lemma unchanged_discover: "moves unchanged (discover_in dir ds)"
  by (induction ds) (auto simp: Let_def intro!: asking.moves_rules unchanged_queries split: sum.split)

lemma unchanged_find_existing: "moves unchanged (find_existing dir cs)"
  by (induction cs) (auto intro!: asking.moves_rules unchanged_queries)

lemma unchanged_timezone: "moves unchanged (prepare_timezone_env dir env)"
  unfolding prepare_timezone_env_def discover_timezone_dir_def find_timezone_dir_def
  by (intro asking.moves_rules unchanged_queries unchanged_find_existing)

end
