(* ===== verification/ExtDigest.thy ===== *)
theory ExtDigest
  imports Errors
begin

unbundle bit_operations_syntax

text \<open>
  SHA-256 digests as lower-case hex (\<open>src/src/extensions/digest.rs\<close>). The hash function itself
  belongs to the \<open>sha2\<close> crate and is a parameter \<open>sha\<close> from the bytes fed to the hasher to the
  finished digest; a hasher in progress is the bytes it has been updated with.
\<close>

section \<open>Model\<close>

type_synonym sha256_hex = string

record invalid_digest =
  digest_value :: string

definition is_lower_hex_byte :: "char \<Rightarrow> bool" where
  "is_lower_hex_byte c \<longleftrightarrow> is_ascii_digit c \<or> (97 \<le> byte_of c \<and> byte_of c \<le> 102)"

definition parse_hex :: "string \<Rightarrow> invalid_digest + sha256_hex" where
  "parse_hex s =
     (if length s = 64 \<and> list_all is_lower_hex_byte s then Inr s
      else Inl \<lparr>digest_value = concat (take 80 (utf8_chars s))\<rparr>)"

definition lower_hex_digit :: "u8 \<Rightarrow> char" where
  "lower_hex_digit nibble =
     (if nibble < 10 then char_of (unat (48 + nibble)) else char_of (unat (97 + nibble - 10)))"

definition hex_of_byte :: "u8 \<Rightarrow> string" where
  "hex_of_byte b = [lower_hex_digit (drop_bit 4 b), lower_hex_digit (b AND 15)]"

text \<open>\<open>from_hasher\<close>: finalize, then two digits per byte.\<close>

definition from_hasher :: "(bytes \<Rightarrow> bytes) \<Rightarrow> bytes \<Rightarrow> sha256_hex" where
  "from_hasher sha fed = concat (map hex_of_byte (sha fed))"

definition of_bytes :: "(bytes \<Rightarrow> bytes) \<Rightarrow> bytes \<Rightarrow> sha256_hex" where
  "of_bytes sha bs = from_hasher sha bs"

text \<open>
  \<open>of_reader\<close>: a reader is the list of results its successive \<open>read\<close> calls give; the list ends
  where the file does, and an empty read ends the loop.
\<close>

fun read_loop :: "(io_error_kind + bytes) list \<Rightarrow> bytes \<Rightarrow> io_error_kind + bytes" where
  "read_loop [] fed = Inr fed"
| "read_loop (Inl e # rs) fed = Inl e"
| "read_loop (Inr chunk # rs) fed = (if chunk = [] then Inr fed else read_loop rs (fed @ chunk))"

definition of_reader :: "(bytes \<Rightarrow> bytes) \<Rightarrow> (io_error_kind + bytes) list \<Rightarrow> io_error_kind + sha256_hex" where
  "of_reader sha rs = res_bind (read_loop rs []) (\<lambda>fed. Inr (from_hasher sha fed))"

record hashing_writer =
  inner :: bytes
  hasher :: bytes
  written :: u64

definition new_hashing_writer :: hashing_writer where
  "new_hashing_writer = \<lparr>inner = [], hasher = [], written = 0\<rparr>"

text \<open>
  \<open>write\<close>: the inner writer takes a prefix of the buffer (how long is its own choice) or fails;
  exactly that prefix is hashed and counted.
\<close>

definition hw_write :: "io_error_kind + nat \<Rightarrow> bytes \<Rightarrow> hashing_writer \<Rightarrow> io_error_kind + (nat \<times> hashing_writer)" where
  "hw_write took buf w =
     (case took of
        Inl e \<Rightarrow> Inl e
      | Inr n \<Rightarrow>
          (let count = min n (length buf) in
           Inr (count, w\<lparr>inner := inner w @ take count buf, hasher := hasher w @ take count buf,
                         written := written w + of_nat count\<rparr>)))"

definition hw_finish :: "(bytes \<Rightarrow> bytes) \<Rightarrow> hashing_writer \<Rightarrow> bytes \<times> sha256_hex \<times> u64" where
  "hw_finish sha w = (inner w, from_hasher sha (hasher w), written w)"

text \<open>A run of \<open>write\<close> calls that stops at the first error.\<close>

fun hw_writes :: "(io_error_kind + nat) list \<Rightarrow> bytes list \<Rightarrow> hashing_writer \<Rightarrow> io_error_kind + hashing_writer" where
  "hw_writes (t # ts) (b # bs) w = res_bind (hw_write t b w) (\<lambda>(_, w'). hw_writes ts bs w')"
| "hw_writes _ _ w = Inr w"

section \<open>Hex digits\<close>

lemma lower_hex_digit_byte: "n < 16 \<Longrightarrow> byte_of (lower_hex_digit n) = (if n < 10 then 48 + unat n else 87 + unat n)"
proof -
  assume n: "n < 16"
  then have le: "unat n < 16" by (simp add: word_less_nat_alt)
  show ?thesis
  proof (cases "n < 10")
    case True
    then have "unat n < 10" by (simp add: word_less_nat_alt)
    then have "unat (48 + n) = 48 + unat n" by (simp add: unat_word_ariths)
    with True le show ?thesis by (simp add: lower_hex_digit_def of_char_of)
  next
    case False
    then have ge: "10 \<le> unat n" by (simp add: word_less_nat_alt not_less)
    have "97 + n - 10 = 87 + n" by simp
    moreover have "unat (87 + n) = 87 + unat n" using le by (simp add: unat_word_ariths)
    ultimately show ?thesis using False le by (simp add: lower_hex_digit_def of_char_of)
  qed
qed

lemma nibbles_lt [simp]: "drop_bit 4 (b :: u8) < 16" "(b :: u8) AND 15 < 16"
proof -
  have "unat b < 2 ^ LENGTH(8)" by (rule unsigned_less)
  then have "unat b < 256" by simp
  then have "unat b div 16 < 16" by simp
  then show "drop_bit 4 b < 16" by (simp add: word_less_nat_alt unat_drop_bit_eq drop_bit_eq_div unat_div_distrib)
  have "b AND 15 \<le> 15" by (rule word_and_le1)
  then show "b AND 15 < 16" by (rule order.strict_trans1) simp
qed

lemma lower_hex_digit_valid: "n < 16 \<Longrightarrow> is_lower_hex_byte (lower_hex_digit n)"
proof -
  assume n: "n < 16"
  then have "unat n < 16" by (simp add: word_less_nat_alt)
  with lower_hex_digit_byte [OF n] show ?thesis
    by (auto simp: is_lower_hex_byte_def is_ascii_digit_def word_less_nat_alt)
qed

lemma lower_hex_digit_inj:
  assumes "m < 16" and "n < 16" and "lower_hex_digit m = lower_hex_digit n"
  shows "m = n"
proof -
  have "unat m = unat n"
    using lower_hex_digit_byte [OF assms(1)] lower_hex_digit_byte [OF assms(2)] assms(1,2)
    unfolding assms(3) by (auto simp: word_less_nat_alt split: if_splits)
  then show ?thesis by (rule unsigned_word_eqI)
qed

lemma byte_of_nibbles: "(b :: u8) = push_bit 4 (drop_bit 4 b) + (b AND 15)"
proof -
  have "b AND 15 = take_bit 4 b" by (simp add: take_bit_eq_mask mask_numeral)
  then show ?thesis by (simp add: bits_ident)
qed

lemma hex_of_byte_inj: "hex_of_byte a = hex_of_byte b \<Longrightarrow> a = b"
proof -
  assume "hex_of_byte a = hex_of_byte b"
  then have "drop_bit 4 a = drop_bit 4 b" and "a AND 15 = b AND 15"
    by (auto simp: hex_of_byte_def intro: lower_hex_digit_inj)
  then show ?thesis using byte_of_nibbles [of a] byte_of_nibbles [of b] by simp
qed


lemma length_hex_of_byte [simp]: "length (hex_of_byte b) = 2"
  by (simp add: hex_of_byte_def)

lemma length_from_hasher: "length (from_hasher sha fed) = 2 * length (sha fed)"
  by (simp add: from_hasher_def length_concat comp_def sum_list_triv)

lemma concat_hex_inj: "concat (map hex_of_byte xs) = concat (map hex_of_byte ys) \<Longrightarrow> xs = ys"
proof (induction xs arbitrary: ys)
  case Nil
  then show ?case by (cases ys) (auto simp: hex_of_byte_def)
next
  case (Cons x xs)
  from Cons.prems obtain y ys' where ys: "ys = y # ys'"
    by (cases ys) (auto simp: hex_of_byte_def)
  with Cons.prems have "hex_of_byte x = hex_of_byte y"
    and "concat (map hex_of_byte xs) = concat (map hex_of_byte ys')"
    by (auto simp: append_eq_append_conv)
  with ys Cons.IH hex_of_byte_inj show ?case by blast
qed

section \<open>Properties\<close>

text \<open>
  digests are canonical. A digest computed by the crate is always accepted back by the strict
  parser unchanged, the parser accepts a text only as itself, and two hash values have the same hex
  text only when they are equal, so comparing hex texts compares the hashes.
\<close>

theorem digest_hex_canonical:
  assumes "length (sha bs) = 32"
  shows "parse_hex (of_bytes sha bs) = Inr (of_bytes sha bs) \<and>
    (\<forall>s d. parse_hex s = Inr d \<longrightarrow> d = s \<and> length d = 64 \<and> list_all is_lower_hex_byte d) \<and>
    (\<forall>bs'. of_bytes sha bs = of_bytes sha bs' \<longleftrightarrow> sha bs = sha bs')"
proof -
  have "list_all is_lower_hex_byte (concat (map hex_of_byte xs))" for xs
    by (induction xs) (auto simp: hex_of_byte_def lower_hex_digit_valid)
  then have "parse_hex (of_bytes sha bs) = Inr (of_bytes sha bs)"
    using assms length_from_hasher [of sha bs] by (simp add: parse_hex_def of_bytes_def from_hasher_def)
  moreover have "of_bytes sha bs = of_bytes sha bs' \<longleftrightarrow> sha bs = sha bs'" for bs'
    by (auto simp: of_bytes_def from_hasher_def dest: concat_hex_inj)
  ultimately show ?thesis by (auto simp: parse_hex_def split: if_splits)
qed

theorem digest_hex_canonical_witness:
  "parse_hex (of_bytes (\<lambda>bs. take 32 (bs @ replicate 32 0)) [255, 7]) =
     Inr (of_bytes (\<lambda>bs. take 32 (bs @ replicate 32 0)) [255, 7])"
  using digest_hex_canonical [of "\<lambda>bs. take 32 (bs @ replicate 32 0)" "[255, 7]"] by simp

lemma hw_write_inv:
  assumes "hasher w = inner w \<and> written w = of_nat (length (inner w))"
    and "hw_write t b w = Inr (n, w')"
  shows "hasher w' = inner w' \<and> written w' = of_nat (length (inner w'))"
  using assms by (auto simp: hw_write_def Let_def split: sum.splits)

lemma hw_writes_inv:
  "hasher w = inner w \<and> written w = of_nat (length (inner w)) \<Longrightarrow> hw_writes ts bs w = Inr w' \<Longrightarrow>
   hasher w' = inner w' \<and> written w' = of_nat (length (inner w'))"
proof (induction ts bs w rule: hw_writes.induct)
  case (1 t ts b bs w)
  then obtain n w1 where w1: "hw_write t b w = Inr (n, w1)" "hw_writes ts bs w1 = Inr w'"
    by (auto simp: res_bind_def split: sum.splits)
  with "1.IH" hw_write_inv [OF "1.prems"(1) w1(1)] show ?case by blast
qed simp_all

text \<open>
  hashing as bytes are written. Whatever prefixes the inner writer accepts, when the writes
  succeed the digest and the byte count are those of exactly the bytes the inner writer received,
  which is what makes the check after a download meaningful.
\<close>

theorem hashing_writer_faithful:
  assumes "hw_writes ts bs new_hashing_writer = Inr w"
  shows "hw_finish sha w = (inner w, of_bytes sha (inner w), of_nat (length (inner w)))"
proof -
  have "hasher w = inner w \<and> written w = of_nat (length (inner w))"
    by (rule hw_writes_inv [OF _ assms]) (simp add: new_hashing_writer_def)
  then show ?thesis by (simp add: hw_finish_def of_bytes_def)
qed

theorem hashing_writer_faithful_witness:
  "hw_finish (\<lambda>x. x) (new_hashing_writer\<lparr>inner := [1, 2, 4], hasher := [1, 2, 4], written := 3\<rparr>) =
     ([1, 2, 4], of_bytes (\<lambda>x. x) [1, 2, 4], 3)"
proof -
  have "hw_writes [Inr 2, Inr 5] [[1, 2, 3], [4]] new_hashing_writer =
      Inr (new_hashing_writer\<lparr>inner := [1, 2, 4], hasher := [1, 2, 4], written := 3\<rparr>)"
    by (simp add: res_bind_def hw_write_def new_hashing_writer_def Let_def)
  from hashing_writer_faithful [OF this, of "\<lambda>x. x"] show ?thesis by simp
qed

text \<open>
  Reading in chunks gives the digest of the concatenated chunks, however the reader splits the file.
\<close>

lemma read_loop_chunks: "[] \<notin> set cs \<Longrightarrow> read_loop (map Inr cs) fed = Inr (fed @ concat cs)"
  by (induction cs arbitrary: fed) auto

lemma of_reader_chunks: "[] \<notin> set cs \<Longrightarrow> of_reader sha (map Inr cs) = Inr (of_bytes sha (concat cs))"
  by (simp add: of_reader_def read_loop_chunks res_bind_def of_bytes_def)

end
