(* ===== verification/ExtNames.thy ===== *)
theory ExtNames
  imports Errors
begin

text \<open>
  The validated vocabulary of extension archives: extension names (\<open>extensions/name.rs\<close>), the
  version of the installed server (\<open>extensions/version.rs\<close>) and the archive layout policy
  (\<open>extensions/layout.rs\<close>). \<open>semver::Version::parse\<close> and running \<open>pg_config\<close> are parameters.
\<close>

section \<open>Extension names\<close>

type_synonym extension_name = string

definition is_name_byte :: "char \<Rightarrow> bool" where
  "is_name_byte c \<longleftrightarrow> is_ascii_lowercase c \<or> is_ascii_digit c \<or> c = CHR ''_''"

definition extension_name_new :: "string \<Rightarrow> bootstrap_error + extension_name" where
  "extension_name_new v =
     (if v = [] \<or> \<not> list_all is_name_byte v then Inl (extension_error ExtensionConfigInvalid) else Inr v)"

section \<open>The installed server's version\<close>

record version =
  major :: nat
  minor :: nat
  patch :: nat
  pre :: string
  build :: string

definition version_new :: "nat \<Rightarrow> nat \<Rightarrow> nat \<Rightarrow> version" where
  "version_new a b c = \<lparr>major = a, minor = b, patch = c, pre = [], build = []\<rparr>"

definition parse_pg_config_version :: "string \<Rightarrow> version option" where
  "parse_pg_config_version text =
     (case split_whitespace text of
        _ # token # _ \<Rightarrow>
          (let numeric = takeWhile (\<lambda>c. is_ascii_digit c \<or> c = CHR ''.'') token;
               parts = filter (\<lambda>p. p \<noteq> []) (split_on (CHR ''.'') numeric)
           in case parts of
                [] \<Rightarrow> None
              | a # rest \<Rightarrow>
                  Option.bind (parse_u64 a) (\<lambda>mj.
                  Option.bind (case rest of [] \<Rightarrow> Some 0 | b # _ \<Rightarrow> parse_u64 b) (\<lambda>mn.
                  Some (version_new mj mn 0))))
      | _ \<Rightarrow> None)"

text \<open>What running \<open>pg_config --version\<close> gives: a spawn failure, or exit status and output.\<close>

datatype command_result = SpawnFailed io_error_kind | Exited bool string

definition version_from_dir_name :: "(string \<Rightarrow> version option) \<Rightarrow> path \<Rightarrow> version option" where
  "version_from_dir_name version_parse install_dir = Option.bind (file_name install_dir) version_parse"

definition running_version ::
  "(string \<Rightarrow> version option) \<Rightarrow> (path \<Rightarrow> command_result) \<Rightarrow> path \<Rightarrow> bootstrap_error + version" where
  "running_version version_parse pg_config install_dir =
     (case version_from_dir_name version_parse install_dir of
        Some v \<Rightarrow> Inr v
      | None \<Rightarrow>
          (case pg_config (install_dir @ [''bin'', ''pg_config'']) of
             SpawnFailed e \<Rightarrow> Inl (extension_error ExtensionUnavailable)
           | Exited success stdout \<Rightarrow>
               if \<not> success then Inl (extension_error ExtensionUnavailable)
               else ok_or (extension_error ExtensionUnavailable)
                      (parse_pg_config_version (from_utf8_lossy stdout))))"

section \<open>Archive layout policy\<close>

definition ALLOWED_PREFIXES :: "string list" where
  "ALLOWED_PREFIXES = [''lib/'', ''share/extension/'']"

definition plain_component :: "string \<Rightarrow> string option" where
  "plain_component part =
     (if CHR 0x5C \<notin> set part \<and> CHR ''/'' \<notin> set part then Some part else None)"

text \<open>The loop of \<open>normal_components\<close>; the first argument is the index of the component.\<close>

fun normal_loop :: "nat \<Rightarrow> component list \<Rightarrow> string list option" where
  "normal_loop i [] = Some []"
| "normal_loop i (CurDir # cs) = (if i = 0 then normal_loop (Suc i) cs else None)"
| "normal_loop i (Normal part # cs) =
     (if is_utf8 part then
        Option.bind (plain_component part) (\<lambda>p. map_option ((#) p) (normal_loop (Suc i) cs))
      else None)"
| "normal_loop i (RootDir # cs) = None"
| "normal_loop i (ParentDir # cs) = None"

definition normal_components :: "string \<Rightarrow> string list option" where
  "normal_components raw = normal_loop 0 (path_components raw)"

fun is_allowed_layout :: "string list \<Rightarrow> bool" where
  "is_allowed_layout [a, _] = (a = ''lib'')"
| "is_allowed_layout (a # b # _ # _) = (a = ''share'' \<and> b = ''extension'')"
| "is_allowed_layout _ = False"

definition classify_entry_path :: "string \<Rightarrow> string option" where
  "classify_entry_path raw =
     Option.bind (normal_components raw)
       (\<lambda>parts. if is_allowed_layout parts then Some (join_with ''/'' parts) else None)"

section \<open>Lemmas\<close>

lemma normal_loop_plain:
  "normal_loop i cs = Some parts \<Longrightarrow> (\<And>n. Normal n \<in> set cs \<Longrightarrow> plain_name n) \<Longrightarrow>
   p \<in> set parts \<Longrightarrow> plain_name p \<and> is_utf8 p \<and> CHR 0x5C \<notin> set p"
  by (induction i cs arbitrary: parts rule: normal_loop.induct)
    (fastforce simp: plain_component_def split: if_splits)+

lemma normal_components_plain:
  "normal_components raw = Some parts \<Longrightarrow> p \<in> set parts \<Longrightarrow>
   plain_name p \<and> is_utf8 p \<and> CHR 0x5C \<notin> set p"
  unfolding normal_components_def
  by (rule normal_loop_plain) (auto dest: path_components_Normal_plain)

lemma normal_loop_Normals:
  "(\<And>p. p \<in> set ps \<Longrightarrow> plain_name p \<and> is_utf8 p \<and> CHR 0x5C \<notin> set p) \<Longrightarrow>
   normal_loop i (map Normal ps) = Some ps"
  by (induction ps arbitrary: i) (auto simp: plain_component_def plain_name_def)

lemma is_allowed_layout_cases:
  "is_allowed_layout parts \<longleftrightarrow>
   (\<exists>f. parts = [''lib'', f]) \<or> (\<exists>f fs. parts = ''share'' # ''extension'' # f # fs)"
  by (induction parts rule: is_allowed_layout.induct) auto

lemma classify_entry_pathE:
  assumes "classify_entry_path raw = Some p"
  obtains parts where "p = join_with ''/'' parts" and "is_allowed_layout parts" and "parts \<noteq> []"
    and "path_components p = map Normal parts"
    and "\<And>q. q \<in> set parts \<Longrightarrow> plain_name q \<and> is_utf8 q \<and> CHR 0x5C \<notin> set q"
proof -
  from assms obtain parts where parts: "normal_components raw = Some parts" "is_allowed_layout parts"
    and p: "p = join_with ''/'' parts"
    by (auto simp: classify_entry_path_def bind_eq_Some_conv split: if_splits)
  from parts(2) have ne: "parts \<noteq> []" by auto
  from normal_components_plain [OF parts(1)]
  have plain: "\<And>q. q \<in> set parts \<Longrightarrow> plain_name q \<and> is_utf8 q \<and> CHR 0x5C \<notin> set q" by blast
  with ne p have "path_components p = map Normal parts" by (simp add: path_components_join)
  with that p parts(2) ne plain show thesis by blast
qed

section \<open>Properties\<close>

text \<open>
  the archive layout policy. An accepted entry path names a relative path of plain components
  only (no root, no dot, no parent reference, no backslash) that is a file directly under \<open>lib\<close> or
  any depth below \<open>share/extension\<close>; so the destination stays inside those two subtrees of the
  installation root. The accepted form is canonical: classifying it again returns it unchanged.
\<close>

theorem classified_path_confined:
  assumes "classify_entry_path raw = Some p"
  shows "\<exists>parts. p = join_with ''/'' parts \<and> path_components p = map Normal parts \<and>
    list_all (\<lambda>q. plain_name q \<and> CHR 0x5C \<notin> set q) parts \<and>
    ((\<exists>f. parts = [''lib'', f]) \<or> (\<exists>f fs. parts = ''share'' # ''extension'' # f # fs)) \<and>
    path_names p = parts \<and> classify_entry_path p = Some p"
proof (rule classify_entry_pathE [OF assms])
  fix parts
  assume p: "p = join_with ''/'' parts" and ok: "is_allowed_layout parts"
    and comps: "path_components p = map Normal parts"
    and plain: "\<And>q. q \<in> set parts \<Longrightarrow> plain_name q \<and> is_utf8 q \<and> CHR 0x5C \<notin> set q"
  have "path_names p = parts"
    by (simp add: path_names_def comps component_name_def List.map_filter_def comp_def)
  moreover have "classify_entry_path p = Some p"
    using ok unfolding classify_entry_path_def normal_components_def comps
    by (simp add: normal_loop_Normals [OF plain] p)
  ultimately show ?thesis
    using p comps ok plain by (auto simp: is_allowed_layout_cases list_all_iff)
qed

theorem classified_path_confined_witness:
  "classify_entry_path ''./lib/vector.so'' = Some ''lib/vector.so'' \<and>
   classify_entry_path ''lib/vector.so'' = Some ''lib/vector.so''"
proof -
  have "classify_entry_path ''./lib/vector.so'' = Some ''lib/vector.so''" by code_simp
  from classified_path_confined [OF this] this show ?thesis by blast
qed

text \<open>
  the version fallback. The output of \<open>pg_config --version\<close> for any server version
  \<open>a.b\<close> whose numbers fit in 64 bits parses to exactly that major and minor version, whatever
  distribution suffix follows after a space.
\<close>

theorem pg_config_version_roundtrip:
  assumes "mj < 2 ^ 64" and "mn < 2 ^ 64" and "rest = [] \<or> ws_prefix rest \<noteq> 0"
  shows "parse_pg_config_version (''PostgreSQL '' @ show_nat mj @ ''.'' @ show_nat mn @ rest) =
    Some (version_new mj mn 0)"
proof -
  let ?tok = "show_nat mj @ ''.'' @ show_nat mn"
  have tok: "list_all never_ws ?tok"
    using show_nat_digits [of mj] show_nat_digits [of mn]
    by (auto simp: list_all_iff is_ascii_digit_never_ws never_ws_def [of "CHR ''.''"] ws_lead_def)
  have pg: "list_all never_ws ''PostgreSQL''" by (simp add: never_ws_def ws_lead_def)
  have "ws_prefix ('' '' @ ?tok @ rest) \<noteq> 0" by (simp add: ws_prefix_def ws_encodings_def)
  then have "split_whitespace (''PostgreSQL'' @ '' '' @ ?tok @ rest) =
      ''PostgreSQL'' # split_whitespace ('' '' @ ?tok @ rest)"
    using pg by (intro split_whitespace_word) auto
  also have "split_whitespace ('' '' @ ?tok @ rest) = ?tok # split_whitespace rest"
    using split_whitespace_space [of ?tok rest] split_whitespace_word [OF _ tok assms(3)] tok by simp
  finally have ws: "split_whitespace (''PostgreSQL '' @ ?tok @ rest) =
      ''PostgreSQL'' # ?tok # split_whitespace rest" by simp
  have tw: "takeWhile (\<lambda>c. is_ascii_digit c \<or> c = CHR ''.'') ?tok = ?tok"
    using show_nat_digits [of mj] show_nat_digits [of mn]
    by (subst takeWhile_eq_all_conv) (auto simp: list_all_iff)
  have sp: "split_on (CHR ''.'') ?tok = [show_nat mj, show_nat mn]"
  proof -
    have "CHR ''.'' \<notin> set (show_nat n)" for n
      using show_nat_digits [of n] is_ascii_digit_neq by (auto simp: list_all_iff)
    then show ?thesis by (simp add: split_on_append_sep split_on_no_sep)
  qed
  define tok where "tok = ?tok"
  have "parse_pg_config_version (''PostgreSQL '' @ tok @ rest) = Some (version_new mj mn 0)"
    using assms(1,2) ws [folded tok_def]
    by (simp add: parse_pg_config_version_def parse_u64_show_nat Let_def tw [folded tok_def]
        sp [folded tok_def])
  then show ?thesis by (simp add: tok_def)
qed

theorem pg_config_version_roundtrip_witness:
  "parse_pg_config_version (''PostgreSQL '' @ show_nat 16 @ ''.'' @ show_nat 4 @ '' (Debian)'') =
     Some (version_new 16 4 0)"
  by (rule pg_config_version_roundtrip) (simp_all add: ws_prefix_def ws_encodings_def)

end
