(* ===== verification/ExtManifest.thy ===== *)
theory ExtManifest
  imports ExtDigest ExtNames ExtHttp
begin

text \<open>
  The extension manifest: schema and validation (\<open>manifest/mod.rs\<close>), where it comes from
  (\<open>manifest/source.rs\<close>), how it is fetched and pinned (\<open>manifest/fetch.rs\<close>) and how one
  artefact is selected (\<open>manifest/select.rs\<close>). JSON decoding (\<open>serde_json\<close>), semver parsing,
  SHA-256, URL parsing and the HTTP client are parameters.
\<close>

section \<open>Schema\<close>

record manifest_artifact =
  art_postgresql :: string
  art_target :: string
  art_file :: string
  art_url :: string
  art_sha256 :: sha256_hex
  art_size :: u64
  art_files :: "string list"

record manifest_source_info =
  src_repository :: string
  src_tag :: string
  src_commit :: string

record manifest_extension =
  ext_name :: string
  ext_package :: string
  ext_version :: string
  ext_source :: manifest_source_info
  ext_artifacts :: "manifest_artifact list"

record manifest =
  schema_version :: "32 word"
  release :: string
  generated_at :: string
  extensions :: "manifest_extension list"

definition SUPPORTED_SCHEMA_VERSION :: "32 word" where "SUPPORTED_SCHEMA_VERSION = 1"
definition MANIFEST_SIZE_CAP :: u64 where "MANIFEST_SIZE_CAP = 1048576"
definition ARCHIVE_SIZE_CAP :: u64 where "ARCHIVE_SIZE_CAP = 268435456"

definition manifest_invalid :: bootstrap_error where
  "manifest_invalid = extension_error ExtensionManifestInvalid"

definition is_single_component :: "string \<Rightarrow> bool" where
  "is_single_component file \<longleftrightarrow>
     file \<noteq> [] \<and> CHR ''/'' \<notin> set file \<and> CHR 0x5C \<notin> set file \<and> file \<noteq> ''.'' \<and> file \<noteq> ''..''"

definition artifact_version :: "(string \<Rightarrow> version option) \<Rightarrow> manifest_artifact \<Rightarrow> version option" where
  "artifact_version version_parse a = version_parse (art_postgresql a)"

definition validate_artifact ::
  "(string \<Rightarrow> version option) \<Rightarrow> url_parser \<Rightarrow> manifest_artifact \<Rightarrow> bootstrap_error + unit" where
  "validate_artifact version_parse parse_url a =
     (if artifact_version version_parse a = None then Inl manifest_invalid
      else if \<not> is_single_component (art_file a) then Inl manifest_invalid
      else if art_size a = 0 \<or> ARCHIVE_SIZE_CAP < art_size a then Inl manifest_invalid
      else if art_files a = [] then Inl manifest_invalid
      else if \<not> is_permitted_url parse_url (art_url a) then Inl manifest_invalid
      else Inr ())"

text \<open>An error of \<open>ExtensionName::new\<close> is rewrapped as an invalid manifest.\<close>

definition validate_extension ::
  "(string \<Rightarrow> version option) \<Rightarrow> url_parser \<Rightarrow> manifest_extension \<Rightarrow> bootstrap_error + unit" where
  "validate_extension version_parse parse_url e =
     (case extension_name_new (ext_name e) of
        Inl _ \<Rightarrow> Inl manifest_invalid
      | Inr _ \<Rightarrow> res_bind (res_map (validate_artifact version_parse parse_url) (ext_artifacts e))
                 (\<lambda>_. Inr ()))"

definition validate_manifest ::
  "(string \<Rightarrow> version option) \<Rightarrow> url_parser \<Rightarrow> manifest \<Rightarrow> bootstrap_error + unit" where
  "validate_manifest version_parse parse_url m =
     (if schema_version m \<noteq> SUPPORTED_SCHEMA_VERSION then Inl manifest_invalid
      else res_bind (res_map (validate_extension version_parse parse_url) (extensions m)) (\<lambda>_. Inr ()))"

text \<open>
  \<open>json\<close> decodes the bytes into the schema with the digests still as text; the digest fields are
  then decoded by \<open>deserialize_digest\<close>, and a malformed one fails the whole decoding.
\<close>

definition deserialize_digest :: "string \<Rightarrow> sha256_hex option" where
  "deserialize_digest raw = (case parse_hex raw of Inl _ \<Rightarrow> None | Inr d \<Rightarrow> Some d)"

definition from_slice :: "(bytes \<Rightarrow> manifest option) \<Rightarrow> bytes \<Rightarrow> manifest option" where
  "from_slice json bs =
     Option.bind (json bs) (\<lambda>m.
       if list_all (\<lambda>e. list_all (\<lambda>a. deserialize_digest (art_sha256 a) = Some (art_sha256 a))
                         (ext_artifacts e)) (extensions m)
       then Some m else None)"

definition manifest_parse ::
  "(bytes \<Rightarrow> manifest option) \<Rightarrow> (string \<Rightarrow> version option) \<Rightarrow> url_parser \<Rightarrow> bytes \<Rightarrow> bootstrap_error + manifest" where
  "manifest_parse json version_parse parse_url bs =
     res_bind (ok_or manifest_invalid (from_slice json bs)) (\<lambda>m.
     res_bind (validate_manifest version_parse parse_url m) (\<lambda>_. Inr m))"

definition extension_names :: "manifest \<Rightarrow> string list" where
  "extension_names m = map ext_name (extensions m)"

section \<open>Source and fetching\<close>

datatype manifest_source =
    Url (src_url: string) (src_sha256: sha256_hex)
  | Path (src_path: string) (src_pin: "sha256_hex option")

definition location :: "url_parser \<Rightarrow> manifest_source \<Rightarrow> string" where
  "location parse_url s = (case s of Url u _ \<Rightarrow> redact_url parse_url u | Path p _ \<Rightarrow> p)"

definition check_size :: "bytes \<Rightarrow> bootstrap_error + bytes" where
  "check_size bs = (if unat MANIFEST_SIZE_CAP < length bs then Inl manifest_invalid else Inr bs)"

text \<open>\<open>open_file\<close> gives the open error, or the results of the successive reads.\<close>

type_synonym file_opener = "string \<Rightarrow> io_error_kind + (io_error_kind + bytes) list"

definition read_path :: "file_opener \<Rightarrow> string \<Rightarrow> bootstrap_error + bytes" where
  "read_path open_file p =
     (case open_file p of
        Inl _ \<Rightarrow> Inl (extension_error ExtensionManifestUnavailable)
      | Inr rs \<Rightarrow>
          (case copy_limited (unat (MANIFEST_SIZE_CAP + 1)) rs [] of
             Inl _ \<Rightarrow> Inl (extension_error ExtensionManifestUnavailable)
           | Inr bs \<Rightarrow> check_size bs))"

text \<open>The parameters of the network: URL parser, whether a client can be built, the answers.\<close>

record network =
  parse_url :: url_parser
  client_ok :: bool
  answers :: "url \<Rightarrow> nat \<Rightarrow> transport"

definition fetch_url :: "network \<Rightarrow> string \<Rightarrow> bootstrap_error + bytes" where
  "fetch_url net u =
     (case http_get (parse_url net) (client_ok net) (answers net) u MANIFEST_SIZE_CAP of
        Inl _ \<Rightarrow> Inl (extension_error ExtensionManifestUnavailable)
      | Inr bs \<Rightarrow> check_size bs)"

definition verify_digest :: "(bytes \<Rightarrow> bytes) \<Rightarrow> bytes \<Rightarrow> sha256_hex \<Rightarrow> bootstrap_error + unit" where
  "verify_digest sha bs expected =
     (if of_bytes sha bs = expected then Inr ()
      else Inl (extension_error ExtensionManifestDigestMismatch))"

text \<open>The crates the manifest code calls: SHA-256, JSON decoding, semver parsing.\<close>

record crates =
  sha :: "bytes \<Rightarrow> bytes"
  json :: "bytes \<Rightarrow> manifest option"
  version_parse :: "string \<Rightarrow> version option"

definition load :: "crates \<Rightarrow> network \<Rightarrow> file_opener \<Rightarrow> manifest_source \<Rightarrow> bootstrap_error + manifest" where
  "load cr net open_file source =
     res_bind
       (case source of
          Path p pin \<Rightarrow> res_bind (read_path open_file p) (\<lambda>bs. Inr (bs, pin))
        | Url u pin \<Rightarrow> res_bind (fetch_url net u) (\<lambda>bs. Inr (bs, Some pin)))
       (\<lambda>(bs, pinned).
          res_bind (case pinned of Some expected \<Rightarrow> verify_digest (sha cr) bs expected | None \<Rightarrow> Inr ())
            (\<lambda>_. manifest_parse (json cr) (version_parse cr) (parse_url net) bs))"

section \<open>Selection\<close>

record artifact_query =
  q_name :: extension_name
  q_running :: version
  q_target :: string

record selection =
  sel_extension :: manifest_extension
  sel_artifact :: manifest_artifact

definition artifact_matches ::
  "(string \<Rightarrow> version option) \<Rightarrow> manifest_artifact \<Rightarrow> version \<Rightarrow> string \<Rightarrow> bool" where
  "artifact_matches vp a running target =
     (case artifact_version vp a of
        None \<Rightarrow> False
      | Some built \<Rightarrow> major built = major running \<and> minor built = minor running \<and> art_target a = target)"

definition select :: "(string \<Rightarrow> version option) \<Rightarrow> manifest \<Rightarrow> artifact_query \<Rightarrow> bootstrap_error + selection" where
  "select vp m q =
     (case find (\<lambda>e. ext_name e = q_name q) (extensions m) of
        None \<Rightarrow> Inl (extension_error ExtensionUnavailable)
      | Some e \<Rightarrow>
          res_bind (ok_or (extension_error ExtensionUnavailable)
                     (find (\<lambda>a. artifact_matches vp a (q_running q) (q_target q)) (ext_artifacts e)))
            (\<lambda>a. Inr \<lparr>sel_extension = e, sel_artifact = a\<rparr>))"

section \<open>Validated manifests\<close>

text \<open>What the rest of the pipeline relies on about a manifest it was given.\<close>

definition artifact_ok :: "(string \<Rightarrow> version option) \<Rightarrow> url_parser \<Rightarrow> manifest_artifact \<Rightarrow> bool" where
  "artifact_ok vp pu a \<longleftrightarrow>
     vp (art_postgresql a) \<noteq> None \<and> plain_name (art_file a) \<and>
     0 < unat (art_size a) \<and> unat (art_size a) \<le> 256 * 1024 * 1024 \<and> art_files a \<noteq> [] \<and>
     is_permitted_url pu (art_url a) \<and> length (art_sha256 a) = 64 \<and> list_all is_lower_hex_byte (art_sha256 a)"

definition manifest_ok :: "(string \<Rightarrow> version option) \<Rightarrow> url_parser \<Rightarrow> manifest \<Rightarrow> bool" where
  "manifest_ok vp pu m \<longleftrightarrow> schema_version m = 1 \<and>
     list_all (\<lambda>e. ext_name e \<noteq> [] \<and> list_all is_name_byte (ext_name e) \<and>
                 list_all (artifact_ok vp pu) (ext_artifacts e)) (extensions m)"

lemma is_single_component_plain: "is_single_component f \<Longrightarrow> plain_name f"
  by (simp add: is_single_component_def plain_name_def)

lemma validate_artifact_ok:
  assumes "validate_artifact vp pu a = Inr u" and "deserialize_digest (art_sha256 a) = Some (art_sha256 a)"
  shows "artifact_ok vp pu a"
proof -
  have "unat (art_size a) \<le> 256 * 1024 * 1024" if "\<not> ARCHIVE_SIZE_CAP < art_size a"
    using that by (simp add: ARCHIVE_SIZE_CAP_def not_less word_le_nat_alt)
  moreover have "0 < unat (art_size a)" if "art_size a \<noteq> 0"
    using that by (simp add: unat_gt_0)
  ultimately show ?thesis using assms
    by (auto simp: validate_artifact_def artifact_ok_def artifact_version_def deserialize_digest_def
        parse_hex_def is_single_component_plain split: if_splits)
qed

lemma manifest_parse_ok:
  assumes "manifest_parse js vp pu bs = Inr m"
  shows "manifest_ok vp pu m \<and> js bs = Some m"
proof -
  from assms have slice: "from_slice js bs = Some m" and val: "validate_manifest vp pu m = Inr ()"
    by (auto simp: manifest_parse_def res_simps)
  then have digests: "list_all (\<lambda>e. list_all (\<lambda>a. deserialize_digest (art_sha256 a) = Some (art_sha256 a))
      (ext_artifacts e)) (extensions m)" and js: "js bs = Some m"
    by (auto simp: from_slice_def bind_eq_Some_conv split: if_splits)
  from val obtain us where schema: "schema_version m = 1"
    and exts: "res_map (validate_extension vp pu) (extensions m) = Inr us"
    by (auto simp: validate_manifest_def SUPPORTED_SCHEMA_VERSION_def res_simps split: if_splits)
  have "ext_name e \<noteq> [] \<and> list_all is_name_byte (ext_name e) \<and> list_all (artifact_ok vp pu) (ext_artifacts e)"
    if "e \<in> set (extensions m)" for e
  proof -
    from res_map_InrD [OF exts that] have v: "validate_extension vp pu e = Inr ()" by simp
    then obtain as where "res_map (validate_artifact vp pu) (ext_artifacts e) = Inr as"
      by (auto simp: validate_extension_def res_simps split: sum.splits)
    from res_map_InrD [OF this] digests that have "list_all (artifact_ok vp pu) (ext_artifacts e)"
      unfolding list_all_iff using validate_artifact_ok by blast
    with v show ?thesis
      by (auto simp: validate_extension_def extension_name_new_def split: sum.splits if_splits)
  qed
  with schema js show ?thesis by (auto simp: manifest_ok_def list_all_iff)
qed

section \<open>Properties\<close>

text \<open>
  C25: loading a manifest fails closed. A manifest that is returned was decoded from bytes within
  the size cap that hash to the pinned digest when there is a pin (a URL source always has one, and
  its URL is permitted), and every extension and artefact in it passed every check: schema 1, names
  over \<open>[a-z0-9_]\<close>, a parsable version, a bare file name, a size from 1 byte to 256 MiB, a
  non-empty file list, a permitted URL and a canonical digest.
\<close>

theorem load_fails_closed:
  assumes "load cr net open_file source = Inr m"
  shows "manifest_ok (version_parse cr) (parse_url net) m \<and>
    (\<exists>bs. json cr bs = Some m \<and> length bs \<le> 1024 * 1024 \<and>
      (case source of
         Url u pin \<Rightarrow> of_bytes (sha cr) bs = pin \<and> is_permitted_url (parse_url net) u
       | Path p pin \<Rightarrow> (\<forall>d. pin = Some d \<longrightarrow> of_bytes (sha cr) bs = d)))"
proof -
  from assms obtain bs pinned where
    src: "(case source of
        Path p pin \<Rightarrow> res_bind (read_path open_file p) (\<lambda>bs. Inr (bs, pin))
      | Url u pin \<Rightarrow> res_bind (fetch_url net u) (\<lambda>bs. Inr (bs, Some pin))) = Inr (bs, pinned)"
    and ver: "(case pinned of Some d \<Rightarrow> verify_digest (sha cr) bs d | None \<Rightarrow> Inr ()) = Inr ()"
    and parse: "manifest_parse (json cr) (version_parse cr) (parse_url net) bs = Inr m"
    by (auto simp: load_def res_simps)
  have cap: "unat MANIFEST_SIZE_CAP = 1024 * 1024" by (simp add: MANIFEST_SIZE_CAP_def)
  have size: "length bs \<le> 1024 * 1024"
    using src cap
    by (auto simp: res_simps read_path_def fetch_url_def check_size_def
        split: manifest_source.splits sum.splits if_splits)
  have "case source of
         Url u pin \<Rightarrow> of_bytes (sha cr) bs = pin \<and> is_permitted_url (parse_url net) u
       | Path p pin \<Rightarrow> (\<forall>d. pin = Some d \<longrightarrow> of_bytes (sha cr) bs = d)"
    using src ver
    by (auto simp: res_simps fetch_url_def http_get_def is_permitted_url_def verify_digest_def
        split: manifest_source.splits sum.splits if_splits option.splits)
  with size manifest_parse_ok [OF parse] show ?thesis by blast
qed

text \<open>A manifest with one artefact, and the world in which it is loaded from a local path.\<close>

definition demo_artifact :: manifest_artifact where
  "demo_artifact =
     \<lparr>art_postgresql = ''17.11.0'', art_target = ''x86_64'', art_file = ''v.tgz'', art_url = ''u'',
      art_sha256 = replicate 64 (CHR ''0''), art_size = 4, art_files = [''lib/v.so'']\<rparr>"

definition demo_manifest :: manifest where
  "demo_manifest =
     \<lparr>schema_version = 1, release = ''v1'', generated_at = [],
      extensions = [\<lparr>ext_name = ''vector'', ext_package = ''pgvector'', ext_version = ''0.8.6'',
        ext_source = \<lparr>src_repository = [], src_tag = [], src_commit = []\<rparr>,
        ext_artifacts = [demo_artifact]\<rparr>]\<rparr>"

definition demo_url :: url where
  "demo_url = \<lparr>scheme = ''https'', host_str = Some ''h'', port = None, url_path = [], userinfo = [],
     query = None, fragment = None\<rparr>"

definition demo_crates :: crates where
  "demo_crates = \<lparr>sha = (\<lambda>_. replicate 32 0), json = (\<lambda>_. Some demo_manifest),
     version_parse = (\<lambda>_. Some (version_new 17 11 0))\<rparr>"

definition demo_network :: network where
  "demo_network = \<lparr>parse_url = (\<lambda>_. Some demo_url), client_ok = True, answers = (\<lambda>_ _. TransportError False)\<rparr>"

lemma demo_parse:
  "manifest_parse (json demo_crates) (version_parse demo_crates) (parse_url demo_network) bs = Inr demo_manifest"
proof -
  have "list_all is_name_byte ''vector''" by code_simp
  moreover have "is_single_component ''v.tgz''" by code_simp
  moreover have "parse_hex (replicate 64 (CHR ''0'')) = Inr (replicate 64 (CHR ''0''))"
    by (simp add: parse_hex_def list_all_iff is_lower_hex_byte_def is_ascii_digit_def)
  ultimately show ?thesis
    by (simp add: manifest_parse_def from_slice_def demo_crates_def demo_network_def demo_manifest_def
        demo_artifact_def demo_url_def deserialize_digest_def validate_manifest_def
        SUPPORTED_SCHEMA_VERSION_def validate_extension_def extension_name_new_def
        validate_artifact_def artifact_version_def ARCHIVE_SIZE_CAP_def is_permitted_url_def
        is_permitted_def res_bind_def ok_or_def)
qed

theorem load_fails_closed_witness:
  "load demo_crates demo_network (\<lambda>_. Inr []) (Path ''m'' None) = Inr demo_manifest \<and>
   manifest_ok (version_parse demo_crates) (parse_url demo_network) demo_manifest"
proof -
  have "copy_limited (unat (MANIFEST_SIZE_CAP + 1)) [] [] = Inr []"
    by (cases "unat (MANIFEST_SIZE_CAP + 1)") simp_all
  then have run: "load demo_crates demo_network (\<lambda>_. Inr []) (Path ''m'' None) = Inr demo_manifest"
    by (simp add: load_def read_path_def check_size_def res_bind_def demo_parse)
  from load_fails_closed [OF run] run show ?thesis by blast
qed

text \<open>
  artefact selection is exact. A selection is an artefact of the first extension with the
  requested name, built for the running server's major and minor version and the compile target;
  and selection fails (with \<open>ExtensionUnavailable\<close>) exactly when that extension has no such
  artefact or there is no such extension. There is no fallback to another minor version.
\<close>

theorem select_exact:
  "(case select vp m q of
      Inr s \<Rightarrow> find (\<lambda>e. ext_name e = q_name q) (extensions m) = Some (sel_extension s) \<and>
               sel_artifact s \<in> set (ext_artifacts (sel_extension s)) \<and>
               (\<exists>v. vp (art_postgresql (sel_artifact s)) = Some v \<and> major v = major (q_running q) \<and>
                    minor v = minor (q_running q)) \<and>
               art_target (sel_artifact s) = q_target q
    | Inl err \<Rightarrow> kind err = ExtensionUnavailable \<and>
               (case find (\<lambda>e. ext_name e = q_name q) (extensions m) of
                  None \<Rightarrow> q_name q \<notin> set (extension_names m)
                | Some e \<Rightarrow> filter (\<lambda>a. artifact_matches vp a (q_running q) (q_target q)) (ext_artifacts e) = []))"
proof (cases "find (\<lambda>e. ext_name e = q_name q) (extensions m)")
  case None
  then have "q_name q \<notin> set (extension_names m)" by (auto simp: extension_names_def find_None_iff)
  with None show ?thesis by (simp add: select_def)
next
  case (Some e)
  show ?thesis
  proof (cases "find (\<lambda>a. artifact_matches vp a (q_running q) (q_target q)) (ext_artifacts e)")
    case None
    then have "filter (\<lambda>a. artifact_matches vp a (q_running q) (q_target q)) (ext_artifacts e) = []"
      by (simp add: find_None_iff filter_empty_conv)
    with None Some show ?thesis by (simp add: select_def ok_or_def res_bind_def)
  next
    case (Some a)
    then have "a \<in> set (ext_artifacts e)" "artifact_matches vp a (q_running q) (q_target q)"
      by (auto simp: find_Some_iff)
    with Some \<open>find (\<lambda>e. ext_name e = q_name q) (extensions m) = Some e\<close> show ?thesis
      by (auto simp: select_def ok_or_def res_bind_def artifact_matches_def artifact_version_def
          split: option.splits)
  qed
qed

end
