(* ===== verification/ExtConfig.thy ===== *)
theory ExtConfig
  imports CacheConfig ExtManifest
begin

text \<open>
  \<open>extensions/config.rs\<close>: the \<open>PG_EXTENSIONS*\<close> settings, already captured in \<open>PgEnvCfg\<close>, become an
  \<open>ExtensionRequest\<close>, and the extension cache directory is resolved from the environment.
\<close>

section \<open>Data\<close>

record extension_request =
  names :: "extension_name list"
  manifest_src :: manifest_source
  request_cache_dir :: string

text \<open>\<open>PgEnvCfg\<close>; ports and limits are the values of their unsigned types.\<close>

record pg_env_cfg =
  cfg_version_req :: "string option"
  cfg_port :: "nat option"
  cfg_superuser :: "string option"
  cfg_password :: "string option"
  cfg_data_dir :: "string option"
  cfg_runtime_dir :: "string option"
  cfg_locale :: "string option"
  cfg_encoding :: "string option"
  cfg_binary_cache_dir :: "string option"
  cfg_embed_root :: "string option"
  cfg_max_connections :: "nat option"
  cfg_extensions :: "string option"
  cfg_extensions_manifest :: "string option"
  cfg_extensions_manifest_sha256 :: "string option"
  cfg_extensions_cache_dir :: "string option"

section \<open>The extension cache directory\<close>

definition EXT_CACHE_SUBDIR :: string where "EXT_CACHE_SUBDIR = ''pg-embedded/extensions''"

definition non_empty_env :: "(string \<Rightarrow> string option) \<Rightarrow> string \<Rightarrow> string option" where
  "non_empty_env env key =
     (case map_option trim (env_var env key) of
        Some v \<Rightarrow> if v \<noteq> [] then Some v else None
      | None \<Rightarrow> None)"

definition home_cache_dir :: "string option \<Rightarrow> string option" where
  "home_cache_dir home_dir =
     Option.bind home_dir (\<lambda>h.
     Option.bind (result_ok (from_path_buf h)) (\<lambda>home.
       Some (path_push (path_push home ''.cache'') EXT_CACHE_SUBDIR)))"

definition temp_cache_dir :: "(string \<Rightarrow> string option) \<Rightarrow> string" where
  "temp_cache_dir env =
     (case from_path_buf (path_push (path_push (temp_dir env) ''pg-embedded'') ''extensions'') of
        Inr dir \<Rightarrow> dir
      | Inl p \<Rightarrow> from_utf8_lossy p)"

definition resolve_extension_cache_dir :: "(string \<Rightarrow> string option) \<Rightarrow> string option \<Rightarrow> string" where
  "resolve_extension_cache_dir env home_dir =
     (case non_empty_env env ''PG_EXTENSIONS_CACHE_DIR'' of
        Some dir \<Rightarrow> dir
      | None \<Rightarrow>
          (case map_option (\<lambda>home. path_push home EXT_CACHE_SUBDIR) (non_empty_env env ''XDG_CACHE_HOME'') of
             Some dir \<Rightarrow> dir
           | None \<Rightarrow>
               (case home_cache_dir home_dir of
                  Some dir \<Rightarrow> dir
                | None \<Rightarrow> temp_cache_dir env)))"

section \<open>The request\<close>

definition config_error :: bootstrap_error where
  "config_error = extension_error ExtensionConfigInvalid"

definition name_items :: "string \<Rightarrow> string list" where
  "name_items raw = filter (\<lambda>item. item \<noteq> []) (map trim (split_on (CHR '','') raw))"

fun parse_names_loop :: "string list \<Rightarrow> extension_name list \<Rightarrow> bootstrap_error + extension_name list" where
  "parse_names_loop [] acc = Inr acc"
| "parse_names_loop (item # items) acc =
     (case extension_name_new item of
        Inl e \<Rightarrow> Inl e
      | Inr name \<Rightarrow> parse_names_loop items (if name \<in> set acc then acc else acc @ [name]))"

definition parse_names :: "string \<Rightarrow> bootstrap_error + extension_name list" where
  "parse_names raw = parse_names_loop (name_items raw) []"

definition parse_digest :: "string \<Rightarrow> bootstrap_error + sha256_hex" where
  "parse_digest v = (case parse_hex v of Inl _ \<Rightarrow> Inl config_error | Inr d \<Rightarrow> Inr d)"

text \<open>\<open>map(str::trim).filter(non-empty)\<close> on an optional setting.\<close>

definition non_blank :: "string option \<Rightarrow> string option" where
  "non_blank v = (case map_option trim v of Some t \<Rightarrow> if t \<noteq> [] then Some t else None | None \<Rightarrow> None)"

definition parse_manifest_source ::
  "url_parser \<Rightarrow> string option \<Rightarrow> string option \<Rightarrow> bootstrap_error + manifest_source" where
  "parse_manifest_source parse raw_location digest =
     (case non_blank raw_location of
        None \<Rightarrow> Inl config_error
      | Some loc \<Rightarrow>
          res_bind
            (case non_blank digest of
               None \<Rightarrow> Inr None
             | Some v \<Rightarrow> res_bind (parse_digest v) (\<lambda>d. Inr (Some d)))
            (\<lambda>pinned.
               if is_permitted_url parse loc then
                 (case pinned of
                    None \<Rightarrow> Inl config_error
                  | Some sha256 \<Rightarrow> Inr (Url loc sha256))
               else if contains_str ''://'' loc then Inl config_error
               else Inr (Path loc pinned)))"

definition from_config ::
  "url_parser \<Rightarrow> (string \<Rightarrow> string option) \<Rightarrow> string option \<Rightarrow> pg_env_cfg \<Rightarrow>
   bootstrap_error + extension_request option" where
  "from_config parse env home_dir cfg =
     res_bind (parse_names (case cfg_extensions cfg of Some raw \<Rightarrow> raw | None \<Rightarrow> [])) (\<lambda>ns.
       if ns = [] then Inr None
       else
         res_bind (parse_manifest_source parse (cfg_extensions_manifest cfg) (cfg_extensions_manifest_sha256 cfg))
           (\<lambda>src.
              Inr (Some \<lparr>names = ns, manifest_src = src,
                request_cache_dir =
                  (case cfg_extensions_cache_dir cfg of
                     Some dir \<Rightarrow> dir
                   | None \<Rightarrow> resolve_extension_cache_dir env home_dir)\<rparr>)))"

section \<open>Properties\<close>

lemma remdups_snoc: "remdups (xs @ [x]) = filter (\<lambda>y. y \<noteq> x) (remdups xs) @ [x]"
  by (induction xs) auto

lemma first_occurrences_Cons:
  "rev (remdups (rev (x # xs))) = x # filter (\<lambda>y. y \<noteq> x) (rev (remdups (rev xs)))"
  by (simp add: remdups_snoc rev_filter)

lemma parse_names_loop_eq:
  "parse_names_loop items acc =
     (if list_all (\<lambda>i. i \<noteq> [] \<and> list_all is_name_byte i) items
      then Inr (acc @ filter (\<lambda>n. n \<notin> set acc) (rev (remdups (rev items))))
      else Inl config_error)"
proof (induction items arbitrary: acc)
  case (Cons i items)
  show ?case
  proof (cases "i \<noteq> [] \<and> list_all is_name_byte i")
    case True
    then have "extension_name_new i = Inr i" by (auto simp: extension_name_new_def)
    moreover have "filter (\<lambda>n. n \<notin> set acc) (rev (remdups (rev (i # items)))) =
      (if i \<in> set acc then [] else [i]) @
      filter (\<lambda>n. n \<notin> set (if i \<in> set acc then acc else acc @ [i])) (rev (remdups (rev items)))"
      by (subst first_occurrences_Cons) (auto intro!: filter_cong)
    ultimately show ?thesis using True Cons.IH by (simp del: rev.simps)
  next
    case False
    then show ?thesis by (auto simp: extension_name_new_def config_error_def)
  qed
qed simp

text \<open>
  the names of a request. \<open>parse_names\<close> accepts exactly the lists whose items, trimmed and with
  blank ones dropped, are all valid names, and returns the first occurrence of each in order;
  any other list is a configuration error.
\<close>

theorem parse_names_spec:
  "parse_names raw =
     (let items = name_items raw in
      if list_all (\<lambda>i. i \<noteq> [] \<and> list_all is_name_byte i) items
      then Inr (rev (remdups (rev items)))
      else Inl config_error)"
  by (simp add: parse_names_def parse_names_loop_eq Let_def)

lemma parse_names_sound:
  assumes "parse_names raw = Inr ns"
  shows "distinct ns \<and> set ns = set (name_items raw) \<and> list_all (\<lambda>n. n \<noteq> [] \<and> list_all is_name_byte n) ns"
  using assms
  by (auto simp: parse_names_def parse_names_loop_eq list_all_iff split: if_splits)

lemma parse_names_error: "parse_names raw = Inl e \<Longrightarrow> e = config_error"
  by (auto simp: parse_names_def parse_names_loop_eq split: if_splits)

lemma parse_manifest_source_ok:
  assumes "parse_manifest_source parse raw digest = Inr src"
  shows "(\<exists>u d. src = Url u d \<and> non_blank raw = Some u \<and> is_permitted_url parse u \<and>
             length d = 64 \<and> list_all is_lower_hex_byte d) \<or>
         (\<exists>p pin. src = Path p pin \<and> non_blank raw = Some p \<and> \<not> contains_str ''://'' p \<and>
             \<not> is_permitted_url parse p \<and> (pin = None \<longleftrightarrow> non_blank digest = None))"
  using assms
  by (auto simp: parse_manifest_source_def res_simps parse_digest_def parse_hex_def
      split: option.splits if_splits sum.splits)

lemma parse_manifest_source_error: "parse_manifest_source parse raw digest = Inl e \<Longrightarrow> e = config_error"
  by (auto simp: parse_manifest_source_def res_simps parse_digest_def
      split: option.splits if_splits sum.splits)

text \<open>
  a request that configuration accepts. The names are distinct, valid and not empty; a manifest
  named by URL is at a permitted URL and always carries a well-formed digest; a manifest named by
  path is no URL, and is pinned whenever a digest was given. No manifest is accepted without a
  declared location, and every refusal is a configuration error.
\<close>

theorem from_config_sound:
  "case from_config parse env home cfg of
     Inl e \<Rightarrow> kind e = ExtensionConfigInvalid
   | Inr None \<Rightarrow> list_all (\<lambda>i. i = []) (map trim (split_on (CHR '','') (case cfg_extensions cfg of Some raw \<Rightarrow> raw | None \<Rightarrow> [])))
   | Inr (Some r) \<Rightarrow>
       names r \<noteq> [] \<and> distinct (names r) \<and> list_all (\<lambda>n. n \<noteq> [] \<and> list_all is_name_byte n) (names r) \<and>
       (case manifest_src r of
          Url u d \<Rightarrow> non_blank (cfg_extensions_manifest cfg) = Some u \<and> is_permitted_url parse u \<and>
                     length d = 64 \<and> list_all is_lower_hex_byte d
        | Path p pin \<Rightarrow> non_blank (cfg_extensions_manifest cfg) = Some p \<and> \<not> contains_str ''://'' p \<and>
                        (pin = None \<longleftrightarrow> non_blank (cfg_extensions_manifest_sha256 cfg) = None))"
proof -
  define raw where "raw = (case cfg_extensions cfg of Some raw \<Rightarrow> raw | None \<Rightarrow> [])"
  note fc = from_config_def [of parse env home cfg, folded raw_def]
  show ?thesis
  proof (cases "parse_names raw")
    case (Inl e)
    then show ?thesis using parse_names_error [OF Inl] by (simp add: fc res_bind_def config_error_def)
  next
    case (Inr ns)
    note ns = parse_names_sound [OF Inr]
    show ?thesis
    proof (cases "ns = []")
      case True
      then show ?thesis using ns Inr
        by (auto simp: fc res_bind_def name_items_def list_all_iff raw_def [symmetric] filter_empty_conv)
    next
      case False
      show ?thesis
      proof (cases "parse_manifest_source parse (cfg_extensions_manifest cfg) (cfg_extensions_manifest_sha256 cfg)")
        case (Inl e)
        then show ?thesis using parse_manifest_source_error [OF Inl] Inr False
          by (simp add: fc res_bind_def config_error_def)
      next
        case src: (Inr src)
        then show ?thesis using parse_manifest_source_ok [OF src] Inr ns False
          by (auto simp: fc res_bind_def)
      qed
    qed
  qed
qed

text \<open>The shared resolution order: explicit variable, XDG home, home, temporary directory.\<close>

definition resolution :: "string \<Rightarrow> string \<Rightarrow> (string \<Rightarrow> string option) \<Rightarrow> string option \<Rightarrow> string" where
  "resolution key leaf env home_dir =
     (case Option.bind (env_var env key) (\<lambda>v. if trim v = [] then None else Some (trim v)) of
        Some dir \<Rightarrow> dir
      | None \<Rightarrow>
          (case Option.bind (env_var env ''XDG_CACHE_HOME'') (\<lambda>v. if trim v = [] then None else Some (trim v)) of
             Some dir \<Rightarrow> path_push dir (''pg-embedded/'' @ leaf)
           | None \<Rightarrow>
               (case Option.bind home_dir (\<lambda>h. if is_utf8 h then Some h else None) of
                  Some h \<Rightarrow> path_push (path_push h ''.cache'') (''pg-embedded/'' @ leaf)
                | None \<Rightarrow> from_utf8_lossy (path_push (path_push (temp_dir env) ''pg-embedded'') leaf))))"

lemma env_var_trim_utf8: "env_var env key = Some v \<Longrightarrow> is_utf8 (trim v)"
  by (auto simp: env_var_def is_utf8_trim split: option.splits if_splits)

lemma resolve_cache_dir_resolution: "resolve_cache_dir env home = resolution ''PG_BINARY_CACHE_DIR'' ''binaries'' env home"
  by (auto simp: resolve_cache_dir_def resolution_def resolve_from_env_def resolve_from_xdg_cache_def
      resolve_from_home_def from_path_buf_def result_ok_def CACHE_SUBDIR_def Let_def from_utf8_lossy_id
      env_var_trim_utf8 bind_eq_Some_conv split: option.splits)

lemma resolve_extension_cache_dir_resolution:
  "resolve_extension_cache_dir env home = resolution ''PG_EXTENSIONS_CACHE_DIR'' ''extensions'' env home"
  by (auto simp: resolve_extension_cache_dir_def resolution_def non_empty_env_def home_cache_dir_def
      temp_cache_dir_def from_path_buf_def result_ok_def EXT_CACHE_SUBDIR_def Let_def from_utf8_lossy_id
      env_var_trim_utf8 bind_eq_Some_conv split: option.splits)

lemma resolution_nonempty: "resolution key leaf env home \<noteq> []"
  by (auto simp: resolution_def from_utf8_lossy_nonempty bind_eq_Some_conv split: option.splits if_splits)

text \<open>
  the two cache directories are resolved alike. Each is the shared resolution order (explicit
  variable, then the XDG cache home, then the home directory, then the temporary directory) with its
  own variable and last component, the repeated UTF-8 checks of the code never changing the answer;
  and neither directory is ever the empty path.
\<close>

theorem cache_dirs_resolved_alike:
  "resolve_cache_dir env home = resolution ''PG_BINARY_CACHE_DIR'' ''binaries'' env home \<and>
   resolve_extension_cache_dir env home = resolution ''PG_EXTENSIONS_CACHE_DIR'' ''extensions'' env home \<and>
   resolve_cache_dir env home \<noteq> [] \<and> resolve_extension_cache_dir env home \<noteq> []"
  by (simp only: resolve_cache_dir_resolution resolve_extension_cache_dir_resolution resolution_nonempty
      simp_thms not_False_eq_True)

end
