(* ===== verification/PgConfig.thy ===== *)
theory PgConfig
  imports ClusterSettings ExtConfig
begin

text \<open>
  From the configuration to the server's settings (\<open>lib.rs\<close>) and the settings of a disposable cluster
  (\<open>durability.rs\<close>). \<open>Settings::default()\<close> of \<open>postgresql_embedded\<close> and \<open>VersionReq::parse\<close> of the \<open>semver\<close>
  crate are parameters; the latter gives the requirement's text.
\<close>

section \<open>Disposable clusters\<close>

definition DURABLE_VAR :: string where "DURABLE_VAR = ''PG_EMBED_DURABLE''"

definition DISPOSABLE_SETTINGS :: "(string \<times> string) list" where
  "DISPOSABLE_SETTINGS = [(''fsync'', ''off''), (''synchronous_commit'', ''off''), (''full_page_writes'', ''off'')]"

definition is_durable_requested :: "(string \<Rightarrow> string option) \<Rightarrow> bool" where
  "is_durable_requested env = (case env DURABLE_VAR of Some v \<Rightarrow> v = ''1'' | None \<Rightarrow> False)"

text \<open>\<open>entry(k).or_insert(v)\<close>.\<close>

definition or_insert :: "string \<times> string \<Rightarrow> settings \<Rightarrow> settings" where
  "or_insert kv s =
     (case s_configuration s (fst kv) of
        Some _ \<Rightarrow> s
      | None \<Rightarrow> s\<lparr>s_configuration := (s_configuration s)(fst kv \<mapsto> snd kv)\<rparr>)"

definition insert_conf :: "string \<Rightarrow> string \<Rightarrow> settings \<Rightarrow> settings" where
  "insert_conf k v s = s\<lparr>s_configuration := (s_configuration s)(k \<mapsto> v)\<rparr>"

definition apply_disposable_defaults :: "bool \<Rightarrow> settings \<Rightarrow> settings" where
  "apply_disposable_defaults durable s =
     (if durable then or_insert (''fsync'', ''on'') s else fold or_insert DISPOSABLE_SETTINGS s)"

definition is_disposable :: "settings \<Rightarrow> bool" where
  "is_disposable s = (case s_configuration s ''fsync'' of Some v \<Rightarrow> v = ''off'' | None \<Rightarrow> False)"

section \<open>The configuration applied\<close>

definition MIN_MAX_CONNECTIONS :: nat where "MIN_MAX_CONNECTIONS = 4"

definition WORKER_LIMIT_DEFAULTS :: "(string \<times> string) list" where
  "WORKER_LIMIT_DEFAULTS =
     [(''max_connections'', ''20''), (''max_worker_processes'', ''2''), (''max_parallel_workers'', ''0''),
      (''max_parallel_workers_per_gather'', ''0''), (''max_parallel_maintenance_workers'', ''0''),
      (''autovacuum'', ''off''), (''max_wal_senders'', ''0''), (''max_replication_slots'', ''0'')]"

definition apply_version :: "(string \<Rightarrow> string option) \<Rightarrow> pg_env_cfg \<Rightarrow> settings \<Rightarrow> bootstrap_error + settings" where
  "apply_version parse_req cfg s =
     (case cfg_version_req cfg of
        Some spec \<Rightarrow>
          (case parse_req spec of Some req \<Rightarrow> Inr (s\<lparr>s_version := req\<rparr>) | None \<Rightarrow> Inl (extension_error Other))
      | None \<Rightarrow> Inr s)"

definition apply_connection :: "pg_env_cfg \<Rightarrow> settings \<Rightarrow> settings" where
  "apply_connection cfg s =
     (let s = (case cfg_port cfg of Some p \<Rightarrow> s\<lparr>s_port := p\<rparr> | None \<Rightarrow> s);
          s = (case cfg_superuser cfg of Some u \<Rightarrow> s\<lparr>s_username := u\<rparr> | None \<Rightarrow> s)
      in case cfg_password cfg of Some pw \<Rightarrow> s\<lparr>s_password := pw\<rparr> | None \<Rightarrow> s)"

definition apply_paths :: "pg_env_cfg \<Rightarrow> settings \<Rightarrow> settings" where
  "apply_paths cfg s =
     (let s = (case cfg_data_dir cfg of Some d \<Rightarrow> s\<lparr>s_data_dir := d\<rparr> | None \<Rightarrow> s)
      in case cfg_runtime_dir cfg of Some d \<Rightarrow> s\<lparr>s_installation_dir := d\<rparr> | None \<Rightarrow> s)"

definition apply_locale :: "pg_env_cfg \<Rightarrow> settings \<Rightarrow> settings" where
  "apply_locale cfg s =
     (let s = (case cfg_locale cfg of Some l \<Rightarrow> insert_conf ''locale'' l s | None \<Rightarrow> s)
      in case cfg_encoding cfg of Some e \<Rightarrow> insert_conf ''encoding'' e s | None \<Rightarrow> s)"

definition apply_max_connections :: "pg_env_cfg \<Rightarrow> settings \<Rightarrow> bootstrap_error + settings" where
  "apply_max_connections cfg s =
     (case cfg_max_connections cfg of
        None \<Rightarrow> Inr s
      | Some limit \<Rightarrow>
          if limit < MIN_MAX_CONNECTIONS then Inl (extension_error Other)
          else Inr (insert_conf ''max_connections'' (show_nat limit) s))"

definition apply_worker_limits :: "settings \<Rightarrow> settings" where
  "apply_worker_limits s = fold or_insert WORKER_LIMIT_DEFAULTS s"

definition to_settings_with_context ::
  "settings \<Rightarrow> (string \<Rightarrow> string option) \<Rightarrow> (string \<Rightarrow> string option) \<Rightarrow> pg_env_cfg \<Rightarrow> bool \<Rightarrow> bootstrap_error + settings"
where
  "to_settings_with_context defaults parse_req env cfg for_tests =
     res_bind (apply_version parse_req cfg (defaults\<lparr>s_timeout := None\<rparr>)) (\<lambda>s.
       let s = apply_locale cfg (apply_paths cfg (apply_connection cfg s));
           s = (if for_tests
                then apply_disposable_defaults (is_durable_requested env) (apply_worker_limits s)
                else s)
       in apply_max_connections cfg s)"

definition to_settings ::
  "settings \<Rightarrow> (string \<Rightarrow> string option) \<Rightarrow> (string \<Rightarrow> string option) \<Rightarrow> pg_env_cfg \<Rightarrow> bootstrap_error + settings" where
  "to_settings defaults parse_req env cfg = to_settings_with_context defaults parse_req env cfg False"

definition to_settings_for_tests ::
  "settings \<Rightarrow> (string \<Rightarrow> string option) \<Rightarrow> (string \<Rightarrow> string option) \<Rightarrow> pg_env_cfg \<Rightarrow> bootstrap_error + settings" where
  "to_settings_for_tests defaults parse_req env cfg = to_settings_with_context defaults parse_req env cfg True"

section \<open>Who decides a setting\<close>

definition test_defaults :: "bool \<Rightarrow> (string \<times> string) list" where
  "test_defaults durable = WORKER_LIMIT_DEFAULTS @ (if durable then [(''fsync'', ''on'')] else DISPOSABLE_SETTINGS)"

text \<open>The server settings a configuration names itself.\<close>

definition configured :: "pg_env_cfg \<Rightarrow> string \<Rightarrow> string option" where
  "configured cfg k =
     (if k = ''max_connections'' then map_option show_nat (cfg_max_connections cfg)
      else if k = ''encoding'' then cfg_encoding cfg
      else if k = ''locale'' then cfg_locale cfg
      else None)"

lemma conf_fold_or_insert:
  "s_configuration (fold or_insert kvs s) k = (case s_configuration s k of Some v \<Rightarrow> Some v | None \<Rightarrow> map_of kvs k)"
proof (induction kvs arbitrary: s)
  case (Cons kv kvs)
  have "s_configuration (or_insert kv s) k =
      (case s_configuration s k of Some v \<Rightarrow> Some v | None \<Rightarrow> if fst kv = k then Some (snd kv) else None)"
    by (auto simp: or_insert_def split: option.splits)
  then show ?case using Cons by (auto split: option.splits)
qed (simp split: option.splits)

lemma conf_insert: "s_configuration (insert_conf k v s) = (s_configuration s)(k \<mapsto> v)"
  by (simp add: insert_conf_def)

lemma conf_connection [simp]: "s_configuration (apply_connection cfg s) = s_configuration s"
  and conf_paths [simp]: "s_configuration (apply_paths cfg s) = s_configuration s"
  by (simp_all add: apply_connection_def apply_paths_def Let_def split: option.splits)

definition first_of :: "string option \<Rightarrow> string option \<Rightarrow> string option" where
  "first_of x y = (case x of Some v \<Rightarrow> Some v | None \<Rightarrow> y)"

lemma conf_locale:
  "s_configuration (apply_locale cfg s) k =
     first_of (if k = ''encoding'' then cfg_encoding cfg else if k = ''locale'' then cfg_locale cfg else None) (s_configuration s k)"
  by (simp add: apply_locale_def Let_def conf_insert first_of_def split: option.split)

lemma conf_max_connections:
  "apply_max_connections cfg s = Inr s' \<Longrightarrow> s_configuration s' k =
     first_of (if k = ''max_connections'' then map_option show_nat (cfg_max_connections cfg) else None) (s_configuration s k)"
  by (auto simp: apply_max_connections_def conf_insert first_of_def split: option.splits if_splits)

lemma conf_version: "apply_version parse_req cfg s = Inr s' \<Longrightarrow> s_configuration s' = s_configuration s"
  by (auto simp: apply_version_def split: option.splits)

lemma fold_test_defaults:
  "apply_disposable_defaults durable (apply_worker_limits s) = fold or_insert (test_defaults durable) s"
  by (simp add: apply_disposable_defaults_def apply_worker_limits_def test_defaults_def)

text \<open>
  which value a server setting of a test cluster gets. Settings are refused exactly for a version
  requirement that does not parse or fewer than four connections. Otherwise, for every key, what the
  configuration names wins over the defaults of the server library, and those over the limits and the
  durability of a test cluster; all three are off unless durability was asked for, and then \<open>fsync\<close> is on.
\<close>

theorem test_settings_precedence:
  "case to_settings_for_tests defaults parse_req env cfg of
     Inl _ \<Rightarrow> (\<exists>spec. cfg_version_req cfg = Some spec \<and> parse_req spec = None) \<or>
              (\<exists>n. cfg_max_connections cfg = Some n \<and> n < 4)
   | Inr s \<Rightarrow>
       s_configuration s k =
         (case configured cfg k of
            Some v \<Rightarrow> Some v
          | None \<Rightarrow>
              (case s_configuration defaults k of
                 Some v \<Rightarrow> Some v
               | None \<Rightarrow> map_of (test_defaults (env DURABLE_VAR = Some ''1'')) k)) \<and>
       (is_disposable s \<longleftrightarrow>
         (case s_configuration defaults ''fsync'' of Some v \<Rightarrow> v = ''off'' | None \<Rightarrow> env DURABLE_VAR \<noteq> Some ''1''))"
proof (cases "to_settings_for_tests defaults parse_req env cfg")
  case (Inl e)
  then show ?thesis
    by (auto simp: to_settings_for_tests_def to_settings_with_context_def apply_version_def apply_max_connections_def
        MIN_MAX_CONNECTIONS_def Let_def res_bind_def split: option.splits if_splits sum.splits)
next
  case (Inr s)
  have durable: "is_durable_requested env \<longleftrightarrow> env DURABLE_VAR = Some ''1''"
    by (auto simp: is_durable_requested_def split: option.splits)
  from Inr obtain s0 where v: "apply_version parse_req cfg (defaults\<lparr>s_timeout := None\<rparr>) = Inr s0"
    and m: "apply_max_connections cfg (fold or_insert (test_defaults (env DURABLE_VAR = Some ''1''))
      (apply_locale cfg (apply_paths cfg (apply_connection cfg s0)))) = Inr s"
    by (auto simp: to_settings_for_tests_def to_settings_with_context_def Let_def res_bind_def fold_test_defaults durable
        split: sum.splits)
  have conf: "s_configuration s k = first_of (configured cfg k)
      (first_of (s_configuration defaults k) (map_of (test_defaults (env DURABLE_VAR = Some ''1'')) k))" for k
    unfolding conf_max_connections [OF m] conf_fold_or_insert conf_locale conf_paths conf_connection conf_version [OF v]
    by (auto simp: configured_def first_of_def split: option.split)
  have "map_of (test_defaults b) ''fsync'' = Some (if b then ''on'' else ''off'')" for b
    by (simp add: test_defaults_def WORKER_LIMIT_DEFAULTS_def DISPOSABLE_SETTINGS_def)
  moreover have "configured cfg ''fsync'' = None" by (simp add: configured_def)
  ultimately show ?thesis using Inr conf [of k] conf [of "''fsync''"]
    by (simp add: is_disposable_def first_of_def split: option.split)
qed

end
