(* ===== verification/Prepare.thy ===== *)
theory Prepare
  imports Password Privileges BootEnv PgConfig ClusterSlot
begin

text \<open>
  Preparing the file system for a bootstrap (\<open>bootstrap/prepare/mod.rs\<close>, \<open>layout.rs\<close>, \<open>root.rs\<close> and
  \<open>unix_user.rs\<close>, for the targets that can drop privileges). Paths in settings are texts; \<open>text_path\<close> is
  where a text leads. Log events are left out.
\<close>

section \<open>Parameters and data\<close>

text \<open>
  The crates and services used: \<open>cap_std\<close>, \<open>fs4\<close>, the kernel's process services, binding a listening
  socket on a host, and looking up the user \<open>nobody\<close>; then the working directory and the environment.
\<close>

record boot_env =
  be_cap :: dir_cap
  be_fs4 :: fs4_crate
  be_os :: os
  be_bind :: "string \<Rightarrow> nat fs"
  be_nobody :: "io_error_kind + user option"
  be_dir :: path
  be_env :: "string \<Rightarrow> string option"

datatype data_layout = PerCluster | Persistent

record settings_paths =
  sp_install_dir :: string
  sp_data_dir :: string
  sp_password_file :: string
  sp_install_default :: bool
  sp_data_default :: bool

record prepared_bootstrap =
  prep_settings :: settings
  prep_environment :: test_bootstrap_environment

definition PGPASS_MODE :: u32 where "PGPASS_MODE = 384"

definition other_error :: "io_error_kind \<Rightarrow> bootstrap_error" where
  "other_error e = extension_error Other"

section \<open>Where things go\<close>

definition default_paths_under :: "string \<Rightarrow> string \<times> string" where
  "default_paths_under base = (path_push base ''install'', path_push base ''data'')"

definition default_paths_for :: "u32 \<Rightarrow> string \<times> string" where
  "default_paths_for u = default_paths_under (default_root_for u)"

definition settings_paths_from_settings :: "settings \<Rightarrow> bool \<Rightarrow> bool \<Rightarrow> bootstrap_error + settings \<times> settings_paths" where
  "settings_paths_from_settings s install_default data_default =
     (case from_path_buf (s_installation_dir s) of
        Inl _ \<Rightarrow> Inl (extension_error Other)
      | Inr install_dir \<Rightarrow>
          (case from_path_buf (s_data_dir s) of
             Inl _ \<Rightarrow> Inl (extension_error Other)
           | Inr data_dir \<Rightarrow>
               let password_file = path_push install_dir ''.pgpass'' in
               Inr (s\<lparr>s_password_file := password_file\<rparr>,
                    \<lparr>sp_install_dir = install_dir, sp_data_dir = data_dir, sp_password_file = password_file,
                     sp_install_default = install_default, sp_data_default = data_default\<rparr>)))"

definition resolve_settings_paths_for_uid :: "settings \<Rightarrow> pg_env_cfg \<Rightarrow> u32 \<Rightarrow> bootstrap_error + settings \<times> settings_paths" where
  "resolve_settings_paths_for_uid s cfg u =
     (let r = (case cfg_embed_root cfg of Some r \<Rightarrow> r | None \<Rightarrow> default_root_for u);
          dirs = default_paths_under r;
          s1 = (if cfg_runtime_dir cfg = None then s\<lparr>s_installation_dir := fst dirs\<rparr> else s);
          s2 = (if cfg_data_dir cfg = None then s1\<lparr>s_data_dir := snd dirs\<rparr> else s1)
      in settings_paths_from_settings s2 (cfg_runtime_dir cfg = None) (cfg_data_dir cfg = None))"

definition resolve_settings_paths_for_current_user ::
  "settings \<Rightarrow> pg_env_cfg \<Rightarrow> (bootstrap_error, settings \<times> settings_paths) io" where
  "resolve_settings_paths_for_current_user s cfg w = (resolve_settings_paths_for_uid s cfg (euid w), w)"

definition warn_on_old_layout :: "path \<Rightarrow> (bootstrap_error, bool) io" where
  "warn_on_old_layout data_parent = path_is_file (data_parent @ [''PG_VERSION''])"

definition claim_derived_slot ::
  "boot_env \<Rightarrow> settings \<Rightarrow> settings_paths \<Rightarrow> data_layout \<Rightarrow> (bootstrap_error, bool \<times> settings \<times> settings_paths) io"
where
  "claim_derived_slot be s paths layout =
     (if layout = Persistent \<or> \<not> sp_data_default paths then io_ok (False, s, paths)
      else
        (let parent = text_path (be_dir be) (sp_data_dir paths) in
         io_bind (warn_on_old_layout parent) (\<lambda>_.
         io_bind (claim_slot (be_fs4 be) (be_os be) parent) (\<lambda>slot.
           let data_dir = path_push (sp_data_dir paths) (last (slot_data_dir slot));
               password_file = path_push (sp_data_dir paths) (last (slot_password_file slot)) in
           io_ok (True, s\<lparr>s_data_dir := data_dir, s_password_file := password_file\<rparr>,
                  paths\<lparr>sp_data_dir := data_dir, sp_password_file := password_file\<rparr>)))))"

section \<open>Directories and files\<close>

definition ensure_parents_for_paths ::
  "(string \<Rightarrow> (bootstrap_error, unit) io) \<Rightarrow> settings_paths \<Rightarrow> (bootstrap_error, unit) io" where
  "ensure_parents_for_paths ensure_parent paths =
     io_bind (if sp_install_default paths then ensure_parent (sp_install_dir paths) else io_ok ()) (\<lambda>_.
       if sp_data_default paths then ensure_parent (sp_data_dir paths) else io_ok ())"

definition ensure_dir_with_mode :: "boot_env \<Rightarrow> string \<Rightarrow> u32 \<Rightarrow> (bootstrap_error, unit) io" where
  "ensure_dir_with_mode be p m =
     io_bind (io_map_err other_error (ensure_dir_exists (be_cap be) (be_dir be) (path_components p))) (\<lambda>_.
       io_map_err other_error (set_path_permissions (be_cap be) (be_dir be) (path_components p) m))"

definition ensure_pgpass_permissions :: "boot_env \<Rightarrow> string \<Rightarrow> (bootstrap_error, unit) io" where
  "ensure_pgpass_permissions be p =
     io_match (set_path_permissions (be_cap be) (be_dir be) (path_components p) PGPASS_MODE) (\<lambda>r.
       case r of Inr _ \<Rightarrow> io_ok () | Inl e \<Rightarrow> if e = NotFound then io_ok () else io_err (extension_error Other))"

definition prepare_xdg_dirs :: "boot_env \<Rightarrow> string \<Rightarrow> (bootstrap_error, xdg_dirs) io" where
  "prepare_xdg_dirs be install_dir =
     (let cache = path_push install_dir ''cache''; runtime = path_push install_dir ''run'' in
      io_bind (ensure_dir_with_mode be cache 493) (\<lambda>_.
      io_bind (ensure_dir_with_mode be runtime 448) (\<lambda>_.
        io_ok \<lparr>xdg_home = install_dir, xdg_cache = cache, xdg_runtime = runtime\<rparr>)))"

definition ensure_parent_exists :: "boot_env \<Rightarrow> string \<Rightarrow> (bootstrap_error, unit) io" where
  "ensure_parent_exists be p =
     (case path_parent (path_components p) of
        Some parent \<Rightarrow> io_map_err other_error (ensure_dir_exists (be_cap be) (be_dir be) parent)
      | None \<Rightarrow> io_ok ())"

section \<open>Without privileges\<close>

definition bootstrap_unprivileged ::
  "boot_env \<Rightarrow> settings \<Rightarrow> pg_env_cfg \<Rightarrow> data_layout \<Rightarrow> (bootstrap_error, prepared_bootstrap) io"
where
  "bootstrap_unprivileged be s cfg layout =
     io_bind (resolve_settings_paths_for_current_user s cfg) (\<lambda>(s0, paths0).
     io_bind (claim_derived_slot be s0 paths0 layout) (\<lambda>(has_slot, s1, paths).
     let data_dir = text_path (be_dir be) (sp_data_dir paths);
         password_file = text_path (be_dir be) (sp_password_file paths) in
     io_bind (reuse_existing_password s1 data_dir password_file (cfg_password cfg \<noteq> None)) (\<lambda>(outcome, s2).
     io_bind (ensure_parents_for_paths (ensure_parent_exists be) paths) (\<lambda>_.
     io_bind (ensure_dir_with_mode be (sp_install_dir paths) 493) (\<lambda>_.
     io_bind (ensure_dir_with_mode be (sp_data_dir paths) 448) (\<lambda>_.
     io_bind (discard_orphaned_password_file data_dir password_file) (\<lambda>_.
     io_bind (ensure_pgpass_permissions be (sp_password_file paths)) (\<lambda>_.
     io_bind (prepare_timezone_env (be_dir be) (be_env be)) (\<lambda>tz.
     io_bind (prepare_xdg_dirs be (sp_install_dir paths)) (\<lambda>xdg.
       io_ok \<lparr>prep_settings = s2, prep_environment = from_components xdg (sp_password_file paths) tz\<rparr>))))))))))"

section \<open>As root\<close>

definition ensure_install_dir_for_user :: "boot_env \<Rightarrow> string \<Rightarrow> user \<Rightarrow> (bootstrap_error, unit) io" where
  "ensure_install_dir_for_user be p u =
     io_map_err other_error (ensure_dir_for_user (be_cap be) (be_dir be) (path_components p) u 493)"

definition reject_root_pgpass_path :: "component list \<Rightarrow> (bootstrap_error, unit) io" where
  "reject_root_pgpass_path relative = (if relative = [] then io_err (extension_error Other) else io_ok ())"

definition open_pgpass_for_user :: "boot_env \<Rightarrow> path \<Rightarrow> component list \<Rightarrow> (bootstrap_error, path option) io" where
  "open_pgpass_for_user be h relative =
     io_match (dc_open_nofollow (be_cap be) h relative) (\<lambda>r.
       case r of
         Inr q \<Rightarrow> io_ok (Some q)
       | Inl e \<Rightarrow> if e = NotFound then io_ok None else io_err (extension_error Other))"

definition ensure_pgpass_is_regular_file :: "bool \<Rightarrow> (bootstrap_error, unit) io" where
  "ensure_pgpass_is_regular_file is_file = (if is_file then io_ok () else io_err (extension_error Other))"

definition set_pgpass_owner :: "path \<Rightarrow> path \<Rightarrow> user \<Rightarrow> (bootstrap_error, unit) io" where
  "set_pgpass_owner p q u = io_map_err other_error (chown_at p q (user_uid u) (user_gid u))"

definition set_pgpass_mode :: "path \<Rightarrow> path \<Rightarrow> (bootstrap_error, unit) io" where
  "set_pgpass_mode p q = io_map_err other_error (set_mode_at p q PGPASS_MODE)"

definition ensure_pgpass_for_user :: "boot_env \<Rightarrow> string \<Rightarrow> user \<Rightarrow> (bootstrap_error, unit) io" where
  "ensure_pgpass_for_user be p u =
     (let at = text_path (be_dir be) p in
      io_bind (io_map_err other_error (ambient_dir_and_path (be_cap be) (be_dir be) (path_components p))) (\<lambda>(h, relative).
      io_bind (reject_root_pgpass_path relative) (\<lambda>_.
      io_bind (open_pgpass_for_user be h relative) (\<lambda>opened.
        case opened of
          None \<Rightarrow> io_ok ()
        | Some q \<Rightarrow>
            io_bind (io_map_err other_error (handle_metadata q)) (\<lambda>m.
            io_bind (ensure_pgpass_is_regular_file (is_file_node m)) (\<lambda>_.
            io_bind (set_pgpass_owner at q u) (\<lambda>_.
              set_pgpass_mode at q)))))))"

definition root_bind_host :: "settings \<Rightarrow> string" where
  "root_bind_host s = (if s_host s = [] \<or> prefix ''/'' (s_host s) then ''127.0.0.1'' else s_host s)"

definition ensure_root_port :: "boot_env \<Rightarrow> settings \<Rightarrow> (bootstrap_error, settings) io" where
  "ensure_root_port be s =
     (if s_port s > 0 then io_ok s
      else io_bind (io_map_err other_error (be_bind be (root_bind_host s))) (\<lambda>port. io_ok (s\<lparr>s_port := port\<rparr>)))"

definition ensure_slot_lock_owned_by_user :: "path \<Rightarrow> user \<Rightarrow> (bootstrap_error, unit) io" where
  "ensure_slot_lock_owned_by_user data_dir u = io_map_err other_error (chown_entry (lock_path data_dir) u)"

definition ensure_xdg_dirs_owned_by_user :: "boot_env \<Rightarrow> xdg_dirs \<Rightarrow> user \<Rightarrow> (bootstrap_error, unit) io" where
  "ensure_xdg_dirs_owned_by_user be xdg u =
     io_bind (io_map_err other_error (ensure_dir_for_user (be_cap be) (be_dir be) (path_components (xdg_cache xdg)) u 493)) (\<lambda>_.
       io_map_err other_error (ensure_dir_for_user (be_cap be) (be_dir be) (path_components (xdg_runtime xdg)) u 448))"

definition ensure_parent_for_user :: "boot_env \<Rightarrow> user \<Rightarrow> string \<Rightarrow> (bootstrap_error, unit) io" where
  "ensure_parent_for_user be u p =
     (case path_parent (path_components p) of
        Some parent \<Rightarrow> io_map_err other_error (ensure_dir_for_user (be_cap be) (be_dir be) parent u 493)
      | None \<Rightarrow> io_ok ())"

definition bootstrap_with_root ::
  "boot_env \<Rightarrow> settings \<Rightarrow> pg_env_cfg \<Rightarrow> data_layout \<Rightarrow> (bootstrap_error, prepared_bootstrap) io"
where
  "bootstrap_with_root be s cfg layout =
     io_bind (ensure_root_port be (s\<lparr>s_temporary := False\<rparr>)) (\<lambda>s0.
     io_bind (io_of (case be_nobody be of Inr (Some u) \<Rightarrow> Inr u | _ \<Rightarrow> Inl (extension_error Other))) (\<lambda>u.
     io_bind (io_of (resolve_settings_paths_for_uid s0 cfg (user_uid u))) (\<lambda>(s1, paths0).
     io_bind (claim_derived_slot be s1 paths0 layout) (\<lambda>(has_slot, s2, paths).
     let data_dir = text_path (be_dir be) (sp_data_dir paths);
         password_file = text_path (be_dir be) (sp_password_file paths) in
     io_bind (reuse_existing_password s2 data_dir password_file (cfg_password cfg \<noteq> None)) (\<lambda>(outcome, s3).
     io_bind (ensure_parents_for_paths (ensure_parent_for_user be u) paths) (\<lambda>_.
     io_bind (ensure_install_dir_for_user be (sp_install_dir paths) u) (\<lambda>_.
     io_bind (io_map_err other_error
       (make_data_dir_private (be_cap be) (be_dir be) (path_components (sp_data_dir paths)) u)) (\<lambda>_.
     io_bind (prepare_timezone_env (be_dir be) (be_env be)) (\<lambda>tz.
     io_bind (prepare_xdg_dirs be (sp_install_dir paths)) (\<lambda>xdg.
     io_bind (ensure_xdg_dirs_owned_by_user be xdg u) (\<lambda>_.
     io_bind (discard_orphaned_password_file data_dir password_file) (\<lambda>_.
     io_bind (ensure_pgpass_for_user be (sp_password_file paths) u) (\<lambda>_.
     io_bind (if has_slot then ensure_slot_lock_owned_by_user data_dir u else io_ok ()) (\<lambda>_.
     io_bind (io_map_err other_error
       (ensure_tree_owned_by_user (be_cap be) u (text_path (be_dir be) (sp_install_dir paths)))) (\<lambda>_.
     io_bind (if sp_data_default paths
              then io_map_err other_error (ensure_tree_owned_by_user (be_cap be) u data_dir)
              else io_ok ()) (\<lambda>_.
       io_ok \<lparr>prep_settings = s3, prep_environment = from_components xdg (sp_password_file paths) tz\<rparr>))))))))))))))))"

definition prepare_bootstrap ::
  "boot_env \<Rightarrow> execution_privileges \<Rightarrow> settings \<Rightarrow> pg_env_cfg \<Rightarrow> data_layout \<Rightarrow> (bootstrap_error, prepared_bootstrap) io"
where
  "prepare_bootstrap be privileges s cfg layout =
     (if privileges = Root \<and> \<not> root_privilege_drop_supported then io_err unsupported_root_privilege_drop_error
      else
        (case privileges of
           Root \<Rightarrow> bootstrap_with_root be s cfg layout
         | Unprivileged \<Rightarrow> bootstrap_unprivileged be s cfg layout))"

section \<open>Everything but the slot and the password file only grows\<close>

lemma unchanged_grows: "moves unchanged m \<Longrightarrow> moves growing m"
  by (simp add: moves_def unchanged_def growing_def)

locale boot_dirs = dir_caps "be_cap be" for be :: boot_env
begin

lemma ensure_dir_with_mode_grows: "moves growing (ensure_dir_with_mode be p m)"
  unfolding ensure_dir_with_mode_def by (intro growth.moves_rules ensure_dir_exists_grows set_path_permissions_grows)

lemma pgpass_permissions_grow: "moves growing (ensure_pgpass_permissions be p)"
  unfolding ensure_pgpass_permissions_def by (intro growth.moves_rules set_path_permissions_grows)

lemma prepare_xdg_dirs_grows: "moves growing (prepare_xdg_dirs be p)"
  unfolding prepare_xdg_dirs_def Let_def by (intro growth.moves_rules ensure_dir_with_mode_grows)

lemma ensure_parents_grows: "(\<And>p. moves growing (f p)) \<Longrightarrow> moves growing (ensure_parents_for_paths f paths)"
  unfolding ensure_parents_for_paths_def by (intro growth.moves_rules)

lemma ensure_parent_exists_grows: "moves growing (ensure_parent_exists be p)"
  unfolding ensure_parent_exists_def by (intro growth.moves_rules ensure_dir_exists_grows)

lemma ensure_parent_for_user_grows: "moves growing (ensure_parent_for_user be u p)"
  unfolding ensure_parent_for_user_def by (intro growth.moves_rules ensure_dir_for_user_grows)

lemma timezone_grows: "moves growing (prepare_timezone_env dir env)"
  by (rule unchanged_grows [OF unchanged_timezone])

lemma handle_metadata_grows: "moves growing (handle_metadata q)"
  unfolding handle_metadata_def by (rule moves_syscall) (simp add: growing_def split: option.split)

lemma ensure_pgpass_for_user_grows: "moves growing (ensure_pgpass_for_user be p u)"
  unfolding ensure_pgpass_for_user_def Let_def reject_root_pgpass_path_def open_pgpass_for_user_def
    ensure_pgpass_is_regular_file_def set_pgpass_owner_def set_pgpass_mode_def
  by (intro growth.moves_rules ambient_grows reading_grows handle_metadata_grows moves_chown_at moves_set_mode_at)

lemma slot_lock_grows: "moves growing (ensure_slot_lock_owned_by_user d u)"
  unfolding ensure_slot_lock_owned_by_user_def by (intro growth.moves_rules chown_entry_grows)

lemma install_dir_grows: "moves growing (ensure_install_dir_for_user be p u)"
  unfolding ensure_install_dir_for_user_def by (intro growth.moves_rules ensure_dir_for_user_grows)

lemma xdg_owned_grows: "moves growing (ensure_xdg_dirs_owned_by_user be xdg u)"
  unfolding ensure_xdg_dirs_owned_by_user_def by (intro growth.moves_rules ensure_dir_for_user_grows)

lemma data_dir_grows: "moves growing (make_data_dir_private (be_cap be) dir p u)"
  unfolding make_data_dir_private_def by (rule ensure_dir_for_user_grows)

lemmas preparing = growth.moves_rules ensure_dir_with_mode_grows pgpass_permissions_grow prepare_xdg_dirs_grows
  ensure_parents_grows ensure_parent_exists_grows ensure_parent_for_user_grows timezone_grows ensure_pgpass_for_user_grows
  slot_lock_grows install_dir_grows xdg_owned_grows data_dir_grows ensure_tree_grows

end

lemma split_on_sep: "split_on c (s @ c # t) = split_on c s @ split_on c t"
  by (induction s) (auto split: list.splits)

lemma path_components_more:
  assumes "s \<noteq> []" and "t \<noteq> []" and "hd s = hd t" and "split_on (CHR ''/'') s = split_on (CHR ''/'') t @ xs"
  shows "path_components s = path_components t @ List.map_filter parse_component xs"
  using assms by (simp add: path_components_def Let_def List.map_filter_def del: split_on.simps)

lemma path_components_push:
  assumes "plain_name n"
  shows "path_components (path_push base n) = path_components base @ [Normal n]"
proof -
  have n: "\<not> prefix ''/'' n" "n \<noteq> []" "n \<noteq> ''.''" "hd n \<noteq> CHR ''/''" and sp: "split_on (CHR ''/'') n = [n]"
    using assms by (cases n; auto simp: plain_name_def split_on_no_sep prefix_def)+
  have one: "List.map_filter parse_component [n] = [Normal n]" and none: "List.map_filter parse_component [[]] = []"
    using assms by (simp_all add: List.map_filter_def) (simp add: parse_component_def)
  have top: "path_components (CHR ''/'' # n) = path_components ''/'' @ [Normal n]"
    using sp one by (simp add: path_components_def List.map_filter_simps parse_component_def split: if_splits)
  consider "base = []" | "base = ''/''" | b where "base = b @ ''/''" "b \<noteq> []" | "base \<noteq> []" "last base \<noteq> CHR ''/''"
    by (metis append_Nil append_butlast_last_id)
  then show ?thesis
  proof cases
    case 1
    then show ?thesis using n sp one by (simp add: path_push_def path_components_def)
  next
    case 2
    then show ?thesis using n top by (simp add: path_push_def)
  next
    case 3
    have "path_components (b @ CHR ''/'' # n) = path_components b @ [Normal n]"
      using 3(2) path_components_more [of "b @ CHR ''/'' # n" b "[n]"] split_on_sep [of _ b n] sp one by simp
    moreover have "path_components (b @ ''/'') = path_components b"
      using 3(2) path_components_more [of "b @ ''/''" b "[[]]"] split_on_sep [of "CHR ''/''" b "[]"] none by simp
    ultimately show ?thesis using n 3 by (simp add: path_push_def)
  next
    case 4
    then show ?thesis
      using n path_components_more [of "base @ CHR ''/'' # n" base "[n]"] split_on_sep [of _ base n] sp one
      by (simp add: path_push_def)
  qed
qed

lemma text_path_push: "plain_name n \<Longrightarrow> text_path dir (path_push base n) = text_path dir base @ [n]"
  by (simp add: text_path_def path_components_push)

section \<open>Where a successful preparation leaves its paths\<close>

lemma io_bindE:
  assumes "io_bind m f w = (Inr x, w')"
  obtains y w1 where "m w = (Inr y, w1)" and "f y w1 = (Inr x, w')"
  using assms by (auto simp: io_bind_def split: prod.splits sum.splits)

lemma io_bind_run: "m w = (Inr y, w1) \<Longrightarrow> io_bind m f w = f y w1"
  by (simp add: io_bind_def)

lemma io_bind_ok: "io_bind (io_ok x) f = f x"
  by (rule ext) (simp add: io_bind_def io_ok_def)

lemma io_bind_assoc: "io_bind (io_bind m f) g = io_bind m (\<lambda>x. io_bind (f x) g)"
  by (rule ext) (simp add: io_bind_def split: prod.split sum.split)

lemma show_nat_chars: "c \<in> set (show_nat n) \<Longrightarrow> is_ascii_digit c"
  using show_nat_digits [of n] by (auto simp: list_all_iff)

lemma slot_name_plain:
  assumes "slot_name w = (n, w')"
  shows "plain_name n" and "plain_name (n @ PASSWORD_SUFFIX)"
proof -
  have "CHR ''/'' \<notin> set n" using assms show_nat_chars by (fastforce simp: slot_name_def is_ascii_digit_def)
  moreover have "CHR ''.'' \<notin> set n" "n \<noteq> []" using slot_name_dotless [OF assms] by simp_all
  ultimately show "plain_name n" "plain_name (n @ PASSWORD_SUFFIX)"
    by (auto simp: plain_name_def PASSWORD_SUFFIX_def Cons_eq_append_conv append_eq_Cons_conv)
qed

lemma claim_slot_names:
  assumes "claim_slot fs4 os parent w = (Inr slot, w')"
  shows "\<exists>n. slot = slot_paths parent n \<and> plain_name n \<and> plain_name (n @ PASSWORD_SUFFIX)"
proof -
  from assms obtain w1 n w2 where "slot_name w1 = (n, w2)" "slot = slot_paths parent n"
    by (auto simp: claim_slot_def claim_slot_with_hooks_def io_lift_def io_ok_def elim!: io_bindE split: prod.splits)
  then show ?thesis using slot_name_plain by blast
qed

text \<open>The settings name the directories that were resolved; the password file is never the root.\<close>

definition paths_agree :: "path \<Rightarrow> settings \<Rightarrow> settings_paths \<Rightarrow> bool" where
  "paths_agree dir s paths \<longleftrightarrow>
     s_data_dir s = sp_data_dir paths \<and> s_password_file s = sp_password_file paths \<and>
     s_installation_dir s = sp_install_dir paths \<and> text_path dir (sp_password_file paths) \<noteq> []"

lemma resolve_paths_agree:
  assumes "resolve_settings_paths_for_uid s cfg u = Inr (s0, paths)"
  shows "paths_agree dir s0 paths"
proof -
  have "plain_name ''.pgpass''" by (simp add: plain_name_def)
  then show ?thesis using assms
    by (auto simp: resolve_settings_paths_for_uid_def settings_paths_from_settings_def Let_def paths_agree_def from_path_buf_def
        text_path_push split: if_splits)
qed

lemma claim_paths_agree:
  assumes "claim_derived_slot be s paths layout w = (Inr (b, s1, paths1), w1)" and "paths_agree (be_dir be) s paths"
  shows "paths_agree (be_dir be) s1 paths1"
proof (cases "layout = Persistent \<or> \<not> sp_data_default paths")
  case True
  then show ?thesis using assms by (auto simp: claim_derived_slot_def io_ok_def)
next
  case False
  then obtain slot v v' where c: "claim_slot (be_fs4 be) (be_os be) (text_path (be_dir be) (sp_data_dir paths)) v = (Inr slot, v')"
    and eq: "s1 = s\<lparr>s_data_dir := path_push (sp_data_dir paths) (last (slot_data_dir slot)),
        s_password_file := path_push (sp_data_dir paths) (last (slot_password_file slot))\<rparr>"
      "paths1 = paths\<lparr>sp_data_dir := path_push (sp_data_dir paths) (last (slot_data_dir slot)),
        sp_password_file := path_push (sp_data_dir paths) (last (slot_password_file slot))\<rparr>"
    using assms(1) by (auto simp: claim_derived_slot_def Let_def io_ok_def elim!: io_bindE)
  obtain n where n: "slot = slot_paths (text_path (be_dir be) (sp_data_dir paths)) n" "plain_name (n @ PASSWORD_SUFFIX)"
    using claim_slot_names [OF c] by blast
  then show ?thesis using eq assms(2) by (simp add: paths_agree_def slot_paths_def text_path_push)
qed

lemma reuse_paths_agree:
  assumes "reuse_existing_password s d p explicit w = (Inr (out, s'), w')" and "paths_agree dir s paths"
  shows "paths_agree dir s' paths"
proof -
  have "\<exists>pw. s' = s\<lparr>s_password := pw\<rparr>" using reuse_ok(2) [OF assms(1) refl] by (cases out) (auto intro: exI [of _ "s_password s"])
  then show ?thesis using assms(2) by (auto simp: paths_agree_def)
qed

text \<open>The shape both preparations have around the password file.\<close>

lemma settled_run:
  assumes run: "io_bind (reuse_existing_password s d p explicit) (\<lambda>(out, s').
      io_bind (grow :: (bootstrap_error, 'a) io) (\<lambda>y. io_bind (discard_orphaned_password_file d p) (\<lambda>_. rest s' y))) w1 = (Inr x, w')"
    and grows: "moves growing grow" "\<And>s' y. moves growing (rest s' y)"
    and free: "link_free (root w1) (d @ [PG_VERSION_MARKER])" "link_free (root w1) p" and p: "p \<noteq> []"
  shows "\<exists>out s' w2 y v. reuse_existing_password s d p explicit w1 = (Inr (out, s'), w2) \<and>
    password_settled (root w') d p explicit (s_password s') \<and> rest s' y v = (Inr x, w')"
proof -
  obtain r w2 where r: "reuse_existing_password s d p explicit w1 = (Inr r, w2)"
    and after: "(case r of (out, s') \<Rightarrow> io_bind grow (\<lambda>y. io_bind (discard_orphaned_password_file d p) (\<lambda>_. rest s' y))) w2 = (Inr x, w')"
    by (rule io_bindE [OF run])
  obtain out s' where os: "r = (out, s')" by fastforce
  obtain y w3 where g: "grow w2 = (Inr y, w3)" and dis: "io_bind (discard_orphaned_password_file d p) (\<lambda>_. rest s' y) w3 = (Inr x, w')"
    by (rule io_bindE [OF after [unfolded os prod.case]])
  obtain b w4 where d4: "discard_orphaned_password_file d p w3 = (Inr b, w4)" and fin: "rest s' y w4 = (Inr x, w')"
    by (rule io_bindE [OF dis])
  have gr: "grows (root w2) (root w3)" "grows (root w4) (root w')"
    using movesD [OF grows(1) g] movesD [OF grows(2) fin] by (simp_all add: growing_def)
  show ?thesis using password_settledI [OF r [unfolded os] gr(1) d4 gr(2) free(2,1) p] r os fin by blast
qed

lemma settled_paths:
  assumes res: "resolve_settings_paths_for_uid s cfg u = Inr (s0, paths0)"
    and claim: "claim_derived_slot be s0 paths0 layout w = (Inr (slot, s1, paths), w1)"
  shows "text_path (be_dir be) (sp_password_file paths) \<noteq> []"
    and "reuse_existing_password s1 d p explicit v = (Inr (out, s2), v') \<Longrightarrow>
      s_data_dir s2 = sp_data_dir paths \<and> s_password_file s2 = sp_password_file paths"
proof -
  note a = claim_paths_agree [OF claim resolve_paths_agree [OF res]]
  then show "text_path (be_dir be) (sp_password_file paths) \<noteq> []" by (simp add: paths_agree_def)
  assume "reuse_existing_password s1 d p explicit v = (Inr (out, s2), v')"
  from reuse_paths_agree [OF this a] show "s_data_dir s2 = sp_data_dir paths \<and> s_password_file s2 = sp_password_file paths"
    by (simp add: paths_agree_def)
qed

context boot_dirs
begin

lemma unprivileged_settled:
  assumes res: "resolve_settings_paths_for_uid s cfg (euid w) = Inr (s0, paths0)"
    and claim: "claim_derived_slot be s0 paths0 layout w = (Inr (slot, s1, paths), w1)"
    and free: "link_free (root w1) (text_path (be_dir be) (sp_data_dir paths) @ [PG_VERSION_MARKER])"
      "link_free (root w1) (text_path (be_dir be) (sp_password_file paths))"
    and run: "bootstrap_unprivileged be s cfg layout w = (Inr prepared, w')"
  shows "password_settled (root w') (text_path (be_dir be) (s_data_dir (prep_settings prepared)))
    (text_path (be_dir be) (s_password_file (prep_settings prepared))) (cfg_password cfg \<noteq> None) (s_password (prep_settings prepared))"
proof -
  let ?d = "text_path (be_dir be) (sp_data_dir paths)" and ?p = "text_path (be_dir be) (sp_password_file paths)"
  let ?grow = "io_bind (ensure_parents_for_paths (ensure_parent_exists be) paths) (\<lambda>_.
     io_bind (ensure_dir_with_mode be (sp_install_dir paths) 493) (\<lambda>_. ensure_dir_with_mode be (sp_data_dir paths) 448))"
  let ?rest = "\<lambda>s2 _. io_bind (ensure_pgpass_permissions be (sp_password_file paths)) (\<lambda>_.
     io_bind (prepare_timezone_env (be_dir be) (be_env be)) (\<lambda>tz.
     io_bind (prepare_xdg_dirs be (sp_install_dir paths)) (\<lambda>xdg.
       io_ok \<lparr>prep_settings = s2, prep_environment = from_components xdg (sp_password_file paths) tz\<rparr>)))"
  have "resolve_settings_paths_for_current_user s cfg w = (Inr (s0, paths0), w)"
    using res by (simp add: resolve_settings_paths_for_current_user_def)
  then have eq: "bootstrap_unprivileged be s cfg layout w =
      io_bind (reuse_existing_password s1 ?d ?p (cfg_password cfg \<noteq> None)) (\<lambda>(out, s2).
        io_bind ?grow (\<lambda>y. io_bind (discard_orphaned_password_file ?d ?p) (\<lambda>_. ?rest s2 y))) w1"
    unfolding bootstrap_unprivileged_def using claim by (simp add: io_bind_run io_bind_assoc Let_def)
  have "moves growing ?grow" "moves growing (?rest s2 y)" for s2 y by (intro preparing)+
  from settled_run [OF run [unfolded eq] this free settled_paths(1) [OF res claim]]
  obtain out s2 w2 y v where reuse: "reuse_existing_password s1 ?d ?p (cfg_password cfg \<noteq> None) w1 = (Inr (out, s2), w2)"
    and ok: "password_settled (root w') ?d ?p (cfg_password cfg \<noteq> None) (s_password s2)" and fin: "?rest s2 y v = (Inr prepared, w')"
    by blast
  have "prep_settings prepared = s2" using fin by (auto simp: io_ok_def elim!: io_bindE)
  then show ?thesis using ok settled_paths(2) [OF res claim reuse] by simp
qed

lemma root_settled:
  assumes port: "ensure_root_port be (s\<lparr>s_temporary := False\<rparr>) w = (Inr sp, wp)" and user: "be_nobody be = Inr (Some u)"
    and res: "resolve_settings_paths_for_uid sp cfg (user_uid u) = Inr (s0, paths0)"
    and claim: "claim_derived_slot be s0 paths0 layout wp = (Inr (slot, s1, paths), w1)"
    and free: "link_free (root w1) (text_path (be_dir be) (sp_data_dir paths) @ [PG_VERSION_MARKER])"
      "link_free (root w1) (text_path (be_dir be) (sp_password_file paths))"
    and run: "bootstrap_with_root be s cfg layout w = (Inr prepared, w')"
  shows "password_settled (root w') (text_path (be_dir be) (s_data_dir (prep_settings prepared)))
    (text_path (be_dir be) (s_password_file (prep_settings prepared))) (cfg_password cfg \<noteq> None) (s_password (prep_settings prepared))"
proof -
  let ?d = "text_path (be_dir be) (sp_data_dir paths)" and ?p = "text_path (be_dir be) (sp_password_file paths)"
  let ?grow = "io_bind (ensure_parents_for_paths (ensure_parent_for_user be u) paths) (\<lambda>_.
     io_bind (ensure_install_dir_for_user be (sp_install_dir paths) u) (\<lambda>_.
     io_bind (io_map_err other_error
       (make_data_dir_private (be_cap be) (be_dir be) (path_components (sp_data_dir paths)) u)) (\<lambda>_.
     io_bind (prepare_timezone_env (be_dir be) (be_env be)) (\<lambda>tz.
     io_bind (prepare_xdg_dirs be (sp_install_dir paths)) (\<lambda>xdg.
     io_bind (ensure_xdg_dirs_owned_by_user be xdg u) (\<lambda>_. io_ok (tz, xdg)))))))"
  let ?rest = "\<lambda>s3 (tz, xdg). io_bind (ensure_pgpass_for_user be (sp_password_file paths) u) (\<lambda>_.
     io_bind (if slot then ensure_slot_lock_owned_by_user ?d u else io_ok ()) (\<lambda>_.
     io_bind (io_map_err other_error
       (ensure_tree_owned_by_user (be_cap be) u (text_path (be_dir be) (sp_install_dir paths)))) (\<lambda>_.
     io_bind (if sp_data_default paths then io_map_err other_error (ensure_tree_owned_by_user (be_cap be) u ?d) else io_ok ()) (\<lambda>_.
       io_ok \<lparr>prep_settings = s3, prep_environment = from_components xdg (sp_password_file paths) tz\<rparr>))))"
  have u: "io_of (case be_nobody be of Inr (Some u) \<Rightarrow> Inr u | _ \<Rightarrow> Inl (extension_error Other)) wp = (Inr u, wp)"
    and r: "io_of (resolve_settings_paths_for_uid sp cfg (user_uid u)) wp = (Inr (s0, paths0), wp)"
    using user res by (simp_all add: io_of_def)
  have eq: "bootstrap_with_root be s cfg layout w =
      io_bind (reuse_existing_password s1 ?d ?p (cfg_password cfg \<noteq> None)) (\<lambda>(out, s3).
        io_bind ?grow (\<lambda>y. io_bind (discard_orphaned_password_file ?d ?p) (\<lambda>_. ?rest s3 y))) w1"
    unfolding bootstrap_with_root_def
    by (simp add: io_bind_run port u r claim io_bind_assoc Let_def io_bind_ok)
  have "moves growing ?grow" "moves growing (?rest s3 y)" for s3 y by (intro preparing)+
  from settled_run [OF run [unfolded eq] this free settled_paths(1) [OF res claim]]
  obtain out s2 w2 y v where reuse: "reuse_existing_password s1 ?d ?p (cfg_password cfg \<noteq> None) w1 = (Inr (out, s2), w2)"
    and ok: "password_settled (root w') ?d ?p (cfg_password cfg \<noteq> None) (s_password s2)" and fin: "?rest s2 y v = (Inr prepared, w')"
    by blast
  have "prep_settings prepared = s2" using fin by (auto simp: io_ok_def elim!: io_bindE split: prod.splits)
  then show ?thesis using ok settled_paths(2) [OF res claim reuse] by simp
qed

end

section \<open>The reported password\<close>

text \<open>A preparation up to the point where its data directory is settled.\<close>

definition prepare_claim ::
  "boot_env \<Rightarrow> execution_privileges \<Rightarrow> settings \<Rightarrow> pg_env_cfg \<Rightarrow> data_layout \<Rightarrow> (bootstrap_error, bool \<times> settings \<times> settings_paths) io"
where
  "prepare_claim be privileges s cfg layout =
     (case privileges of
        Unprivileged \<Rightarrow>
          io_bind (resolve_settings_paths_for_current_user s cfg) (\<lambda>(s0, paths0). claim_derived_slot be s0 paths0 layout)
      | Root \<Rightarrow>
          io_bind (ensure_root_port be (s\<lparr>s_temporary := False\<rparr>)) (\<lambda>s0.
          io_bind (io_of (case be_nobody be of Inr (Some u) \<Rightarrow> Inr u | _ \<Rightarrow> Inl (extension_error Other))) (\<lambda>u.
          io_bind (io_of (resolve_settings_paths_for_uid s0 cfg (user_uid u))) (\<lambda>(s1, paths0).
            claim_derived_slot be s1 paths0 layout))))"

text \<open>
  C7: the password a bootstrap reports is the server's. When preparation succeeds, with or without
  privileges, and the data directory and the password file are reached without links, then in the file
  system it leaves behind: a data directory that holds a cluster has a password file with exactly the
  reported password in it, unless the caller gave the password; and a data directory without a cluster
  has no password file, from which \<open>initdb\<close> would take another one.
\<close>

theorem reported_password_settled:
  assumes "dir_caps (be_cap be)"
    and "prepare_claim be privileges s cfg layout w = (Inr (slot, s1, paths), w1)"
    and "link_free (root w1) (text_path (be_dir be) (sp_data_dir paths) @ [PG_VERSION_MARKER])"
    and "link_free (root w1) (text_path (be_dir be) (sp_password_file paths))"
    and "prepare_bootstrap be privileges s cfg layout w = (Inr prepared, w')"
  shows "password_settled (root w') (text_path (be_dir be) (s_data_dir (prep_settings prepared)))
    (text_path (be_dir be) (s_password_file (prep_settings prepared))) (cfg_password cfg \<noteq> None) (s_password (prep_settings prepared))"
proof (cases privileges)
  case Root
  obtain sp wp where port: "ensure_root_port be (s\<lparr>s_temporary := False\<rparr>) w = (Inr sp, wp)"
    and more: "io_bind (io_of (case be_nobody be of Inr (Some u) \<Rightarrow> Inr u | _ \<Rightarrow> Inl (extension_error Other))) (\<lambda>u.
          io_bind (io_of (resolve_settings_paths_for_uid sp cfg (user_uid u))) (\<lambda>(s1, paths0).
            claim_derived_slot be s1 paths0 layout)) wp = (Inr (slot, s1, paths), w1)"
    using assms(2) unfolding prepare_claim_def Root execution_privileges.case by (rule io_bindE)
  from more obtain u s0 paths0 where "be_nobody be = Inr (Some u)" "resolve_settings_paths_for_uid sp cfg (user_uid u) = Inr (s0, paths0)"
    "claim_derived_slot be s0 paths0 layout wp = (Inr (slot, s1, paths), w1)"
    by (auto simp: io_of_def elim!: io_bindE split: sum.splits option.splits prod.splits)
  moreover have "bootstrap_with_root be s cfg layout w = (Inr prepared, w')"
    using assms(5) Root by (auto simp: prepare_bootstrap_def io_err_def split: if_splits)
  ultimately show ?thesis using boot_dirs.root_settled [OF _ port _ _ _ assms(3,4)] assms(1) by (simp add: boot_dirs_def)
next
  case Unprivileged
  obtain s0 paths0 where "resolve_settings_paths_for_uid s cfg (euid w) = Inr (s0, paths0)"
    "claim_derived_slot be s0 paths0 layout w = (Inr (slot, s1, paths), w1)"
    using assms(2) Unprivileged
    by (auto simp: prepare_claim_def resolve_settings_paths_for_current_user_def elim!: io_bindE split: prod.splits)
  moreover have "bootstrap_unprivileged be s cfg layout w = (Inr prepared, w')"
    using assms(5) Unprivileged by (simp add: prepare_bootstrap_def)
  ultimately show ?thesis using boot_dirs.unprivileged_settled [OF _ _ _ assms(3,4)] assms(1) by (simp add: boot_dirs_def)
qed

text \<open>An existing cluster under \<open>/srv\<close>, whose password is in the installation tree.\<close>

definition demo_boot :: boot_env where
  "demo_boot = \<lparr>be_cap = fs_dir_cap, be_fs4 = demo_fs4 [], be_os = demo_os [], be_bind = (\<lambda>_. io_ok 5433),
     be_nobody = Inr (Some nobody), be_dir = [], be_env = [''TZDIR'' \<mapsto> ''/srv'']\<rparr>"

interpretation demo: boot_dirs demo_boot
  using dirs.dir_caps_axioms by (simp add: boot_dirs_def demo_boot_def)

definition demo_cfg :: "string \<Rightarrow> pg_env_cfg" where
  "demo_cfg data_dir = \<lparr>cfg_version_req = None, cfg_port = None, cfg_superuser = None, cfg_password = None,
     cfg_data_dir = Some data_dir, cfg_runtime_dir = Some ''/srv/install'', cfg_locale = None, cfg_encoding = None,
     cfg_binary_cache_dir = None, cfg_embed_root = None, cfg_max_connections = None, cfg_extensions = None,
     cfg_extensions_manifest = None, cfg_extensions_manifest_sha256 = None, cfg_extensions_cache_dir = None\<rparr>"

definition demo_cluster :: world where
  "demo_cluster =
     (let at = \<lparr>mode = 493, uid = 0, gid = 0\<rparr> in
      (demo_tree [])\<lparr>root := Dir at [(''srv'', Dir at
        [(''install'', Dir at [(''.pgpass'', File at [115, 51, 10])]), (''data'', Dir at [(''PG_VERSION'', File at [49, 55])])])]\<rparr>)"

definition demo_start :: "string \<Rightarrow> settings" where
  "demo_start data_dir = demo_settings\<lparr>s_installation_dir := ''/srv/install'', s_data_dir := data_dir, s_password := ''fresh''\<rparr>"

definition demo_prepare :: "string \<Rightarrow> (bootstrap_error + prepared_bootstrap) \<times> world" where
  "demo_prepare d = prepare_bootstrap demo_boot Unprivileged (demo_start d) (demo_cfg d) PerCluster demo_cluster"

lemma demo_prepare_ok:
  "(case fst (demo_prepare ''/srv/data'') of Inr p \<Rightarrow> s_password (prep_settings p) = ''s3'' | Inl _ \<Rightarrow> False)"
  by code_simp

lemma link_free_demo:
  "link_free (root demo_cluster) [''srv'', ''data'', ''PG_VERSION'']" "link_free (root demo_cluster) [''srv'', ''install'', ''.pgpass'']"
  by (auto simp: link_free_def demo_cluster_def Let_def prefix_Cons)

theorem reported_password_settled_witness:
  "\<exists>p w'. demo_prepare ''/srv/data'' = (Inr p, w') \<and> s_password (prep_settings p) = ''s3'' \<and>
     password_settled (root w') (text_path [] (s_data_dir (prep_settings p))) (text_path [] (s_password_file (prep_settings p))) False ''s3''"
proof -
  let ?s = "demo_start ''/srv/data''" and ?cfg = "demo_cfg ''/srv/data''"
  let ?paths = "\<lparr>sp_install_dir = ''/srv/install'', sp_data_dir = ''/srv/data'', sp_password_file = ''/srv/install/.pgpass'',
    sp_install_default = False, sp_data_default = False\<rparr>"
  obtain p w' where run: "demo_prepare ''/srv/data'' = (Inr p, w')" and pw: "s_password (prep_settings p) = ''s3''"
    using demo_prepare_ok by (cases "demo_prepare ''/srv/data''") (auto split: sum.splits)
  have texts: "from_path_buf ''/srv/install'' = Inr ''/srv/install''" "from_path_buf ''/srv/data'' = Inr ''/srv/data''"
    "path_push ''/srv/install'' ''.pgpass'' = ''/srv/install/.pgpass''"
    by code_simp+
  have "resolve_settings_paths_for_uid ?s ?cfg u = Inr (?s\<lparr>s_password_file := ''/srv/install/.pgpass''\<rparr>, ?paths)" for u
    unfolding resolve_settings_paths_for_uid_def settings_paths_from_settings_def Let_def
    by (simp add: demo_start_def demo_cfg_def texts del: path_push_nonempty)
  then have claim: "prepare_claim demo_boot Unprivileged ?s ?cfg PerCluster demo_cluster =
      (Inr (False, ?s\<lparr>s_password_file := ''/srv/install/.pgpass''\<rparr>, ?paths), demo_cluster)"
    unfolding prepare_claim_def resolve_settings_paths_for_current_user_def claim_derived_slot_def
    by (simp add: io_bind_def io_ok_def)
  have paths: "text_path [] ''/srv/data'' = [''srv'', ''data'']" "text_path [] ''/srv/install/.pgpass'' = [''srv'', ''install'', ''.pgpass'']"
    by code_simp+
  have none: "cfg_password ?cfg = None" by (simp add: demo_cfg_def)
  from reported_password_settled [OF demo.dir_caps_axioms claim _ _ run [unfolded demo_prepare_def]] link_free_demo
  show ?thesis using run pw none paths by (auto simp: demo_boot_def PG_VERSION_MARKER_def)
qed

text \<open>
  The condition on the paths matters: when the data directory is named through a directory that does not
  exist yet and back up, the cluster is not seen when the password is chosen, and is there afterwards,
  with another password than the reported one.
\<close>

lemma dotdot_misses_cluster:
  "(case fst (demo_prepare ''/srv/new/../data'') of Inr p \<Rightarrow> s_password (prep_settings p) = ''fresh'' | Inl _ \<Rightarrow> False)"
  "resolve True (root (snd (demo_prepare ''/srv/new/../data''))) [''srv'', ''new'', ''..'', ''data'', ''PG_VERSION''] =
     Inr [''srv'', ''data'', ''PG_VERSION'']"
  "(case node_at (root (snd (demo_prepare ''/srv/new/../data''))) [''srv'', ''install'', ''.pgpass''] of
      Some (File _ bs) \<Rightarrow> bs = [115, 51, 10] | _ \<Rightarrow> False)"
  by code_simp+

end
