(* ===== verification/CacheLock.thy ===== *)
theory CacheLock
  imports FileSystem
begin

text \<open>
  \<open>cache/lock.rs\<close>: per-version lock files under \<open><cache>/.locks\<close>. The kernel lock itself is taken by
  the \<open>fs4\<close> crate, a parameter; the guard is the handle of the lock file.
\<close>

section \<open>Operations\<close>

definition LOCKS_SUBDIR :: string where "LOCKS_SUBDIR = ''.locks''"

datatype lock_type = Exclusive | Shared

record cache_lock =
  lock_file :: path

definition validate_version :: "string \<Rightarrow> io_error_kind + unit" where
  "validate_version v =
     (case path_components v of
        [Normal _] \<Rightarrow> Inr ()
      | _ \<Rightarrow> Inl InvalidInput)"

text \<open>\<open>flock\<close> stands for \<open>FileExt::lock\<close> and \<open>FileExt::lock_shared\<close> on the open file.\<close>

definition acquire_lock :: "(lock_type \<Rightarrow> path \<Rightarrow> unit fs) \<Rightarrow> path \<Rightarrow> string \<Rightarrow> lock_type \<Rightarrow> cache_lock fs" where
  "acquire_lock flock cache version lt =
     io_bind (io_of (validate_version version)) (\<lambda>_.
     let locks_dir = path_join cache LOCKS_SUBDIR in
     io_bind (create_dir_all locks_dir) (\<lambda>_.
     let lock_path = path_join locks_dir (version @ ''.lock'') in
     io_bind (open_write False 438 lock_path) (\<lambda>file.
     io_bind (flock lt file) (\<lambda>_.
     io_ok \<lparr>lock_file = file\<rparr>))))"

definition acquire_exclusive :: "(lock_type \<Rightarrow> path \<Rightarrow> unit fs) \<Rightarrow> path \<Rightarrow> string \<Rightarrow> cache_lock fs" where
  "acquire_exclusive flock cache version = acquire_lock flock cache version Exclusive"

definition acquire_shared :: "(lock_type \<Rightarrow> path \<Rightarrow> unit fs) \<Rightarrow> path \<Rightarrow> string \<Rightarrow> cache_lock fs" where
  "acquire_shared flock cache version = acquire_lock flock cache version Shared"

section \<open>Properties\<close>

lemma validate_version_iff: "validate_version v = Inr u \<longleftrightarrow> (\<exists>n. path_components v = [Normal n])"
  by (auto simp: validate_version_def split: list.splits component.splits)

lemma split_on_append:
  "c \<notin> set t \<Longrightarrow> split_on c (s @ t) = butlast (split_on c s) @ [last (split_on c s) @ t]"
  by (induction s) (auto simp: split_on_no_sep split: list.splits)

text \<open>The name of a version's lock file resolves to components below the lock directory.\<close>

lemma lock_name_components:
  assumes "path_components v = [Normal n]"
  shows "path_components (v @ ''.lock'') \<noteq> [] \<and> (\<forall>c \<in> set (path_components (v @ ''.lock'')). \<exists>m. c = Normal m \<and> plain_name m)"
proof -
  let ?ps = "split_on (CHR ''/'') v"
  have v: "v \<noteq> []" "hd v \<noteq> CHR ''/''" "hd ?ps \<noteq> ''.''" "List.map_filter parse_component ?ps = [Normal n]"
    using assms by (auto simp: path_components_def Let_def split: if_splits)
  have sp: "split_on (CHR ''/'') (v @ ''.lock'') = butlast ?ps @ [last ?ps @ ''.lock'']"
    by (rule split_on_append) simp
  have nodotdot: "parse_component p \<noteq> Some ParentDir \<and> parse_component p \<noteq> Some RootDir \<and> parse_component p \<noteq> Some CurDir"
    if "p \<in> set ?ps" for p
  proof -
    have "\<forall>y. parse_component p = Some y \<longrightarrow> y \<in> set (List.map_filter parse_component ?ps)"
      using that by (force simp: List.map_filter_def)
    then show ?thesis using v(4) by auto
  qed
  have lastp: "\<exists>m. parse_component (last ?ps @ ''.lock'') = Some (Normal m) \<and> plain_name m"
  proof -
    have "CHR ''/'' \<notin> set (last ?ps)" using split_on_piece [of "last ?ps" "CHR ''/''" v] by simp
    then have "plain_name (last ?ps @ ''.lock'')"
      by (cases "last ?ps") (auto simp: plain_name_def)
    then show ?thesis using parse_component_plain by blast
  qed
  have hd1: "hd (butlast ?ps @ [last ?ps @ ''.lock'']) \<noteq> ''.''"
    using v(3) by (cases ?ps rule: rev_cases) (auto simp: hd_append)
  have "path_components (v @ ''.lock'') =
      List.map_filter parse_component (butlast ?ps) @ List.map_filter parse_component [last ?ps @ ''.lock'']"
    using v hd1 by (simp add: path_components_def sp Let_def map_filter_def)
  moreover have "\<exists>m. c = Normal m \<and> plain_name m"
    if c: "c \<in> set (List.map_filter parse_component (butlast ?ps))" for c
  proof -
    obtain q where "q \<in> set ?ps" "parse_component q = Some c"
      using c by (force simp: List.map_filter_def dest: in_set_butlastD)
    then show ?thesis using nodotdot [of q] split_on_piece [of q "CHR ''/''" v]
      by (auto simp: parse_component_def plain_name_def split: if_splits)
  qed
  ultimately show ?thesis using lastp by (auto simp: List.map_filter_simps split: option.splits)
qed

lemma path_join_plain:
  assumes "list_all (\<lambda>c. \<exists>m. c = Normal m) (path_components s)" and "\<not> prefix ''/'' s"
  shows "path_join p s = p @ path_names s"
  using assms by (simp add: path_join_def)

lemma path_join_locks: "path_join cache LOCKS_SUBDIR = cache @ [''.locks'']"
  by (simp add: path_join_def LOCKS_SUBDIR_def path_names_def path_components_def parse_component_def
      component_name_def List.map_filter_simps)

lemma map_filter_component_name:
  "(\<And>c. c \<in> set cs \<Longrightarrow> \<exists>m. c = Normal m \<and> plain_name m) \<Longrightarrow>
   List.map_filter component_name cs = map (\<lambda>c. case c of Normal m \<Rightarrow> m) cs \<and>
   list_all plain_name (map (\<lambda>c. case c of Normal m \<Rightarrow> m) cs)"
  by (induction cs) (force simp: List.map_filter_simps component_name_def)+

lemma lock_path_below:
  assumes "path_components v = [Normal n]"
  shows "\<exists>ns. path_join (path_join cache LOCKS_SUBDIR) (v @ ''.lock'') = cache @ ''.locks'' # ns \<and>
              ns \<noteq> [] \<and> list_all plain_name ns"
proof -
  note c = lock_name_components [OF assms]
  have "hd v \<noteq> CHR ''/''" "v \<noteq> []"
    using assms by (auto simp: path_components_def Let_def split: if_splits)
  then have "\<not> prefix ''/'' (v @ ''.lock'')" by (cases v) auto
  then have "path_join (path_join cache LOCKS_SUBDIR) (v @ ''.lock'') = cache @ ''.locks'' # path_names (v @ ''.lock'')"
    by (subst path_join_locks) (simp add: path_join_def)
  then show ?thesis using c map_filter_component_name [of "path_components (v @ ''.lock'')"]
    by (auto simp: path_names_def)
qed

text \<open>
  lock files stay in the lock directory. A version that is refused touches nothing; for every
  version that is accepted, the lock file is named by plain components below \<open><cache>/.locks\<close>,
  whatever separators the version text contains.
\<close>

theorem lock_path_confined:
  "case validate_version v of
     Inl e \<Rightarrow> e = InvalidInput \<and> acquire_lock flock cache v lt w = (Inl InvalidInput, w)
   | Inr _ \<Rightarrow>
       \<exists>ns. path_join (path_join cache LOCKS_SUBDIR) (v @ ''.lock'') = cache @ ''.locks'' # ns \<and>
            ns \<noteq> [] \<and> list_all plain_name ns"
proof (cases "validate_version v")
  case (Inl e)
  then have "e = InvalidInput" by (auto simp: validate_version_def split: list.splits component.splits)
  then show ?thesis using Inl by (simp add: acquire_lock_def io_bind_def io_of_def)
next
  case (Inr u)
  then obtain n where "path_components v = [Normal n]" by (auto simp: validate_version_iff)
  from lock_path_below [OF this] Inr show ?thesis by simp
qed

text \<open>
  The doc comment of \<open>validate_version\<close> says that versions containing separators are rejected; one
  with trailing separators is accepted, because \<open>Path::components\<close> drops them.
\<close>

lemma validate_version_accepts_separator: "validate_version ''17.4.0/'' = Inr ()"
  by (simp add: validate_version_def path_components_def parse_component_def List.map_filter_simps)

lemma issues_acquire_lock:
  assumes "\<And>lt h. issues P (flock lt h)"
    and "\<And>q. prefix q (cache @ [''.locks'']) \<Longrightarrow> P (Mkdir q)"
    and "\<And>ns. ns \<noteq> [] \<Longrightarrow> list_all plain_name ns \<Longrightarrow> P (OpenWrite (cache @ ''.locks'' # ns))"
  shows "issues P (acquire_lock flock cache v lt)"
proof (cases "validate_version v")
  case (Inl e)
  then show ?thesis by (simp add: acquire_lock_def io_bind_def io_of_def issues_def)
next
  case (Inr u)
  then obtain ns where ns: "path_join (path_join cache LOCKS_SUBDIR) (v @ ''.lock'') = cache @ ''.locks'' # ns"
    "ns \<noteq> []" "list_all plain_name ns" using lock_path_below [of v _ cache] by (auto simp: validate_version_iff)
  have "issues P (open_write False 438 (path_join (path_join cache LOCKS_SUBDIR) (v @ ''.lock'')))"
    using assms(3) ns by (simp add: issues_open_write)
  moreover have "issues P (create_dir_all (path_join cache LOCKS_SUBDIR))"
    unfolding path_join_locks using assms(2) by (rule issues_create_dir_all)
  ultimately show ?thesis using assms(1) unfolding acquire_lock_def Let_def
    by (intro issues_bind issues_of issues_ok)
qed

end
