(* ===== verification/ExtArchive.thy ===== *)
theory ExtArchive
  imports ExtManifest CacheLock
begin

text \<open>
  \<open>extensions/archive.rs\<close>: a verified local copy of an archive, from the digest-addressed cache or
  downloaded into it. The \<open>tempfile\<close> crate and the kernel lock are parameters.
\<close>

section \<open>Data\<close>

datatype archive_origin = Cached | Downloaded

record acquired_archive =
  acq_path :: path
  acq_origin :: archive_origin

datatype cached_entry = Valid | Missing | Corrupt | Unreadable io_error_kind

text \<open>
  \<open>NamedTempFile\<close>: \<open>named_new_in\<close> gives the name and the handle of a fresh file in a directory,
  \<open>named_drop\<close> is the removal when it is dropped, \<open>named_persist\<close> moves it to a path.
\<close>

record tempfile_crate =
  named_new_in :: "path \<Rightarrow> (path \<times> path) fs"
  named_drop :: "path \<Rightarrow> unit fs"
  named_persist :: "path \<Rightarrow> path \<Rightarrow> unit fs"

text \<open>The parameters of the extension installer.\<close>

record ext_env =
  e_crates :: crates
  e_network :: network
  e_tempfile :: tempfile_crate
  e_flock :: "lock_type \<Rightarrow> path \<Rightarrow> unit fs"

section \<open>Operations\<close>

definition unavailable :: bootstrap_error where
  "unavailable = extension_error ExtensionArchiveUnavailable"

definition digest_mismatch :: bootstrap_error where
  "digest_mismatch = extension_error ExtensionArchiveDigestMismatch"

definition of_file :: "(bytes \<Rightarrow> bytes) \<Rightarrow> path \<Rightarrow> sha256_hex fs" where
  "of_file hash p =
     io_bind (open_read p) (\<lambda>q. \<lambda>w. case reads q w of (rs, w') \<Rightarrow> (of_reader hash rs, w'))"

definition cached_state :: "(bytes \<Rightarrow> bytes) \<Rightarrow> path \<Rightarrow> sha256_hex \<Rightarrow> (bootstrap_error, cached_entry) io" where
  "cached_state hash p expected =
     io_match (symlink_metadata p) (\<lambda>r.
       case r of
         Inr meta \<Rightarrow>
           if is_file_node meta then
             io_match (of_file hash p) (\<lambda>d.
               io_ok (case d of
                        Inr actual \<Rightarrow> if actual = expected then Valid else Corrupt
                      | Inl e \<Rightarrow> Unreadable e))
           else io_ok (Unreadable OtherIo)
       | Inl e \<Rightarrow> io_ok (if e = NotFound then Missing else Unreadable e))"

definition clear_unusable_entry :: "path \<Rightarrow> (bootstrap_error, unit) io" where
  "clear_unusable_entry p =
     io_match (symlink_metadata p) (\<lambda>r.
       case r of
         Inl e \<Rightarrow> if e = NotFound then io_ok () else io_err unavailable
       | Inr meta \<Rightarrow>
           if is_file_node meta then io_ok ()
           else io_map_err (\<lambda>_. unavailable)
                  (if is_dir_node meta then remove_dir_all p else remove_file p))"

text \<open>Every early return of \<open>download\<close> drops the temporary file.\<close>

definition dropping :: "tempfile_crate \<Rightarrow> path \<Rightarrow> bootstrap_error \<Rightarrow> (bootstrap_error, unit) io" where
  "dropping tf tmp e = io_match (named_drop tf tmp) (\<lambda>_. io_err e)"

definition download :: "ext_env \<Rightarrow> manifest_artifact \<Rightarrow> path \<Rightarrow> path \<Rightarrow> (bootstrap_error, unit) io" where
  "download env artifact entry_dir p =
     (let tf = e_tempfile env; net = e_network env; hash = sha (e_crates env) in
      io_bind (io_map_err (\<lambda>_. unavailable) (named_new_in tf entry_dir)) (\<lambda>(tmp, h).
        case http_get (parse_url net) (client_ok net) (answers net) (art_url artifact) (art_size artifact) of
          Inl _ \<Rightarrow> dropping tf tmp unavailable
        | Inr bs \<Rightarrow>
            io_match (write_all_at tmp h bs) (\<lambda>r.
              case (case r of Inl e \<Rightarrow> Inl e | Inr _ \<Rightarrow> hw_write (Inr (length bs)) bs new_hashing_writer) of
                Inl _ \<Rightarrow> dropping tf tmp unavailable
              | Inr (_, writer) \<Rightarrow>
                  (case hw_finish hash writer of (_, actual, nbytes) \<Rightarrow>
                     if nbytes \<noteq> art_size artifact \<or> actual \<noteq> art_sha256 artifact
                     then dropping tf tmp digest_mismatch
                     else
                       io_match (named_persist tf tmp p) (\<lambda>r2.
                         case r2 of
                           Inl _ \<Rightarrow> dropping tf tmp unavailable
                         | Inr _ \<Rightarrow> io_ok ())))))"

definition acquire :: "ext_env \<Rightarrow> path \<Rightarrow> manifest_artifact \<Rightarrow> (bootstrap_error, acquired_archive) io" where
  "acquire env cache artifact =
     (let entry_dir = path_join cache (art_sha256 artifact); p = path_join entry_dir (art_file artifact) in
      io_bind (io_map_err (\<lambda>_. unavailable) (create_dir_all entry_dir)) (\<lambda>_.
      io_bind (io_map_err (\<lambda>_. unavailable) (acquire_exclusive (e_flock env) cache (art_sha256 artifact))) (\<lambda>_.
      io_bind (cached_state (sha (e_crates env)) p (art_sha256 artifact)) (\<lambda>state.
        if state = Valid then io_ok \<lparr>acq_path = p, acq_origin = Cached\<rparr>
        else
          io_bind (clear_unusable_entry p) (\<lambda>_.
          io_bind (download env artifact entry_dir p) (\<lambda>_.
          io_ok \<lparr>acq_path = p, acq_origin = Downloaded\<rparr>))))))"

section \<open>Reading what a path names\<close>

text \<open>The regular file a path names, its last component not being a link.\<close>

definition file_contents :: "world \<Rightarrow> path \<Rightarrow> bytes option" where
  "file_contents w p =
     (case fst (stat_node False p w) of Inr (File _ bs) \<Rightarrow> Some bs | _ \<Rightarrow> None)"

lemma walk_nofollow_follow:
  "walk n False r cur rest = Inr q \<Longrightarrow> (\<And>t. node_at r q \<noteq> Some (Symlink t)) \<Longrightarrow> walk n True r cur rest = Inr q"
proof (induction n False r cur rest rule: walk.induct)
  case (1 n r cur rest)
  show ?case
  proof (cases rest)
    case (Cons c ds)
    note w = "1.prems"(1) [unfolded Cons walk_Cons]
    show ?thesis
    proof (cases "c = ''..''")
      case True
      then show ?thesis using w "1.hyps"(1) [OF Cons True] "1.prems"(2) by (simp add: Cons walk_Cons)
    next
      case False
      note hyps = "1.hyps"(2) [OF Cons False] "1.hyps"(3) [OF Cons False]
      show ?thesis
      proof (cases "node_at r (cur @ [c])")
        case None
        then show ?thesis using w False by (simp add: Cons walk_Cons)
      next
        case (Some x)
        then show ?thesis using w False hyps [OF Some] "1.prems"(2)
          by (cases x) (auto simp: Cons walk_Cons split: if_splits nat.splits)
      qed
    qed
  qed (use "1.prems" in simp)
qed

lemma resolve_follow_file:
  "resolve False r p = Inr q \<Longrightarrow> node_at r q = Some (File a bs) \<Longrightarrow> resolve True r p = Inr q"
  unfolding resolve_def by (rule walk_nofollow_follow) auto

lemma file_contents_iff:
  "file_contents w p = Some bs \<longleftrightarrow> (\<exists>q a. resolve False (root w) p = Inr q \<and> node_at (root w) q = Some (File a bs))"
  by (auto simp: file_contents_def stat_node_def split: sum.splits option.splits node.splits)

lemma file_contents_tick [simp]: "file_contents (w\<lparr>tick := n\<rparr>) p = file_contents w p"
  by (simp add: file_contents_def stat_node_def split: sum.splits option.splits)

text \<open>A successful digest of a file is the digest of its contents.\<close>

lemma of_reader_reads:
  assumes "reads q w = (rs, w')" and "of_reader hash rs = Inr d"
  shows "\<exists>a bs. node_at (root w) q = Some (File a bs) \<and> d = of_bytes hash bs \<and> root w' = root w"
proof (cases "\<exists>a bs. node_at (root w) q = Some (File a bs)")
  case True
  then obtain a bs where n: "node_at (root w) q = Some (File a bs)" by blast
  show ?thesis
  proof (cases "fault w (tick w)")
    case None
    then have "rs = [Inr bs]" "root w' = root w" using assms(1) n by (auto simp: reads_def Let_def)
    then show ?thesis using assms(2) n
      by (cases "bs = []") (auto simp: of_reader_def res_bind_def of_bytes_def)
  next
    case (Some f)
    then show ?thesis using assms n
      by (cases f) (auto simp: reads_def Let_def of_reader_def res_bind_def of_bytes_def split: if_splits)
  qed
next
  case False
  then show ?thesis using assms
    by (auto simp: reads_def Let_def of_reader_def res_bind_def split: option.splits node.splits)
qed

lemma cached_state_valid:
  assumes "cached_state hash p expected w = (Inr Valid, w')"
  shows "\<exists>bs. file_contents w' p = Some bs \<and> of_bytes hash bs = expected \<and> root w' = root w"
proof -
  let ?w1 = "w\<lparr>tick := Suc (tick w)\<rparr>"
  obtain meta where "symlink_metadata p w = (Inr meta, ?w1)" and meta: "is_file_node meta"
    and d: "of_file hash p ?w1 = (Inr expected, w')"
    using assms
    by (auto simp: cached_state_def io_match_def io_ok_def symlink_metadata_def syscall_def stat_node_def Let_def
        split: sum.splits option.splits if_splits prod.splits)
  then obtain q a bs where q: "resolve False (root w) p = Inr q" "node_at (root w) q = Some (File a bs)"
    by (auto simp: symlink_metadata_def syscall_def stat_node_def Let_def elim!: is_file_node.elims
        split: sum.splits option.splits)
  note follow = resolve_follow_file [OF q]
  let ?w2 = "?w1\<lparr>tick := Suc (tick ?w1)\<rparr>"
  obtain rs where rs: "reads q ?w2 = (rs, w')" "of_reader hash rs = Inr expected"
    using d follow q(2)
    by (auto simp: of_file_def io_bind_def open_read_def syscall_def Let_def split: option.splits prod.splits sum.splits)
  from of_reader_reads [OF rs] q show ?thesis by (auto simp: file_contents_iff)
qed

section \<open>The temporary file\<close>

text \<open>
  What \<open>download\<close> relies on: a fresh temporary file is empty and is what its name stands for, and creating it
  makes no name a link; after persisting it to a name that is not a link, that name stands for a file with
  its contents.
\<close>

definition tempfile_ok :: "tempfile_crate \<Rightarrow> bool" where
  "tempfile_ok tf \<longleftrightarrow>
     (\<forall>dir w t h w'. named_new_in tf dir w = (Inr (t, h), w') \<longrightarrow>
        h \<noteq> [] \<and> resolve False (root w') t = Inr h \<and> (\<exists>a. node_at (root w') h = Some (File a [])) \<and>
        (\<forall>p. names_link (root w') p \<longrightarrow> names_link (root w) p)) \<and>
     (\<forall>t p w w' bs. named_persist tf t p w = (Inr (), w') \<longrightarrow> file_contents w t = Some bs \<longrightarrow> \<not> names_link (root w) p \<longrightarrow>
        file_contents w' p = Some bs)"

text \<open>Which calls the crate issues: below the directory, on the temporary name, and the one rename.\<close>

definition tempfile_confined :: "tempfile_crate \<Rightarrow> bool" where
  "tempfile_confined tf \<longleftrightarrow>
     (\<forall>dir. issues (\<lambda>oper. list_all (strict_prefix dir) (op_paths oper)) (named_new_in tf dir)) \<and>
     (\<forall>dir w t h w'. named_new_in tf dir w = (Inr (t, h), w') \<longrightarrow> strict_prefix dir t) \<and>
     (\<forall>t. issues (\<lambda>oper. op_paths oper = [t]) (named_drop tf t)) \<and>
     (\<forall>t p. issues (\<lambda>oper. oper = Rename t p) (named_persist tf t p))"

lemma write_all_at_contents:
  assumes "resolve False (root w) t = Inr h" and "node_at (root w) h = Some (File a old)" and "h \<noteq> []"
    and "write_all_at t h bs w = (Inr (), w')"
  shows "file_contents w' t = Some (old @ bs)" and "keeps_names (root w) (root w')"
proof -
  have r: "root w' = put_at (root w) h (Some (File a (old @ bs)))"
    using assms(2,4) by (auto simp: write_all_at_def Let_def set_root_def split: option.splits)
  note dir = node_at_parent_dir [OF assms(3,2)]
  show k: "keeps_names (root w) (root w')"
    unfolding r using assms(2,3) dir by (intro keeps_names_put_file) auto
  have "resolve False (root w') t = Inr h" using k assms(1) by (rule resolve_keeps_names)
  moreover have "node_at (root w') h = Some (File a (old @ bs))"
    unfolding r using dir by (intro node_at_put_same) blast
  ultimately show "file_contents w' t = Some (old @ bs)" by (auto simp: file_contents_iff)
qed

text \<open>Clearing an entry leaves no link at its name.\<close>

lemma within_bind:
  assumes "within (root (snd (m w))) (root w)" and "\<And>x w'. within (root (snd (k x w'))) (root w')"
  shows "within (root (snd (io_bind m k w))) (root w)"
proof -
  obtain r w1 where m: "m w = (r, w1)" by fastforce
  show ?thesis
  proof (cases r)
    case (Inr x)
    then show ?thesis using m assms(1) within_trans [OF assms(2) [of x w1]] by (simp add: io_bind_def)
  qed (use m assms(1) in \<open>simp add: io_bind_def\<close>)
qed

lemma within_unlink: "within (root (snd (unlink_at q w))) (root w)"
  by (auto simp: unlink_at_def syscall_def Let_def set_root_def within_removed split: option.split)

lemma remove_tree_within:
  "within (root (snd (remove_tree q n w))) (root w)" and "within (root (snd (remove_children q cs w))) (root w)"
proof (induction q n and q cs arbitrary: w and w rule: remove_tree_remove_children.induct)
  case (1 q a cs)
  then show ?case by (simp only: remove_tree.simps) (rule within_bind, auto intro: within_unlink)
next
  case (4 q c n cs)
  then show ?case by (simp only: remove_children.simps) (rule within_bind, auto)
qed (auto intro: within_unlink simp: io_ok_def)

lemma remove_dir_all_within: "within (root (snd (remove_dir_all p w))) (root w)"
  unfolding remove_dir_all_def record_op_def
proof (rule within_bind [where w = "w\<lparr>trace := trace w @ [RemoveTree p]\<rparr>", simplified])
  show "within (root (snd ((case x of (q, n) \<Rightarrow> if is_file_node n then io_err NotADirectory else remove_tree q n) w'))) (root w')" for x w'
    by (cases x) (simp add: remove_tree_within io_err_def)
qed (auto simp: syscall_def Let_def split: option.split sum.split)

lemma remove_file_gone:
  assumes "remove_file p w = (Inr (), w')"
  shows "\<exists>q. resolve False (root w) p = Inr q \<and> root w' = put_at (root w) q None"
  using assms by (auto simp: remove_file_def record_op_def syscall_def Let_def set_root_def split: option.splits sum.splits node.splits)

lemma clear_unusable_entry_no_link:
  assumes "clear_unusable_entry p w = (Inr (), w')"
  shows "\<not> names_link (root w') p"
proof
  assume l: "names_link (root w') p"
  obtain r w1 where m: "symlink_metadata p w = (r, w1)" by fastforce
  then have w1: "root w1 = root w"
    and meta: "r = Inr n \<Longrightarrow> \<exists>q. resolve False (root w) p = Inr q \<and> node_at (root w) q = Some n" for n
    by (auto simp: symlink_metadata_def syscall_def stat_node_def Let_def split: option.splits sum.splits)
  have run: "(case r of Inl e \<Rightarrow> if e = NotFound then io_ok () else io_err unavailable
      | Inr n \<Rightarrow> if is_file_node n then io_ok ()
          else io_map_err (\<lambda>_. unavailable) (if is_dir_node n then remove_dir_all p else remove_file p)) w1 = (Inr (), w')"
    using assms m by (simp add: clear_unusable_entry_def io_match_def)
  show False
  proof (cases r)
    case (Inl e)
    then have e: "e = NotFound" "w' = w1" using run by (auto simp: io_ok_def io_err_def split: if_splits)
    show False using l m w1 e Inl
      by (auto simp: names_link_def symlink_metadata_def syscall_def stat_node_def Let_def fault_error_def
          split: option.splits sum.splits if_splits)
  next
    case (Inr n)
    then obtain q where q: "resolve False (root w) p = Inr q" "node_at (root w) q = Some n" using meta by blast
    consider "w' = w1" "is_file_node n" | "remove_dir_all p w1 = (Inr (), w')" "is_dir_node n" | "remove_file p w1 = (Inr (), w')" "\<not> is_dir_node n"
      using run Inr by (cases n) (auto simp: io_ok_def io_map_err_def split: prod.splits sum.splits if_splits)
    then show False
    proof cases
      case 1
      then show False using l q w1 by (auto simp: names_link_def)
    next
      case 2
      from remove_dir_all_within [of p w1] 2(1) have "within (root w') (root w)" using w1 by simp
      from names_link_within [OF this l] show False using q 2(2) by auto
    next
      case 3
      from remove_file_gone [OF 3(1)] have r': "root w' = put_at (root w) q None" using q w1 by simp
      from names_link_within [OF _ l, of "root w"] have "node_at (root w') q \<noteq> None"
        using q(1) r' within_removed by fastforce
      then have "q = []" using r' node_at_put_gone [of q "root w"] by (cases "q = []") simp_all
      with names_link_within [OF _ l, of "root w"] q(1) r' within_removed show False by fastforce
    qed
  qed
qed

lemma download_contents:
  assumes tf: "tempfile_ok (e_tempfile env)" and d: "download env artifact dir p w = (Inr u, w')"
    and no_link: "\<not> names_link (root w) p"
  shows "\<exists>bs. file_contents w' p = Some bs \<and>
            of_bytes (sha (e_crates env)) bs = art_sha256 artifact \<and> of_nat (length bs) = art_size artifact"
proof -
  let ?tf = "e_tempfile env"
  obtain t h w1 where new: "named_new_in ?tf dir w = (Inr (t, h), w1)"
    using d by (auto simp: download_def Let_def io_bind_def io_map_err_def split: sum.splits prod.splits)
  obtain bs w2 where wr: "write_all_at t h bs w1 = (Inr (), w2)"
    and ok: "of_nat (length bs) = art_size artifact" "of_bytes (sha (e_crates env)) bs = art_sha256 artifact"
    and per: "named_persist ?tf t p w2 = (Inr (), w')"
    using d new
    by (auto simp: download_def Let_def io_bind_def io_map_err_def io_match_def dropping_def io_err_def io_ok_def
        hw_write_def hw_finish_def new_hashing_writer_def of_bytes_def split: sum.splits prod.splits if_splits)
  obtain a where a: "h \<noteq> []" "resolve False (root w1) t = Inr h" "node_at (root w1) h = Some (File a [])"
    using tf new unfolding tempfile_ok_def by blast
  note wc = write_all_at_contents [OF a(2,3,1) wr]
  have "\<not> names_link (root w1) p" using tf new no_link unfolding tempfile_ok_def by blast
  then have "\<not> names_link (root w2) p" using names_link_keeps [OF wc(2)] by blast
  then have "file_contents w' p = Some bs" using tf per wc(1) unfolding tempfile_ok_def by auto
  with ok show ?thesis by blast
qed

text \<open>
  C17: an acquired archive is verified. Whatever the cache held before and whichever system calls
  failed, after a successful \<open>acquire\<close> the path it returns, the entry's name in the directory of its digest,
  stands for a regular file (not a link) whose contents hash to the manifest's digest; a cache hit leaves the
  tree as the look at the entry found it, and a downloaded file has exactly the size the manifest records.
\<close>

theorem acquire_verified:
  assumes "tempfile_ok (e_tempfile env)" and "acquire env cache artifact w = (Inr acq, w')"
  shows "acq_path acq = path_join (path_join cache (art_sha256 artifact)) (art_file artifact) \<and>
    (\<exists>bs. file_contents w' (acq_path acq) = Some bs \<and> of_bytes (sha (e_crates env)) bs = art_sha256 artifact \<and>
       (case acq_origin acq of
          Cached \<Rightarrow> \<exists>w1. cached_state (sha (e_crates env)) (acq_path acq) (art_sha256 artifact) w1 = (Inr Valid, w') \<and> root w' = root w1
        | Downloaded \<Rightarrow> of_nat (length bs) = art_size artifact))"
proof -
  let ?p = "path_join (path_join cache (art_sha256 artifact)) (art_file artifact)"
  from assms(2) consider
      (cached) w1 where "cached_state (sha (e_crates env)) ?p (art_sha256 artifact) w1 = (Inr Valid, w')"
        "acq = \<lparr>acq_path = ?p, acq_origin = Cached\<rparr>"
    | (down) w0 w1 u where "clear_unusable_entry ?p w0 = (Inr (), w1)"
        "download env artifact (path_join cache (art_sha256 artifact)) ?p w1 = (Inr u, w')"
        "acq = \<lparr>acq_path = ?p, acq_origin = Downloaded\<rparr>"
    by (auto simp: acquire_def Let_def io_bind_def io_map_err_def io_ok_def split: sum.splits prod.splits if_splits)
  then show ?thesis
  proof cases
    case cached
    then show ?thesis using cached_state_valid [OF cached(1)] by auto
  next
    case down
    then show ?thesis using download_contents [OF assms(1) down(2) clear_unusable_entry_no_link [OF down(1)]] by auto
  qed
qed

text \<open>An instance of the crate on the file system model: exclusive creation and \<open>rename\<close>.\<close>

definition std_tempfile :: tempfile_crate where
  "std_tempfile =
     \<lparr>named_new_in = (\<lambda>dir. io_bind (open_create_new 384 (dir @ [''.tmp'']))
                               (\<lambda>h. io_ok (dir @ [''.tmp''], h))),
      named_drop = remove_file, named_persist = rename_path\<rparr>"

lemma std_tempfile_ok: "tempfile_ok std_tempfile"
  unfolding tempfile_ok_def std_tempfile_def
  by (auto simp: io_bind_def io_ok_def file_contents_iff split: prod.splits sum.splits dest!: open_create_new_ok
      intro: names_link_keeps) (meson rename_over_no_link)

lemma std_tempfile_confined: "tempfile_confined std_tempfile"
  unfolding tempfile_confined_def std_tempfile_def
  by (auto simp: io_bind_def io_ok_def strict_prefix_def split: prod.splits sum.splits intro!: issue_rules)

text \<open>An empty file system without faults, and a network that serves four bytes.\<close>

definition demo_world :: world where
  "demo_world = \<lparr>root = Dir \<lparr>mode = 493, uid = 0, gid = 0\<rparr> [], tick = 0, fault = (\<lambda>_. None), trace = [],
     umask = 18, euid = 0, egid = 0, cwd = [], pid = 7, nanos = (\<lambda>_. 5), temp_counter = 0,
     slot_counter = 0, held_slots = [], watchers = Map.empty\<rparr>"

definition serving :: "bytes \<Rightarrow> network" where
  "serving bs = \<lparr>parse_url = (\<lambda>_. Some demo_url), client_ok = True,
     answers = (\<lambda>_ _. Response \<lparr>status = 200, body = [Inr bs]\<rparr>)\<rparr>"

definition demo_env :: ext_env where
  "demo_env = \<lparr>e_crates = demo_crates, e_network = serving [1, 2, 3, 4], e_tempfile = std_tempfile,
     e_flock = (\<lambda>_ _. io_ok ())\<rparr>"

lemma demo_acquire:
  "fst (acquire demo_env [''c''] demo_artifact demo_world) =
     Inr \<lparr>acq_path = [''c'', replicate 64 (CHR ''0''), ''v.tgz''], acq_origin = Downloaded\<rparr>"
  by code_simp

theorem acquire_verified_witness:
  "\<exists>w' bs. acquire demo_env [''c''] demo_artifact demo_world =
       (Inr \<lparr>acq_path = [''c'', replicate 64 (CHR ''0''), ''v.tgz''], acq_origin = Downloaded\<rparr>, w') \<and>
     file_contents w' [''c'', replicate 64 (CHR ''0''), ''v.tgz''] = Some bs \<and>
     of_bytes (sha demo_crates) bs = art_sha256 demo_artifact \<and> of_nat (length bs) = art_size demo_artifact"
proof -
  obtain w' where run: "acquire demo_env [''c''] demo_artifact demo_world =
      (Inr \<lparr>acq_path = [''c'', replicate 64 (CHR ''0''), ''v.tgz''], acq_origin = Downloaded\<rparr>, w')"
    using demo_acquire by (metis prod.collapse)
  have "tempfile_ok (e_tempfile demo_env)" by (simp add: demo_env_def std_tempfile_ok)
  from acquire_verified [OF this run] run show ?thesis by (auto simp: demo_env_def)
qed

section \<open>What acquiring touches\<close>

lemma path_names_plain: "plain_name n \<Longrightarrow> path_names n = [n]"
  using path_components_join [of "[n]"] by (simp add: path_names_def component_name_def List.map_filter_simps)

lemma path_join_plain_name: "plain_name n \<Longrightarrow> path_join p n = p @ [n]"
  by (auto simp: path_join_def path_names_plain plain_name_def prefix_def)

lemma hex_plain_name:
  assumes "length d = 64" and "list_all is_lower_hex_byte d"
  shows "plain_name d"
proof -
  have "CHR ''/'' \<notin> set d" using assms(2)
    by (auto simp: list_all_iff is_lower_hex_byte_def is_ascii_digit_def)
  moreover have "d \<noteq> []" "d \<noteq> ''.''" "d \<noteq> ''..''" using assms(1) by auto
  ultimately show ?thesis by (simp add: plain_name_def)
qed

text \<open>Below the cache directory, in the entry of one digest or among the locks; or its ancestors.\<close>

definition acquire_scope :: "path \<Rightarrow> string \<Rightarrow> op \<Rightarrow> bool" where
  "acquire_scope cache digest oper \<longleftrightarrow>
     list_all (\<lambda>p. prefix (cache @ [digest]) p \<or> prefix (cache @ [''.locks'']) p) (op_paths oper) \<or>
     (\<exists>q. oper = Mkdir q \<and> prefix q cache)"

lemma issues_download:
  assumes tf: "tempfile_confined (e_tempfile env)" and dir: "dir = cache @ [digest]"
    and p: "prefix dir p"
  shows "issues (acquire_scope cache digest) (download env artifact dir p)"
proof -
  let ?tf = "e_tempfile env"
  let ?P = "acquire_scope cache digest"
  have new: "issues ?P (named_new_in ?tf dir)"
  proof (rule issues_mono)
    show "issues (\<lambda>oper. list_all (strict_prefix dir) (op_paths oper)) (named_new_in ?tf dir)"
      using tf by (simp add: tempfile_confined_def)
    show "?P oper" if "list_all (strict_prefix dir) (op_paths oper)" for oper
      using that by (auto simp: acquire_scope_def dir list_all_iff strict_prefix_def)
  qed
  have rest: "issues ?P (dropping ?tf t e)" "issues ?P (write_all_at t h bs)" "issues ?P (named_persist ?tf t p)"
    if t: "strict_prefix dir t" for t h bs e
  proof -
    have drp: "issues ?P (named_drop ?tf t)"
    proof (rule issues_mono)
      show "issues (\<lambda>oper. op_paths oper = [t]) (named_drop ?tf t)" using tf by (simp add: tempfile_confined_def)
      show "?P oper" if "op_paths oper = [t]" for oper
        using that t by (simp add: acquire_scope_def dir strict_prefix_def)
    qed
    then show "issues ?P (dropping ?tf t e)"
      unfolding dropping_def by (intro issues_match issues_err)
    show "issues ?P (write_all_at t h bs)"
      using t by (intro issues_write_all_at) (auto simp: acquire_scope_def dir strict_prefix_def)
    show "issues ?P (named_persist ?tf t p)"
    proof (rule issues_mono)
      show "issues (\<lambda>oper. oper = Rename t p) (named_persist ?tf t p)" using tf by (simp add: tempfile_confined_def)
      show "?P oper" if "oper = Rename t p" for oper
        using that t p by (simp add: acquire_scope_def dir strict_prefix_def)
    qed
  qed
  have named: "strict_prefix dir t" if "io_map_err g (named_new_in ?tf dir) w = (Inr (t, h), w')" for t h w w' g
  proof -
    have "named_new_in ?tf dir w = (Inr (t, h), w')"
      using that by (auto simp: io_map_err_def split: prod.splits sum.splits)
    then show ?thesis using tf unfolding tempfile_confined_def by blast
  qed
  show ?thesis
    unfolding download_def Let_def
    by (rule issues_bind_val, intro issues_map_err new)
      (auto intro!: issues_match issues_ok rest simp: hw_finish_def dest!: named split: sum.splits prod.splits)
qed

lemma issues_clear_unusable_entry:
  assumes "prefix (cache @ [digest]) p"
  shows "issues (acquire_scope cache digest) (clear_unusable_entry p)"
  unfolding clear_unusable_entry_def
  using assms by (auto intro!: issue_rules simp: acquire_scope_def split: sum.splits)

lemma issues_of_file: "issues P (of_file hash p)"
proof -
  have "issues P (\<lambda>w. case reads q w of (rs, w') \<Rightarrow> (of_reader hash rs, w'))" for q
    using issues_reads [of P "\<lambda>rs. io_of (of_reader hash rs)" q] by (simp add: io_of_def issues_of)
  then show ?thesis unfolding of_file_def by (intro issues_bind issues_open_read)
qed

lemma issues_cached_state: "issues P (cached_state hash p expected)"
  unfolding cached_state_def
  by (auto intro!: issue_rules issues_of_file split: sum.splits)

text \<open>
  acquiring stays in its place. Whatever happens, success or failure, every call that changes the
  file system and that acquiring a validated artefact issues is on a path below the artefact's own
  digest directory or the lock directory of the cache; besides those it only creates the ancestors
  of the cache directory.
\<close>

theorem acquire_confined:
  assumes "artifact_ok vp pu artifact" and "tempfile_confined (e_tempfile env)"
    and "\<And>lt h. issues (\<lambda>_. False) (e_flock env lt h)"
  shows "\<exists>ops. trace (snd (acquire env cache artifact w)) = trace w @ ops \<and>
               list_all (acquire_scope cache (art_sha256 artifact)) ops"
proof -
  let ?d = "art_sha256 artifact"
  have plain: "plain_name ?d" "plain_name (art_file artifact)"
    using assms(1) hex_plain_name by (auto simp: artifact_ok_def)
  then have join: "path_join cache ?d = cache @ [?d]"
      "path_join (cache @ [?d]) (art_file artifact) = cache @ [?d, art_file artifact]"
    by (simp_all add: path_join_plain_name)
  have lock: "issues (acquire_scope cache ?d) (acquire_exclusive (e_flock env) cache ?d)"
    unfolding acquire_exclusive_def
    by (rule issues_acquire_lock) (auto simp: acquire_scope_def intro: issues_mono [OF assms(3)])
  have mk: "issues (acquire_scope cache ?d) (create_dir_all (cache @ [?d]))"
    by (rule issues_create_dir_all) (auto simp: acquire_scope_def)
  have "issues (acquire_scope cache ?d) (acquire env cache artifact)"
    unfolding acquire_def Let_def join
    by (intro issues_bind issues_map_err issues_if issues_ok issues_cached_state mk lock
        issues_clear_unusable_entry issues_download assms(2)) auto
  then show ?thesis unfolding issues_def by blast
qed

theorem acquire_confined_witness:
  "\<exists>ops. trace (snd (acquire demo_env [''c''] demo_artifact demo_world)) = trace demo_world @ ops \<and>
         list_all (acquire_scope [''c''] (art_sha256 demo_artifact)) ops"
proof (rule acquire_confined [where vp = "\<lambda>_. Some (version_new 17 11 0)" and pu = "\<lambda>_. Some demo_url"])
  show "artifact_ok (\<lambda>_. Some (version_new 17 11 0)) (\<lambda>_. Some demo_url) demo_artifact"
    by (simp add: artifact_ok_def demo_artifact_def plain_name_def is_permitted_url_def is_permitted_def
        demo_url_def list_all_iff is_lower_hex_byte_def is_ascii_digit_def)
  show "tempfile_confined (e_tempfile demo_env)" by (simp add: demo_env_def std_tempfile_confined)
  show "issues (\<lambda>_. False) (e_flock demo_env lt h)" for lt h by (simp add: demo_env_def issues_ok)
qed

lemma acquire_outcome:
  "case fst (acquire env cache artifact w) of
     Inr acq \<Rightarrow> acq_path acq = path_join (path_join cache (art_sha256 artifact)) (art_file artifact)
   | Inl e \<Rightarrow>
       e = unavailable \<or>
       e = digest_mismatch \<and>
       (\<exists>bs. http_get (parse_url (e_network env)) (client_ok (e_network env)) (answers (e_network env))
               (art_url artifact) (art_size artifact) = Inr bs \<and>
             (of_nat (length bs) \<noteq> art_size artifact \<or> of_bytes (sha (e_crates env)) bs \<noteq> art_sha256 artifact))"
  (is "case fst ?run of Inr acq \<Rightarrow> ?path acq | Inl e \<Rightarrow> ?err e")
proof -
  have down: "?err e" if "download env artifact dir p w1 = (Inl e, w2)" for dir p w1 w2 e
    using that
    by (auto simp: download_def Let_def io_bind_def io_map_err_def io_match_def dropping_def io_err_def io_ok_def
        hw_write_def hw_finish_def new_hashing_writer_def of_bytes_def split: sum.splits prod.splits if_splits)
  have clear: "e = unavailable" if "clear_unusable_entry p w1 = (Inl e, w2)" for p w1 w2 e
    using that by (auto simp: clear_unusable_entry_def io_match_def io_map_err_def io_err_def io_ok_def
        split: sum.splits prod.splits if_splits)
  have state: "False" if "cached_state h p x w1 = (Inl e, w2)" for h p x w1 w2 e
    using that by (auto simp: cached_state_def io_match_def io_ok_def split: sum.splits prod.splits if_splits)
  have err: "?err e" if "acquire env cache artifact w = (Inl e, w')" for e w'
    using that
    by (auto simp: acquire_def Let_def io_bind_def io_map_err_def io_ok_def split: sum.splits prod.splits if_splits
        dest: clear state dest!: down)
  have ok: "?path acq" if "acquire env cache artifact w = (Inr acq, w')" for acq w'
    using that
    by (auto simp: acquire_def Let_def io_bind_def io_map_err_def io_ok_def split: sum.splits prod.splits if_splits)
  show ?thesis by (cases ?run; cases "fst ?run") (simp_all only: fst_conv sum.case err ok)
qed

text \<open>
  failures are classified. A failed \<open>acquire\<close> reports either that the archive is unavailable or
  that its digest does not match, never another kind; and it reports a mismatch only when bytes
  were downloaded whose length or digest differs from the manifest's.
\<close>

theorem acquire_error_kinds:
  "case fst (acquire env cache artifact w) of
     Inr acq \<Rightarrow> acq_path acq = path_join (path_join cache (art_sha256 artifact)) (art_file artifact)
   | Inl e \<Rightarrow>
       e = unavailable \<or>
       e = digest_mismatch \<and>
       (\<exists>bs. http_get (parse_url (e_network env)) (client_ok (e_network env)) (answers (e_network env))
               (art_url artifact) (art_size artifact) = Inr bs \<and>
             (of_nat (length bs), of_bytes (sha (e_crates env)) bs) \<noteq> (art_size artifact, art_sha256 artifact))"
  using acquire_outcome [where env = env and cache = cache and artifact = artifact and w = w] by (auto split: sum.splits)

end
