(* ===== verification/ExtInstall.thy ===== *)
theory ExtInstall
  imports ExtArchive "HOL-Library.List_Lexorder" "HOL-Library.Char_ord"
begin

text \<open>
  \<open>extensions/install.rs\<close>, pass one: the archive is read once and verified, and every entry is
  validated before anything is written. The \<open>tar\<close> and \<open>flate2\<close> crates are a parameter that gives the
  entries of an archive, each with its header and the results of reading it. Strings compare byte
  by byte, as \<open>str\<close> does.
\<close>

section \<open>Data\<close>

definition LIB_MODE :: u32 where "LIB_MODE = 493"
definition SHARE_MODE :: u32 where "SHARE_MODE = 420"
definition ENTRY_DECOMPRESSED_CAP :: u64 where "ENTRY_DECOMPRESSED_CAP = 67108864"
definition ARCHIVE_DECOMPRESSED_CAP :: u64 where "ARCHIVE_DECOMPRESSED_CAP = 268435456"

record planned_file =
  relative :: string
  planned_mode :: u32

datatype entry_type = Regular | Directory | OtherEntry

record tar_entry =
  te_kind :: entry_type
  te_path :: string
  te_size :: "io_error_kind + u64"
  te_reads :: "(io_error_kind + bytes) list"

type_synonym tar_reader = "bytes \<Rightarrow> io_error_kind + (io_error_kind + tar_entry) list"

definition archive_invalid :: bootstrap_error where
  "archive_invalid = extension_error ExtensionArchiveInvalid"

definition install_failed :: "string list \<Rightarrow> bootstrap_error" where
  "install_failed files = \<lparr>kind = ExtensionInstallFailed, report_written = files, causes = []\<rparr>"

definition path_bytes_lossy :: "tar_entry \<Rightarrow> string" where
  "path_bytes_lossy e = from_utf8_lossy (te_path e)"

definition open_entries :: "tar_reader \<Rightarrow> bytes \<Rightarrow> bootstrap_error + (io_error_kind + tar_entry) list" where
  "open_entries untar bs = (case untar bs of Inl _ \<Rightarrow> Inl archive_invalid | Inr es \<Rightarrow> Inr es)"

section \<open>Planning\<close>

definition plan_entry :: "entry_type \<Rightarrow> string \<Rightarrow> bootstrap_error + planned_file option" where
  "plan_entry k name =
     (if k = Directory then Inr None
      else if k \<noteq> Regular then Inl archive_invalid
      else
        (case classify_entry_path name of
           None \<Rightarrow> Inl archive_invalid
         | Some rel \<Rightarrow>
             Inr (Some \<lparr>relative = rel,
               planned_mode = (if prefix [''lib''] (path_names rel) then LIB_MODE else SHARE_MODE)\<rparr>)))"

definition check_decompressed_caps :: "u64 \<Rightarrow> u64 \<Rightarrow> bootstrap_error + u64" where
  "check_decompressed_caps sz declared =
     (if ENTRY_DECOMPRESSED_CAP < sz then Inl archive_invalid
      else
        (let total = saturating_add declared sz in
         if ARCHIVE_DECOMPRESSED_CAP < total then Inl archive_invalid else Inr total))"

definition check_against_manifest :: "planned_file list \<Rightarrow> manifest_artifact \<Rightarrow> bootstrap_error + unit" where
  "check_against_manifest files artifact =
     (if map relative files \<noteq> sort (art_files artifact) then Inl archive_invalid else Inr ())"

fun plan_loop ::
  "(io_error_kind + tar_entry) list \<Rightarrow> planned_file list \<Rightarrow> string list \<Rightarrow> u64 \<Rightarrow> bootstrap_error + planned_file list" where
  "plan_loop [] files seen declared = Inr files"
| "plan_loop (Inl _ # es) files seen declared = Inl archive_invalid"
| "plan_loop (Inr e # es) files seen declared =
     (case te_size e of
        Inl _ \<Rightarrow> Inl archive_invalid
      | Inr sz \<Rightarrow>
          (case plan_entry (te_kind e) (path_bytes_lossy e) of
             Inl err \<Rightarrow> Inl err
           | Inr None \<Rightarrow> plan_loop es files seen declared
           | Inr (Some file) \<Rightarrow>
               if relative file \<in> set seen then Inl archive_invalid
               else
                 res_bind (check_decompressed_caps sz declared) (\<lambda>declared'.
                   plan_loop es (files @ [file]) (seen @ [relative file]) declared')))"

definition plan :: "tar_reader \<Rightarrow> bytes \<Rightarrow> manifest_artifact \<Rightarrow> bootstrap_error + planned_file list" where
  "plan untar bs artifact =
     res_bind (open_entries untar bs) (\<lambda>es.
     res_bind (plan_loop es [] [] 0) (\<lambda>files.
       let sorted_files = sort_key relative files in
       res_bind (check_against_manifest sorted_files artifact) (\<lambda>_. Inr sorted_files)))"

section \<open>Reading the archive\<close>

text \<open>\<open>read_to_end\<close> of \<open>take(limit)\<close> is \<open>copy_limited\<close>.\<close>

definition read_verified :: "(bytes \<Rightarrow> bytes) \<Rightarrow> path \<Rightarrow> manifest_artifact \<Rightarrow> (bootstrap_error, bytes) io" where
  "read_verified hash p artifact =
     io_bind (io_map_err (\<lambda>_. archive_invalid) (open_read p)) (\<lambda>q. \<lambda>w.
       case reads q w of (rs, w') \<Rightarrow>
         (case copy_limited (unat (saturating_add (art_size artifact) 1)) rs [] of
            Inl _ \<Rightarrow> (Inl archive_invalid, w')
          | Inr bs \<Rightarrow>
              if of_nat (length bs) \<noteq> art_size artifact \<or> of_bytes hash bs \<noteq> art_sha256 artifact
              then (Inl digest_mismatch, w')
              else (Inr bs, w')))"

section \<open>What a plan guarantees\<close>

text \<open>
  The archives that planning accepts: every entry is readable with a known size, is a directory or
  a regular file, and a regular file has an allowed path and a bounded size.
\<close>

fun entry_ok :: "io_error_kind + tar_entry \<Rightarrow> bool" where
  "entry_ok (Inl _) = False"
| "entry_ok (Inr e) =
     (case te_size e of
        Inl _ \<Rightarrow> False
      | Inr sz \<Rightarrow>
          te_kind e = Directory \<or>
          te_kind e = Regular \<and> classify_entry_path (path_bytes_lossy e) \<noteq> None \<and> unat sz \<le> 64 * 1024 * 1024)"

text \<open>The regular files of an archive: installed name and declared size, in archive order.\<close>

fun file_entries :: "(io_error_kind + tar_entry) list \<Rightarrow> (string \<times> nat) list" where
  "file_entries [] = []"
| "file_entries (Inl _ # es) = file_entries es"
| "file_entries (Inr e # es) =
     (if te_kind e = Regular
      then (the (classify_entry_path (path_bytes_lossy e)), case te_size e of Inl _ \<Rightarrow> 0 | Inr sz \<Rightarrow> unat sz) # file_entries es
      else file_entries es)"

definition mode_for :: "string \<Rightarrow> u32" where
  "mode_for rel = (if prefix [''lib''] (path_names rel) then LIB_MODE else SHARE_MODE)"

lemma saturating_add_le:
  assumes "unat d \<le> 268435456" and "unat s \<le> 268435456"
  shows "unat (saturating_add d s) = unat d + unat s"
  using assms by (simp add: saturating_add_def unat_word_ariths)

lemma check_decompressed_caps_eq:
  assumes "unat declared \<le> 268435456"
  shows "check_decompressed_caps sz declared =
    (if unat sz \<le> 67108864 \<and> unat declared + unat sz \<le> 268435456
     then Inr (declared + sz) else Inl archive_invalid)"
proof (cases "unat sz \<le> 67108864")
  case True
  then have "saturating_add declared sz = declared + sz" and "unat (declared + sz) = unat declared + unat sz"
    using assms by (simp_all add: saturating_add_def unat_word_ariths)
  then show ?thesis using True
    by (simp add: check_decompressed_caps_def Let_def ENTRY_DECOMPRESSED_CAP_def ARCHIVE_DECOMPRESSED_CAP_def
        word_less_nat_alt)
next
  case False
  then show ?thesis by (simp add: check_decompressed_caps_def ENTRY_DECOMPRESSED_CAP_def word_less_nat_alt)
qed

lemma plan_entry_eq:
  "plan_entry k name =
     (if k = Directory then Inr None
      else if k = Regular \<and> classify_entry_path name \<noteq> None
      then Inr (Some \<lparr>relative = the (classify_entry_path name), planned_mode = mode_for (the (classify_entry_path name))\<rparr>)
      else Inl archive_invalid)"
  by (auto simp: plan_entry_def mode_for_def split: option.splits)

definition planned :: "string \<Rightarrow> planned_file" where
  "planned n = \<lparr>relative = n, planned_mode = mode_for n\<rparr>"

lemma relative_planned [simp]: "relative (planned n) = n"
  by (simp add: planned_def)

text \<open>The loop accepts an archive exactly when all its rules hold together.\<close>

lemma plan_loop_eq:
  "unat declared \<le> 268435456 \<Longrightarrow>
   plan_loop es files seen declared =
     (if list_all entry_ok es \<and> distinct (map fst (file_entries es)) \<and>
         set (map fst (file_entries es)) \<inter> set seen = {} \<and>
         unat declared + sum_list (map snd (file_entries es)) \<le> 268435456
      then Inr (files @ map (planned \<circ> fst) (file_entries es)) else Inl archive_invalid)"
proof (induction es files seen declared rule: plan_loop.induct)
  case (3 e es files seen declared)
  show ?case
  proof (cases "te_size e")
    case (Inl x)
    then show ?thesis by simp
  next
    case sz: (Inr sz)
    consider "te_kind e = Directory" | "te_kind e = OtherEntry" |
        "te_kind e = Regular" "classify_entry_path (path_bytes_lossy e) = None"
      | n where "te_kind e = Regular" "classify_entry_path (path_bytes_lossy e) = Some n"
      by (cases "te_kind e"; cases "classify_entry_path (path_bytes_lossy e)") auto
    then show ?thesis
    proof cases
      case 1
      then show ?thesis using "3.IH"(1) [OF sz, of None] sz "3.prems" by (simp add: plan_entry_eq)
    next
      case 4
      have u: "unat (declared + sz) = unat declared + unat sz"
        if "unat declared + unat sz \<le> 268435456" using that by (simp add: unat_word_ariths)
      show ?thesis
      proof (cases "n \<in> set seen \<or> \<not> unat sz \<le> 67108864 \<or> \<not> unat declared + unat sz \<le> 268435456")
        case True
        then show ?thesis using 4 sz "3.prems"
          by (auto simp: plan_entry_eq check_decompressed_caps_eq res_bind_def)
      next
        case False
        then have "plan_loop (Inr e # es) files seen declared =
            plan_loop es (files @ [planned n]) (seen @ [n]) (declared + sz)"
          using 4 sz "3.prems" by (simp add: plan_entry_eq check_decompressed_caps_eq res_bind_def planned_def)
        also have "\<dots> = (if list_all entry_ok es \<and> distinct (map fst (file_entries es)) \<and>
             set (map fst (file_entries es)) \<inter> set (seen @ [n]) = {} \<and>
             unat (declared + sz) + sum_list (map snd (file_entries es)) \<le> 268435456
           then Inr ((files @ [planned n]) @ map (planned \<circ> fst) (file_entries es)) else Inl archive_invalid)"
          using "3.IH"(2) [OF sz, of "Some (planned n)" "planned n" "declared + sz"] 4 False sz "3.prems" u
          by (simp add: plan_entry_eq check_decompressed_caps_eq planned_def)
        finally show ?thesis using False 4 sz u by auto
      qed
    qed (use sz in \<open>simp_all add: plan_entry_eq\<close>)
  qed
qed simp_all

lemma map_relative_insort: "map relative (insort_key relative x xs) = insort (relative x) (map relative xs)"
  by (induction xs) auto

lemma map_relative_sort: "map relative (sort_key relative xs) = sort (map relative xs)"
  by (induction xs) (auto simp: map_relative_insort)

lemma sort_planned: "sort_key relative (map planned ns) = map planned (sort ns)"
proof -
  have "map relative (sort_key relative (map planned ns)) = sort ns"
    by (simp add: map_relative_sort comp_def)
  moreover have "\<forall>x \<in> set (sort_key relative (map planned ns)). x = planned (relative x)" by auto
  ultimately show ?thesis by (metis (no_types, lifting) map_idI map_map comp_apply)
qed

lemma plan_iff:
  "plan untar bs artifact = Inr files \<longleftrightarrow>
     (\<exists>es. untar bs = Inr es \<and> list_all entry_ok es \<and> distinct (map fst (file_entries es)) \<and>
        sum_list (map snd (file_entries es)) \<le> 256 * 1024 * 1024 \<and>
        sort (map fst (file_entries es)) = sort (art_files artifact) \<and>
        files = map planned (sort (art_files artifact)))"
proof (cases "untar bs")
  case (Inl e)
  then show ?thesis by (simp add: plan_def open_entries_def res_bind_def)
next
  case (Inr es)
  define ns where "ns = map fst (file_entries es)"
  have loop: "plan_loop es [] [] 0 =
     (if list_all entry_ok es \<and> distinct ns \<and> sum_list (map snd (file_entries es)) \<le> 268435456
      then Inr (map planned ns) else Inl archive_invalid)"
    by (subst plan_loop_eq) (auto simp: ns_def)
  show ?thesis
    by (auto simp: plan_def open_entries_def Inr res_bind_def loop Let_def check_against_manifest_def sort_planned
        comp_def ns_def [symmetric] split: if_splits)
qed

text \<open>
  C14: planning accepts exactly the well-formed archives. A plan exists exactly when the archive can be
  read, every entry is a directory or a regular file with an allowed path and at most 64 MiB
  declared, no two files have the same installed path, the declared sizes total at most 256 MiB,
  and the installed paths are the manifest's list; and then the plan is that list, sorted, each
  file with its mode. The 64-bit running total never wraps.
\<close>

theorem plan_exact:
  "plan untar bs artifact = Inr files \<longleftrightarrow>
     (\<exists>es. untar bs = Inr es \<and> list_all entry_ok es \<and> distinct (map fst (file_entries es)) \<and>
        sum_list (map snd (file_entries es)) \<le> 256 * 1024 * 1024 \<and>
        sort (map fst (file_entries es)) = sort (art_files artifact) \<and>
        files = map planned (sort (art_files artifact)))"
  by (rule plan_iff)

end
