(* ===== verification/ExtWrite.thy ===== *)
theory ExtWrite
  imports ExtInstall
begin

text \<open>
  Pass two of extension installation: the installation tree behind a directory handle
  (\<open>extensions/tree.rs\<close>) and the writing of the planned files (\<open>extensions/write.rs\<close>), as on Unix.
  The \<open>cap-std\<close> crate is a parameter: a record of the operations the code calls on its \<open>Dir\<close> and
  \<open>File\<close> handles. A handle is a path; names given to it are relative. Reports carry no data here.
\<close>

section \<open>Parameters and data\<close>

datatype file_kind = KFile | KDir | KSymlink | KOther

record cap_std =
  cap_open_ambient_dir :: "path \<Rightarrow> path fs"
  cap_symlink_metadata :: "path \<Rightarrow> string \<Rightarrow> file_kind fs"
  cap_create_dir_all :: "path \<Rightarrow> string \<Rightarrow> unit fs"
  cap_open_nofollow :: "path \<Rightarrow> string \<Rightarrow> path fs"
  cap_create_new :: "path \<Rightarrow> string \<Rightarrow> path fs"
  cap_rename :: "path \<Rightarrow> string \<Rightarrow> string \<Rightarrow> unit fs"
  cap_remove_file :: "path \<Rightarrow> string \<Rightarrow> unit fs"
  cap_metadata :: "path \<Rightarrow> (file_kind \<times> u32 \<times> u32) fs"
  cap_reads :: "path \<Rightarrow> world \<Rightarrow> (io_error_kind + bytes) list \<times> world"
  cap_write_all :: "path \<Rightarrow> bytes \<Rightarrow> unit fs"
  cap_set_permissions :: "path \<Rightarrow> u32 \<Rightarrow> unit fs"
  cap_fchown :: "path \<Rightarrow> u32 \<Rightarrow> u32 \<Rightarrow> unit fs"

datatype destination = Identical path | Absent | NotRegular | Different | DestUnreadable io_error_kind

record install_tree =
  tree_dir :: path
  tree_root :: path

record owner =
  owner_uid :: u32
  owner_gid :: u32

record write_context =
  tree :: install_tree
  context_owner :: owner

text \<open>\<open>Result<_, Report>\<close>.\<close>

type_synonym 'a report_io = "(unit, 'a) io"

section \<open>The installation tree\<close>

fun rewrite_reason :: "destination \<Rightarrow> string option" where
  "rewrite_reason (Identical _) = None"
| "rewrite_reason Absent = Some ''nothing is there''"
| "rewrite_reason NotRegular = Some ''what is there is not a regular file''"
| "rewrite_reason Different = Some ''what is there holds different bytes''"
| "rewrite_reason (DestUnreadable e) = Some ''what is there cannot be read''"

definition tree_open :: "cap_std \<Rightarrow> path \<Rightarrow> (bootstrap_error, install_tree) io" where
  "tree_open cap r =
     io_match (symlink_metadata r) (\<lambda>m.
       case m of
         Inl _ \<Rightarrow> io_err (install_failed [])
       | Inr meta \<Rightarrow>
           if is_dir_node meta then
             io_bind (io_map_err (\<lambda>_. install_failed []) (cap_open_ambient_dir cap r)) (\<lambda>d.
               io_ok \<lparr>tree_dir = d, tree_root = r\<rparr>)
           else io_err (install_failed []))"

text \<open>The loop of \<open>require_real_parents\<close>: the components passed so far, and those to inspect.\<close>

fun real_parents_loop :: "cap_std \<Rightarrow> path \<Rightarrow> string list \<Rightarrow> string list \<Rightarrow> unit report_io" where
  "real_parents_loop cap d current [] = io_ok ()"
| "real_parents_loop cap d current (c # cs) =
     (let current' = current @ [c] in
      io_match (cap_symlink_metadata cap d (join_with ''/'' current')) (\<lambda>m.
        case m of
          Inr k \<Rightarrow> if k = KDir then real_parents_loop cap d current' cs else io_err ()
        | Inl e \<Rightarrow> if e = NotFound then io_ok () else io_err ()))"

definition require_real_parents :: "cap_std \<Rightarrow> install_tree \<Rightarrow> string \<Rightarrow> unit report_io" where
  "require_real_parents cap t rel =
     (let components = path_names rel in
      real_parents_loop cap (tree_dir t) [] (take (length components - 1) components))"

text \<open>\<open>relative.parent()\<close>, the empty parent counting as none.\<close>

definition parent_of :: "string \<Rightarrow> string option" where
  "parent_of rel =
     (let ps = butlast (path_names rel) in if ps = [] then None else Some (join_with ''/'' ps))"

definition create_parents :: "cap_std \<Rightarrow> install_tree \<Rightarrow> string \<Rightarrow> unit report_io" where
  "create_parents cap t rel =
     (case parent_of rel of
        None \<Rightarrow> io_ok ()
      | Some par \<Rightarrow> io_map_err (\<lambda>_. ()) (cap_create_dir_all cap (tree_dir t) par))"

definition open_destination :: "cap_std \<Rightarrow> install_tree \<Rightarrow> string \<Rightarrow> (destination, path) io" where
  "open_destination cap t rel =
     io_match (cap_open_nofollow cap (tree_dir t) rel) (\<lambda>r.
       case r of
         Inr f \<Rightarrow> io_ok f
       | Inl e \<Rightarrow> io_err (if e = NotFound then Absent else DestUnreadable e))"

definition require_regular :: "cap_std \<Rightarrow> path \<Rightarrow> (destination, path) io" where
  "require_regular cap f =
     io_match (cap_metadata cap f) (\<lambda>r.
       case r of
         Inr (k, _, _) \<Rightarrow> if k = KFile then io_ok f else io_err NotRegular
       | Inl e \<Rightarrow> io_err (DestUnreadable e))"

definition compare_digest :: "cap_std \<Rightarrow> (bytes \<Rightarrow> bytes) \<Rightarrow> path \<Rightarrow> bytes \<Rightarrow> world \<Rightarrow> destination \<times> world" where
  "compare_digest cap hash f bs w =
     (case cap_reads cap f w of (rs, w') \<Rightarrow>
        (case of_reader hash rs of
           Inr digest \<Rightarrow> (if digest = of_bytes hash bs then Identical f else Different, w')
         | Inl e \<Rightarrow> (DestUnreadable e, w')))"

definition inspect_destination ::
  "cap_std \<Rightarrow> (bytes \<Rightarrow> bytes) \<Rightarrow> install_tree \<Rightarrow> string \<Rightarrow> bytes \<Rightarrow> world \<Rightarrow> destination \<times> world" where
  "inspect_destination cap hash t rel bs w =
     (case io_bind (open_destination cap t rel) (require_regular cap) w of
        (Inr f, w') \<Rightarrow> compare_digest cap hash f bs w'
      | (Inl found, w') \<Rightarrow> (found, w'))"

definition TEMP_NAME_ATTEMPTS :: nat where "TEMP_NAME_ATTEMPTS = 16"

definition temp_name :: "world \<Rightarrow> string \<times> world" where
  "temp_name w =
     (''.pg-embed-'' @ show_nat (pid w) @ ''-'' @ show_nat (nanos w (tick w)) @ ''-'' @
      show_nat (unat (temp_counter w)) @ ''.tmp'',
      w\<lparr>temp_counter := temp_counter w + 1\<rparr>)"

fun temp_loop :: "cap_std \<Rightarrow> path \<Rightarrow> string option \<Rightarrow> nat \<Rightarrow> (path \<times> string) report_io" where
  "temp_loop cap d par 0 w = (Inl (), w)"
| "temp_loop cap d par (Suc n) w =
     (case temp_name w of (name, w1) \<Rightarrow>
        let candidate = (case par of None \<Rightarrow> name | Some p \<Rightarrow> p @ ''/'' @ name) in
        (case cap_create_new cap d candidate w1 of
           (Inr f, w2) \<Rightarrow> (Inr (f, candidate), w2)
         | (Inl e, w2) \<Rightarrow> if e = AlreadyExists then temp_loop cap d par n w2 else (Inl (), w2)))"

definition create_temp_beside :: "cap_std \<Rightarrow> install_tree \<Rightarrow> string \<Rightarrow> (path \<times> string) report_io" where
  "create_temp_beside cap t rel = temp_loop cap (tree_dir t) (parent_of rel) TEMP_NAME_ATTEMPTS"

definition place :: "cap_std \<Rightarrow> install_tree \<Rightarrow> string \<Rightarrow> string \<Rightarrow> unit report_io" where
  "place cap t temp rel = io_map_err (\<lambda>_. ()) (cap_rename cap (tree_dir t) temp rel)"

definition discard_temp :: "cap_std \<Rightarrow> install_tree \<Rightarrow> string \<Rightarrow> unit report_io" where
  "discard_temp cap t temp = io_match (cap_remove_file cap (tree_dir t) temp) (\<lambda>_. io_ok ())"

section \<open>Writing\<close>

definition set_mode :: "cap_std \<Rightarrow> path \<Rightarrow> u32 \<Rightarrow> unit report_io" where
  "set_mode cap f m = io_map_err (\<lambda>_. ()) (cap_set_permissions cap f m)"

definition tree_owner :: "path \<Rightarrow> (bootstrap_error, owner) io" where
  "tree_owner install_dir =
     io_bind (io_map_err (\<lambda>_. install_failed []) (metadata install_dir)) (\<lambda>n.
       case n of
         File a _ \<Rightarrow> io_ok \<lparr>owner_uid = uid a, owner_gid = gid a\<rparr>
       | Dir a _ \<Rightarrow> io_ok \<lparr>owner_uid = uid a, owner_gid = gid a\<rparr>
       | Symlink _ \<Rightarrow> io_err (install_failed []))"

definition apply_owner :: "cap_std \<Rightarrow> path \<Rightarrow> owner \<Rightarrow> unit report_io" where
  "apply_owner cap f ow =
     io_bind (io_map_err (\<lambda>_. ()) (cap_metadata cap f)) (\<lambda>(_, u, g).
       if u = owner_uid ow \<and> g = owner_gid ow then io_ok ()
       else io_map_err (\<lambda>_. ()) (cap_fchown cap f (owner_uid ow) (owner_gid ow)))"

definition repair_existing :: "cap_std \<Rightarrow> write_context \<Rightarrow> planned_file \<Rightarrow> path \<Rightarrow> unit report_io" where
  "repair_existing cap ctx pf existing =
     io_bind (set_mode cap existing (planned_mode pf)) (\<lambda>_. apply_owner cap existing (context_owner ctx))"

definition fill_temp :: "cap_std \<Rightarrow> write_context \<Rightarrow> planned_file \<Rightarrow> bytes \<Rightarrow> path \<Rightarrow> unit report_io" where
  "fill_temp cap ctx pf bs temp =
     io_bind (io_map_err (\<lambda>_. ()) (cap_write_all cap temp bs)) (\<lambda>_.
     io_bind (set_mode cap temp (planned_mode pf)) (\<lambda>_.
       apply_owner cap temp (context_owner ctx)))"

definition write_afresh :: "cap_std \<Rightarrow> write_context \<Rightarrow> planned_file \<Rightarrow> bytes \<Rightarrow> unit report_io" where
  "write_afresh cap ctx pf bs =
     io_bind (create_parents cap (tree ctx) (relative pf)) (\<lambda>_.
     io_bind (create_temp_beside cap (tree ctx) (relative pf)) (\<lambda>(temp, temp_relative).
       io_match
         (io_bind (fill_temp cap ctx pf bs temp) (\<lambda>_. place cap (tree ctx) temp_relative (relative pf)))
         (\<lambda>placed.
            case placed of
              Inl e \<Rightarrow> io_bind (discard_temp cap (tree ctx) temp_relative) (\<lambda>_. io_err e)
            | Inr _ \<Rightarrow> io_ok ())))"

definition write_file :: "cap_std \<Rightarrow> (bytes \<Rightarrow> bytes) \<Rightarrow> write_context \<Rightarrow> planned_file \<Rightarrow> bytes \<Rightarrow> unit report_io" where
  "write_file cap hash ctx pf bs =
     io_bind (require_real_parents cap (tree ctx) (relative pf)) (\<lambda>_. \<lambda>w.
       case inspect_destination cap hash (tree ctx) (relative pf) bs w of
         (Identical existing, w') \<Rightarrow> repair_existing cap ctx pf existing w'
       | (_, w') \<Rightarrow> write_afresh cap ctx pf bs w')"

definition read_entry_bounded :: "tar_entry \<Rightarrow> u64 \<Rightarrow> bootstrap_error + (bytes \<times> u64)" where
  "read_entry_bounded e budget =
     (let limit = min ENTRY_DECOMPRESSED_CAP budget in
      case copy_limited (unat (saturating_add limit 1)) (te_reads e) [] of
        Inl _ \<Rightarrow> Inl archive_invalid
      | Inr contents \<Rightarrow>
          (let nread = of_nat (length contents) in
           if limit < nread then Inl archive_invalid else Inr (contents, budget - nread)))"

text \<open>When the entry fits, the bounded read is the plain one; this is how it is evaluated.\<close>

lemma copy_limited_read_loop:
  "read_loop rs acc = Inr c \<Longrightarrow> length c < length acc + n \<Longrightarrow> copy_limited n rs acc = Inr c"
proof (induction rs acc arbitrary: n rule: read_loop.induct)
  case (1 fed)
  then show ?case by (cases n) auto
next
  case (3 chunk rs fed)
  have grow: "length fed' \<le> length c" if "read_loop rs fed' = Inr c" for fed' rs
    using that by (induction rs fed' rule: read_loop.induct) (auto split: if_splits)
  obtain m where n: "n = Suc m" using 3 grow by (cases n) (fastforce split: if_splits)+
  show ?case
  proof (cases "chunk = []")
    case False
    then have "read_loop rs (fed @ chunk) = Inr c" using 3(2) by simp
    from grow [OF this] have "length chunk \<le> m" using 3(3) n by simp
    then show ?thesis using 3 False n by simp
  qed (use 3 n in simp)
qed simp

definition read_entry_slow :: "tar_entry \<Rightarrow> u64 \<Rightarrow> bootstrap_error + (bytes \<times> u64)" where
  "read_entry_slow = read_entry_bounded"

lemma read_entry_bounded_code [code]:
  "read_entry_bounded e budget =
     (let limit = min ENTRY_DECOMPRESSED_CAP budget in
      case read_loop (te_reads e) [] of
        Inl _ \<Rightarrow> read_entry_slow e budget
      | Inr c \<Rightarrow> if int (length c) \<le> uint limit then Inr (c, budget - of_nat (length c))
                 else read_entry_slow e budget)"
proof -
  define l where "l = min ENTRY_DECOMPRESSED_CAP budget"
  have "l \<le> ENTRY_DECOMPRESSED_CAP" by (simp add: l_def)
  then have small: "unat l \<le> 67108864" by (simp add: ENTRY_DECOMPRESSED_CAP_def word_le_nat_alt)
  have fits: "read_entry_bounded e budget = Inr (c, budget - of_nat (length c))"
    if c: "read_loop (te_reads e) [] = Inr c" and le: "int (length c) \<le> uint l" for c
  proof -
    have "int (unat l) = uint l" by simp
    with le have len: "length c \<le> unat l" by linarith
    have "unat (saturating_add l 1) = unat l + 1"
      using small by (simp add: saturating_add_def unat_word_ariths)
    then have "copy_limited (unat (saturating_add l 1)) (te_reads e) [] = Inr c"
      using len by (intro copy_limited_read_loop [OF c]) simp
    moreover have "unat (of_nat (length c) :: u64) = length c"
      using len small by (simp add: unat_of_nat take_bit_nat_eq_self)
    then have "\<not> l < of_nat (length c)" using len by (simp add: word_less_nat_alt)
    ultimately show ?thesis by (simp add: read_entry_bounded_def Let_def l_def)
  qed
  show ?thesis unfolding l_def [symmetric] Let_def read_entry_slow_def
    using fits by (auto split: sum.splits)
qed

definition over_cap_after_writing :: "string list \<Rightarrow> bootstrap_error \<Rightarrow> bootstrap_error" where
  "over_cap_after_writing files err =
     (if files = [] then err else \<lparr>kind = kind err, report_written = files, causes = causes err\<rparr>)"

fun write_loop ::
  "cap_std \<Rightarrow> (bytes \<Rightarrow> bytes) \<Rightarrow> write_context \<Rightarrow> planned_file list \<Rightarrow> (io_error_kind + tar_entry) list \<Rightarrow>
   string list \<Rightarrow> u64 \<Rightarrow> (bootstrap_error, string list) io" where
  "write_loop cap hash ctx files [] sofar budget = io_ok sofar"
| "write_loop cap hash ctx files (Inl _ # es) sofar budget = io_err archive_invalid"
| "write_loop cap hash ctx files (Inr e # es) sofar budget =
     (case Option.bind (classify_entry_path (path_bytes_lossy e)) (\<lambda>n. find (\<lambda>f. relative f = n) files) of
        None \<Rightarrow> write_loop cap hash ctx files es sofar budget
      | Some pf \<Rightarrow>
          (case read_entry_bounded e budget of
             Inl err \<Rightarrow> io_err (over_cap_after_writing sofar err)
           | Inr (contents, budget') \<Rightarrow>
               io_bind (io_map_err (\<lambda>_. install_failed sofar) (write_file cap hash ctx pf contents)) (\<lambda>_.
                 write_loop cap hash ctx files es (sofar @ [relative pf]) budget')))"

definition write_all ::
  "cap_std \<Rightarrow> (bytes \<Rightarrow> bytes) \<Rightarrow> tar_reader \<Rightarrow> bytes \<Rightarrow> planned_file list \<Rightarrow> path \<Rightarrow> (bootstrap_error, unit) io" where
  "write_all cap hash untar bs files install_dir =
     io_bind (tree_owner install_dir) (\<lambda>ow.
     io_bind (tree_open cap install_dir) (\<lambda>t.
     io_bind (io_of (open_entries untar bs)) (\<lambda>es.
     io_bind (write_loop cap hash \<lparr>tree = t, context_owner = ow\<rparr> files es [] ARCHIVE_DECOMPRESSED_CAP) (\<lambda>_.
       io_ok ()))))"

text \<open>\<open>install_archive\<close> of \<open>install.rs\<close>, which runs both passes.\<close>

definition install_archive ::
  "cap_std \<Rightarrow> (bytes \<Rightarrow> bytes) \<Rightarrow> tar_reader \<Rightarrow> path \<Rightarrow> manifest_artifact \<Rightarrow> path \<Rightarrow> (bootstrap_error, string list) io" where
  "install_archive cap hash untar p artifact install_dir =
     io_bind (read_verified hash p artifact) (\<lambda>bs.
     io_bind (io_of (plan untar bs artifact)) (\<lambda>files.
     io_bind (write_all cap hash untar bs files install_dir) (\<lambda>_.
       io_ok (map relative files))))"

section \<open>Validation comes first\<close>

lemma read_verified_effect:
  assumes "read_verified hash p artifact w = (r, w')"
  shows "root w' = root w \<and> trace w' = trace w \<and>
    (case r of
       Inr bs \<Rightarrow> of_bytes hash bs = art_sha256 artifact \<and> of_nat (length bs) = art_size artifact
     | Inl e \<Rightarrow> e = archive_invalid \<or> e = digest_mismatch)"
proof -
  have "root (snd (reads q w1)) = root w1" "trace (snd (reads q w1)) = trace w1" for q w1
    by (auto simp: reads_def Let_def split: option.splits node.splits)
  then have rd: "reads q w1 = (rs, w2) \<Longrightarrow> root w2 = root w1 \<and> trace w2 = trace w1" for q rs w1 w2
    by (metis snd_conv)
  have op: "open_read p w = (r1, w1) \<Longrightarrow> root w1 = root w \<and> trace w1 = trace w" for r1 w1
    by (auto simp: open_read_def syscall_def Let_def split: option.splits sum.splits)
  show ?thesis using assms
    by (auto simp: read_verified_def io_bind_def io_map_err_def split: prod.splits sum.splits if_splits
        dest!: op rd)
qed

text \<open>What was verified is what the path named, up to the largest length the type of sizes can tell.\<close>

lemma verified_copy_reads:
  assumes "copy_limited n (fst (reads q w)) [] = Inr bs" and "0 < n"
  shows "\<exists>a contents. node_at (root w) q = Some (File a contents) \<and> bs = take n contents"
proof -
  obtain m where n: "n = Suc m" using assms(2) by (cases n) auto
  show ?thesis
  proof (cases "\<exists>a c. node_at (root w) q = Some (File a c)")
    case True
    then obtain a c where f: "node_at (root w) q = Some (File a c)" by blast
    have "bs = take n c"
    proof (cases "fault w (tick w)")
      case None
      then have "copy_limited (Suc m) [Inr c] [] = Inr bs" using assms(1) f by (simp add: reads_def n)
      then show ?thesis by (cases "Suc m - length c") (auto simp: n split: if_splits)
    next
      case (Some ek)
      obtain e k where "ek = (e, k)" by fastforce
      then have "copy_limited (Suc m) ((if take k c = [] then [] else [Inr (take k c)]) @ [Inl e]) [] = Inr bs"
        using assms(1) f Some by (simp add: reads_def n)
      then show ?thesis by (cases "Suc m - length (take k c)") (auto simp: n min_def split: if_splits)
    qed
    with f show ?thesis by blast
  next
    case False
    then have "fst (reads q w) = [Inl IsADirectory]" by (auto simp: reads_def Let_def split: option.split node.split)
    then show ?thesis using assms(1) by (simp add: n)
  qed
qed

lemma read_verified_contents:
  assumes "read_verified hash p artifact w = (Inr bs, w')"
  shows "\<exists>q a contents. resolve True (root w) p = Inr q \<and> node_at (root w) q = Some (File a contents) \<and> bs = take (2 ^ 64 - 1) contents"
proof -
  let ?n = "unat (saturating_add (art_size artifact) 1)"
  obtain ro v where o: "open_read p w = (ro, v)" by fastforce
  then obtain q where ro: "ro = Inr q" using assms by (cases ro) (auto simp: read_verified_def io_bind_def io_map_err_def)
  then have q: "resolve True (root w) p = Inr q" "root v = root w"
    using o by (auto simp: open_read_def syscall_def Let_def split: option.splits sum.splits)
  obtain rs v' where rd: "reads q v = (rs, v')" by fastforce
  have c: "copy_limited ?n (fst (reads q v)) [] = Inr bs" and len: "of_nat (length bs) = art_size artifact"
    using assms o ro rd by (auto simp: read_verified_def io_bind_def io_map_err_def split: sum.splits if_splits)
  have sat: "?n = (if unat (art_size artifact) + 1 < 2 ^ 64 then unat (art_size artifact) + 1 else 2 ^ 64 - 1)"
    by (simp add: saturating_add_def unat_word_ariths unsigned_minus_1_eq_mask mask_eq_exp_minus_1)
  then have "0 < ?n" by simp
  from verified_copy_reads [OF c this] q(2) obtain a contents where
    f: "node_at (root w) q = Some (File a contents)" "bs = take ?n contents" by auto
  have "bs = take (2 ^ 64 - 1) contents"
  proof (cases "unat (art_size artifact) + 1 < 2 ^ 64")
    case True
    then have n: "?n = unat (art_size artifact) + 1" using sat by simp
    then have "length bs < 2 ^ 64" using True f(2) by simp
    then have "length bs = unat (art_size artifact)" using arg_cong [OF len, of unat] by (simp add: unat_of_nat take_bit_nat_eq_self)
    then have "bs = contents" "length contents < 2 ^ 64" using f(2) n True by auto
    then show ?thesis by simp
  next
    case False
    then have "?n = 2 ^ 64 - 1" using sat by simp
    then show ?thesis using f(2) by simp
  qed
  with q(1) f(1) show ?thesis by blast
qed

text \<open>
  C16: nothing is written before everything is validated, and what is written is what was validated. Either
  the bytes of the file that the path named hash to the manifest's digest and have its size, the whole archive
  passes planning, and what follows, from a file system still as it was, is the writing of the planned files
  from those very bytes (and a success then reports exactly the manifest's file list, sorted); or the
  installation fails as an invalid or mismatching archive with the file system untouched, and lists no written
  files.
\<close>

theorem install_validates_first:
  "case install_archive cap hash untar p artifact dir w of (r, w') \<Rightarrow>
     (\<exists>q a contents bs files w1 rw.
        resolve True (root w) p = Inr q \<and> node_at (root w) q = Some (File a contents) \<and> bs = take (2 ^ 64 - 1) contents \<and>
        of_bytes hash bs = art_sha256 artifact \<and> of_nat (length bs) = art_size artifact \<and> plan untar bs artifact = Inr files \<and>
        read_verified hash p artifact w = (Inr bs, w1) \<and> root w1 = root w \<and> trace w1 = trace w \<and>
        write_all cap hash untar bs files dir w1 = (rw, w') \<and>
        r = (case rw of Inl e \<Rightarrow> Inl e | Inr _ \<Rightarrow> Inr (sort (art_files artifact)))) \<or>
     root w' = root w \<and> trace w' = trace w \<and>
     (\<exists>k. r = Inl (extension_error k) \<and> (k = ExtensionArchiveInvalid \<or> k = ExtensionArchiveDigestMismatch))"
proof -
  obtain r1 w1 where rv: "read_verified hash p artifact w = (r1, w1)" by fastforce
  note eff = read_verified_effect [OF rv]
  show ?thesis
  proof (cases r1)
    case (Inl e)
    then show ?thesis using rv eff
      by (auto simp: install_archive_def io_bind_def archive_invalid_def digest_mismatch_def)
  next
    case (Inr bs)
    show ?thesis
    proof (cases "plan untar bs artifact")
      case (Inl e)
      have "e = archive_invalid"
      proof -
        have "plan_loop es [] [] 0 = Inl e \<Longrightarrow> e = archive_invalid" for es
          using plan_loop_eq [of 0 es "[]" "[]"] by (auto split: if_splits)
        then show ?thesis using Inl
          by (auto simp: plan_def open_entries_def res_bind_def check_against_manifest_def Let_def
              split: sum.splits if_splits)
      qed
      then show ?thesis using rv eff Inr Inl
        by (auto simp: install_archive_def io_bind_def io_of_def archive_invalid_def)
    next
      case files: (Inr files)
      then have sorted: "map relative files = sort (art_files artifact)" by (auto simp: plan_iff comp_def)
      obtain rw w2 where wa: "write_all cap hash untar bs files dir w1 = (rw, w2)" by fastforce
      have run: "install_archive cap hash untar p artifact dir w =
          (case rw of Inl e \<Rightarrow> Inl e | Inr _ \<Rightarrow> Inr (sort (art_files artifact)), w2)"
        using rv Inr files wa sorted by (simp add: install_archive_def io_bind_def io_of_def io_ok_def split: sum.split)
      from read_verified_contents [OF rv [unfolded Inr]] obtain q a contents where
        "resolve True (root w) p = Inr q" "node_at (root w) q = Some (File a contents)" "bs = take (2 ^ 64 - 1) contents" by blast
      then show ?thesis unfolding run prod.case using rv eff Inr files wa by (intro disjI1) auto
    qed
  qed
qed

text \<open>
  the decompression budget. What is read of one entry is at most 64 MiB and at most the
  remaining budget, the budget decreases by exactly what was read (it cannot wrap below zero), and
  the only failure is an invalid archive.
\<close>

theorem read_entry_bounded_safe:
  "case read_entry_bounded e budget of
     Inl err \<Rightarrow> err = archive_invalid
   | Inr (contents, budget') \<Rightarrow>
       length contents \<le> 64 * 1024 * 1024 \<and> unat budget' + length contents = unat budget"
proof -
  define l where "l = min ENTRY_DECOMPRESSED_CAP budget"
  have "l \<le> ENTRY_DECOMPRESSED_CAP" and lb: "l \<le> budget" by (simp_all add: l_def)
  then have small: "unat l \<le> 67108864" by (simp add: ENTRY_DECOMPRESSED_CAP_def word_le_nat_alt)
  have lim: "unat (saturating_add l 1) = unat l + 1"
    using small by (simp add: saturating_add_def unat_word_ariths)
  have ok: "length c \<le> 67108864 \<and> unat (budget - of_nat (length c)) + length c = unat budget"
    if c: "copy_limited (unat l + 1) (te_reads e) [] = Inr c" and le: "\<not> l < of_nat (length c)" for c
  proof -
    have "length c \<le> unat l + 1" using copy_limited_length [OF c] by simp
    then have u: "unat (of_nat (length c) :: u64) = length c"
      using small by (simp add: unat_of_nat take_bit_nat_eq_self)
    then have len: "length c \<le> unat l" using le by (simp add: word_less_nat_alt)
    then have "of_nat (length c) \<le> budget" using lb u by (simp add: word_le_nat_alt)
    then have "unat (budget - of_nat (length c)) = unat budget - length c"
      using u by (simp add: unat_sub)
    then show ?thesis using len small lb by (simp add: word_le_nat_alt)
  qed
  show ?thesis
    unfolding read_entry_bounded_def l_def [symmetric] Let_def lim using ok
    by (auto split: sum.splits)
qed

section \<open>What a failed installation reports\<close>

text \<open>The planned names that the entries of an archive stand for, in archive order.\<close>

definition target_of :: "planned_file list \<Rightarrow> tar_entry \<Rightarrow> planned_file option" where
  "target_of files e =
     Option.bind (classify_entry_path (path_bytes_lossy e)) (\<lambda>n. find (\<lambda>f. relative f = n) files)"

definition targets :: "planned_file list \<Rightarrow> tar_entry list \<Rightarrow> string list" where
  "targets files es = map relative (List.map_filter (target_of files) es)"

lemma targets_simps [simp]:
  "targets files [] = []"
  "targets files (e # es) =
     (case target_of files e of None \<Rightarrow> targets files es | Some f \<Rightarrow> relative f # targets files es)"
  by (auto simp: targets_def List.map_filter_simps split: option.splits)

text \<open>
  The run in which all of some entries have been written: those that stand for no planned file are passed
  over, each of the others is read within the remaining budget and what was read is written to its file.
\<close>

inductive entries_written ::
  "cap_std \<Rightarrow> (bytes \<Rightarrow> bytes) \<Rightarrow> write_context \<Rightarrow> planned_file list \<Rightarrow> tar_entry list \<Rightarrow> u64 \<Rightarrow> world \<Rightarrow> u64 \<Rightarrow> world \<Rightarrow> bool"
  for cap hash ctx files where
  none: "entries_written cap hash ctx files [] b w b w"
| skipped: "target_of files e = None \<Longrightarrow> entries_written cap hash ctx files es b w b' w' \<Longrightarrow> entries_written cap hash ctx files (e # es) b w b' w'"
| stored: "target_of files e = Some f \<Longrightarrow> read_entry_bounded e b = Inr (contents, b1) \<Longrightarrow>
    write_file cap hash ctx f contents w = (Inr (), w1) \<Longrightarrow> entries_written cap hash ctx files es b1 w1 b' w' \<Longrightarrow>
    entries_written cap hash ctx files (e # es) b w b' w'"

text \<open>Where a run stopped: at an entry that could not be read within its bounds, or whose file could not be written.\<close>

definition stopped_at ::
  "cap_std \<Rightarrow> (bytes \<Rightarrow> bytes) \<Rightarrow> write_context \<Rightarrow> planned_file \<Rightarrow> tar_entry \<Rightarrow> u64 \<Rightarrow> world \<Rightarrow> bootstrap_error_kind \<Rightarrow> world \<Rightarrow> bool" where
  "stopped_at cap hash ctx f e b w k w' \<longleftrightarrow>
     (case read_entry_bounded e b of
        Inl _ \<Rightarrow> k = ExtensionArchiveInvalid \<and> w' = w
      | Inr (contents, _) \<Rightarrow> k = ExtensionInstallFailed \<and> write_file cap hash ctx f contents w = (Inl (), w'))"

lemma write_loop_reports:
  "case write_loop cap hash ctx files (map Inr es) sofar budget w of
     (Inr names, w') \<Rightarrow> names = sofar @ targets files es \<and> (\<exists>b'. entries_written cap hash ctx files es budget w b' w')
   | (Inl err, w') \<Rightarrow>
       \<exists>es1 e es2 f b1 w1. es = es1 @ e # es2 \<and> target_of files e = Some f \<and> entries_written cap hash ctx files es1 budget w b1 w1 \<and>
         stopped_at cap hash ctx f e b1 w1 (kind err) w' \<and> report_written err = sofar @ targets files es1"
proof (induction es arbitrary: sofar budget w)
  case Nil
  then show ?case by (auto simp: io_ok_def intro: entries_written.none)
next
  case (Cons e es)
  show ?case
  proof (cases "target_of files e")
    case None
    have wl: "write_loop cap hash ctx files (map Inr (e # es)) sofar budget =
        write_loop cap hash ctx files (map Inr es) sofar budget"
      using None by (simp add: target_of_def)
    obtain r w' where run: "write_loop cap hash ctx files (map Inr es) sofar budget w = (r, w')" by fastforce
    have sk: "entries_written cap hash ctx files (e # es1) budget w b' v" if "entries_written cap hash ctx files es1 budget w b' v" for es1 b' v
      by (rule entries_written.skipped [OF None that])
    have tg: "targets files (e # es1) = targets files es1" for es1 using None by simp
    note IH = Cons.IH [where sofar = sofar and budget = budget and w = w]
    show ?thesis
    proof (cases r)
      case (Inl err)
      with IH run obtain es1 e' es2 f' b1 v where
        x: "es = es1 @ e' # es2" "target_of files e' = Some f'" "entries_written cap hash ctx files es1 budget w b1 v"
          "stopped_at cap hash ctx f' e' b1 v (kind err) w'" "report_written err = sofar @ targets files es1" by auto
      have "e # es = (e # es1) @ e' # es2" "report_written err = sofar @ targets files (e # es1)" using x(1,5) tg by simp_all
      then show ?thesis unfolding wl run Inl prod.case sum.case using x(2,4) sk [OF x(3)] by blast
    next
      case (Inr names)
      then have "names = sofar @ targets files (e # es)" "\<exists>b'. entries_written cap hash ctx files es budget w b' w'"
        using IH run unfolding tg by auto
      then show ?thesis unfolding wl run Inr prod.case sum.case using sk by blast
    qed
  next
    case (Some f)
    have first: "\<exists>es1 e' es2 f' b1 v. e # es = es1 @ e' # es2 \<and> target_of files e' = Some f' \<and> entries_written cap hash ctx files es1 budget w b1 v \<and>
        stopped_at cap hash ctx f' e' b1 v (kind err) w' \<and> report_written err = sofar @ targets files es1"
      if "stopped_at cap hash ctx f e budget w (kind err) w'" "report_written err = sofar" for err w'
      using that Some entries_written.none
      by (intro exI [of _ "[]"] exI [of _ e] exI [of _ es] exI [of _ f] exI [of _ budget] exI [of _ w]) simp
    show ?thesis
    proof (cases "read_entry_bounded e budget")
      case (Inl err)
      then have "err = archive_invalid"
        by (auto simp: read_entry_bounded_def Let_def split: sum.splits if_splits)
      then have wl: "write_loop cap hash ctx files (map Inr (e # es)) sofar budget w = (Inl (over_cap_after_writing sofar archive_invalid), w)"
        using Some Inl by (simp add: target_of_def io_err_def)
      have "kind (over_cap_after_writing sofar archive_invalid) = ExtensionArchiveInvalid"
        "report_written (over_cap_after_writing sofar archive_invalid) = sofar"
        by (simp_all add: over_cap_after_writing_def archive_invalid_def)
      with Inl show ?thesis unfolding wl prod.case sum.case by (intro first) (simp_all add: stopped_at_def)
    next
      case (Inr cb)
      obtain c b where cb: "cb = (c, b)" by fastforce
      obtain r w1 where wf: "write_file cap hash ctx f c w = (r, w1)" by fastforce
      have step: "write_loop cap hash ctx files (map Inr (e # es)) sofar budget w =
          (case r of Inl _ \<Rightarrow> (Inl (install_failed sofar), w1)
           | Inr _ \<Rightarrow> write_loop cap hash ctx files (map Inr es) (sofar @ [relative f]) b w1)"
        using Some Inr wf by (simp add: target_of_def cb io_bind_def io_map_err_def split: sum.splits)
      show ?thesis
      proof (cases r)
        case (Inl x)
        then have "stopped_at cap hash ctx f e budget w ExtensionInstallFailed w1"
          using Inr cb wf by (simp add: stopped_at_def)
        then show ?thesis unfolding step Inl sum.case prod.case by (intro first) (simp_all add: install_failed_def)
      next
        case ok: (Inr u)
        obtain r' w' where run: "write_loop cap hash ctx files (map Inr es) (sofar @ [relative f]) b w1 = (r', w')" by fastforce
        have st: "entries_written cap hash ctx files (e # es1) budget w b' v" if "entries_written cap hash ctx files es1 b w1 b' v" for es1 b' v
          using entries_written.stored [OF Some] Inr cb wf ok that by simp
        have tg: "targets files (e # es1) = relative f # targets files es1" for es1 using Some by simp
        from Cons.IH [where sofar = "sofar @ [relative f]" and budget = b and w = w1] show ?thesis
        proof (cases r')
          case (Inl err)
          with Cons.IH [where sofar = "sofar @ [relative f]" and budget = b and w = w1] run obtain es1 e' es2 f' b1 v where
            x: "es = es1 @ e' # es2" "target_of files e' = Some f'" "entries_written cap hash ctx files es1 b w1 b1 v"
              "stopped_at cap hash ctx f' e' b1 v (kind err) w'" "report_written err = (sofar @ [relative f]) @ targets files es1" by auto
          have "e # es = (e # es1) @ e' # es2" "report_written err = sofar @ targets files (e # es1)" using x(1,5) tg by simp_all
          then show ?thesis unfolding step ok sum.case run Inl prod.case using x(2,4) st [OF x(3)] by blast
        next
          case (Inr names)
          then have "names = sofar @ targets files (e # es)" "\<exists>b'. entries_written cap hash ctx files es b w1 b' w'"
            using Cons.IH [where sofar = "sofar @ [relative f]" and budget = b and w = w1] run unfolding tg by auto
          then show ?thesis unfolding step ok sum.case run Inr prod.case using st by blast
        qed
      qed
    qed
  qed
qed

text \<open>
  C28: a failed installation says what it wrote. The entries are those of an archive that planning has read to
  its end. If writing stops part-way, it stopped at an entry that exceeds
  its limits or whose file could not be written, every earlier entry that stands for a planned file had been
  written, and the error, of the kind of that failure, lists exactly those files in archive order; if it
  succeeds, every entry that stands for a planned file was written.
\<close>

theorem partial_install_reported:
  "case write_loop cap hash ctx files (map Inr es) [] budget w of
     (Inr names, w') \<Rightarrow> names = targets files es \<and> (\<exists>b'. entries_written cap hash ctx files es budget w b' w')
   | (Inl err, w') \<Rightarrow>
       \<exists>es1 e es2 f b1 w1. es = es1 @ e # es2 \<and> target_of files e = Some f \<and> entries_written cap hash ctx files es1 budget w b1 w1 \<and>
         stopped_at cap hash ctx f e b1 w1 (kind err) w' \<and> report_written err = targets files es1"
  by (rule write_loop_reports [where sofar = "[]", unfolded append_Nil])

end
