(* ===== verification/ExtPlacement.thy ===== *)
theory ExtPlacement
  imports ExtWrite
begin

text \<open>
  What pass two achieves, for a directory capability that behaves as \<open>cap-std\<close> documents: the
  interface is the locale \<open>cap_tree\<close>, the client lemmas about \<open>write.rs\<close> are proved in it once, and it
  is interpreted on the file system model.
\<close>

section \<open>States of the tree\<close>

definition real_dir :: "world \<Rightarrow> path \<Rightarrow> bool" where
  "real_dir w p \<longleftrightarrow> (\<exists>a cs. node_at (root w) p = Some (Dir a cs))"

definition file_at :: "world \<Rightarrow> path \<Rightarrow> attr \<Rightarrow> bytes \<Rightarrow> bool" where
  "file_at w p a bs \<longleftrightarrow> node_at (root w) p = Some (File a bs)"

text \<open>Files outside a set of paths are untouched, and no directory goes away.\<close>

definition keeps :: "path set \<Rightarrow> world \<Rightarrow> world \<Rightarrow> bool" where
  "keeps S w w' \<longleftrightarrow>
     (\<forall>x a bs. x \<notin> S \<longrightarrow> file_at w x a bs \<longrightarrow> file_at w' x a bs) \<and> (\<forall>x. real_dir w x \<longrightarrow> real_dir w' x)"

lemma keeps_root: "root w' = root w \<Longrightarrow> keeps S w w'"
  by (simp add: keeps_def file_at_def real_dir_def)

lemma keeps_trans: "keeps S w w1 \<Longrightarrow> keeps T w1 w2 \<Longrightarrow> keeps (S \<union> T) w w2"
  by (auto simp: keeps_def)

lemma keeps_mono: "keeps S w w' \<Longrightarrow> S \<subseteq> T \<Longrightarrow> keeps T w w'"
  by (auto simp: keeps_def)

lemma keeps_dir: "keeps S w w' \<Longrightarrow> real_dir w p \<Longrightarrow> real_dir w' p"
  by (simp add: keeps_def)

text \<open>A path that was absent at first may be left out of the changed paths.\<close>

lemma keeps_absent: "keeps (insert t S) w w' \<Longrightarrow> node_at (root w) t = None \<Longrightarrow> keeps S w w'"
  unfolding keeps_def file_at_def by (metis insert_iff option.distinct(1))

abbreviation named :: "path \<Rightarrow> string \<Rightarrow> path" where
  "named d n \<equiv> d @ path_names n"

definition canon :: "path \<Rightarrow> string \<Rightarrow> bool" where
  "canon d n \<longleftrightarrow> ''..'' \<notin> set (named d n) \<and> path_names n \<noteq> []"

text \<open>The attributes of an installed file.\<close>

definition stamped :: "planned_file \<Rightarrow> owner \<Rightarrow> attr" where
  "stamped pf ow = \<lparr>mode = planned_mode pf, uid = owner_uid ow, gid = owner_gid ow\<rparr>"

lemma path_names_join:
  assumes "ps \<noteq> []" and "\<And>p. p \<in> set ps \<Longrightarrow> plain_name p"
  shows "path_names (join_with ''/'' ps) = ps"
proof -
  have "List.map_filter component_name (map Normal ps) = ps"
    by (induction ps) (auto simp: List.map_filter_simps component_name_def)
  then show ?thesis using path_components_join [OF assms] by (simp add: path_names_def)
qed

lemma join_with_snoc: "ps \<noteq> [] \<Longrightarrow> join_with s (ps @ [p]) = join_with s ps @ s @ p"
  by (induction ps rule: induct_list012) auto

lemma show_nat_no_slash: "CHR ''/'' \<notin> set (show_nat n)"
proof
  assume "CHR ''/'' \<in> set (show_nat n)"
  then have "is_ascii_digit (CHR ''/'')" using show_nat_digits [of n] by (simp add: list_all_iff)
  then show False by (simp add: is_ascii_digit_def)
qed

lemma temp_name_plain: "plain_name (fst (temp_name w))"
  by (simp add: temp_name_def plain_name_def show_nat_no_slash)

definition cap_dir_ok :: "path \<Rightarrow> string \<Rightarrow> bool" where
  "cap_dir_ok d rel \<longleftrightarrow> ''..'' \<notin> set d \<and> path_names rel \<noteq> [] \<and> list_all plain_name (path_names rel)"

lemma node_at_absent_below: "node_at r X = None \<Longrightarrow> prefix X P \<Longrightarrow> node_at r P = None"
  using node_at_append [of r X] by (auto simp: prefix_def simp del: append.assoc)

text \<open>A bounded read that stays below its limit reads the whole entry.\<close>

lemma copy_limited_whole:
  "copy_limited n rs acc = Inr c \<Longrightarrow> length c < length acc + n \<Longrightarrow> read_loop rs acc = Inr c"
proof (induction n rs acc rule: copy_limited.induct)
  case (4 n ch rs acc)
  show ?case
  proof (cases "ch = []")
    case False
    have "length ch < Suc n"
    proof (rule ccontr)
      assume "\<not> length ch < Suc n"
      then have "c = acc @ take (Suc n) ch" using "4.prems"(1) False by simp
      then show False using "4.prems"(2) \<open>\<not> length ch < Suc n\<close> by simp
    qed
    then show ?thesis using 4 False by simp
  qed (use 4 in simp)
qed simp_all

definition entry_contents :: "tar_entry \<Rightarrow> bytes" where
  "entry_contents e = (case read_loop (te_reads e) [] of Inr c \<Rightarrow> c | Inl _ \<Rightarrow> [])"

lemma read_entry_bounded_contents:
  assumes "read_entry_bounded e budget = Inr (c, b)"
  shows "entry_contents e = c"
proof -
  define l where "l = min ENTRY_DECOMPRESSED_CAP budget"
  have "l \<le> ENTRY_DECOMPRESSED_CAP" by (simp add: l_def)
  then have small: "unat l \<le> 67108864" by (simp add: ENTRY_DECOMPRESSED_CAP_def word_le_nat_alt)
  have lim: "unat (saturating_add l 1) = unat l + 1"
    using small by (simp add: saturating_add_def unat_word_ariths)
  have c: "copy_limited (unat l + 1) (te_reads e) [] = Inr c" and le: "\<not> l < of_nat (length c)"
    using assms unfolding read_entry_bounded_def l_def [symmetric] Let_def lim
    by (auto split: sum.splits if_splits)
  have "length c \<le> unat l + 1" using copy_limited_length [OF c] by simp
  then have "unat (of_nat (length c) :: u64) = length c"
    using small by (simp add: unat_of_nat take_bit_nat_eq_self)
  then have "length c < 0 + (unat l + 1)" using le by (simp add: word_less_nat_alt)
  with copy_limited_whole [OF c] show ?thesis by (simp add: entry_contents_def)
qed

text \<open>The contents an installed name ends up with: those of the last entry that stands for it.\<close>

definition final_contents :: "planned_file list \<Rightarrow> tar_entry list \<Rightarrow> string \<Rightarrow> bytes" where
  "final_contents files es n =
     entry_contents (last (filter (\<lambda>e. map_option relative (target_of files e) = Some n) es))"

lemma in_targets: "n \<in> set (targets files es) \<longleftrightarrow> (\<exists>e \<in> set es. map_option relative (target_of files e) = Some n)"
  by (induction es) (auto split: option.splits)

lemma target_ofD: "target_of files e = Some f \<Longrightarrow> f \<in> set files"
  by (auto simp: target_of_def bind_eq_Some_conv find_Some_iff)

section \<open>The interface\<close>

locale cap_tree =
  fixes cap :: cap_std
  assumes open_dir: "cap_open_ambient_dir cap r w = (Inr d, w') \<Longrightarrow>
      root w' = root w \<and> resolve True (root w) r = Inr d \<and> real_dir w d \<and> ''..'' \<notin> set d"
    and lstat: "cap_symlink_metadata cap d n w = (res, w') \<Longrightarrow> root w' = root w"
    and lstat_dir: "cap_symlink_metadata cap d n w = (Inr KDir, w') \<Longrightarrow> canon d n \<Longrightarrow>
      real_dir w (butlast (named d n)) \<Longrightarrow> real_dir w (named d n)"
    and lstat_absent: "cap_symlink_metadata cap d n w = (Inl NotFound, w') \<Longrightarrow> canon d n \<Longrightarrow>
      real_dir w (butlast (named d n)) \<Longrightarrow> node_at (root w) (named d n) = None"
    and open_file: "cap_open_nofollow cap d n w = (res', w') \<Longrightarrow> root w' = root w"
    and open_file_name: "cap_open_nofollow cap d n w = (Inr h, w') \<Longrightarrow> canon d n \<Longrightarrow>
      h = named d n \<and>
      (\<forall>P c. prefix (P @ [c]) (named d n) \<longrightarrow> real_dir w P \<longrightarrow> node_at (root w) (P @ [c]) \<noteq> None)"
    and meta: "cap_metadata cap h w = (res'', w') \<Longrightarrow> root w' = root w"
    and meta_file: "cap_metadata cap h w = (Inr (k, u, g), w') \<Longrightarrow> ''..'' \<notin> set h \<Longrightarrow>
      real_dir w (butlast h) \<Longrightarrow>
      (k = KFile \<longrightarrow> (\<exists>a bs. file_at w h a bs)) \<and> (\<forall>a bs. file_at w h a bs \<longrightarrow> u = uid a \<and> g = gid a)"
    and reading: "cap_reads cap h w = (rs, w') \<Longrightarrow> root w' = root w"
    and reading_file: "cap_reads cap h w = (rs, w') \<Longrightarrow> ''..'' \<notin> set h \<Longrightarrow> file_at w h a bs \<Longrightarrow>
      of_reader hash rs = Inr digest \<Longrightarrow> digest = of_bytes hash bs"
    and mkdirs: "cap_create_dir_all cap d n w = (Inr (), w') \<Longrightarrow> canon d n \<Longrightarrow> real_dir w d \<Longrightarrow>
      (\<And>P. prefix d P \<Longrightarrow> prefix P (named d n) \<Longrightarrow> real_dir w P \<or> node_at (root w) P = None) \<Longrightarrow>
      real_dir w' (named d n) \<and> keeps {} w w'"
    and create_failed: "cap_create_new cap d n w = (Inl e, w') \<Longrightarrow> root w' = root w"
    and create: "cap_create_new cap d n w = (Inr h, w') \<Longrightarrow> canon d n \<Longrightarrow> real_dir w (butlast (named d n)) \<Longrightarrow>
      h = named d n \<and> node_at (root w) h = None \<and> (\<exists>a. file_at w' h a []) \<and> keeps {} w w'"
    and writing: "cap_write_all cap h bs w = (Inr (), w') \<Longrightarrow> ''..'' \<notin> set h \<Longrightarrow> file_at w h a old \<Longrightarrow>
      file_at w' h a (old @ bs) \<and> keeps {h} w w'"
    and chmod: "cap_set_permissions cap h m w = (Inr (), w') \<Longrightarrow> ''..'' \<notin> set h \<Longrightarrow> file_at w h a bs \<Longrightarrow>
      file_at w' h (a\<lparr>mode := m\<rparr>) bs \<and> keeps {h} w w'"
    and chown: "cap_fchown cap h u g w = (Inr (), w') \<Longrightarrow> ''..'' \<notin> set h \<Longrightarrow> file_at w h a bs \<Longrightarrow>
      file_at w' h (a\<lparr>uid := u, gid := g\<rparr>) bs \<and> keeps {h} w w'"
    and rename: "cap_rename cap d t n w = (Inr (), w') \<Longrightarrow> canon d t \<Longrightarrow> canon d n \<Longrightarrow>
      file_at w (named d t) a bs \<Longrightarrow> real_dir w (butlast (named d n)) \<Longrightarrow>
      file_at w' (named d n) a bs \<and> keeps {named d t, named d n} w w'"
begin

lemma set_mode_ok:
  "set_mode cap h m w = (Inr (), w') \<Longrightarrow> ''..'' \<notin> set h \<Longrightarrow> file_at w h a bs \<Longrightarrow>
   file_at w' h (a\<lparr>mode := m\<rparr>) bs \<and> keeps {h} w w'"
  using chmod by (auto simp: set_mode_def io_map_err_def split: prod.splits sum.splits)

lemma apply_owner_ok:
  assumes "apply_owner cap h ow w = (Inr (), w')" and "''..'' \<notin> set h" and "file_at w h a bs"
    and "real_dir w (butlast h)"
  shows "file_at w' h (a\<lparr>uid := owner_uid ow, gid := owner_gid ow\<rparr>) bs \<and> keeps {h} w w'"
proof -
  obtain k u g w1 where m: "cap_metadata cap h w = (Inr (k, u, g), w1)"
    using assms(1) by (auto simp: apply_owner_def io_bind_def io_map_err_def split: prod.splits sum.splits)
  note mf = meta [OF m] meta_file [OF m assms(2,4)]
  have f1: "file_at w1 h a bs" and ug: "u = uid a" "g = gid a" using mf assms(3) by (auto simp: file_at_def)
  show ?thesis
  proof (cases "u = owner_uid ow \<and> g = owner_gid ow")
    case True
    then have "w' = w1" using assms(1) m
      by (auto simp: apply_owner_def io_bind_def io_map_err_def io_ok_def split: prod.splits sum.splits)
    then show ?thesis using True f1 ug mf(1) by (cases a) (auto simp: keeps_root)
  next
    case False
    then have "cap_fchown cap h (owner_uid ow) (owner_gid ow) w1 = (Inr (), w')" using assms(1) m
      by (auto simp: apply_owner_def io_bind_def io_map_err_def split: prod.splits sum.splits)
    from chown [OF this assms(2) f1] mf(1) show ?thesis
      using keeps_trans [OF keeps_root [OF mf(1), of "{}"]] by auto
  qed
qed

lemma stamp_ok:
  assumes "io_bind (set_mode cap h (planned_mode pf)) (\<lambda>_. apply_owner cap h ow) w = (Inr (), w')"
    and "''..'' \<notin> set h" and "file_at w h a bs" and "real_dir w (butlast h)"
  shows "file_at w' h (stamped pf ow) bs \<and> keeps {h} w w'"
proof -
  obtain w1 where m: "set_mode cap h (planned_mode pf) w = (Inr (), w1)" and o: "apply_owner cap h ow w1 = (Inr (), w')"
    using assms(1) by (auto simp: io_bind_def split: prod.splits sum.splits)
  note s = set_mode_ok [OF m assms(2,3)]
  then have "real_dir w1 (butlast h)" using assms(4) keeps_dir by blast
  note t = apply_owner_ok [OF o assms(2) conjunct1 [OF s] this]
  then show ?thesis using keeps_trans [OF conjunct2 [OF s] conjunct2 [OF t]]
    by (cases a) (simp add: stamped_def)
qed

lemma real_parents_loop_ok:
  assumes "real_parents_loop cap d cur cs w = (Inr (), w')" and "real_dir w (d @ cur)"
    and "''..'' \<notin> set d" and "list_all plain_name (cur @ cs)"
  shows "root w' = root w \<and>
    (\<forall>P. prefix (d @ cur) P \<longrightarrow> prefix P (d @ cur @ cs) \<longrightarrow> real_dir w P \<or> node_at (root w) P = None)"
  using assms
proof (induction cs arbitrary: cur w)
  case Nil
  then show ?case by (auto simp: io_ok_def dest: prefix_order.antisym)
next
  case (Cons c cs)
  let ?n = "join_with ''/'' (cur @ [c])"
  have names: "path_names ?n = cur @ [c]"
    using Cons.prems(4) by (intro path_names_join) (auto simp: list_all_iff)
  have canon: "canon d ?n"
    using Cons.prems(3,4) by (auto simp: canon_def names list_all_iff plain_name_def)
  obtain r w1 where m: "cap_symlink_metadata cap d ?n w = (r, w1)" by fastforce
  note root1 = lstat [OF m]
  have par: "butlast (named d ?n) = d @ cur" by (simp add: names butlast_append)
  have here: "P = d @ cur \<or> prefix (d @ cur @ [c]) P"
    if "prefix (d @ cur) P" "prefix P (d @ cur @ c # cs)" for P
  proof -
    from that(1) obtain s where "P = (d @ cur) @ s" by (auto simp: prefix_def)
    with that(2) show ?thesis by (cases s) auto
  qed
  have step: "real_parents_loop cap d cur (c # cs) w =
      (case r of Inr k \<Rightarrow> if k = KDir then real_parents_loop cap d (cur @ [c]) cs w1 else (Inl (), w1)
       | Inl e \<Rightarrow> if e = NotFound then (Inr (), w1) else (Inl (), w1))"
    using m by (auto simp: io_match_def io_ok_def io_err_def Let_def split: sum.splits)
  show ?case
  proof (cases "r = Inr KDir")
    case True
    then have "real_dir w (d @ cur @ [c])"
      using lstat_dir [of d ?n w w1] m canon Cons.prems(2) by (simp add: names butlast_append)
    then have d1: "real_dir w1 (d @ cur @ [c])" using root1 by (simp add: real_dir_def)
    have same: "real_dir w1 P \<longleftrightarrow> real_dir w P" for P using root1 by (simp add: real_dir_def)
    have rest: "root w' = root w1 \<and> (\<forall>P. prefix (d @ cur @ [c]) P \<longrightarrow> prefix P (d @ (cur @ [c]) @ cs) \<longrightarrow>
        real_dir w1 P \<or> node_at (root w1) P = None)"
      using Cons.IH [of "cur @ [c]" w1] Cons.prems(1,3,4) d1 True by (simp add: step del: real_parents_loop.simps)
    then show ?thesis using here Cons.prems(2) root1
      by (metis same append.assoc append_Cons append_Nil)
  next
    case False
    then have r: "r = Inl NotFound" "w' = w1" using Cons.prems(1) unfolding step
      by (auto split: sum.splits if_splits)
    have absent: "node_at (root w) (d @ cur @ [c]) = None"
      using r lstat_absent [of d ?n w w1] m canon Cons.prems(2) by (simp add: names butlast_append)
    have "node_at (root w) P = None" if "prefix (d @ cur @ [c]) P" for P
      by (rule node_at_absent_below [OF absent that])
    then have "real_dir w P \<or> node_at (root w) P = None"
      if "prefix (d @ cur) P" "prefix P (d @ cur @ c # cs)" for P
      using here [OF that] Cons.prems(2) by auto
    then show ?thesis using root1 r(2) by simp
  qed
qed

text \<open>When a name below could be opened, none of the directories above it was missing.\<close>

lemma all_real:
  assumes "real_dir w d" and "ps \<noteq> []"
    and "\<And>P. prefix d P \<Longrightarrow> prefix P (d @ butlast ps) \<Longrightarrow> real_dir w P \<or> node_at (root w) P = None"
    and "\<And>P c. prefix (P @ [c]) (d @ ps) \<Longrightarrow> real_dir w P \<Longrightarrow> node_at (root w) (P @ [c]) \<noteq> None"
  shows "real_dir w (d @ butlast ps)"
proof -
  have "real_dir w (d @ take k (butlast ps))" for k
  proof (induction k)
    case (Suc k)
    show ?case
    proof (cases "k < length (butlast ps)")
      case True
      then have t: "take (Suc k) (butlast ps) = take k (butlast ps) @ [butlast ps ! k]"
        by (simp add: take_Suc_conv_app_nth)
      have "prefix (d @ take (Suc k) (butlast ps)) (d @ butlast ps)" by (simp add: take_is_prefix)
      moreover have "prefix (d @ butlast ps) (d @ ps)" by (simp add: prefixeq_butlast)
      ultimately have "node_at (root w) ((d @ take k (butlast ps)) @ [butlast ps ! k]) \<noteq> None"
        using assms(4) [OF _ Suc.IH, of "butlast ps ! k"] t by (metis append.assoc prefix_order.trans)
      then show ?thesis
        using assms(3) [of "d @ take (Suc k) (butlast ps)"] take_is_prefix [of "Suc k" "butlast ps"] t by auto
    qed (use Suc in simp)
  qed (use assms(1) in simp)
  from this [of "length (butlast ps)"] show ?thesis by simp
qed

text \<open>A fresh temporary file beside the destination, after up to sixteen attempts.\<close>

lemma temp_candidate:
  assumes "cap_dir_ok d rel" and "plain_name name"
    and "cand = (case parent_of rel of None \<Rightarrow> name | Some p \<Rightarrow> p @ ''/'' @ name)"
  shows "path_names cand = butlast (path_names rel) @ [name]"
proof -
  have pl: "\<And>p. p \<in> set (butlast (path_names rel)) \<Longrightarrow> plain_name p"
    using assms(1) by (auto simp: cap_dir_ok_def list_all_iff dest: in_set_butlastD)
  have "cand = join_with ''/'' (butlast (path_names rel) @ [name])"
    using assms(3) by (auto simp: parent_of_def Let_def join_with_snoc)
  then show ?thesis using path_names_join [of "butlast (path_names rel) @ [name]"] pl assms(2) by auto
qed

lemma temp_loop_ok:
  assumes "temp_loop cap d (parent_of rel) n w = (Inr (h, cand), w')" and ok: "cap_dir_ok d rel"
    and "real_dir w (d @ butlast (path_names rel))"
  shows "\<exists>name. path_names cand = butlast (path_names rel) @ [name] \<and> name \<noteq> ''..'' \<and>
    h = named d cand \<and> node_at (root w) h = None \<and> (\<exists>a. file_at w' h a []) \<and> keeps {} w w'"
  using assms(1,3)
proof (induction n arbitrary: w)
  case (Suc n)
  obtain name w1 where t: "temp_name w = (name, w1)" by fastforce
  have plain: "plain_name name" and root1: "root w1 = root w"
    using t temp_name_plain [of w] by (auto simp: temp_name_def)
  let ?cand = "case parent_of rel of None \<Rightarrow> name | Some p \<Rightarrow> p @ ''/'' @ name"
  note names = temp_candidate [OF ok plain refl]
  have canon: "canon d ?cand" using ok plain
    by (auto simp: canon_def names cap_dir_ok_def plain_name_def list_all_iff dest: in_set_butlastD)
  have par: "real_dir w1 (butlast (named d ?cand))"
    using Suc.prems(2) root1 by (simp add: names butlast_append real_dir_def)
  obtain r w2 where c: "cap_create_new cap d ?cand w1 = (r, w2)" by fastforce
  show ?case
  proof (cases r)
    case (Inr f)
    then have eqs: "f = h" "?cand = cand" "w2 = w'" using Suc.prems(1) t c by (auto simp: Let_def)
    from create [OF c [unfolded Inr] canon par] names eqs root1 plain show ?thesis
      by (auto simp: keeps_def file_at_def real_dir_def plain_name_def)
  next
    case (Inl e)
    then have rest: "temp_loop cap d (parent_of rel) n w2 = (Inr (h, cand), w')"
      using Suc.prems(1) t c by (auto simp: Let_def split: if_splits)
    have root2: "root w2 = root w" using create_failed [OF c [unfolded Inl]] root1 by simp
    then have "real_dir w2 (d @ butlast (path_names rel))" using Suc.prems(2) by (simp add: real_dir_def)
    from Suc.IH [OF rest this] root2 show ?thesis by (auto simp: keeps_def file_at_def real_dir_def)
  qed
qed simp

lemma create_parents_ok:
  assumes "create_parents cap t rel w = (Inr (), w')" and d: "d = tree_dir t" and ok: "cap_dir_ok d rel"
    and "real_dir w d"
    and "\<And>P. prefix d P \<Longrightarrow> prefix P (d @ butlast (path_names rel)) \<Longrightarrow> real_dir w P \<or> node_at (root w) P = None"
  shows "real_dir w' (d @ butlast (path_names rel)) \<and> keeps {} w w'"
proof (cases "butlast (path_names rel) = []")
  case True
  then show ?thesis using assms(1,4)
    by (auto simp: create_parents_def parent_of_def io_ok_def keeps_root)
next
  case False
  let ?ps = "butlast (path_names rel)"
  have pl: "\<And>p. p \<in> set ?ps \<Longrightarrow> plain_name p"
    using ok by (auto simp: cap_dir_ok_def list_all_iff dest: in_set_butlastD)
  have names: "path_names (join_with ''/'' ?ps) = ?ps" using path_names_join [OF False pl] .
  have canon: "canon d (join_with ''/'' ?ps)"
    using ok pl False by (auto simp: canon_def names cap_dir_ok_def plain_name_def)
  have "cap_create_dir_all cap d (join_with ''/'' ?ps) w = (Inr (), w')"
    using assms(1) False
    by (auto simp: create_parents_def parent_of_def io_map_err_def d split: prod.splits sum.splits)
  from mkdirs [OF this canon assms(4)] assms(5) show ?thesis by (simp add: names)
qed

lemma fill_temp_ok:
  assumes "fill_temp cap ctx pf bs h w = (Inr (), w')" and "''..'' \<notin> set h" and "file_at w h a []"
    and "real_dir w (butlast h)"
  shows "file_at w' h (stamped pf (context_owner ctx)) bs \<and> keeps {h} w w'"
proof -
  obtain w1 where wr: "cap_write_all cap h bs w = (Inr (), w1)"
    and st: "io_bind (set_mode cap h (planned_mode pf)) (\<lambda>_. apply_owner cap h (context_owner ctx)) w1 = (Inr (), w')"
    using assms(1) by (auto simp: fill_temp_def io_bind_def io_map_err_def split: prod.splits sum.splits)
  note a = writing [OF wr assms(2,3)]
  then have "real_dir w1 (butlast h)" using assms(4) keeps_dir by blast
  note b = stamp_ok [OF st assms(2) conjunct1 [OF a] this]
  then show ?thesis using keeps_trans [OF conjunct2 [OF a] conjunct2 [OF b]] by simp
qed

lemma write_afresh_ok:
  assumes run: "write_afresh cap ctx pf bs w = (Inr (), w')" and d: "d = tree_dir (tree ctx)"
    and ok: "cap_dir_ok d (relative pf)" and "real_dir w d"
    and "\<And>P. prefix d P \<Longrightarrow> prefix P (d @ butlast (path_names (relative pf))) \<Longrightarrow>
           real_dir w P \<or> node_at (root w) P = None"
  shows "file_at w' (named d (relative pf)) (stamped pf (context_owner ctx)) bs \<and>
         keeps {named d (relative pf)} w w'"
proof -
  let ?rel = "relative pf"
  obtain w1 h cand w2 w3 where
      cp: "create_parents cap (tree ctx) ?rel w = (Inr (), w1)"
    and tl: "temp_loop cap d (parent_of ?rel) TEMP_NAME_ATTEMPTS w1 = (Inr (h, cand), w2)"
    and ft: "fill_temp cap ctx pf bs h w2 = (Inr (), w3)"
    and rn: "cap_rename cap d cand ?rel w3 = (Inr (), w')"
    using run
    by (auto simp: write_afresh_def io_bind_def io_match_def io_ok_def io_err_def create_temp_beside_def d place_def
        io_map_err_def split: prod.splits sum.splits)
  note p = create_parents_ok [OF cp d ok assms(4,5)]
  obtain name a where t: "path_names cand = butlast (path_names ?rel) @ [name]" "name \<noteq> ''..''"
      "h = named d cand" "node_at (root w1) h = None" "file_at w2 h a []" "keeps {} w1 w2"
    using temp_loop_ok [OF tl ok conjunct1 [OF p]] by blast
  have nodots: "''..'' \<notin> set (d @ path_names ?rel)"
    using ok by (auto simp: cap_dir_ok_def list_all_iff plain_name_def)
  then have hd: "''..'' \<notin> set h" using t(1,2,3) by (auto dest: in_set_butlastD)
  have bl: "butlast h = d @ butlast (path_names ?rel)" using t(1,3) by (simp add: butlast_append)
  have bl2: "butlast (named d ?rel) = d @ butlast (path_names ?rel)"
    using ok by (simp add: butlast_append cap_dir_ok_def)
  have dir2: "real_dir w2 (butlast h)" using bl p t(6) keeps_dir by auto
  note f = fill_temp_ok [OF ft hd t(5) dir2]
  have dir3: "real_dir w3 (butlast (named d ?rel))" using dir2 f bl bl2 keeps_dir by auto
  have canon: "canon d cand" "canon d ?rel"
    using hd nodots ok t(1,3) by (auto simp: canon_def cap_dir_ok_def)
  note r = rename [OF rn canon _ dir3, folded t(3), OF conjunct1 [OF f]]
  have "keeps {h, named d ?rel} w1 w'"
    using keeps_trans [OF keeps_trans [OF t(6) conjunct2 [OF f]] conjunct2 [OF r]] by (simp add: insert_commute)
  from keeps_absent [OF this t(4)] have "keeps {named d ?rel} w w'"
    using keeps_trans [OF conjunct2 [OF p]] by auto
  then show ?thesis using r by simp
qed

text \<open>
  A file that was written is at its name with the planned mode and the tree's owner, and holds the
  planned bytes or bytes of the same digest; no other file changed.
\<close>

lemma write_file_ok:
  assumes run: "write_file cap hash ctx pf bs w = (Inr (), w')" and d: "d = tree_dir (tree ctx)"
    and ok: "cap_dir_ok d (relative pf)" and dir: "real_dir w d"
  shows "(\<exists>c. file_at w' (named d (relative pf)) (stamped pf (context_owner ctx)) c \<and> of_bytes hash c = of_bytes hash bs) \<and>
         keeps {named d (relative pf)} w w'"
proof -
  let ?rel = "relative pf"
  let ?ps = "path_names ?rel"
  obtain w1 where rp: "real_parents_loop cap d [] (take (length ?ps - 1) ?ps) w = (Inr (), w1)"
    and rest: "(case inspect_destination cap hash (tree ctx) ?rel bs w1 of
         (Identical existing, w') \<Rightarrow> repair_existing cap ctx pf existing w'
       | (_, w') \<Rightarrow> write_afresh cap ctx pf bs w') = (Inr (), w')"
    using run by (auto simp: write_file_def require_real_parents_def io_bind_def Let_def d split: prod.splits sum.splits)
  have tk: "take (length ?ps - 1) ?ps = butlast ?ps" by (simp add: butlast_conv_take)
  have "list_all plain_name ([] @ butlast ?ps)" using ok
    by (auto simp: cap_dir_ok_def list_all_iff dest: in_set_butlastD)
  with real_parents_loop_ok [OF rp [unfolded tk]] dir ok
  have root1: "root w1 = root w"
    and par: "\<And>P. prefix d P \<Longrightarrow> prefix P (d @ butlast ?ps) \<Longrightarrow> real_dir w P \<or> node_at (root w) P = None"
    by (auto simp: cap_dir_ok_def)
  obtain found w2 where insp: "inspect_destination cap hash (tree ctx) ?rel bs w1 = (found, w2)" by fastforce
  obtain r2 w3 where od: "cap_open_nofollow cap d ?rel w1 = (r2, w3)" by fastforce
  note root3 = open_file [OF od]
  have root2: "root w2 = root w"
    using insp root1 root3 od d
    by (auto simp: inspect_destination_def io_bind_def open_destination_def io_match_def io_ok_def io_err_def
        require_regular_def compare_digest_def split: prod.splits sum.splits if_splits dest!: meta reading)
  have afresh: ?thesis if "write_afresh cap ctx pf bs w2 = (Inr (), w')"
  proof -
    have "file_at w' (named d ?rel) (stamped pf (context_owner ctx)) bs \<and> keeps {named d ?rel} w2 w'"
      by (rule write_afresh_ok [OF that d ok]) (use dir par root2 in \<open>auto simp: real_dir_def\<close>)
    then show ?thesis using root2 by (auto simp: keeps_def file_at_def real_dir_def)
  qed
  show ?thesis
  proof (cases "\<exists>h. found = Identical h")
    case False
    then show ?thesis using rest insp afresh by (auto split: destination.splits)
  next
    case True
    then obtain h where h: "found = Identical h" by blast
    obtain u g w4 rs where m: "cap_metadata cap h w3 = (Inr (KFile, u, g), w4)" and hr: "r2 = Inr h"
      and rd: "cap_reads cap h w4 = (rs, w2)" and dg: "of_reader hash rs = Inr (of_bytes hash bs)"
      using insp od d h
      by (auto simp: inspect_destination_def io_bind_def open_destination_def io_match_def io_ok_def io_err_def
          require_regular_def compare_digest_def split: prod.splits sum.splits if_splits)
    have canon: "canon d ?rel" and nodots: "''..'' \<notin> set (named d ?rel)"
      using ok by (auto simp: canon_def cap_dir_ok_def list_all_iff plain_name_def)
    note name = open_file_name [OF od [unfolded hr] canon]
    have "real_dir w (d @ butlast ?ps)"
      by (rule all_real [OF dir]) (use ok par name root1 in \<open>auto simp: cap_dir_ok_def real_dir_def\<close>)
    then have bl: "real_dir w (butlast h)" using name ok by (simp add: butlast_append cap_dir_ok_def)
    then have "real_dir w3 (butlast h)" using root1 root3 by (simp add: real_dir_def)
    then obtain a c where f: "file_at w3 h a c" using meta_file [OF m] name nodots by blast
    have root4: "root w4 = root w3" by (rule meta [OF m])
    then have f4: "file_at w4 h a c" using f by (simp add: file_at_def)
    have "of_bytes hash bs = of_bytes hash c" using reading_file [OF rd _ f4 dg] name nodots by simp
    moreover have "file_at w2 h a c" using f4 root1 root2 root3 root4 by (simp add: file_at_def)
    moreover have "repair_existing cap ctx pf h w2 = (Inr (), w')" using rest insp h by simp
    moreover have "real_dir w2 (butlast h)" using bl root2 by (simp add: real_dir_def)
    ultimately have "file_at w' h (stamped pf (context_owner ctx)) c" "keeps {h} w2 w'"
      using stamp_ok [of h pf "context_owner ctx" w2 w' a c] name nodots by (auto simp: repair_existing_def)
    then show ?thesis using name \<open>of_bytes hash bs = of_bytes hash c\<close> root2
      by (auto simp: keeps_def file_at_def real_dir_def)
  qed
qed

lemma write_loop_ok:
  assumes "write_loop cap hash ctx files (map Inr es) sofar budget w = (Inr names, w')"
    and d: "d = tree_dir (tree ctx)" and "real_dir w d"
    and ok: "\<And>f. f \<in> set files \<Longrightarrow> cap_dir_ok d (relative f)"
    and inj: "inj_on (\<lambda>f. path_names (relative f)) (set files)"
  shows "(\<forall>f \<in> set files. relative f \<in> set (targets files es) \<longrightarrow>
      (\<exists>c. file_at w' (named d (relative f)) (stamped f (context_owner ctx)) c \<and>
           of_bytes hash c = of_bytes hash (final_contents files es (relative f)))) \<and>
    keeps ((\<lambda>n. named d n) ` set (targets files es)) w w'"
  using assms(1,3)
proof (induction es arbitrary: sofar budget w)
  case Nil
  then show ?case by (auto simp: io_ok_def keeps_root)
next
  case (Cons e es)
  show ?case
  proof (cases "target_of files e")
    case None
    then have wl: "write_loop cap hash ctx files (map Inr es) sofar budget w = (Inr names, w')"
      using Cons.prems(1) by (simp add: target_of_def)
    have "final_contents files (e # es) n = final_contents files es n" for n
      using None by (simp add: final_contents_def)
    then show ?thesis using Cons.IH [OF wl Cons.prems(2)] None by simp
  next
    case (Some f)
    obtain c b w1 where rb: "read_entry_bounded e budget = Inr (c, b)"
      and wf: "write_file cap hash ctx f c w = (Inr (), w1)"
      and wl: "write_loop cap hash ctx files (map Inr es) (sofar @ [relative f]) b w1 = (Inr names, w')"
      using Cons.prems(1) Some
      by (auto simp: target_of_def io_bind_def io_map_err_def io_err_def split: sum.splits prod.splits)
    have f: "f \<in> set files" by (rule target_ofD [OF Some])
    note wr = write_file_ok [OF wf d ok [OF f] Cons.prems(2)]
    then have "real_dir w1 d" using Cons.prems(2) keeps_dir by blast
    note IH = Cons.IH [OF wl this]
    have targets: "set (targets files (e # es)) = insert (relative f) (set (targets files es))" using Some by simp
    have "\<exists>x. file_at w' (named d (relative g)) (stamped g (context_owner ctx)) x \<and>
        of_bytes hash x = of_bytes hash (final_contents files (e # es) (relative g))"
      if g: "g \<in> set files" "relative g \<in> set (targets files (e # es))" for g
    proof (cases "relative g \<in> set (targets files es)")
      case True
      then have "filter (\<lambda>e. map_option relative (target_of files e) = Some (relative g)) es \<noteq> []"
        unfolding in_targets by (auto simp: filter_empty_conv)
      then have "final_contents files (e # es) (relative g) = final_contents files es (relative g)"
        by (simp add: final_contents_def)
      then show ?thesis using IH g(1) True by simp
    next
      case False
      then have rel: "relative g = relative f" using g(2) targets by simp
      then have "g = f" using inj_onD [OF inj, of g f] g(1) f by simp
      have "filter (\<lambda>e. map_option relative (target_of files e) = Some (relative g)) es = []"
        using False unfolding in_targets by (auto simp: filter_empty_conv)
      then have fin: "final_contents files (e # es) (relative g) = c"
        using Some rel read_entry_bounded_contents [OF rb] by (simp add: final_contents_def)
      have "named d (relative f) \<notin> (\<lambda>n. named d n) ` set (targets files es)"
      proof
        assume "named d (relative f) \<in> (\<lambda>n. named d n) ` set (targets files es)"
        then obtain n where n: "n \<in> set (targets files es)" "path_names n = path_names (relative f)" by auto
        then obtain e' f' where "target_of files e' = Some f'" "relative f' = n" by (auto simp: in_targets)
        then have "f' = f" using inj f n(2) target_ofD by (metis inj_onD)
        then show False using False rel n(1) \<open>relative f' = n\<close> by simp
      qed
      then show ?thesis using wr IH \<open>g = f\<close> fin unfolding keeps_def by blast
    qed
    moreover have "keeps ((\<lambda>n. named d n) ` set (targets files (e # es))) w w'"
      unfolding targets using keeps_trans [OF conjunct2 [OF wr] conjunct2 [OF IH]] by simp
    ultimately show ?thesis by blast
  qed
qed

end

section \<open>Placement of an archive\<close>

lemma classify_names:
  assumes "classify_entry_path raw = Some n"
  shows "path_names n \<noteq> [] \<and> list_all plain_name (path_names n) \<and> join_with ''/'' (path_names n) = n"
  using assms
proof (rule classify_entry_pathE)
  fix parts
  assume a: "n = join_with ''/'' parts" "parts \<noteq> []"
    "\<And>q. q \<in> set parts \<Longrightarrow> plain_name q \<and> is_utf8 q \<and> CHR 0x5C \<notin> set q"
  then have "path_names n = parts" using path_names_join [of parts] by simp
  then show ?thesis using a by (simp add: list_all_iff)
qed

text \<open>What a successful plan says of each file and of the entries of the archive.\<close>

lemma plan_files:
  assumes "plan untar bs artifact = Inr files"
  shows "\<exists>es. untar bs = Inr (map Inr es) \<and> files = map planned (sort (art_files artifact)) \<and>
    (\<forall>n \<in> set (art_files artifact). n \<in> set (targets files es) \<and> (\<exists>raw. classify_entry_path raw = Some n))"
proof -
  obtain rs where rs: "untar bs = Inr rs" "list_all entry_ok rs"
      "sort (map fst (file_entries rs)) = sort (art_files artifact)" "files = map planned (sort (art_files artifact))"
    using assms by (auto simp: plan_iff)
  have "\<exists>es. rs = map Inr es" using rs(2)
  proof (induction rs)
    case (Cons r rs)
    then obtain es where "rs = map Inr es" by auto
    with Cons.prems show ?case by (cases r) (auto intro!: exI [of _ "_ # es"])
  qed simp
  then obtain es where es: "rs = map Inr es" by blast
  have names: "set (map fst (file_entries rs)) = set (art_files artifact)"
    using rs(3) by (metis set_sort)
  have entry: "\<exists>e \<in> set es. te_kind e = Regular \<and> classify_entry_path (path_bytes_lossy e) = Some n"
    if "n \<in> set (map fst (file_entries (map Inr es)))" "list_all entry_ok (map Inr es)" for n
    using that by (induction es) (auto split: if_splits sum.splits)
  have "n \<in> set (targets files es) \<and> (\<exists>raw. classify_entry_path raw = Some n)" if n: "n \<in> set (art_files artifact)" for n
  proof -
    obtain e where e: "e \<in> set es" "classify_entry_path (path_bytes_lossy e) = Some n"
      using entry [of n] n names rs(2) es by auto
    have "planned n \<in> set files" using n rs(4) by simp
    then have "find (\<lambda>f. relative f = n) files \<noteq> None" by (auto simp: find_None_iff)
    then have "map_option relative (target_of files e) = Some n"
      using e(2) by (auto simp: target_of_def find_Some_iff)
    then show ?thesis using e unfolding in_targets by blast
  qed
  then show ?thesis using rs(1,4) es by blast
qed

lemma tree_owner_ok:
  assumes "tree_owner dir w = (Inr ow, w')" and "resolve True (root w) dir = Inr d"
    and "node_at (root w) d = Some (Dir a cs)"
  shows "root w' = root w \<and> ow = \<lparr>owner_uid = uid a, owner_gid = gid a\<rparr>"
  using assms
  by (auto simp: tree_owner_def io_bind_def io_map_err_def metadata_def syscall_def stat_node_def io_ok_def Let_def
      split: option.splits prod.splits sum.splits)

lemma tree_owner_root: "tree_owner dir w = (res, w') \<Longrightarrow> root w' = root w"
  by (auto simp: tree_owner_def io_bind_def io_map_err_def metadata_def syscall_def stat_node_def io_ok_def io_err_def
      Let_def split: option.splits prod.splits sum.splits node.splits)

lemma symlink_metadata_root: "symlink_metadata p w = (res, w') \<Longrightarrow> root w' = root w"
  by (auto simp: symlink_metadata_def syscall_def stat_node_def Let_def split: option.splits sum.splits)

context cap_tree
begin

lemma write_all_ok:
  assumes "write_all cap hash untar bs files dir w = (Inr u, w')" and es: "untar bs = Inr (map Inr es)"
    and ok: "\<And>f. f \<in> set files \<Longrightarrow> \<exists>raw. classify_entry_path raw = Some (relative f)"
    and dist: "inj_on relative (set files)"
  shows "\<exists>d a cs. resolve True (root w) dir = Inr d \<and> node_at (root w) d = Some (Dir a cs) \<and>
    (\<forall>f \<in> set files. relative f \<in> set (targets files es) \<longrightarrow>
      (\<exists>c. file_at w' (named d (relative f)) (stamped f \<lparr>owner_uid = uid a, owner_gid = gid a\<rparr>) c \<and>
           of_bytes hash c = of_bytes hash (final_contents files es (relative f)))) \<and>
    keeps ((\<lambda>n. named d n) ` set (targets files es)) w w'"
proof -
  obtain ow w1 d w2 w3 names where ow: "tree_owner dir w = (Inr ow, w1)"
    and sm: "\<exists>n. symlink_metadata dir w1 = (Inr n, w2)" and od: "cap_open_ambient_dir cap dir w2 = (Inr d, w3)"
    and wl: "write_loop cap hash \<lparr>tree = \<lparr>tree_dir = d, tree_root = dir\<rparr>, context_owner = ow\<rparr> files (map Inr es) []
          ARCHIVE_DECOMPRESSED_CAP w3 = (Inr names, w')"
    using assms(1) es
    by (auto simp: write_all_def tree_open_def io_bind_def io_match_def io_map_err_def io_of_def io_ok_def io_err_def
        open_entries_def split: prod.splits sum.splits if_splits)
  have r1: "root w1 = root w" "root w2 = root w"
    using tree_owner_root [OF ow] sm symlink_metadata_root by auto
  note o = open_dir [OF od]
  then obtain a cs where d: "resolve True (root w) dir = Inr d" "node_at (root w) d = Some (Dir a cs)" "root w3 = root w"
    using r1 by (auto simp: real_dir_def)
  have owner: "ow = \<lparr>owner_uid = uid a, owner_gid = gid a\<rparr>" using tree_owner_ok [OF ow d(1,2)] by blast
  have dir3: "real_dir w3 d" using d by (simp add: real_dir_def)
  have okd: "cap_dir_ok d (relative f)" if "f \<in> set files" for f
    using ok [OF that] o classify_names by (auto simp: cap_dir_ok_def)
  have inj: "inj_on (\<lambda>f. path_names (relative f)) (set files)"
  proof (rule inj_onI)
    fix f g
    assume fg: "f \<in> set files" "g \<in> set files" "path_names (relative f) = path_names (relative g)"
    then have "relative f = relative g" using ok classify_names by metis
    then show "f = g" using dist fg by (auto dest: inj_onD)
  qed
  note wlo = write_loop_ok [OF wl _ dir3 okd inj]
  have "keeps ((\<lambda>n. named d n) ` set (targets files es)) w w'"
    using wlo d(3) by (auto simp: keeps_def file_at_def real_dir_def)
  then show ?thesis using wlo d(1,2) unfolding owner by auto
qed

lemma install_archive_ok:
  assumes "install_archive cap hash untar p artifact dir w = (Inr names, w')"
  shows "names = sort (art_files artifact) \<and>
    (\<exists>bs es d a cs. of_bytes hash bs = art_sha256 artifact \<and> untar bs = Inr (map Inr es) \<and>
       resolve True (root w) dir = Inr d \<and> node_at (root w) d = Some (Dir a cs) \<and>
       list_all (\<lambda>n. \<exists>c. node_at (root w') (d @ path_names n) =
                         Some (File \<lparr>mode = mode_for n, uid = uid a, gid = gid a\<rparr> c) \<and>
                       of_bytes hash c = of_bytes hash (final_contents (map planned names) es n)) names \<and>
       keeps ((\<lambda>n. d @ path_names n) ` set names) w w')"
proof -
  obtain bs w1 files u where rv: "read_verified hash p artifact w = (Inr bs, w1)"
    and pl: "plan untar bs artifact = Inr files" and wa: "write_all cap hash untar bs files dir w1 = (Inr u, w')"
    and names: "names = map relative files"
    using assms by (auto simp: install_archive_def io_bind_def io_of_def io_ok_def split: prod.splits sum.splits)
  note v = read_verified_effect [OF rv]
  obtain es where es: "untar bs = Inr (map Inr es)" and files: "files = map planned (sort (art_files artifact))"
    and t: "\<And>n. n \<in> set (art_files artifact) \<Longrightarrow> n \<in> set (targets files es) \<and> (\<exists>raw. classify_entry_path raw = Some n)"
    using plan_files [OF pl] by blast
  have nm: "names = sort (art_files artifact)" "files = map planned names"
    using names files by (simp_all add: comp_def)
  have ok: "\<exists>raw. classify_entry_path raw = Some (relative f)" if "f \<in> set files" for f
    using that files t by auto
  have dist: "inj_on relative (set files)" using files by (auto intro!: inj_onI)
  obtain d a cs where d: "resolve True (root w) dir = Inr d" "node_at (root w) d = Some (Dir a cs)"
    and placed: "\<And>f. f \<in> set files \<Longrightarrow> relative f \<in> set (targets files es) \<Longrightarrow>
      \<exists>c. file_at w' (named d (relative f)) (stamped f \<lparr>owner_uid = uid a, owner_gid = gid a\<rparr>) c \<and>
           of_bytes hash c = of_bytes hash (final_contents files es (relative f))"
    and k: "keeps ((\<lambda>n. named d n) ` set (targets files es)) w1 w'"
    using write_all_ok [OF wa es ok dist] v by auto
  have "\<exists>c. node_at (root w') (d @ path_names n) = Some (File \<lparr>mode = mode_for n, uid = uid a, gid = gid a\<rparr> c) \<and>
          of_bytes hash c = of_bytes hash (final_contents (map planned names) es n)" if "n \<in> set names" for n
    using placed [of "planned n"] that t nm by (auto simp: file_at_def stamped_def planned_def)
  moreover have "set (targets files es) \<subseteq> set names"
    using names by (auto simp: in_targets dest!: target_ofD)
  then have "keeps ((\<lambda>n. named d n) ` set names) w1 w'" by (rule keeps_mono [OF k image_mono])
  then have "keeps ((\<lambda>n. named d n) ` set names) w w'"
    using v by (simp add: keeps_def file_at_def real_dir_def)
  ultimately show ?thesis using nm(1) v es d by (auto simp: list_all_iff)
qed

end

text \<open>
  C3: a successful installation puts the archive's files in place. For any directory capability with
  the documented behaviour, whatever the tree held before and whichever calls failed and were
  retried: the names reported are the manifest's list, sorted; under the directory the installation
  path leads to, every name is a regular file reached through real directories only, with its
  planned mode and the directory's owner, whose bytes have the digest of the last archive entry
  that stands for the name; and no other file of the file system has changed.
\<close>

theorem installed_files_placed:
  assumes "cap_tree cap" and "install_archive cap hash untar p artifact dir w = (Inr names, w')"
  shows "names = sort (art_files artifact) \<and>
    (\<exists>bs es d a cs. of_bytes hash bs = art_sha256 artifact \<and> untar bs = Inr (map Inr es) \<and>
       resolve True (root w) dir = Inr d \<and> node_at (root w) d = Some (Dir a cs) \<and>
       list_all (\<lambda>n. \<exists>c. node_at (root w') (d @ path_names n) =
                         Some (File \<lparr>mode = mode_for n, uid = uid a, gid = gid a\<rparr> c) \<and>
                       of_bytes hash c = of_bytes hash (final_contents (map planned names) es n)) names \<and>
       keeps ((\<lambda>n. d @ path_names n) ` set names) w w')"
  by (rule cap_tree.install_archive_ok [OF assms])

section \<open>The interface on the file system model\<close>

fun kind_of :: "node \<Rightarrow> file_kind" where
  "kind_of (File _ _) = KFile"
| "kind_of (Dir _ _) = KDir"
| "kind_of (Symlink _) = KSymlink"

fun attr_of :: "node \<Rightarrow> u32 \<times> u32" where
  "attr_of (File a _) = (uid a, gid a)"
| "attr_of (Dir a _) = (uid a, gid a)"
| "attr_of (Symlink _) = (0, 0)"

fun mkdir_each :: "path \<Rightarrow> string list \<Rightarrow> unit fs" where
  "mkdir_each d [] = io_ok ()"
| "mkdir_each d (c # cs) =
     io_match (mkdir (d @ [c])) (\<lambda>r.
       case r of
         Inl e \<Rightarrow> if e = AlreadyExists then mkdir_each (d @ [c]) cs else io_err e
       | Inr _ \<Rightarrow> mkdir_each (d @ [c]) cs)"

text \<open>An operation on an open file, which is named by where it was opened.\<close>

definition at_handle :: "path \<Rightarrow> (path \<Rightarrow> 'a fs) \<Rightarrow> 'a fs" where
  "at_handle h f w = (case resolve True (root w) h of Inl e \<Rightarrow> (Inl e, w) | Inr q \<Rightarrow> f q w)"

definition fs_cap :: cap_std where
  "fs_cap =
     \<lparr>cap_open_ambient_dir = (\<lambda>r. syscall (\<lambda>w.
        case resolve True (root w) r of
          Inl e \<Rightarrow> (Inl e, w)
        | Inr q \<Rightarrow> (case node_at (root w) q of
                     Some (Dir _ _) \<Rightarrow> (Inr q, w)
                   | Some _ \<Rightarrow> (Inl NotADirectory, w)
                   | None \<Rightarrow> (Inl NotFound, w)))),
      cap_symlink_metadata = (\<lambda>d n. io_bind (symlink_metadata (named d n)) (\<lambda>x. io_ok (kind_of x))),
      cap_create_dir_all = (\<lambda>d n. mkdir_each d (path_names n)),
      cap_open_nofollow = (\<lambda>d n. io_bind (symlink_metadata (named d n)) (\<lambda>x.
         if is_symlink_node x then io_err FilesystemLoop else io_ok (named d n))),
      cap_create_new = (\<lambda>d n. io_bind (open_create_new 438 (named d n)) (\<lambda>_. io_ok (named d n))),
      cap_rename = (\<lambda>d n1 n2. rename_path (named d n1) (named d n2)),
      cap_remove_file = (\<lambda>d n. remove_file (named d n)),
      cap_metadata = (\<lambda>h. io_bind (symlink_metadata h) (\<lambda>x. io_ok (kind_of x, attr_of x))),
      cap_reads = (\<lambda>h w. case resolve True (root w) h of Inl e \<Rightarrow> ([Inl e], w) | Inr q \<Rightarrow> reads q w),
      cap_write_all = (\<lambda>h bs. at_handle h (\<lambda>q. write_all_at h q bs)),
      cap_set_permissions = (\<lambda>h m. at_handle h (\<lambda>q. set_mode_at h q m)),
      cap_fchown = (\<lambda>h u g. at_handle h (\<lambda>q. chown_at h q u g))\<rparr>"

text \<open>Real directories are walked through without looking aside.\<close>

lemma walk_through:
  "node_at r (cur @ ps) = Some (Dir a cs) \<Longrightarrow> ''..'' \<notin> set ps \<Longrightarrow>
   walk n follow r cur (ps @ rest) = walk n follow r (cur @ ps) rest"
proof (induction ps arbitrary: cur)
  case (Cons c ps)
  have "node_at r ((cur @ [c]) @ ps) = Some (Dir a cs)" using Cons.prems(1) by simp
  then have "\<exists>b ds. node_at r (cur @ [c]) = Some (Dir b ds)"
  proof (cases ps)
    case (Cons x xs)
    then show ?thesis using \<open>node_at r ((cur @ [c]) @ ps) = Some (Dir a cs)\<close>
      unfolding node_at_append [of r "cur @ [c]"] by (auto simp: bind_eq_Some_conv dest: node_at_non_dir)
  qed simp
  then show ?case using Cons.IH [of "cur @ [c]"] Cons.prems by (auto simp: walk_Cons)
qed simp

lemma resolve_real:
  assumes "''..'' \<notin> set p" and "real_dir w (butlast p)" and "p \<noteq> []"
    and "follow \<longrightarrow> (\<forall>t. node_at (root w) p \<noteq> Some (Symlink t))"
  shows "resolve follow (root w) p = Inr p"
proof -
  obtain q c where p: "p = q @ [c]" using assms(3) by (cases p rule: rev_cases) auto
  obtain a cs where q: "node_at (root w) ([] @ q) = Some (Dir a cs)" using assms(2) p by (auto simp: real_dir_def)
  have "walk 40 follow (root w) [] (q @ [c]) = walk 40 follow (root w) q [c]"
    using walk_through [OF q] assms(1) p by auto
  also have "\<dots> = Inr (q @ [c])"
    using assms(1,4) p by (auto simp: walk_Cons split: option.splits node.splits)
  finally show ?thesis by (simp add: resolve_def p)
qed

lemma walk_canonical:
  "walk n follow r cur rest = Inr q \<Longrightarrow> ''..'' \<notin> set cur \<Longrightarrow> ''..'' \<notin> set q"
proof (induction n follow r cur rest rule: walk.induct)
  case (1 n follow r cur rest)
  show ?case
  proof (cases rest)
    case (Cons c ds)
    note w = "1.prems"(1) [unfolded Cons walk_Cons]
    show ?thesis
    proof (cases "c = ''..''")
      case True
      then show ?thesis using w "1.IH"(1) [OF Cons True] "1.prems"(2) by (auto dest: in_set_butlastD)
    next
      case False
      note IH = "1.IH"(2) [OF Cons False] "1.IH"(3) [OF Cons False]
      show ?thesis
      proof (cases "node_at r (cur @ [c])")
        case None
        then show ?thesis using w False "1.prems"(2) by (auto split: if_splits)
      next
        case (Some x)
        then show ?thesis using w False IH [OF Some] "1.prems"(2)
          by (cases x) (auto simp: link_target_def split: if_splits nat.splits)
      qed
    qed
  qed (use "1.prems" in simp)
qed

text \<open>A change at a path that is no directory changes no other file and no directory.\<close>

lemma put_shape:
  assumes "root w' = put_at (root w) h v" and "\<not> real_dir w h" and x: "x \<noteq> h" "node_at (root w) x \<noteq> None"
  shows "same_shape (node_at (root w) x) (node_at (root w') x)"
proof -
  have "\<not> strict_prefix h x"
  proof
    assume "strict_prefix h x"
    then obtain c s where "x = h @ c # s" by (auto elim!: strict_prefixE')
    then show False using x(2) assms(2)
      by (auto simp: node_at_append bind_eq_None_conv real_dir_def dest: node_at_non_dir)
  qed
  then consider "strict_prefix x h" | "\<not> prefix h x \<and> \<not> prefix x h" using x(1) by (auto simp: strict_prefix_def)
  then show ?thesis
    using node_at_put_above [of x h "root w" v] node_at_put_other [of h x "root w" v] assms(1)
    by cases auto
qed

lemma put_keeps:
  assumes "root w' = put_at (root w) h v" and "\<not> real_dir w h"
  shows "keeps {h} w w'"
proof -
  note shape = put_shape [OF assms]
  have "file_at w' x b c" if "x \<noteq> h" "file_at w x b c" for x b c
    using shape [OF that(1)] that(2) by (auto simp: file_at_def elim!: same_shape.elims)
  moreover have "real_dir w' x" if "real_dir w x" for x
    using shape [of x] that assms(2) by (cases "x = h") (auto simp: real_dir_def elim!: same_shape.elims)
  ultimately show ?thesis by (auto simp: keeps_def)
qed

lemma put_file_keeps:
  assumes "root w' = put_at (root w) h (Some (File a bs))" and "h \<noteq> []" and "real_dir w (butlast h)"
    and "\<not> real_dir w h"
  shows "file_at w' h a bs \<and> keeps {h} w w'"
  using node_at_put_same [of h "root w" "File a bs"] put_keeps [OF assms(1,4)] assms(1,3)
  by (auto simp: file_at_def real_dir_def)

lemma remove_file_keeps:
  assumes "root w' = put_at (root w) h None" and "h \<noteq> []" and "file_at w h a bs"
  shows "keeps {h} w w' \<and> node_at (root w') h = None"
  using put_keeps [OF assms(1)] node_at_put_gone [OF assms(2)] assms(1,3)
  by (auto simp: file_at_def real_dir_def)

lemma syscall_cases:
  assumes "syscall f w = (r, w')"
  obtains (fault) e where "r = Inl e" and "e \<noteq> NotFound" and "e \<noteq> AlreadyExists" and "root w' = root w"
    | (run) "f (w\<lparr>tick := Suc (tick w)\<rparr>) = (r, w')"
  using assms by (auto simp: syscall_def Let_def fault_error_def split: option.splits if_splits)

lemma real_file_dir: "file_at w h a bs \<Longrightarrow> h \<noteq> [] \<Longrightarrow> real_dir w (butlast h)"
  unfolding file_at_def real_dir_def by (rule node_at_parent_dir)

lemma file_not_dir: "file_at w h a bs \<Longrightarrow> \<not> real_dir w h"
  by (simp add: file_at_def real_dir_def)

text \<open>An update of the file behind a handle.\<close>

lemma at_handle_file:
  assumes "at_handle h f w = (r, w')" and "''..'' \<notin> set h" and "file_at w h a bs"
  shows "f h w = (r, w')"
proof (cases "h = []")
  case True
  then show ?thesis using assms(1) by (simp add: at_handle_def resolve_def)
next
  case False
  then have "resolve True (root w) h = Inr h"
    using assms(2,3) by (intro resolve_real real_file_dir) (auto simp: file_at_def)
  then show ?thesis using assms(1) by (simp add: at_handle_def)
qed

lemma put_same_file_keeps:
  assumes "root w' = put_at (root w) h (Some (File b cs))" and "file_at w h a bs"
  shows "file_at w' h b cs \<and> keeps {h} w w'"
proof (cases "h = []")
  case True
  then have "root w = File a bs" "root w' = File b cs" using assms by (auto simp: file_at_def)
  then have "\<not> real_dir w x" "file_at w x y z \<Longrightarrow> x = []" for x y z
    by (cases x; simp add: real_dir_def file_at_def)+
  then show ?thesis using True \<open>root w' = File b cs\<close> by (auto simp: keeps_def file_at_def)
next
  case False
  then show ?thesis using put_file_keeps [OF assms(1)] real_file_dir [OF assms(2)] file_not_dir [OF assms(2)] by blast
qed

lemma mkdir_real:
  assumes "mkdir (d @ [c]) w = (r, w')" and "''..'' \<notin> set (d @ [c])" and "real_dir w d"
    and "real_dir w (d @ [c]) \<or> node_at (root w) (d @ [c]) = None" and "r = Inr () \<or> r = Inl AlreadyExists"
  shows "root w' = root w \<and> real_dir w (d @ [c]) \<or>
    (\<exists>a. root w' = put_at (root w) (d @ [c]) (Some (Dir a [])) \<and> node_at (root w) (d @ [c]) = None)"
proof -
  have "resolve False (root w) (d @ [c]) = Inr (d @ [c])"
    using assms(2,3) by (intro resolve_real) auto
  then show ?thesis using assms(1,4,5)
    by (auto simp: mkdir_def record_op_def syscall_def Let_def set_root_def real_dir_def fault_error_def
        split: option.splits if_splits)
qed

lemma mkdir_each_ok:
  assumes "mkdir_each d cs w = (Inr (), w')" and "''..'' \<notin> set (d @ cs)" and "real_dir w d"
    and "\<And>P. prefix d P \<Longrightarrow> prefix P (d @ cs) \<Longrightarrow> real_dir w P \<or> node_at (root w) P = None"
  shows "real_dir w' (d @ cs) \<and> keeps {} w w'"
  using assms
proof (induction cs arbitrary: d w)
  case Nil
  then show ?case by (auto simp: io_ok_def keeps_root)
next
  case (Cons c cs)
  obtain r w1 where m: "mkdir (d @ [c]) w = (r, w1)" by fastforce
  have r: "r = Inr () \<or> r = Inl AlreadyExists" and rest: "mkdir_each (d @ [c]) cs w1 = (Inr (), w')"
    using Cons.prems(1) m by (auto simp: io_match_def io_err_def split: sum.splits if_splits)
  note step = mkdir_real [OF m _ Cons.prems(3) Cons.prems(4) r]
  have "real_dir w1 (d @ [c]) \<and> keeps {} w w1 \<and>
      (\<forall>P. prefix (d @ [c]) P \<longrightarrow> prefix P ((d @ [c]) @ cs) \<longrightarrow> real_dir w1 P \<or> node_at (root w1) P = None)"
  proof (cases "root w1 = root w \<and> real_dir w (d @ [c])")
    case True
    have "real_dir w P \<or> node_at (root w) P = None" if "prefix (d @ [c]) P" "prefix P ((d @ [c]) @ cs)" for P
      using Cons.prems(4) [of P] that append_prefixD [of d "[c]" P] by auto
    then show ?thesis using True by (auto simp: real_dir_def keeps_root)
  next
    case False
    then obtain a where put: "root w1 = put_at (root w) (d @ [c]) (Some (Dir a []))" "node_at (root w) (d @ [c]) = None"
      using step Cons.prems(2) by auto
    have here: "node_at (root w1) (d @ [c]) = Some (Dir a [])"
      unfolding put(1) using Cons.prems(3) by (intro node_at_put_same) (auto simp: real_dir_def)
    have "real_dir w1 P \<or> node_at (root w1) P = None" if P: "prefix (d @ [c]) P" for P
    proof -
      obtain s where "P = (d @ [c]) @ s" using P by (auto simp: prefix_def)
      then show ?thesis using here node_at_append [of "root w1" "d @ [c]" s]
        by (cases s) (auto simp: real_dir_def)
    qed
    moreover have "keeps {d @ [c]} w w1" using put_keeps [OF put(1)] put(2) by (simp add: real_dir_def)
    then have "keeps {} w w1" using put(2) by (rule keeps_absent)
    ultimately show ?thesis using here by (auto simp: real_dir_def)
  qed
  then show ?case using Cons.IH [OF rest] Cons.prems(2) keeps_trans [of "{}" w w1 "{}" w'] by simp
qed

text \<open>The laws, one by one.\<close>

lemma fs_open_dir:
  assumes "cap_open_ambient_dir fs_cap r w = (Inr d, w')"
  shows "root w' = root w \<and> resolve True (root w) r = Inr d \<and> real_dir w d \<and> ''..'' \<notin> set d"
proof -
  have a: "root w' = root w \<and> resolve True (root w) r = Inr d \<and> real_dir w d"
    using assms
    by (auto simp: fs_cap_def syscall_def Let_def real_dir_def split: option.splits sum.splits node.splits)
  then have "''..'' \<notin> set d" using walk_canonical [of 40 True "root w" "[]" r d] by (simp add: resolve_def)
  with a show ?thesis by blast
qed

lemma fs_roots:
  "cap_symlink_metadata fs_cap d n w = (res, w') \<Longrightarrow> root w' = root w"
  "cap_open_nofollow fs_cap d n w = (res', w') \<Longrightarrow> root w' = root w"
  "cap_metadata fs_cap h w = (res'', w') \<Longrightarrow> root w' = root w"
  by (auto simp: fs_cap_def io_bind_def io_ok_def io_err_def split: prod.splits sum.splits if_splits
      dest!: symlink_metadata_root)

text \<open>The metadata of a name in a real directory are those of the node there.\<close>

lemma symlink_metadata_real:
  assumes "symlink_metadata p w = (res, w')" and "''..'' \<notin> set p" and "p \<noteq> []" and "real_dir w (butlast p)"
  shows "case res of
      Inr x \<Rightarrow> node_at (root w) p = Some x
    | Inl e \<Rightarrow> if e = NotFound then node_at (root w) p = None else True"
proof -
  have "resolve False (root w) p = Inr p" using assms(2,3,4) by (intro resolve_real) auto
  then show ?thesis using assms(1)
    by (auto simp: symlink_metadata_def syscall_def stat_node_def Let_def fault_error_def split: option.splits)
qed

lemma fs_lstat_dir:
  "cap_symlink_metadata fs_cap d n w = (Inr KDir, w') \<Longrightarrow> canon d n \<Longrightarrow>
   real_dir w (butlast (named d n)) \<Longrightarrow> real_dir w (named d n)"
  using symlink_metadata_real [of "named d n" w]
  by (fastforce simp: fs_cap_def io_bind_def io_ok_def canon_def real_dir_def elim!: kind_of.elims
      split: prod.splits sum.splits)

lemma fs_lstat_absent:
  "cap_symlink_metadata fs_cap d n w = (Inl NotFound, w') \<Longrightarrow> canon d n \<Longrightarrow>
   real_dir w (butlast (named d n)) \<Longrightarrow> node_at (root w) (named d n) = None"
  using symlink_metadata_real [of "named d n" w]
  by (fastforce simp: fs_cap_def io_bind_def io_ok_def canon_def split: prod.splits sum.splits)

lemma fs_open_file_name:
  assumes "cap_open_nofollow fs_cap d n w = (Inr h, w')" and "canon d n"
  shows "h = named d n \<and>
    (\<forall>P c. prefix (P @ [c]) (named d n) \<longrightarrow> real_dir w P \<longrightarrow> node_at (root w) (P @ [c]) \<noteq> None)"
proof -
  obtain x where x: "symlink_metadata (named d n) w = (Inr x, w')" and h: "h = named d n"
    using assms(1) by (auto simp: fs_cap_def io_bind_def io_ok_def io_err_def split: prod.splits sum.splits if_splits)
  then obtain q where q: "resolve False (root w) (named d n) = Inr q" "node_at (root w) q = Some x"
    by (auto simp: symlink_metadata_def syscall_def stat_node_def Let_def split: option.splits sum.splits)
  have "node_at (root w) (P @ [c]) \<noteq> None" if p: "prefix (P @ [c]) (named d n)" and "real_dir w P" for P c
  proof
    assume none: "node_at (root w) (P @ [c]) = None"
    obtain s where s: "named d n = P @ c # s" using p by (auto simp: prefix_def)
    obtain a cs where dir: "node_at (root w) ([] @ P) = Some (Dir a cs)" using \<open>real_dir w P\<close> by (auto simp: real_dir_def)
    have dots: "''..'' \<notin> set (P @ c # s)" using assms(2) s by (simp add: canon_def)
    have "resolve False (root w) (named d n) = walk 40 False (root w) P (c # s)"
      using walk_through [OF dir] dots s by (simp add: resolve_def)
    then show False using none q dots by (auto simp: walk_Cons split: if_splits)
  qed
  then show ?thesis using h by blast
qed

lemma fs_meta_file:
  assumes "cap_metadata fs_cap h w = (Inr (k, u, g), w')" and "''..'' \<notin> set h" and "real_dir w (butlast h)"
  shows "(k = KFile \<longrightarrow> (\<exists>a bs. file_at w h a bs)) \<and> (\<forall>a bs. file_at w h a bs \<longrightarrow> u = uid a \<and> g = gid a)"
proof -
  obtain x where x: "symlink_metadata h w = (Inr x, w')" and k: "k = kind_of x" "(u, g) = attr_of x"
    using assms(1) by (auto simp: fs_cap_def io_bind_def io_ok_def split: prod.splits sum.splits)
  have "node_at (root w) h = Some x"
  proof (cases "h = []")
    case True
    then show ?thesis using x
      by (auto simp: symlink_metadata_def syscall_def stat_node_def resolve_def Let_def split: option.splits)
  next
    case False
    then show ?thesis using symlink_metadata_real [OF x assms(2)] assms(3) by simp
  qed
  then show ?thesis using k by (cases x) (auto simp: file_at_def)
qed

lemma reads_root: "reads q w = (rs, w') \<Longrightarrow> root w' = root w"
  by (auto simp: reads_def Let_def split: option.splits node.splits)

lemma fs_reading: "cap_reads fs_cap h w = (rs, w') \<Longrightarrow> root w' = root w"
  by (auto simp: fs_cap_def split: sum.splits dest!: reads_root)

lemma fs_reading_file:
  assumes "cap_reads fs_cap h w = (rs, w')" and "''..'' \<notin> set h" and "file_at w h a bs"
    and "of_reader hash rs = Inr digest"
  shows "digest = of_bytes hash bs"
proof -
  have "resolve True (root w) h = Inr h"
    using assms(2,3) real_file_dir [OF assms(3)]
    by (cases "h = []") (auto simp: resolve_def [of _ _ "[]"] file_at_def intro!: resolve_real)
  then have "reads h w = (rs, w')" using assms(1) by (simp add: fs_cap_def)
  from of_reader_reads [OF this assms(4)] assms(3) show ?thesis by (auto simp: file_at_def)
qed

lemma fs_mkdirs:
  "cap_create_dir_all fs_cap d n w = (Inr (), w') \<Longrightarrow> canon d n \<Longrightarrow> real_dir w d \<Longrightarrow>
   (\<And>P. prefix d P \<Longrightarrow> prefix P (named d n) \<Longrightarrow> real_dir w P \<or> node_at (root w) P = None) \<Longrightarrow>
   real_dir w' (named d n) \<and> keeps {} w w'"
  by (rule mkdir_each_ok) (auto simp: fs_cap_def canon_def)

lemma fs_create_failed: "cap_create_new fs_cap d n w = (Inl e, w') \<Longrightarrow> root w' = root w"
  by (auto simp: fs_cap_def io_bind_def io_ok_def open_create_new_def record_op_def syscall_def Let_def
      split: prod.splits sum.splits option.splits node.splits)

lemma fs_create:
  assumes "cap_create_new fs_cap d n w = (Inr h, w')" and "canon d n" and "real_dir w (butlast (named d n))"
  shows "h = named d n \<and> node_at (root w) h = None \<and> (\<exists>a. file_at w' h a []) \<and> keeps {} w w'"
proof -
  let ?p = "named d n"
  have res: "resolve False (root w) ?p = Inr ?p" and ne: "?p \<noteq> []"
    using assms(2,3) by (auto simp: canon_def intro!: resolve_real)
  have h: "h = ?p" and run: "\<exists>q. open_create_new 438 ?p w = (Inr q, w')"
    using assms(1) by (auto simp: fs_cap_def io_bind_def io_ok_def split: prod.splits sum.splits)
  from run res obtain a where none: "node_at (root w) ?p = None" and r: "root w' = put_at (root w) ?p (Some (File a []))"
    by (auto simp: open_create_new_def record_op_def syscall_def Let_def set_root_def
        split: option.splits node.splits)
  have "file_at w' ?p a [] \<and> keeps {?p} w w'"
    by (rule put_file_keeps [OF r ne assms(3)]) (simp add: none real_dir_def)
  then show ?thesis using h none keeps_absent by blast
qed

lemma fs_writing:
  assumes "cap_write_all fs_cap h bs w = (Inr (), w')" and "''..'' \<notin> set h" and "file_at w h a old"
  shows "file_at w' h a (old @ bs) \<and> keeps {h} w w'"
proof (rule put_same_file_keeps [OF _ assms(3)])
  have "write_all_at h h bs w = (Inr (), w')"
    using at_handle_file [of h "\<lambda>q. write_all_at h q bs"] assms by (simp add: fs_cap_def)
  then show "root w' = put_at (root w) h (Some (File a (old @ bs)))" using assms(3)
    by (auto simp: write_all_at_def Let_def set_root_def file_at_def split: option.splits)
qed

lemma fs_chmod:
  assumes "cap_set_permissions fs_cap h m w = (Inr (), w')" and "''..'' \<notin> set h" and "file_at w h a bs"
  shows "file_at w' h (a\<lparr>mode := m\<rparr>) bs \<and> keeps {h} w w'"
proof (rule put_same_file_keeps [OF _ assms(3)])
  have "set_mode_at h h m w = (Inr (), w')"
    using at_handle_file [of h "\<lambda>q. set_mode_at h q m"] assms by (simp add: fs_cap_def)
  then show "root w' = put_at (root w) h (Some (File (a\<lparr>mode := m\<rparr>) bs))" using assms(3)
    by (auto simp: set_mode_at_def record_op_def syscall_def Let_def set_root_def file_at_def split: option.splits)
qed

lemma fs_chown:
  assumes "cap_fchown fs_cap h u g w = (Inr (), w')" and "''..'' \<notin> set h" and "file_at w h a bs"
  shows "file_at w' h (a\<lparr>uid := u, gid := g\<rparr>) bs \<and> keeps {h} w w'"
proof (rule put_same_file_keeps [OF _ assms(3)])
  have "chown_at h h u g w = (Inr (), w')"
    using at_handle_file [of h "\<lambda>q. chown_at h q u g"] assms by (simp add: fs_cap_def)
  then show "root w' = put_at (root w) h (Some (File (a\<lparr>uid := u, gid := g\<rparr>) bs))" using assms(3)
    by (auto simp: chown_at_def record_op_def syscall_def Let_def set_root_def file_at_def split: option.splits)
qed

lemma fs_rename:
  assumes "cap_rename fs_cap d t n w = (Inr (), w')" and "canon d t" and "canon d n"
    and f: "file_at w (named d t) a bs" and "real_dir w (butlast (named d n))"
  shows "file_at w' (named d n) a bs \<and> keeps {named d t, named d n} w w'"
proof -
  let ?t = "named d t" and ?n = "named d n"
  have ne: "?t \<noteq> []" "?n \<noteq> []" using assms(2,3) by (auto simp: canon_def)
  have rt: "resolve False (root w) ?t = Inr ?t" "resolve False (root w) ?n = Inr ?n"
    using assms(2,3,5) ne real_file_dir [OF f] by (auto simp: canon_def intro!: resolve_real)
  have run: "rename_path ?t ?n w = (Inr (), w')" using assms(1) by (simp add: fs_cap_def)
  show ?thesis
  proof (cases "?t = ?n")
    case True
    then have "root w' = root w" using run rt
      by (auto simp: rename_path_def record_op_def syscall_def Let_def split: option.splits)
    then show ?thesis using f True by (simp add: keeps_root file_at_def)
  next
    case False
    let ?w1 = "w\<lparr>root := put_at (root w) ?t None\<rparr>"
    have check: "rename_check ?t ?n (File a bs) (node_at (root w) ?n) = None"
      and r: "root w' = put_at (root ?w1) ?n (Some (File a bs))"
      using run rt f False
      by (auto simp: rename_path_def record_op_def syscall_def Let_def set_root_def file_at_def split: option.splits)
    have nd: "\<not> real_dir w ?n" using check by (auto simp: rename_check_def real_dir_def split: if_splits)
    have k1: "keeps {?t} w ?w1" using remove_file_keeps [of ?w1 w ?t] ne f by auto
    have dir1: "real_dir ?w1 (butlast ?n)" using keeps_dir [OF k1 assms(5)] .
    have "\<not> prefix ?t ?n" using check False by (auto simp: rename_check_def split: if_splits)
    then have "\<not> real_dir ?w1 ?n"
      using nd node_at_put_other [of ?t ?n "root w" None] node_at_put_above [of ?n ?t "root w" None]
        False
      by (cases "prefix ?n ?t"; cases "node_at (root w) ?n") (auto simp: real_dir_def strict_prefix_def elim!: same_shape.elims)
    from put_file_keeps [OF r ne(2) dir1 this] keeps_trans [OF k1] show ?thesis by auto
  qed
qed

lemmas fs_laws = fs_open_dir fs_roots fs_lstat_dir fs_lstat_absent fs_open_file_name fs_meta_file fs_reading
  fs_reading_file fs_mkdirs fs_create_failed fs_create fs_writing fs_chmod fs_chown fs_rename

interpretation fs: cap_tree fs_cap
  by unfold_locales (fact fs_laws)+

section \<open>A concrete installation\<close>

definition demo_tree :: world where
  "demo_tree = demo_world\<lparr>root := Dir \<lparr>mode = 493, uid = 0, gid = 0\<rparr>
     [(''pg'', Dir \<lparr>mode = 493, uid = 70, gid = 71\<rparr> []),
      (''a.tgz'', File \<lparr>mode = 420, uid = 0, gid = 0\<rparr> [1, 2, 3, 4])]\<rparr>"

definition file_entry :: tar_entry where
  "file_entry = \<lparr>te_kind = Regular, te_path = ''lib/v.so'', te_size = Inr 2, te_reads = [Inr [9, 8]]\<rparr>"

definition dir_entry :: tar_entry where
  "dir_entry = \<lparr>te_kind = Directory, te_path = ''lib/v.so/'', te_size = Inr 0, te_reads = []\<rparr>"

definition first_bytes :: "bytes \<Rightarrow> bytes" where
  "first_bytes bs = take 1 bs"

definition demo_install :: "tar_entry list \<Rightarrow> (bootstrap_error + string list) \<times> world" where
  "demo_install es =
     install_archive fs_cap first_bytes (\<lambda>_. Inr (map Inr es)) [''a.tgz'']
       (demo_artifact\<lparr>art_sha256 := of_bytes first_bytes [1, 2, 3, 4]\<rparr>) [''pg''] demo_tree"

lemma demo_install_ok: "fst (demo_install [file_entry]) = Inr [''lib/v.so'']"
  by code_simp

theorem installed_files_placed_witness:
  "\<exists>w' c. demo_install [file_entry] = (Inr [''lib/v.so''], w') \<and>
     node_at (root w') [''pg'', ''lib'', ''v.so''] = Some (File \<lparr>mode = 493, uid = 70, gid = 71\<rparr> c)"
proof -
  obtain w' where run: "demo_install [file_entry] = (Inr [''lib/v.so''], w')"
    using demo_install_ok by (cases "demo_install [file_entry]") auto
  have res: "resolve True (root demo_tree) [''pg''] = Inr [''pg'']" by code_simp
  have node: "node_at (root demo_tree) [''pg''] = Some (Dir \<lparr>mode = 493, uid = 70, gid = 71\<rparr> [])" by code_simp
  have names: "path_names ''lib/v.so'' = [''lib'', ''v.so'']" "mode_for ''lib/v.so'' = 493" by code_simp+
  from installed_files_placed [OF fs.cap_tree_axioms run [unfolded demo_install_def]]
  show ?thesis using run res node names by auto
qed

text \<open>
  Pass two does not look at the entry type. An archive that also holds a directory entry under the
  name of one of its files passes validation, because pass one skips directories, and then installs
  the directory entry's empty contents over the file, while reporting success.
\<close>

lemma directory_entry_overwrites_file:
  "case demo_install [file_entry, dir_entry] of (r, w) \<Rightarrow>
     r = Inr [''lib/v.so''] \<and>
     node_at (root w) [''pg'', ''lib'', ''v.so''] = Some (File \<lparr>mode = 493, uid = 70, gid = 71\<rparr> [])"
  by code_simp

text \<open>The directories an installation creates belong to the installing process, not to the tree's owner.\<close>

lemma created_parents_not_chowned:
  "case demo_install [file_entry] of (r, w) \<Rightarrow>
     r = Inr [''lib/v.so''] \<and> map_option attr_of (node_at (root w) [''pg'']) = Some (70, 71) \<and>
     map_option attr_of (node_at (root w) [''pg'', ''lib'']) = Some (0, 0)"
  by code_simp

end
