(* ===== verification/Extensions.thy ===== *)
theory Extensions
  imports ExtConfig ExtPlacement
begin

text \<open>
  \<open>extensions/mod.rs\<close>: the installation pipeline. The manifest is loaded and verified, the running
  version determined, every name selected, and only then is each archive acquired and installed, in
  the order of the names. The hand-off to a helper thread inside a Tokio runtime is not modelled.
\<close>

section \<open>Data\<close>

record installed_extension =
  inst_name :: extension_name
  inst_version :: string
  inst_postgresql :: string
  inst_target :: string
  inst_archive_sha256 :: sha256_hex
  inst_origin :: archive_origin
  inst_files :: "string list"

text \<open>Everything outside the crate: the crates, the network, \<open>pg_config\<close> and the compile target.\<close>

record installer =
  i_ext :: ext_env
  i_cap :: cap_std
  i_untar :: tar_reader
  i_pg_config :: "path \<Rightarrow> command_result"
  i_target :: string

section \<open>Operations\<close>

text \<open>Opening a manifest path in the file system.\<close>

definition world_opener :: "world \<Rightarrow> file_opener" where
  "world_opener w s =
     (case open_read (abs_path w s) w of
        (Inl e, _) \<Rightarrow> Inl e
      | (Inr q, w') \<Rightarrow> Inr (fst (reads q w')))"

definition load_manifest :: "installer \<Rightarrow> manifest_source \<Rightarrow> (bootstrap_error, manifest) io" where
  "load_manifest env src w =
     (load (e_crates (i_ext env)) (e_network (i_ext env)) (world_opener w) src, w\<lparr>tick := tick w + 2\<rparr>)"

definition compile_target :: "installer \<Rightarrow> string" where
  "compile_target env = i_target env"

definition select_all :: "installer \<Rightarrow> extension_request \<Rightarrow> manifest \<Rightarrow> version \<Rightarrow> bootstrap_error + selection list" where
  "select_all env request m running =
     res_map (\<lambda>name. select (version_parse (e_crates (i_ext env))) m
                \<lparr>q_name = name, q_running = running, q_target = compile_target env\<rparr>) (names request)"

definition install_one ::
  "installer \<Rightarrow> extension_request \<Rightarrow> path \<Rightarrow> extension_name \<Rightarrow> selection \<Rightarrow> (bootstrap_error, installed_extension) io" where
  "install_one env request install_dir name sel w =
     (let artifact = sel_artifact sel in
      io_bind (acquire (i_ext env) (abs_path w (request_cache_dir request)) artifact) (\<lambda>acquired.
      io_bind (install_archive (i_cap env) (sha (e_crates (i_ext env))) (i_untar env) (acq_path acquired) artifact install_dir)
        (\<lambda>files.
          io_ok \<lparr>inst_name = name, inst_version = ext_version (sel_extension sel),
            inst_postgresql = art_postgresql artifact, inst_target = art_target artifact,
            inst_archive_sha256 = art_sha256 artifact, inst_origin = acq_origin acquired, inst_files = files\<rparr>)) w)"

definition install_extensions_blocking ::
  "installer \<Rightarrow> extension_request \<Rightarrow> path \<Rightarrow> (bootstrap_error, installed_extension list) io" where
  "install_extensions_blocking env request install_dir =
     io_bind (load_manifest env (manifest_src request)) (\<lambda>m.
     io_bind (io_of (running_version (version_parse (e_crates (i_ext env))) (i_pg_config env) install_dir)) (\<lambda>running.
     io_bind (io_of (select_all env request m running)) (\<lambda>selections.
       io_map (\<lambda>(name, sel). install_one env request install_dir name sel) (zip (names request) selections))))"

section \<open>Properties\<close>

lemma install_one_result:
  assumes "install_one env request dir name sel w = (Inr x, w')"
  shows "inst_name x = name \<and> inst_archive_sha256 x = art_sha256 (sel_artifact sel) \<and>
    inst_files x = sort (art_files (sel_artifact sel))"
proof -
  obtain acq w1 files w2 where "acquire (i_ext env) (abs_path w (request_cache_dir request)) (sel_artifact sel) w = (Inr acq, w1)"
    and i: "install_archive (i_cap env) (sha (e_crates (i_ext env))) (i_untar env) (acq_path acq) (sel_artifact sel) dir w1 = (Inr files, w2)"
    and x: "inst_name x = name" "inst_archive_sha256 x = art_sha256 (sel_artifact sel)" "inst_files x = files"
    using assms by (auto simp: install_one_def Let_def io_bind_def io_ok_def split: prod.splits sum.splits)
  have "files = sort (art_files (sel_artifact sel))"
  proof -
    obtain bs planned_files where "plan (i_untar env) bs (sel_artifact sel) = Inr planned_files" "files = map relative planned_files"
      using i by (auto simp: install_archive_def io_bind_def io_of_def io_ok_def split: prod.splits sum.splits)
    then show ?thesis by (auto simp: plan_iff comp_def)
  qed
  with x show ?thesis by simp
qed

lemma io_map_install:
  "io_map (\<lambda>(name, sel). install_one env request dir name sel) ps w = (Inr xs, w') \<Longrightarrow>
   map inst_name xs = map fst ps \<and> map inst_archive_sha256 xs = map (art_sha256 \<circ> sel_artifact \<circ> snd) ps \<and>
   map inst_files xs = map (sort \<circ> art_files \<circ> sel_artifact \<circ> snd) ps"
proof (induction ps arbitrary: xs w)
  case (Cons p ps)
  obtain name sel where p: "p = (name, sel)" by fastforce
  obtain x w1 ys where "install_one env request dir name sel w = (Inr x, w1)" "xs = x # ys"
      "io_map (\<lambda>(name, sel). install_one env request dir name sel) ps w1 = (Inr ys, w')"
    using Cons.prems by (auto simp: p io_bind_def io_ok_def split: prod.splits sum.splits)
  then show ?case using Cons.IH install_one_result p by fastforce
qed (simp add: io_ok_def)

lemma res_map_length: "res_map f xs = Inr ys \<Longrightarrow> length ys = length xs"
  by (induction xs arbitrary: ys) (auto simp: res_bind_def split: sum.splits)

text \<open>
  selection comes before any effect. Either the manifest loads, the server version is known and
  every requested name is selected, and a success then reports one extension per name, in order,
  with the selected archive's digest and exactly its manifest files; or the installation fails and
  nothing on disk has changed.
\<close>

theorem select_before_effects:
  "case install_extensions_blocking env request dir w of (r, w') \<Rightarrow>
     (\<exists>m running sels.
        load (e_crates (i_ext env)) (e_network (i_ext env)) (world_opener w) (manifest_src request) = Inr m \<and>
        running_version (version_parse (e_crates (i_ext env))) (i_pg_config env) dir = Inr running \<and>
        select_all env request m running = Inr sels \<and>
        (case r of
           Inl _ \<Rightarrow> True
         | Inr xs \<Rightarrow>
             map inst_name xs = names request \<and>
             map inst_archive_sha256 xs = map (art_sha256 \<circ> sel_artifact) sels \<and>
             map inst_files xs = map (sort \<circ> art_files \<circ> sel_artifact) sels)) \<or>
     root w' = root w \<and> trace w' = trace w \<and> isl r"
proof (cases "load (e_crates (i_ext env)) (e_network (i_ext env)) (world_opener w) (manifest_src request)")
  case (Inl e)
  then show ?thesis by (simp add: install_extensions_blocking_def io_bind_def load_manifest_def)
next
  case m: (Inr m)
  show ?thesis
  proof (cases "running_version (version_parse (e_crates (i_ext env))) (i_pg_config env) dir")
    case (Inl e)
    then show ?thesis using m by (simp add: install_extensions_blocking_def io_bind_def load_manifest_def io_of_def)
  next
    case v: (Inr v)
    show ?thesis
    proof (cases "select_all env request m v")
      case (Inl e)
      then show ?thesis using m v by (simp add: install_extensions_blocking_def io_bind_def load_manifest_def io_of_def)
    next
      case (Inr sels)
      then have len: "length sels = length (names request)" unfolding select_all_def by (rule res_map_length)
      obtain r w' where run: "install_extensions_blocking env request dir w = (r, w')" by fastforce
      then have loop: "io_map (\<lambda>(name, sel). install_one env request dir name sel) (zip (names request) sels)
          (w\<lparr>tick := tick w + 2\<rparr>) = (r, w')"
        using m v Inr by (simp add: install_extensions_blocking_def io_bind_def load_manifest_def io_of_def)
      show ?thesis
      proof (cases r)
        case (Inl e)
        then show ?thesis using run m v \<open>select_all env request m v = Inr sels\<close> by simp
      next
        case xs: (Inr xs)
        note res = io_map_install [OF loop [unfolded xs]]
        then have "map inst_name xs = names request \<and> map inst_archive_sha256 xs = map (art_sha256 \<circ> sel_artifact) sels \<and>
            map inst_files xs = map (sort \<circ> art_files \<circ> sel_artifact) sels"
          using len by (simp flip: map_map)
        then show ?thesis using run m v \<open>select_all env request m v = Inr sels\<close> xs by auto
      qed
    qed
  qed
qed

section \<open>Failures\<close>

lemma load_error_kind: "load cr net op src = Inl e \<Longrightarrow> is_extension (kind e)"
proof -
  assume l: "load cr net op src = Inl e"
  have valid: "is_extension (kind x)" if "manifest_parse js vp pu bs = Inl x" for js vp pu bs x
  proof -
    have art: "y = manifest_invalid" if "validate_artifact vp pu a = Inl y" for a y
      using that by (auto simp: validate_artifact_def split: if_splits)
    have ext: "y = manifest_invalid" if "validate_extension vp pu a = Inl y" for a y
      using that res_map_Inl art
      by (fastforce simp: validate_extension_def res_bind_def split: sum.splits)
    have "x = manifest_invalid"
      using that res_map_Inl ext
      by (fastforce simp: manifest_parse_def res_simps validate_manifest_def res_bind_def split: sum.splits if_splits)
    then show ?thesis by (simp add: manifest_invalid_def)
  qed
  have path: "is_extension (kind x)" if "read_path op p = Inl x" for p x
    using that by (auto simp: read_path_def check_size_def manifest_invalid_def split: sum.splits if_splits)
  have url: "is_extension (kind x)" if "fetch_url net p = Inl x" for p x
    using that by (auto simp: fetch_url_def check_size_def manifest_invalid_def split: sum.splits if_splits)
  have dig: "is_extension (kind x)" if "verify_digest h bs d = Inl x" for h bs d x
    using that by (auto simp: verify_digest_def split: if_splits)
  show ?thesis using l
    by (auto simp: load_def res_simps split: manifest_source.splits option.splits dest: path url dig valid)
qed

lemma install_archive_error_kind:
  assumes "install_archive cap hash untar p artifact dir w = (Inl e, w')"
  shows "is_extension (kind e)"
proof -
  have rv: "is_extension (kind x)" if "read_verified hash p artifact w1 = (Inl x, w2)" for x w1 w2
    using read_verified_effect [OF that] by (auto simp: archive_invalid_def digest_mismatch_def)
  have pl: "is_extension (kind x)" if "plan untar bs artifact = Inl x" for bs x
  proof -
    have pll: "plan_loop es [] [] 0 = Inl y \<Longrightarrow> kind y = ExtensionArchiveInvalid" for es y
      using plan_loop_eq [of 0 es "[]" "[]"] by (auto simp: archive_invalid_def split: if_splits)
    show ?thesis using that
      by (auto simp: plan_def open_entries_def res_bind_def check_against_manifest_def Let_def archive_invalid_def
          split: sum.splits if_splits dest!: pll)
  qed
  have loop: "is_extension (kind x)" if "write_loop cap hash ctx files es sofar budget w1 = (Inl x, w2)"
    for x ctx files es sofar budget w1 w2
    using that
  proof (induction cap hash ctx files es sofar budget arbitrary: w1 rule: write_loop.induct)
    case (3 cap hash ctx files e es sofar budget)
    have rb: "y = archive_invalid" if "read_entry_bounded e budget = Inl y" for y
      using that by (auto simp: read_entry_bounded_def Let_def split: sum.splits if_splits)
    show ?case using "3.prems"
      by (auto simp: io_bind_def io_map_err_def io_err_def install_failed_def over_cap_after_writing_def
          archive_invalid_def dest!: rb split: option.splits sum.splits prod.splits if_splits intro: "3.IH")
  qed (auto simp: io_ok_def io_err_def archive_invalid_def)
  have wr: "is_extension (kind x)" if "write_all cap hash untar bs files dir w1 = (Inl x, w2)" for x bs files w1 w2
    using that
    by (auto simp: write_all_def tree_owner_def tree_open_def io_bind_def io_map_err_def io_match_def io_of_def
        io_ok_def io_err_def install_failed_def open_entries_def archive_invalid_def
        split: prod.splits sum.splits node.splits if_splits dest: loop)
  show ?thesis using assms
    by (auto simp: install_archive_def io_bind_def io_of_def io_ok_def split: prod.splits sum.splits dest: rv pl wr)
qed

lemma install_one_error_kind:
  assumes "install_one env request dir name sel w = (Inl e, w')"
  shows "is_extension (kind e)"
proof -
  have acq: "is_extension (kind x)" if "acquire ev c a w1 = (Inl x, w2)" for ev c a w1 w2 x
    using acquire_outcome [where env = ev and cache = c and artifact = a and w = w1] that by (auto simp: unavailable_def digest_mismatch_def)
  show ?thesis using assms
    by (auto simp: install_one_def Let_def io_bind_def io_ok_def split: prod.splits sum.splits
        dest: acq install_archive_error_kind)
qed

text \<open>
  C27: the installer fails closed. Whatever goes wrong, in the configuration of the network, the file
  system or the archives, the error is one of the extension kinds, on which the callers of the
  pipeline rely to tell an extension failure from any other.
\<close>

theorem install_fails_closed:
  "case fst (install_extensions_blocking env request dir w) of
     Inl e \<Rightarrow> is_extension (kind e)
   | Inr xs \<Rightarrow> length xs = length (names request)"
proof -
  have ver: "is_extension (kind x)" if "running_version vp pg d = Inl x" for vp pg d x
    using that by (auto simp: running_version_def ok_or_def split: option.splits command_result.splits if_splits)
  have sel: "is_extension (kind x)" if "select_all env request m v = Inl x" for m v x
    using res_map_Inl [OF that [unfolded select_all_def]]
    by (auto simp: select_def ok_or_def res_bind_def split: option.splits sum.splits)
  have loop: "case fst (io_map (\<lambda>(name, sel). install_one env request dir name sel) ps w1) of
      Inl e \<Rightarrow> is_extension (kind e) | Inr xs \<Rightarrow> length xs = length ps" for ps w1
  proof (induction ps arbitrary: w1)
    case (Cons p ps)
    obtain name s where p: "p = (name, s)" by fastforce
    obtain r w2 where r: "install_one env request dir name s w1 = (r, w2)" by fastforce
    show ?case using r Cons.IH [of w2] install_one_error_kind [of env request dir name s w1]
      by (auto simp: p io_bind_def io_ok_def split: sum.splits prod.splits)
  qed (simp add: io_ok_def)
  have len: "length sels = length (names request)" if "select_all env request m v = Inr sels" for m v sels
    using res_map_length that unfolding select_all_def by blast
  show ?thesis
    using loop [of "zip (names request) _"] len
    by (fastforce simp: install_extensions_blocking_def io_bind_def load_manifest_def io_of_def
        split: sum.splits prod.splits dest: ver sel load_error_kind)
qed

end
