(* ===== verification/Bootstrap.thy ===== *)
theory Bootstrap
  imports Prepare ClusterCleanup Extensions
begin

text \<open>
  The entry points of a bootstrap (\<open>bootstrap/mod.rs\<close>) and the loading of the configuration (\<open>lib.rs\<close>).
  \<open>ortho_config\<close> composes the configuration's layers, a parameter, as are the defaults and the parsers of
  the other crates.
\<close>

section \<open>Loading the configuration\<close>

text \<open>A layer's JSON value, as far as it is looked at: null, an object with these keys, or something else.\<close>

datatype config_value = ConfigNull | ConfigObject "string list" | ConfigOther

record layer_composition =
  comp_layers :: "config_value list"
  comp_errors :: nat

record boot_libs =
  lib_composition :: layer_composition
  lib_load_from_iter :: "pg_env_cfg option"
  lib_defaults :: settings
  lib_parse_req :: "string \<Rightarrow> string option"
  lib_parse_url :: url_parser
  lib_home_dir :: "string option"

definition is_blank :: "config_value \<Rightarrow> bool" where
  "is_blank v = (case v of ConfigNull \<Rightarrow> True | ConfigObject ks \<Rightarrow> ks = [] | ConfigOther \<Rightarrow> False)"

definition composed_no_source :: "layer_composition \<Rightarrow> bool" where
  "composed_no_source c \<longleftrightarrow> comp_errors c = 0 \<and> list_all is_blank (comp_layers c)"

definition default_cfg :: pg_env_cfg where
  "default_cfg = \<lparr>cfg_version_req = None, cfg_port = None, cfg_superuser = None, cfg_password = None,
     cfg_data_dir = None, cfg_runtime_dir = None, cfg_locale = None, cfg_encoding = None,
     cfg_binary_cache_dir = None, cfg_embed_root = None, cfg_max_connections = None, cfg_extensions = None,
     cfg_extensions_manifest = None, cfg_extensions_manifest_sha256 = None, cfg_extensions_cache_dir = None\<rparr>"

definition load_cfg :: "boot_libs \<Rightarrow> bootstrap_error + pg_env_cfg" where
  "load_cfg libs =
     (if composed_no_source (lib_composition libs) then Inr default_cfg
      else (case lib_load_from_iter libs of Some cfg \<Rightarrow> Inr cfg | None \<Rightarrow> Inl (extension_error Other)))"

section \<open>Bootstrapping\<close>

definition DEFAULT_SETUP_TIMEOUT :: nat where "DEFAULT_SETUP_TIMEOUT = 180"
definition DEFAULT_START_TIMEOUT :: nat where "DEFAULT_START_TIMEOUT = 60"

datatype bootstrap_kind = DefaultBootstrap | TestBootstrap

fun kind_layout :: "bootstrap_kind \<Rightarrow> data_layout" where
  "kind_layout DefaultBootstrap = Persistent"
| "kind_layout TestBootstrap = PerCluster"

record test_bootstrap_settings =
  tb_privileges :: execution_privileges
  tb_execution_mode :: execution_mode
  tb_settings :: settings
  tb_environment :: test_bootstrap_environment
  tb_worker_binary :: "string option"
  tb_setup_timeout :: nat
  tb_start_timeout :: nat
  tb_shutdown_timeout :: nat
  tb_cleanup_mode :: cleanup_mode
  tb_binary_cache_dir :: "string option"
  tb_extensions :: "extension_request option"
  tb_installed_extensions :: "installed_extension list"

definition validate_backend_selection :: "(string \<Rightarrow> string option) \<Rightarrow> bootstrap_error + unit" where
  "validate_backend_selection env =
     (let raw = (case env ''PG_TEST_BACKEND'' of Some v \<Rightarrow> v | None \<Rightarrow> []) in
      if is_utf8 raw \<and> (trim raw = [] \<or> trim raw = ''postgresql_embedded'') then Inr () else Inl (extension_error Other))"

definition orchestrate_bootstrap ::
  "boot_env \<Rightarrow> boot_libs \<Rightarrow> bootstrap_kind \<Rightarrow> (bootstrap_error, test_bootstrap_settings) io"
where
  "orchestrate_bootstrap be libs bk w =
     (let privileges = detect_execution_privileges w; env = be_env be in
      io_bind (io_of (if bk = TestBootstrap then validate_backend_selection env else Inr ())) (\<lambda>_.
      io_bind (io_of (load_cfg libs)) (\<lambda>cfg.
      io_bind (io_of (case bk of
          DefaultBootstrap \<Rightarrow> to_settings (lib_defaults libs) (lib_parse_req libs) env cfg
        | TestBootstrap \<Rightarrow> to_settings_for_tests (lib_defaults libs) (lib_parse_req libs) env cfg)) (\<lambda>s.
      io_bind (worker_binary_from_env (be_cap be) (be_dir be) env privileges) (\<lambda>worker_binary.
      io_bind (io_of (determine_execution_mode privileges worker_binary)) (\<lambda>emode.
      io_bind (io_of (shutdown_timeout_from_env env)) (\<lambda>shutdown_timeout.
      io_bind (io_of (from_config (lib_parse_url libs) env (lib_home_dir libs) cfg)) (\<lambda>exts.
      io_bind (prepare_bootstrap be privileges s cfg (kind_layout bk)) (\<lambda>prepared.
        io_ok \<lparr>tb_privileges = privileges, tb_execution_mode = emode, tb_settings = prep_settings prepared,
          tb_environment = prep_environment prepared, tb_worker_binary = worker_binary,
          tb_setup_timeout = DEFAULT_SETUP_TIMEOUT, tb_start_timeout = DEFAULT_START_TIMEOUT,
          tb_shutdown_timeout = shutdown_timeout, tb_cleanup_mode = DataOnly,
          tb_binary_cache_dir = cfg_binary_cache_dir cfg, tb_extensions = exts, tb_installed_extensions = []\<rparr>)))))))) w)"

definition bootstrap_for_tests :: "boot_env \<Rightarrow> boot_libs \<Rightarrow> (bootstrap_error, test_bootstrap_settings) io" where
  "bootstrap_for_tests be libs = orchestrate_bootstrap be libs TestBootstrap"

text \<open>\<open>setup_only\<close> is the lifecycle that \<open>run\<close> hands the bootstrap to.\<close>

definition run_bootstrap ::
  "(test_bootstrap_settings \<Rightarrow> (bootstrap_error, unit) io) \<Rightarrow> boot_env \<Rightarrow> boot_libs \<Rightarrow> (bootstrap_error, unit) io" where
  "run_bootstrap setup_only be libs = io_bind (orchestrate_bootstrap be libs DefaultBootstrap) setup_only"

section \<open>Properties\<close>

text \<open>What is decided before anything is prepared: the configuration, the worker and how to run.\<close>

record bootstrap_choices =
  bc_cfg :: pg_env_cfg
  bc_settings :: settings
  bc_worker :: "string option"
  bc_mode :: execution_mode
  bc_timeout :: nat
  bc_extensions :: "extension_request option"

definition bootstrap_checks :: "boot_env \<Rightarrow> boot_libs \<Rightarrow> bootstrap_kind \<Rightarrow> execution_privileges \<Rightarrow> (bootstrap_error, bootstrap_choices) io" where
  "bootstrap_checks be libs bk privileges =
     io_bind (io_of (if bk = TestBootstrap then validate_backend_selection (be_env be) else Inr ())) (\<lambda>_.
     io_bind (io_of (load_cfg libs)) (\<lambda>cfg.
     io_bind (io_of (case bk of
         DefaultBootstrap \<Rightarrow> to_settings (lib_defaults libs) (lib_parse_req libs) (be_env be) cfg
       | TestBootstrap \<Rightarrow> to_settings_for_tests (lib_defaults libs) (lib_parse_req libs) (be_env be) cfg)) (\<lambda>s.
     io_bind (worker_binary_from_env (be_cap be) (be_dir be) (be_env be) privileges) (\<lambda>worker_binary.
     io_bind (io_of (determine_execution_mode privileges worker_binary)) (\<lambda>emode.
     io_bind (io_of (shutdown_timeout_from_env (be_env be))) (\<lambda>t.
     io_bind (io_of (from_config (lib_parse_url libs) (be_env be) (lib_home_dir libs) cfg)) (\<lambda>exts.
       io_ok \<lparr>bc_cfg = cfg, bc_settings = s, bc_worker = worker_binary, bc_mode = emode, bc_timeout = t, bc_extensions = exts\<rparr>)))))))"

lemma orchestrate_checks:
  "orchestrate_bootstrap be libs bk w =
     io_bind (bootstrap_checks be libs bk (detect_execution_privileges w)) (\<lambda>c.
     io_bind (prepare_bootstrap be (detect_execution_privileges w) (bc_settings c) (bc_cfg c) (kind_layout bk)) (\<lambda>prepared.
       io_ok \<lparr>tb_privileges = detect_execution_privileges w, tb_execution_mode = bc_mode c, tb_settings = prep_settings prepared,
          tb_environment = prep_environment prepared, tb_worker_binary = bc_worker c,
          tb_setup_timeout = DEFAULT_SETUP_TIMEOUT, tb_start_timeout = DEFAULT_START_TIMEOUT,
          tb_shutdown_timeout = bc_timeout c, tb_cleanup_mode = DataOnly,
          tb_binary_cache_dir = cfg_binary_cache_dir (bc_cfg c), tb_extensions = bc_extensions c, tb_installed_extensions = []\<rparr>)) w"
  by (simp add: orchestrate_bootstrap_def bootstrap_checks_def Let_def io_bind_assoc io_bind_ok)

text \<open>The file tree is the same after a question.\<close>

definition same_tree :: "world \<Rightarrow> world \<Rightarrow> bool" where
  "same_tree w w' \<longleftrightarrow> root w' = root w"

interpretation tree_kept: io_relation same_tree
  by unfold_locales (simp_all add: same_tree_def)

lemma same_tree_discover: "moves same_tree (discover_worker_from_path dir env)"
  using unchanged_discover
  unfolding moves_def same_tree_def unchanged_def discover_worker_from_path_def discover_worker_from_path_value_def
  by (auto simp: io_ok_def split: option.split)

lemma privilege_drop_available: "root_privilege_drop_supported"
  by (simp add: root_privilege_drop_supported_def is_privileged_unix_platform_def PRIVILEGED_UNIX_TARGET_OS_def)

context dir_caps
begin

lemma same_tree_cap: "moves same_tree (dc_open_ambient cap p)" "moves same_tree (dc_metadata cap h rel)"
  unfolding moves_def same_tree_def using open_root metadata_root by (metis prod.collapse)+

lemma same_tree_validate: "moves same_tree (validate_worker_path cap dir p)"
  unfolding validate_worker_path_def validate_worker_binary_def ambient_dir_and_path_def
  by (intro tree_kept.moves_rules same_tree_cap)

lemma same_tree_worker: "moves same_tree (worker_binary_from_env cap dir env privileges)"
  unfolding worker_binary_from_env_def by (intro tree_kept.moves_rules same_tree_validate same_tree_discover)

lemma worker_from_env_ok:
  assumes "worker_binary_from_env cap dir env Root w = (Inr (Some p), w')"
  obtains w1 where "root w1 = root w" and "validate_worker_path cap dir p w1 = (Inr (), w')"
proof (cases "env ''PG_EMBEDDED_WORKER''")
  case None
  obtain found w1 where d: "discover_worker_from_path dir env w = (Inr found, w1)"
    and k: "(case found of Some worker \<Rightarrow> io_bind (validate_worker_path cap dir worker) (\<lambda>_. io_ok (Some worker)) | None \<Rightarrow> io_ok None) w1
      = (Inr (Some p), w')"
    using assms None unfolding worker_binary_from_env_def by (auto simp: privilege_drop_available elim: io_bindE)
  have "root w1 = root w" using movesD [OF same_tree_discover d] by (simp add: same_tree_def)
  then show thesis using that k by (cases found) (auto simp: io_ok_def elim!: io_bindE)
next
  case (Some raw)
  then show thesis using assms that unfolding worker_binary_from_env_def
    by (auto simp: privilege_drop_available io_err_def io_ok_def elim!: io_bindE split: sum.splits)
qed

lemma checks_ok:
  assumes "bootstrap_checks be libs bk privileges w = (Inr c, w')" and "be_cap be = cap"
  shows "bk = TestBootstrap \<Longrightarrow> validate_backend_selection (be_env be) = Inr ()"
    and "load_cfg libs = Inr (bc_cfg c)"
    and "shutdown_timeout_from_env (be_env be) = Inr (bc_timeout c)"
    and "from_config (lib_parse_url libs) (be_env be) (lib_home_dir libs) (bc_cfg c) = Inr (bc_extensions c)"
    and "determine_execution_mode privileges (bc_worker c) = Inr (bc_mode c)"
    and "\<exists>w2. worker_binary_from_env cap (be_dir be) (be_env be) privileges w = (Inr (bc_worker c), w2)"
  using assms(1) unfolding assms(2) [symmetric] bootstrap_checks_def
  by (auto elim!: io_bindE simp: io_of_def io_ok_def split: if_splits)

lemma checks_keep_tree: "be_cap be = cap \<Longrightarrow> moves same_tree (bootstrap_checks be libs bk privileges)"
  unfolding bootstrap_checks_def by (intro tree_kept.moves_rules) (simp add: same_tree_worker)

end

lemma timeout_bounds: "shutdown_timeout_from_env env = Inr t \<Longrightarrow> 1 \<le> t \<and> t \<le> MAX_SHUTDOWN_TIMEOUT_SECS"
  by (auto simp: shutdown_timeout_from_env_def parse_shutdown_timeout_def validate_shutdown_timeout_secs_def
      DEFAULT_SHUTDOWN_TIMEOUT_def MAX_SHUTDOWN_TIMEOUT_SECS_def split: option.splits if_splits)

text \<open>
  C9: A successful bootstrap runs as root only through a worker. It reports the privileges of the process; as
  root it chose the subprocess mode and a worker binary that is an executable regular file of the tree the
  bootstrap found, otherwise it runs in process and names no worker. The shutdown timeout is between one
  second and ten minutes.
\<close>

theorem root_never_in_process:
  assumes "dir_caps (be_cap be)" and "orchestrate_bootstrap be libs bk w = (Inr b, w')"
  shows "1 \<le> tb_shutdown_timeout b \<and> tb_shutdown_timeout b \<le> MAX_SHUTDOWN_TIMEOUT_SECS \<and>
    (if euid w = 0
     then tb_privileges b = Root \<and> tb_execution_mode b = Subprocess \<and>
       (\<exists>p h rel m w1 w2 w3. tb_worker_binary b = Some p \<and> p \<noteq> [] \<and> root w1 = root w \<and>
          ambient_dir_and_path (be_cap be) (be_dir be) (path_components p) w1 = (Inr (h, rel), w2) \<and>
          dc_metadata (be_cap be) h rel w2 = (Inr m, w3) \<and> is_file_node m \<and> node_executable m)
     else tb_privileges b = Unprivileged \<and> tb_execution_mode b = InProcess \<and> tb_worker_binary b = None)"
proof -
  let ?pr = "detect_execution_privileges w"
  from assms(2) obtain c w1 where checks: "bootstrap_checks be libs bk ?pr w = (Inr c, w1)"
    and b: "tb_privileges b = ?pr" "tb_execution_mode b = bc_mode c" "tb_worker_binary b = bc_worker c" "tb_shutdown_timeout b = bc_timeout c"
    unfolding orchestrate_checks by (auto elim!: io_bindE simp: io_ok_def)
  note ok = dir_caps.checks_ok [OF assms(1) checks refl]
  obtain w2 where worker: "worker_binary_from_env (be_cap be) (be_dir be) (be_env be) ?pr w = (Inr (bc_worker c), w2)"
    using ok(6) by blast
  have "?thesis" if "euid w = 0"
  proof -
    from that have pr: "?pr = Root" by (simp add: detect_execution_privileges_def)
    then obtain p where p: "bc_worker c = Some p" and m: "bc_mode c = Subprocess"
      using ok(5) by (auto simp: determine_execution_mode_def split: if_splits)
    obtain w3 where "root w3 = root w" and "validate_worker_path (be_cap be) (be_dir be) p w3 = (Inr (), w2)"
      using dir_caps.worker_from_env_ok [OF assms(1) worker [unfolded pr p]] by blast
    then show ?thesis
      using timeout_bounds [OF ok(3)] that pr p m b
      by (auto simp: validate_worker_path_def validate_worker_binary_def io_err_def io_map_err_def io_ok_def
          split: if_splits prod.splits sum.splits elim!: io_bindE) blast
  qed
  moreover have "?thesis" if "euid w \<noteq> 0"
  proof -
    from that have pr: "?pr = Unprivileged" by (simp add: detect_execution_privileges_def)
    then have "bc_worker c = None" "bc_mode c = InProcess"
      using ok(5) worker by (auto simp: determine_execution_mode_def worker_binary_from_env_def io_ok_def)
    then show ?thesis using timeout_bounds [OF ok(3)] that pr b by simp
  qed
  ultimately show ?thesis by blast
qed

text \<open>A root process with a worker beside an existing cluster.\<close>

definition demo_libs :: boot_libs where
  "demo_libs = \<lparr>lib_composition = \<lparr>comp_layers = [ConfigNull, ConfigObject [''data_dir'']], comp_errors = 0\<rparr>,
     lib_load_from_iter = Some (demo_cfg ''/srv/data''), lib_defaults = demo_start ''/tmp/data'', lib_parse_req = Some,
     lib_parse_url = (\<lambda>_. None), lib_home_dir = None\<rparr>"

definition demo_root_boot :: boot_env where
  "demo_root_boot = demo_boot\<lparr>be_env := [''TZDIR'' \<mapsto> ''/srv'', ''PG_EMBEDDED_WORKER'' \<mapsto> ''/srv/pg_worker'']\<rparr>"

definition demo_host :: "u32 \<Rightarrow> world" where
  "demo_host u =
     (let at = \<lparr>mode = 493, uid = 0, gid = 0\<rparr> in
      demo_cluster\<lparr>euid := u, root := put_at (root demo_cluster) [''srv'', ''pg_worker''] (Some (File at [127]))\<rparr>)"

definition demo_bootstrap :: "u32 \<Rightarrow> (bootstrap_error + test_bootstrap_settings) \<times> world" where
  "demo_bootstrap u = orchestrate_bootstrap demo_root_boot demo_libs DefaultBootstrap (demo_host u)"

lemma demo_bootstrap_ok: "(case fst (demo_bootstrap 0) of Inr b \<Rightarrow> s_password (tb_settings b) = ''s3'' | Inl _ \<Rightarrow> False)"
  by code_simp

lemma demo_caps: "dir_caps (be_cap demo_root_boot)"
  using dirs.dir_caps_axioms by (simp add: demo_root_boot_def demo_boot_def)

theorem root_never_in_process_witness:
  "\<exists>b w' p. demo_bootstrap 0 = (Inr b, w') \<and> s_password (tb_settings b) = ''s3'' \<and> tb_execution_mode b = Subprocess \<and>
     tb_worker_binary b = Some p \<and> tb_shutdown_timeout b \<le> 600"
proof -
  obtain b w' where run: "demo_bootstrap 0 = (Inr b, w')" and pw: "s_password (tb_settings b) = ''s3''"
    using demo_bootstrap_ok by (cases "demo_bootstrap 0") (auto split: sum.splits)
  have "euid (demo_host 0) = 0" by (simp add: demo_host_def Let_def)
  with root_never_in_process [OF demo_caps run [unfolded demo_bootstrap_def]]
  show ?thesis using run pw by (auto simp: MAX_SHUTDOWN_TIMEOUT_SECS_def)
qed

text \<open>
  C8: A bootstrap that is not fully configured touches nothing. When the file tree differs afterwards, whether
  the bootstrap succeeded or failed, the backend was a supported one, the configuration loaded, the
  shutdown timeout and the requested extensions were valid, and a root process had a worker.
\<close>

theorem misconfigured_bootstrap_touches_nothing:
  assumes "dir_caps (be_cap be)" and "orchestrate_bootstrap be libs bk w = (r, w')" and "root w' \<noteq> root w"
  shows "(bk = TestBootstrap \<longrightarrow> validate_backend_selection (be_env be) = Inr ()) \<and>
    (\<exists>cfg t exts worker w1. load_cfg libs = Inr cfg \<and> shutdown_timeout_from_env (be_env be) = Inr t \<and>
       from_config (lib_parse_url libs) (be_env be) (lib_home_dir libs) cfg = Inr exts \<and>
       worker_binary_from_env (be_cap be) (be_dir be) (be_env be) (detect_execution_privileges w) w = (Inr worker, w1) \<and>
       (euid w = 0 \<longrightarrow> worker \<noteq> None))"
proof -
  let ?pr = "detect_execution_privileges w"
  obtain rc w1 where checks: "bootstrap_checks be libs bk ?pr w = (rc, w1)" by fastforce
  have "root w1 = root w"
    using movesD [OF dir_caps.checks_keep_tree [OF assms(1) refl] checks] by (simp add: same_tree_def)
  with assms(2,3) checks obtain c where c: "rc = Inr c"
    unfolding orchestrate_checks by (cases rc) (auto simp: io_bind_def)
  note ok = dir_caps.checks_ok [OF assms(1) checks [unfolded c] refl]
  have "euid w = 0 \<Longrightarrow> bc_worker c \<noteq> None"
    using ok(5) by (auto simp: determine_execution_mode_def detect_execution_privileges_def split: if_splits)
  then show ?thesis using ok(1-4,6) by blast
qed

theorem misconfigured_bootstrap_touches_nothing_witness:
  "root (snd (demo_bootstrap 0)) \<noteq> root (demo_host 0) \<and>
     (\<exists>cfg t exts. load_cfg demo_libs = Inr cfg \<and> shutdown_timeout_from_env (be_env demo_root_boot) = Inr t \<and>
        from_config (lib_parse_url demo_libs) (be_env demo_root_boot) (lib_home_dir demo_libs) cfg = Inr exts)"
proof -
  obtain r w' where run: "demo_bootstrap 0 = (r, w')" by fastforce
  have changed: "root (snd (demo_bootstrap 0)) \<noteq> root (demo_host 0)" by code_simp
  with run have "root w' \<noteq> root (demo_host 0)" by simp
  from misconfigured_bootstrap_touches_nothing [OF demo_caps run [unfolded demo_bootstrap_def] this]
  show ?thesis using changed by auto
qed

end
