(* ===== verification/WorkerProcess.thy ===== *)
theory WorkerProcess
  imports Bootstrap EnvSummary
begin

text \<open>
  Running the privileged worker: the payload it is sent (\<open>worker.rs\<close>), the child process with its time
  limit and its clean-up, the truncated output of a failure (\<open>worker_process\<close>), and the dropping of
  privileges. Starting, waiting for and killing a child are services of \<open>std::process\<close> and of the
  \<open>wait_timeout\<close> crate, parameters; so are \<open>serde_json\<close>, the rounding of a duration to seconds and \<open>tempfile\<close>. A child that was started and a child that
  was reaped are recorded in the trace.
\<close>

section \<open>The payload\<close>

text \<open>\<open>SettingsSnapshot\<close>: the paths have been checked to be UTF-8.\<close>

record settings_snapshot =
  snap_releases_url :: string
  snap_version :: string
  snap_installation_dir :: string
  snap_password_file :: string
  snap_data_dir :: string
  snap_host :: string
  snap_port :: nat
  snap_username :: string
  snap_password :: string
  snap_temporary :: bool
  snap_timeout_secs :: "nat option"
  snap_configuration :: "string \<rightharpoonup> string"
  snap_trust_installation_dir :: bool
  snap_socket_dir :: "string option"

definition utf8_or :: "string \<Rightarrow> bootstrap_error + string" where
  "utf8_or p = (case from_path_buf p of Inr s \<Rightarrow> Inr s | Inl _ \<Rightarrow> Inl (extension_error Other))"

definition snapshot_try_from :: "settings \<Rightarrow> bootstrap_error + settings_snapshot" where
  "snapshot_try_from st =
     res_bind (utf8_or (s_installation_dir st)) (\<lambda>install.
     res_bind (utf8_or (s_password_file st)) (\<lambda>password_file.
     res_bind (utf8_or (s_data_dir st)) (\<lambda>data.
     res_bind (case s_socket_dir st of None \<Rightarrow> Inr None | Some d \<Rightarrow> res_bind (utf8_or d) (\<lambda>x. Inr (Some x))) (\<lambda>socket.
       Inr \<lparr>snap_releases_url = s_releases_url st, snap_version = s_version st, snap_installation_dir = install,
         snap_password_file = password_file, snap_data_dir = data, snap_host = s_host st, snap_port = s_port st,
         snap_username = s_username st, snap_password = s_password st, snap_temporary = s_temporary st,
         snap_timeout_secs = s_timeout st, snap_configuration = s_configuration st,
         snap_trust_installation_dir = s_trust_installation_dir st, snap_socket_dir = socket\<rparr>))))"

definition into_settings :: "settings_snapshot \<Rightarrow> settings" where
  "into_settings s = \<lparr>s_releases_url = snap_releases_url s, s_version = snap_version s,
     s_installation_dir = snap_installation_dir s, s_password_file = snap_password_file s, s_data_dir = snap_data_dir s,
     s_host = snap_host s, s_port = snap_port s, s_username = snap_username s, s_password = snap_password s,
     s_temporary = snap_temporary s, s_timeout = snap_timeout_secs s, s_configuration = snap_configuration s,
     s_trust_installation_dir = snap_trust_installation_dir s, s_socket_dir = snap_socket_dir s\<rparr>"

record worker_payload =
  wp_settings :: settings_snapshot
  wp_environment :: "(string \<times> string option) list"

definition payload_new :: "settings \<Rightarrow> (string \<times> string option) list \<Rightarrow> bootstrap_error + worker_payload" where
  "payload_new st environment =
     res_bind (snapshot_try_from st) (\<lambda>s. Inr \<lparr>wp_settings = s, wp_environment = environment\<rparr>)"

text \<open>
  What is on the wire, by the \<open>serde_as\<close> attribute of the timeout: a whole number of seconds. The durations of
  the model are in milliseconds; \<open>secs\<close> is the rounding of \<open>serde_with\<close>. Reading it back gives that many seconds.
\<close>

definition serialize_payload :: "(nat \<Rightarrow> nat) \<Rightarrow> worker_payload \<Rightarrow> worker_payload" where
  "serialize_payload secs p =
     p\<lparr>wp_settings := (wp_settings p)\<lparr>snap_timeout_secs := map_option secs (snap_timeout_secs (wp_settings p))\<rparr>\<rparr>"

definition deserialize_payload :: "worker_payload \<Rightarrow> worker_payload" where
  "deserialize_payload p =
     p\<lparr>wp_settings := (wp_settings p)\<lparr>snap_timeout_secs := map_option (\<lambda>s. s * 1000) (snap_timeout_secs (wp_settings p))\<rparr>\<rparr>"

section \<open>The output of a failed worker\<close>

definition OUTPUT_CHAR_LIMIT :: nat where "OUTPUT_CHAR_LIMIT = 2048"

definition TRUNCATION_SUFFIX :: string where
  "TRUNCATION_SUFFIX = [CHR 0xE2, CHR 0x80, CHR 0xA6] @ '' [truncated]''"

text \<open>The first loop: the characters taken and those left, or \<open>None\<close> when the text ends before.\<close>

fun push_chars :: "nat \<Rightarrow> string list \<Rightarrow> string \<Rightarrow> (string \<times> string list) option" where
  "push_chars 0 chars out = Some (out, chars)"
| "push_chars (Suc n) [] out = None"
| "push_chars (Suc n) (ch # chars) out = push_chars n chars (out @ ch)"

definition truncate_output :: "string \<Rightarrow> string" where
  "truncate_output text =
     (case push_chars OUTPUT_CHAR_LIMIT (utf8_chars text) [] of
        None \<Rightarrow> text
      | Some (out, chars) \<Rightarrow> if chars = [] then text else out @ TRUNCATION_SUFFIX)"

record child_output =
  out_success :: bool
  out_stdout :: string
  out_stderr :: string

text \<open>The text of the report, and the error it becomes.\<close>

definition failure_text :: "string \<Rightarrow> child_output \<Rightarrow> string" where
  "failure_text context out =
     context @ [CHR 0x0A] @ ''stdout: '' @ truncate_output (from_utf8_lossy (out_stdout out)) @
     [CHR 0x0A] @ ''stderr: '' @ truncate_output (from_utf8_lossy (out_stderr out))"

definition render_failure :: "string \<Rightarrow> child_output \<Rightarrow> bootstrap_error" where
  "render_failure context out = extension_error Other"

definition combine_errors :: "bootstrap_error \<Rightarrow> bootstrap_error \<Rightarrow> bootstrap_error" where
  "combine_errors primary cleanup = extension_error Other"

section \<open>Starting a child\<close>

text \<open>\<open>std::process::Command\<close>, with the system calls of its \<open>pre_exec\<close> closures, in the order they are made.\<close>

record command =
  cmd_program :: string
  cmd_args :: "string list"
  cmd_pre_exec :: "pre_exec_call list"

record process_lib =
  p_spawn :: "command \<Rightarrow> nat fs"
  p_wait_timeout :: "nat \<Rightarrow> nat \<Rightarrow> bool option fs"
  p_try_wait :: "nat \<Rightarrow> bool option fs"
  p_kill :: "nat \<Rightarrow> unit fs"
  p_wait :: "nat \<Rightarrow> unit fs"
  p_output :: "nat \<Rightarrow> child_output fs"

text \<open>
  \<open>configure_pre_exec\<close>: the closure drops the supplementary groups, then sets the group, then the user.
  It stops at the first call that fails; then the child does not get to \<open>exec\<close> and \<open>spawn\<close> returns that error,
  so a child that was spawned has made all the calls.
\<close>

definition configure_pre_exec :: "u32 \<Rightarrow> u32 \<Rightarrow> command \<Rightarrow> command" where
  "configure_pre_exec u g cmd = cmd\<lparr>cmd_pre_exec := cmd_pre_exec cmd @ [SetGroups [], SetGid g, SetUid u]\<rparr>"

definition note_op :: "op \<Rightarrow> ('e, unit) io" where
  "note_op oper w = (Inr (), w\<lparr>trace := trace w @ [oper]\<rparr>)"

definition spawn_child :: "process_lib \<Rightarrow> command \<Rightarrow> nat fs" where
  "spawn_child pl cmd = io_bind (p_spawn pl cmd) (\<lambda>c. io_bind (note_op (Spawned c (cmd_pre_exec cmd))) (\<lambda>_. io_ok c))"

definition kill_child :: "process_lib \<Rightarrow> nat \<Rightarrow> unit fs" where
  "kill_child pl c = record_op (Signal (int c) SIGKILL) (p_kill pl c)"

definition wait_with_output :: "process_lib \<Rightarrow> nat \<Rightarrow> child_output fs" where
  "wait_with_output pl c = io_bind (p_output pl c) (\<lambda>out. io_bind (note_op (Reaped c)) (\<lambda>_. io_ok out))"

definition wait_child :: "process_lib \<Rightarrow> nat \<Rightarrow> unit fs" where
  "wait_child pl c = io_bind (p_wait pl c) (\<lambda>_. note_op (Reaped c))"

section \<open>Dropping privileges\<close>

text \<open>
  The parameters of a run: the process services, the temporary files, the JSON encoder, the rounding of a duration to seconds, the lookup of
  \<open>nobody\<close>, the directory for temporary files, and the value of \<open>SKIP_PRIVILEGE_DROP\<close>, which only tests raise.
\<close>

record worker_env =
  we_process :: process_lib
  we_tempfile :: tempfile_crate
  we_to_json :: "worker_payload \<Rightarrow> bytes option"
  we_duration_secs :: "nat \<Rightarrow> nat"
  we_nobody :: "io_error_kind + user option"
  we_temp_dir :: path
  we_skip :: nat
  we_show_path :: "path \<Rightarrow> string"

definition failing :: "'a fs \<Rightarrow> (bootstrap_error, 'a) io" where
  "failing m = io_map_err (\<lambda>_. extension_error Other) m"

definition resolve_nobody_ids :: "worker_env \<Rightarrow> bootstrap_error + user" where
  "resolve_nobody_ids we = (case we_nobody we of Inr (Some u) \<Rightarrow> Inr u | _ \<Rightarrow> Inl (extension_error Other))"

definition chown_payload :: "path \<Rightarrow> user \<Rightarrow> (bootstrap_error, unit) io" where
  "chown_payload p u = failing (chown_entry p u)"

definition apply_privilege_drop :: "worker_env \<Rightarrow> path \<Rightarrow> command \<Rightarrow> (bootstrap_error, command) io" where
  "apply_privilege_drop we p cmd =
     io_bind (io_of (resolve_nobody_ids we)) (\<lambda>u.
     io_bind (chown_payload p u) (\<lambda>_.
       io_ok (configure_pre_exec (user_uid u) (user_gid u) cmd)))"

definition apply_unix :: "worker_env \<Rightarrow> path \<Rightarrow> command \<Rightarrow> (bootstrap_error, command) io" where
  "apply_unix we p cmd = (if we_skip we > 0 then io_ok cmd else apply_privilege_drop we p cmd)"

section \<open>Running the worker\<close>

record worker_request =
  wr_worker :: string
  wr_settings :: settings
  wr_env_vars :: "(string \<times> string option) list"
  wr_operation :: worker_operation
  wr_timeout :: nat

fun worker_operation_error_context :: "worker_operation \<Rightarrow> string" where
  "worker_operation_error_context Setup = ''postgresql_embedded::setup() failed''"
| "worker_operation_error_context Start = ''postgresql_embedded::start() failed''"
| "worker_operation_error_context Stop = ''postgresql_embedded::stop() failed''"
| "worker_operation_error_context Cleanup = ''pg_worker cleanup operation failed''"
| "worker_operation_error_context CleanupFull = ''pg_worker cleanup-full operation failed''"

text \<open>The temporary file and its handle; a failure after its creation drops it.\<close>

definition dropping_payload :: "worker_env \<Rightarrow> path \<Rightarrow> bootstrap_error \<Rightarrow> (bootstrap_error, 'a) io" where
  "dropping_payload we tmp e = io_match (named_drop (we_tempfile we) tmp) (\<lambda>_. io_err e)"

definition write_payload :: "worker_env \<Rightarrow> worker_request \<Rightarrow> (bootstrap_error, path) io" where
  "write_payload we req =
     io_bind (io_of (payload_new (wr_settings req) (wr_env_vars req))) (\<lambda>payload.
     io_bind (failing (named_new_in (we_tempfile we) (we_temp_dir we))) (\<lambda>(tmp, h).
       case we_to_json we (serialize_payload (we_duration_secs we) payload) of
         None \<Rightarrow> dropping_payload we tmp (extension_error Other)
       | Some bs \<Rightarrow>
           io_match (write_all_at tmp h bs) (\<lambda>r.
             case r of
               Inl _ \<Rightarrow> dropping_payload we tmp (extension_error Other)
             | Inr _ \<Rightarrow> io_ok tmp)))"

definition configure_command :: "worker_env \<Rightarrow> worker_request \<Rightarrow> path \<Rightarrow> (bootstrap_error, command) io" where
  "configure_command we req payload =
     apply_unix we payload \<lparr>cmd_program = wr_worker req,
       cmd_args = [worker_operation_as_str (wr_operation req), we_show_path we payload], cmd_pre_exec = []\<rparr>"

definition handle_wait_error :: "process_lib \<Rightarrow> nat \<Rightarrow> (bootstrap_error, child_output) io" where
  "handle_wait_error pl c =
     io_match (kill_child pl c) (\<lambda>_.
     io_match (wait_with_output pl c) (\<lambda>_. io_err (extension_error Other)))"

definition handle_timeout :: "process_lib \<Rightarrow> nat \<Rightarrow> (bootstrap_error, unit) io" where
  "handle_timeout pl c =
     io_match (kill_child pl c) (\<lambda>r.
       case r of
         Inr _ \<Rightarrow> io_ok ()
       | Inl e \<Rightarrow> if e = InvalidInput then io_ok () else io_err (extension_error Other))"

definition run_command_with_timeout :: "worker_env \<Rightarrow> worker_request \<Rightarrow> command \<Rightarrow> (bootstrap_error, child_output) io" where
  "run_command_with_timeout we req cmd =
     (let pl = we_process we in
      io_bind (failing (spawn_child pl cmd)) (\<lambda>c.
      io_match (p_wait_timeout pl c (wr_timeout req)) (\<lambda>waited.
        case waited of
          Inl _ \<Rightarrow> handle_wait_error pl c
        | Inr ended \<Rightarrow>
            io_bind (if ended = None then handle_timeout pl c else io_ok ()) (\<lambda>_.
            io_bind (failing (wait_with_output pl c)) (\<lambda>out.
              if ended = None
              then io_err (render_failure (worker_operation_error_context (wr_operation req) @ '' timed out'') out)
              else io_ok out)))))"

definition close_payload :: "worker_env \<Rightarrow> path \<Rightarrow> (bootstrap_error, unit) io" where
  "close_payload we tmp = failing (named_drop (we_tempfile we) tmp)"

definition run_worker :: "worker_env \<Rightarrow> worker_request \<Rightarrow> path \<Rightarrow> command \<Rightarrow> (bootstrap_error, child_output) io" where
  "run_worker we req payload cmd =
     io_match (run_command_with_timeout we req cmd) (\<lambda>run_result.
     io_match (close_payload we payload) (\<lambda>cleanup_result.
       io_of (case (run_result, cleanup_result) of
                (Inr out, Inr _) \<Rightarrow> Inr out
              | (Inl e, Inr _) \<Rightarrow> Inl e
              | (Inr _, Inl e) \<Rightarrow> Inl e
              | (Inl run_err, Inl cleanup_err) \<Rightarrow> Inl (combine_errors run_err cleanup_err))))"

definition handle_exit :: "worker_operation \<Rightarrow> child_output \<Rightarrow> bootstrap_error + unit" where
  "handle_exit operation out =
     (if out_success out then Inr () else Inl (render_failure (worker_operation_error_context operation) out))"

text \<open>\<open>WorkerProcess::run\<close>; an early return drops the payload's \<open>TempPath\<close>.\<close>

definition worker_run :: "worker_env \<Rightarrow> worker_request \<Rightarrow> (bootstrap_error, unit) io" where
  "worker_run we req =
     io_bind (write_payload we req) (\<lambda>payload.
     io_match (configure_command we req payload) (\<lambda>configured.
       case configured of
         Inl e \<Rightarrow> dropping_payload we payload e
       | Inr cmd \<Rightarrow>
           io_bind (run_worker we req payload cmd) (\<lambda>out.
             io_of (handle_exit (wr_operation req) out))))"

section \<open>Invoking it\<close>

definition worker_operation_timeout :: "worker_operation \<Rightarrow> test_bootstrap_settings \<Rightarrow> nat" where
  "worker_operation_timeout operation b =
     (case operation of
        Setup \<Rightarrow> tb_setup_timeout b
      | Start \<Rightarrow> tb_start_timeout b
      | Stop \<Rightarrow> tb_shutdown_timeout b
      | Cleanup \<Rightarrow> tb_shutdown_timeout b
      | CleanupFull \<Rightarrow> tb_shutdown_timeout b)"

definition spawn_worker_inner ::
  "worker_env \<Rightarrow> test_bootstrap_settings \<Rightarrow> (string \<times> string option) list \<Rightarrow> worker_operation \<Rightarrow> (bootstrap_error, unit) io" where
  "spawn_worker_inner we b env_vars operation =
     (case tb_worker_binary b of
        None \<Rightarrow> io_err (extension_error Other)
      | Some worker \<Rightarrow>
          worker_run we \<lparr>wr_worker = worker, wr_settings = tb_settings b, wr_env_vars = env_vars,
            wr_operation = operation, wr_timeout = worker_operation_timeout operation b\<rparr>)"

definition execute_root_operation ::
  "worker_env \<Rightarrow> test_bootstrap_settings \<Rightarrow> (string \<times> string option) list \<Rightarrow> worker_operation \<Rightarrow> (bootstrap_error, unit) io" where
  "execute_root_operation we b env_vars operation =
     (if \<not> root_privilege_drop_supported then io_err unsupported_root_privilege_drop_error
      else (case tb_execution_mode b of
              InProcess \<Rightarrow> io_err (extension_error Other)
            | Subprocess \<Rightarrow> spawn_worker_inner we b env_vars operation))"

text \<open>
  \<open>tokio::time::timeout\<close> is a parameter: it runs the operation, or gives up on it, which is \<open>None\<close>. An
  operation of the in-process server returns the settings it leaves behind.
\<close>

type_synonym server_op = "((embedded_error + unit) \<times> settings) act"
type_synonym time_limit = "nat \<Rightarrow> server_op \<Rightarrow> ((embedded_error + unit) \<times> settings) option act"

definition timeout_error :: bootstrap_error where
  "timeout_error = (extension_error Other)\<lparr>causes := [LifecycleTimeout]\<rparr>"

definition embedded_failure :: "embedded_error \<Rightarrow> bootstrap_error" where
  "embedded_failure e = (extension_error Other)\<lparr>causes := [EmbeddedCause e]\<rparr>"

definition invoke_unprivileged :: "time_limit \<Rightarrow> nat \<Rightarrow> server_op \<Rightarrow> (bootstrap_error, settings) io" where
  "invoke_unprivileged limit t fut w =
     (case limit t fut w of
        (None, w') \<Rightarrow> (Inl timeout_error, w')
      | (Some (Inl e, _), w') \<Rightarrow> (Inl (embedded_failure e), w')
      | (Some (Inr _, st), w') \<Rightarrow> (Inr st, w'))"

text \<open>
  \<open>WorkerInvoker::invoke\<close>, by the privileges: as root the worker does the work and the in-process
  operation is not run, so the settings stay as they are.
\<close>

definition invoke_operation ::
  "worker_env \<Rightarrow> time_limit \<Rightarrow> test_bootstrap_settings \<Rightarrow> (string \<times> string option) list \<Rightarrow> worker_operation \<Rightarrow>
   settings \<Rightarrow> server_op \<Rightarrow> (bootstrap_error, settings) io" where
  "invoke_operation we limit b env_vars operation st fut =
     (case tb_privileges b of
        Unprivileged \<Rightarrow> invoke_unprivileged limit (worker_operation_timeout operation b) fut
      | Root \<Rightarrow> io_bind (execute_root_operation we b env_vars operation) (\<lambda>_. io_ok st))"

section \<open>Properties\<close>

subsection \<open>The payload carries the settings\<close>

lemma snapshot_roundtrip: "snapshot_try_from st = Inr s \<Longrightarrow> into_settings s = st"
  by (auto simp: snapshot_try_from_def into_settings_def utf8_or_def from_path_buf_def res_bind_def
      split: sum.splits option.splits if_splits)

lemma payload_roundtrip: "payload_new st env = Inr p \<Longrightarrow> into_settings (wp_settings p) = st \<and> wp_environment p = env"
  by (auto simp: payload_new_def res_bind_def snapshot_roundtrip split: sum.splits)

text \<open>The settings that come out at the other end: only the part of the timeout below a second is changed.\<close>

definition wire_settings :: "(nat \<Rightarrow> nat) \<Rightarrow> settings \<Rightarrow> settings" where
  "wire_settings secs st = st\<lparr>s_timeout := map_option (\<lambda>t. secs t * 1000) (s_timeout st)\<rparr>"

lemma wire_roundtrip:
  assumes "payload_new st env = Inr p"
  shows "into_settings (wp_settings (deserialize_payload (serialize_payload secs p))) = wire_settings secs st"
    and "wp_environment (deserialize_payload (serialize_payload secs p)) = env"
  using payload_roundtrip [OF assms]
  by (auto simp: into_settings_def serialize_payload_def deserialize_payload_def wire_settings_def option.map_comp comp_def)

subsection \<open>Children\<close>

text \<open>The services start and reap no child of their own, nor do temporary files.\<close>

definition process_quiet :: "process_lib \<Rightarrow> bool" where
  "process_quiet pl \<longleftrightarrow>
     (\<forall>c. issues (\<lambda>_. False) (p_spawn pl c)) \<and> (\<forall>c t. issues (\<lambda>_. False) (p_wait_timeout pl c t)) \<and>
     (\<forall>c. issues (\<lambda>_. False) (p_try_wait pl c)) \<and> (\<forall>c. issues (\<lambda>_. False) (p_kill pl c)) \<and>
     (\<forall>c. issues (\<lambda>_. False) (p_wait pl c)) \<and> (\<forall>c. issues (\<lambda>_. False) (p_output pl c))"

fun childless :: "op \<Rightarrow> bool" where
  "childless (Spawned _ _) = False"
| "childless (Reaped _) = False"
| "childless _ = True"

definition tempfile_childless :: "tempfile_crate \<Rightarrow> bool" where
  "tempfile_childless tf \<longleftrightarrow>
     (\<forall>d. issues childless (named_new_in tf d)) \<and> (\<forall>t. issues childless (named_drop tf t))"

text \<open>The children that are running after some events.\<close>

fun child_event :: "op \<Rightarrow> nat set \<Rightarrow> nat set" where
  "child_event (Spawned c _) S = insert c S"
| "child_event (Reaped c) S = S - {c}"
| "child_event _ S = S"

definition running :: "op list \<Rightarrow> nat set" where
  "running ops = fold child_event ops {}"

lemma fold_childless: "list_all childless ops \<Longrightarrow> fold child_event ops S = S"
proof (induction ops arbitrary: S)
  case (Cons x ops)
  then show ?case by (cases x) auto
qed simp

text \<open>
  The credentials of a process, and what the calls before \<open>exec\<close> make of them: only the superuser may set
  the supplementary groups, and an unprivileged process may only keep the user and group it has.
\<close>

record credentials =
  cr_uid :: u32
  cr_gid :: u32
  cr_groups :: "u32 list"

fun pre_exec_step :: "pre_exec_call \<Rightarrow> credentials \<Rightarrow> credentials option" where
  "pre_exec_step (SetGroups gs) cr = (if cr_uid cr = 0 then Some (cr\<lparr>cr_groups := gs\<rparr>) else None)"
| "pre_exec_step (SetGid g) cr = (if cr_uid cr = 0 \<or> g = cr_gid cr then Some (cr\<lparr>cr_gid := g\<rparr>) else None)"
| "pre_exec_step (SetUid u) cr = (if cr_uid cr = 0 \<or> u = cr_uid cr then Some (cr\<lparr>cr_uid := u\<rparr>) else None)"

fun run_pre_exec :: "pre_exec_call list \<Rightarrow> credentials \<Rightarrow> credentials option" where
  "run_pre_exec [] cr = Some cr"
| "run_pre_exec (c # cs) cr = Option.bind (pre_exec_step c cr) (run_pre_exec cs)"

text \<open>Every child that root starts runs as that user, in its group and in no other.\<close>

fun demoted_to :: "user \<Rightarrow> op \<Rightarrow> bool" where
  "demoted_to u (Spawned _ calls) =
     (\<forall>g gs. run_pre_exec calls \<lparr>cr_uid = 0, cr_gid = g, cr_groups = gs\<rparr> =
        Some \<lparr>cr_uid = user_uid u, cr_gid = user_gid u, cr_groups = []\<rparr>)"
| "demoted_to u _ = True"

text \<open>A child that can be killed, unless it has exited, and waited for.\<close>

definition stoppable :: "process_lib \<Rightarrow> bool" where
  "stoppable pl \<longleftrightarrow>
     (\<forall>c w. fst (p_kill pl c w) \<in> {Inr (), Inl InvalidInput}) \<and> (\<forall>c w. \<exists>out. fst (p_output pl c w) = Inr out)"

text \<open>No child, or one that is started first and, if the events are \<open>closed\<close>, reaped last.\<close>

definition one_child :: "pre_exec_call list \<Rightarrow> bool \<Rightarrow> op list \<Rightarrow> bool" where
  "one_child d closed ops \<longleftrightarrow>
     ops = [] \<or> (\<exists>c m. list_all childless m \<and> (ops = Spawned c d # m @ [Reaped c] \<or> \<not> closed \<and> ops = Spawned c d # m))"

definition ends_well :: "'e + 'a \<Rightarrow> bool" where
  "ends_well r \<longleftrightarrow> (case r of Inr _ \<Rightarrow> True | Inl _ \<Rightarrow> False)"

lemma ends_well_simps [simp]: "ends_well (Inr x)" "\<not> ends_well (Inl e)"
  by (simp_all add: ends_well_def)

lemma trace_quiet:
  assumes "process_quiet pl"
  shows "p_spawn pl cmd w = (r1, w') \<Longrightarrow> trace w' = trace w"
    and "p_wait_timeout pl c t w = (r2, w') \<Longrightarrow> trace w' = trace w"
    and "p_kill pl c w = (r3, w') \<Longrightarrow> trace w' = trace w"
    and "p_output pl c w = (r4, w') \<Longrightarrow> trace w' = trace w"
    and "p_try_wait pl c w = (r5, w') \<Longrightarrow> trace w' = trace w"
    and "p_wait pl c w = (r6, w') \<Longrightarrow> trace w' = trace w"
  using assms unfolding process_quiet_def by (metis quiet_trace snd_conv)+

lemma kill_child_trace:
  "process_quiet pl \<Longrightarrow> kill_child pl c w = (r, w') \<Longrightarrow> trace w' = trace w @ [Signal (int c) SIGKILL]"
  unfolding kill_child_def record_op_def by (drule (1) trace_quiet(3)) simp

lemma wait_with_output_trace:
  assumes "process_quiet pl" and "wait_with_output pl c w = (r, w')"
  shows "(\<exists>out. r = Inr out) \<and> trace w' = trace w @ [Reaped c] \<or> \<not> stoppable pl \<and> \<not> ends_well r \<and> trace w' = trace w"
proof -
  obtain r1 w1 where o: "p_output pl c w = (r1, w1)" by fastforce
  note trace_quiet(4) [OF assms(1) o]
  moreover have "\<exists>out. r1 = Inr out" if "stoppable pl" using that o unfolding stoppable_def by (metis fst_conv)
  ultimately show ?thesis
    using assms(2) o by (cases r1) (auto simp: wait_with_output_def io_bind_def note_op_def io_ok_def)
qed

lemma spawn_child_trace:
  assumes "process_quiet pl" and "spawn_child pl cmd w = (r, w')"
  shows "(\<exists>c. r = Inr c \<and> trace w' = trace w @ [Spawned c (cmd_pre_exec cmd)]) \<or> \<not> ends_well r \<and> trace w' = trace w"
proof -
  obtain r1 w1 where o: "p_spawn pl cmd w = (r1, w1)" by fastforce
  note trace_quiet(1) [OF assms(1) o]
  then show ?thesis
    using assms(2) o by (cases r1) (auto simp: spawn_child_def io_bind_def note_op_def io_ok_def)
qed

lemma collect_output:
  assumes "process_quiet pl" and "io_bind (failing (wait_with_output pl c)) k w = (r, w')"
    and "\<And>out v. snd (k out v) = v"
  shows "trace w' = trace w @ [Reaped c] \<or> \<not> stoppable pl \<and> \<not> ends_well r \<and> trace w' = trace w"
proof -
  obtain r1 w1 where o: "wait_with_output pl c w = (r1, w1)" by fastforce
  from wait_with_output_trace [OF assms(1) o] show ?thesis
    using assms(2,3) o by (cases r1) (auto simp: io_bind_def failing_def io_map_err_def, (metis snd_conv)+)
qed

lemma command_children:
  assumes q: "process_quiet (we_process we)" and run: "run_command_with_timeout we req cmd w = (r, w')"
  shows "\<exists>ops. trace w' = trace w @ ops \<and> one_child (cmd_pre_exec cmd) (stoppable (we_process we) \<or> ends_well r) ops"
proof -
  let ?pl = "we_process we" and ?d = "cmd_pre_exec cmd"
  obtain rs w1 where s: "spawn_child ?pl cmd w = (rs, w1)" by fastforce
  show ?thesis
  proof (cases rs)
    case (Inl e)
    then show ?thesis using run s spawn_child_trace [OF q s]
      by (auto simp: run_command_with_timeout_def Let_def io_bind_def failing_def io_map_err_def one_child_def)
  next
    case (Inr c)
    then have t1: "trace w1 = trace w @ [Spawned c ?d]" using spawn_child_trace [OF q s] by auto
    obtain rw w2 where wt: "p_wait_timeout ?pl c (wr_timeout req) w1 = (rw, w2)" by fastforce
    have t2: "trace w2 = trace w1" by (rule trace_quiet(2) [OF q wt])
    let ?out = "\<lambda>ended. io_bind (failing (wait_with_output ?pl c)) (\<lambda>out.
        if ended = None then io_err (render_failure (worker_operation_error_context (wr_operation req) @ '' timed out'') out)
        else io_ok out)"
    have run2: "(case rw of Inl _ \<Rightarrow> handle_wait_error ?pl c
        | Inr ended \<Rightarrow> io_bind (if ended = None then handle_timeout ?pl c else io_ok ()) (\<lambda>_. ?out ended)) w2 = (r, w')"
    proof -
      have "failing (spawn_child ?pl cmd) w = (Inr c, w1)" using s Inr by (simp add: failing_def io_map_err_def)
      note io_bind_run [where m = "failing (spawn_child ?pl cmd)" and w = w, OF this]
      from run [unfolded run_command_with_timeout_def Let_def this] show ?thesis
        by (simp add: io_match_def wt)
    qed
    have collected: "trace w' = trace v @ [Reaped c] \<or> \<not> stoppable ?pl \<and> \<not> ends_well r \<and> trace w' = trace v"
      if "?out ended v = (r, w')" for ended v
      by (rule collect_output [OF q that]) (simp add: io_err_def io_ok_def)
    have shape: "one_child ?d (stoppable ?pl \<or> ends_well r) (Spawned c ?d # m @ rest)"
      if "list_all childless m" and "rest = [Reaped c] \<or> \<not> stoppable ?pl \<and> \<not> ends_well r \<and> rest = []" for m rest
      using that unfolding one_child_def by auto
    obtain rk w3 where k: "kill_child ?pl c w2 = (rk, w3)" by fastforce
    note t3 = kill_child_trace [OF q k]
    show ?thesis
    proof (cases rw)
      case (Inl e)
      obtain ro w4 where o: "wait_with_output ?pl c w3 = (ro, w4)" by fastforce
      have "r = Inl (extension_error Other)" "w' = w4"
        using run2 Inl k o by (auto simp: handle_wait_error_def io_match_def io_err_def)
      then show ?thesis using wait_with_output_trace [OF q o] t1 t2 t3
          shape [of "[Signal (int c) SIGKILL]" "[Reaped c]"] shape [of "[Signal (int c) SIGKILL]" "[]"] by auto
    next
      case (Inr ended)
      show ?thesis
      proof (cases "ended = None")
        case False
        then have "?out ended w2 = (r, w')" using run2 Inr by (cases ended) (simp_all add: io_bind_ok)
        from collected [OF this] show ?thesis using t1 t2 shape [of "[]" "[Reaped c]"] shape [of "[]" "[]"] by auto
      next
        case True
        show ?thesis
        proof (cases "rk = Inr () \<or> rk = Inl InvalidInput")
          case True
          then have "?out ended w3 = (r, w')" using run2 Inr \<open>ended = None\<close> k
            by (auto simp: handle_timeout_def io_bind_def io_match_def io_ok_def)
          from collected [OF this] show ?thesis using t1 t2 t3
            shape [of "[Signal (int c) SIGKILL]" "[Reaped c]"] shape [of "[Signal (int c) SIGKILL]" "[]"] by auto
        next
          case False
          then obtain e where e: "rk = Inl e" "e \<noteq> InvalidInput" by (cases rk) auto
          moreover have "fst (p_kill ?pl c (w2\<lparr>trace := trace w2 @ [Signal (int c) SIGKILL]\<rparr>)) = rk"
            using k by (simp add: kill_child_def record_op_def)
          ultimately have "\<not> stoppable ?pl" unfolding stoppable_def by (metis Inl_inject empty_iff insert_iff sum.simps(4))
          then show ?thesis using run2 Inr \<open>ended = None\<close> k e t1 t2 t3 shape [of "[Signal (int c) SIGKILL]" "[]"]
            by (auto simp: handle_timeout_def io_bind_def io_match_def io_err_def)
        qed
      qed
    qed
  qed
qed

subsection \<open>A run of the worker\<close>

lemma issues_failing [issue_rules]: "issues P m \<Longrightarrow> issues P (failing m)"
  unfolding failing_def by (rule issues_map_err)

lemma issues_chown_entry: "P (Chown p) \<Longrightarrow> issues P (chown_entry p u)"
proof -
  assume P: "P (Chown p)"
  have "issues P (chown_at p q (user_uid u) (user_gid u))" "issues P (record_op (Chown p) (syscall (io_err e)) :: unit fs)" for q e
    unfolding chown_at_def using P by (auto intro!: issues_record issues_syscall split: option.split node.split simp: io_err_def)
  then show ?thesis unfolding issues_def chown_entry_def by (simp split: sum.split)
qed

lemma write_payload_childless:
  assumes "tempfile_childless (we_tempfile we)"
  shows "issues childless (write_payload we req)" and "issues childless (dropping_payload we t e)"
    and "issues childless (close_payload we t)" and "issues childless (configure_command we req t)"
proof -
  have new: "issues childless (named_new_in (we_tempfile we) d)" and drp: "issues childless (named_drop (we_tempfile we) t)" for d t
    using assms by (simp_all add: tempfile_childless_def)
  show d: "issues childless (dropping_payload we t e)" for t and e
    unfolding dropping_payload_def by (intro issues_match drp issues_err)
  show "issues childless (close_payload we t)" unfolding close_payload_def by (intro issue_rules drp)
  show "issues childless (write_payload we req)"
    unfolding write_payload_def by (auto intro!: issue_rules new d split: prod.split option.split sum.split)
  show "issues childless (configure_command we req t)"
    unfolding configure_command_def apply_unix_def apply_privilege_drop_def chown_payload_def
    by (auto intro!: issue_rules issues_chown_entry)
qed

lemma configured_demotes:
  assumes "configure_command we req t w = (Inr cmd, w')" and "we_skip we = 0"
  shows "\<exists>u. we_nobody we = Inr (Some u) \<and> cmd_pre_exec cmd = [SetGroups [], SetGid (user_gid u), SetUid (user_uid u)]"
  using assms
  by (auto simp: configure_command_def apply_unix_def apply_privilege_drop_def resolve_nobody_ids_def configure_pre_exec_def
      io_of_def io_ok_def elim!: io_bindE split: sum.splits option.splits)

lemma one_child_run:
  assumes "one_child [SetGroups [], SetGid (user_gid u), SetUid (user_uid u)] closed ops" and "list_all childless first" and "list_all childless rest"
  shows "list_all (demoted_to u) (first @ ops @ rest)" and "closed \<Longrightarrow> running (first @ ops @ rest) = {}"
proof -
  have c: "list_all childless xs \<Longrightarrow> list_all (demoted_to u) xs" for xs
  proof (induction xs)
    case (Cons x xs)
    then show ?case by (cases x) auto
  qed simp
  then show "list_all (demoted_to u) (first @ ops @ rest)" using assms by (auto simp: one_child_def)
  show "closed \<Longrightarrow> running (first @ ops @ rest) = {}" using assms by (auto simp: one_child_def running_def fold_childless)
qed

text \<open>
  C10: the worker never runs as root and is never left running. However a run of the worker ends, every
  child it started took on the identity of \<open>nobody\<close> before it was executed; and when the run succeeds, or
  when children can be killed and waited for, every child it started has been reaped.
\<close>

theorem worker_demoted_and_reaped:
  assumes "process_quiet (we_process we)" and "tempfile_childless (we_tempfile we)" and "we_skip we = 0"
    and "worker_run we req w = (r, w')"
  shows "\<exists>ops. trace w' = trace w @ ops \<and> (ends_well r \<or> stoppable (we_process we) \<longrightarrow> running ops = {}) \<and>
    (list_all childless ops \<or> (\<exists>u. we_nobody we = Inr (Some u) \<and> list_all (demoted_to u) ops))"
proof -
  note q = write_payload_childless [OF assms(2)]
  obtain rp w1 where p: "write_payload we req w = (rp, w1)" by fastforce
  from issuesD [OF q(1) p] obtain o1 where o1: "trace w1 = trace w @ o1" "list_all childless o1" by blast
  note none = exI [of _ o1] o1 fold_childless [OF o1(2)]
  show ?thesis
  proof (cases rp)
    case (Inl e)
    then have "w' = w1" using assms(4) p by (simp add: worker_run_def io_bind_def)
    then show ?thesis using o1 by (intro exI [of _ o1]) (simp add: running_def fold_childless)
  next
    case (Inr payload)
    obtain rc w2 where c: "configure_command we req payload w1 = (rc, w2)" by fastforce
    from issuesD [OF q(4) c] obtain o2 where o2: "trace w2 = trace w1 @ o2" "list_all childless o2" by blast
    show ?thesis
    proof (cases rc)
      case (Inl e)
      then have "dropping_payload we payload e w2 = (r, w')"
        using assms(4) p c \<open>rp = Inr payload\<close> by (simp add: worker_run_def io_bind_def io_match_def)
      from issuesD [OF q(2) this] obtain o3 where "trace w' = trace w2 @ o3" "list_all childless o3" by blast
      then show ?thesis using o1 o2 by (intro exI [of _ "o1 @ o2 @ o3"]) (simp add: running_def fold_childless)
    next
      case (Inr cmd)
      obtain u where u: "we_nobody we = Inr (Some u)" "cmd_pre_exec cmd = [SetGroups [], SetGid (user_gid u), SetUid (user_uid u)]"
        using configured_demotes [OF c [unfolded Inr] assms(3)] by blast
      obtain ro w3 where run: "run_command_with_timeout we req cmd w2 = (ro, w3)" by fastforce
      obtain rx w4 where cl: "close_payload we payload w3 = (rx, w4)" by fastforce
      from command_children [OF assms(1) run] obtain o3 where
        o3: "trace w3 = trace w2 @ o3" "one_child (cmd_pre_exec cmd) (stoppable (we_process we) \<or> ends_well ro) o3" by blast
      from issuesD [OF q(3) cl] obtain o4 where o4: "trace w4 = trace w3 @ o4" "list_all childless o4" by blast
      have "w' = w4" and good: "ends_well r \<Longrightarrow> ends_well ro"
        using assms(4) p c \<open>rp = Inr payload\<close> Inr run cl
        by (cases ro; cases rx; auto simp: worker_run_def run_worker_def io_bind_def io_match_def io_of_def)+
      moreover note one_child_run [OF o3(2) [unfolded u(2)] _ o4(2), of "o1 @ o2"]
      ultimately show ?thesis
        using o1 o2 o3 o4 u(1) by (intro exI [of _ "(o1 @ o2) @ o3 @ o4"]) auto
    qed
  qed
qed

text \<open>A worker that succeeds at once.\<close>

definition demo_process :: process_lib where
  "demo_process = \<lparr>p_spawn = (\<lambda>_. io_ok 42), p_wait_timeout = (\<lambda>_ _. io_ok (Some True)), p_try_wait = (\<lambda>_. io_ok (Some True)),
     p_kill = (\<lambda>_. io_ok ()), p_wait = (\<lambda>_. io_ok ()),
     p_output = (\<lambda>_. io_ok \<lparr>out_success = True, out_stdout = [], out_stderr = []\<rparr>)\<rparr>"

definition demo_worker_env :: worker_env where
  "demo_worker_env = \<lparr>we_process = demo_process, we_tempfile = std_tempfile, we_to_json = (\<lambda>_. Some [123, 125]),
     we_duration_secs = (\<lambda>t. (t + 500) div 1000),
     we_nobody = Inr (Some nobody), we_temp_dir = [''tmp''], we_skip = 0, we_show_path = concat\<rparr>"

definition demo_request :: worker_request where
  "demo_request = \<lparr>wr_worker = ''/srv/pg_worker'', wr_settings = demo_settings, wr_env_vars = [], wr_operation = Setup, wr_timeout = 9\<rparr>"

definition demo_worker_world :: world where
  "demo_worker_world = (Privileges.demo_tree [])\<lparr>root := Dir \<lparr>mode = 493, uid = 0, gid = 0\<rparr> [(''tmp'', Dir \<lparr>mode = 493, uid = 0, gid = 0\<rparr> [])]\<rparr>"

lemma demo_process_quiet: "process_quiet demo_process"
  by (simp add: process_quiet_def demo_process_def issues_ok)

lemma std_tempfile_childless: "tempfile_childless std_tempfile"
  unfolding tempfile_childless_def std_tempfile_def by (auto intro!: issue_rules)

lemma demo_worker_ok: "fst (worker_run demo_worker_env demo_request demo_worker_world) = Inr ()"
  by code_simp

theorem worker_demoted_and_reaped_witness:
  "\<exists>w' ops. worker_run demo_worker_env demo_request demo_worker_world = (Inr (), w') \<and>
     trace w' = trace demo_worker_world @ ops \<and> running ops = {} \<and> (list_all childless ops \<or> list_all (demoted_to nobody) ops)"
proof -
  obtain w' where run: "worker_run demo_worker_env demo_request demo_worker_world = (Inr (), w')"
    using demo_worker_ok by (metis prod.collapse)
  have "process_quiet (we_process demo_worker_env)" "tempfile_childless (we_tempfile demo_worker_env)" "we_skip demo_worker_env = 0"
    by (simp_all add: demo_worker_env_def demo_process_quiet std_tempfile_childless)
  from worker_demoted_and_reaped [OF this run] show ?thesis using run by (auto simp: demo_worker_env_def)
qed

text \<open>What follows once the payload is written, and the early returns.\<close>

definition run_written :: "worker_env \<Rightarrow> worker_request \<Rightarrow> path \<Rightarrow> (bootstrap_error, unit) io" where
  "run_written we req payload =
     io_match (configure_command we req payload) (\<lambda>configured.
       case configured of
         Inl e \<Rightarrow> dropping_payload we payload e
       | Inr cmd \<Rightarrow> io_bind (run_worker we req payload cmd) (\<lambda>out. io_of (handle_exit (wr_operation req) out)))"

lemma worker_run_written: "worker_run we req = io_bind (write_payload we req) (run_written we req)"
  unfolding worker_run_def run_written_def by simp

lemma dropping_payload_drops:
  "dropping_payload we t e v = (r, w') \<Longrightarrow> named_drop (we_tempfile we) t v = (fst (named_drop (we_tempfile we) t v), w') \<and> r = Inl e"
  by (auto simp: dropping_payload_def io_match_def io_err_def split: prod.splits)

lemma run_written_drops:
  assumes "run_written we req tmp v1 = (r, w')"
  shows "\<exists>v rd. named_drop (we_tempfile we) tmp v = (rd, w') \<and> (ends_well r \<longrightarrow> rd = Inr ())"
proof -
  obtain rc w2 where c: "configure_command we req tmp v1 = (rc, w2)" by fastforce
  show ?thesis
  proof (cases rc)
    case (Inl e)
    then have "dropping_payload we tmp e w2 = (r, w')" using assms c by (simp add: run_written_def io_match_def)
    from dropping_payload_drops [OF this] show ?thesis by auto
  next
    case (Inr cmd)
    obtain ro w3 where run: "run_command_with_timeout we req cmd w2 = (ro, w3)" by fastforce
    obtain rd w4 where d: "named_drop (we_tempfile we) tmp w3 = (rd, w4)" by fastforce
    have "w' = w4 \<and> (ends_well r \<longrightarrow> rd = Inr ())" using assms c Inr run d
      by (cases ro; cases rd) (auto simp: run_written_def io_match_def io_bind_def run_worker_def close_payload_def failing_def
          io_map_err_def io_of_def)
    then show ?thesis using d by blast
  qed
qed

lemma write_payload_cases:
  assumes "write_payload we req w = (r, w')" and "payload_new (wr_settings req) (wr_env_vars req) = Inr payload"
    and "named_new_in (we_tempfile we) (we_temp_dir we) w = (Inr (tmp, h), w1)"
  shows "r = Inr tmp \<or> (\<exists>e v rd. r = Inl e \<and> named_drop (we_tempfile we) tmp v = (rd, w'))"
proof -
  have "\<exists>e rd. r = Inl e \<and> named_drop (we_tempfile we) tmp v = (rd, w')" if "dropping_payload we tmp e v = (r, w')" for v e
    using dropping_payload_drops [OF that] by auto
  then show ?thesis using assms
    by (auto simp: write_payload_def io_bind_def io_of_def failing_def io_map_err_def io_match_def io_ok_def
        split: option.splits sum.splits prod.splits) blast+
qed

text \<open>
  C11: the payload, which holds the password, does not outlive the run. Unless no file was created at all,
  removing it is the last thing a run does, on every path; and a run that succeeds has removed it.
\<close>

theorem payload_always_removed:
  assumes "worker_run we req w = (r, w')"
  shows "(\<exists>e. payload_new (wr_settings req) (wr_env_vars req) = Inl e \<and> w' = w \<and> r = Inl e) \<or>
    (\<exists>e. named_new_in (we_tempfile we) (we_temp_dir we) w = (Inl e, w') \<and> \<not> ends_well r) \<or>
    (\<exists>tmp h w1 v rd. named_new_in (we_tempfile we) (we_temp_dir we) w = (Inr (tmp, h), w1) \<and>
       named_drop (we_tempfile we) tmp v = (rd, w') \<and> (ends_well r \<longrightarrow> rd = Inr ()))"
proof (cases "payload_new (wr_settings req) (wr_env_vars req)")
  case (Inl e)
  then show ?thesis using assms by (auto simp: worker_run_def write_payload_def io_bind_def io_of_def)
next
  case (Inr payload)
  obtain rn w1 where new: "named_new_in (we_tempfile we) (we_temp_dir we) w = (rn, w1)" by fastforce
  show ?thesis
  proof (cases rn)
    case (Inl e)
    then show ?thesis using assms Inr new
      by (auto simp: worker_run_def write_payload_def io_bind_def io_of_def failing_def io_map_err_def)
  next
    case th: (Inr th)
    obtain tmp h where "th = (tmp, h)" by fastforce
    with th new have new': "named_new_in (we_tempfile we) (we_temp_dir we) w = (Inr (tmp, h), w1)" by simp
    obtain rp w2 where wp: "write_payload we req w = (rp, w2)" by fastforce
    from write_payload_cases [OF wp Inr new'] consider "rp = Inr tmp" | e v rd where "rp = Inl e" "named_drop (we_tempfile we) tmp v = (rd, w2)"
      by blast
    then show ?thesis
    proof cases
      case 1
      then have "run_written we req tmp w2 = (r, w')" using assms wp by (simp add: worker_run_written io_bind_def)
      from run_written_drops [OF this] show ?thesis using new' by blast
    next
      case 2
      then have "r = Inl e" "w' = w2" using assms wp by (simp_all add: worker_run_written io_bind_def)
      then show ?thesis using 2 new' by auto
    qed
  qed
qed

theorem payload_always_removed_witness:
  "\<exists>w' v. worker_run demo_worker_env demo_request demo_worker_world = (Inr (), w') \<and> remove_file [''tmp'', ''.tmp''] v = (Inr (), w')"
proof -
  obtain w' where run: "worker_run demo_worker_env demo_request demo_worker_world = (Inr (), w')"
    using demo_worker_ok by (metis prod.collapse)
  have env: "we_tempfile demo_worker_env = std_tempfile" "we_temp_dir demo_worker_env = [''tmp'']" "named_drop std_tempfile = remove_file"
    by (simp_all add: demo_worker_env_def std_tempfile_def)
  have tmp: "t = [''tmp'', ''.tmp'']" if "named_new_in std_tempfile [''tmp''] v = (Inr (t, h), v')" for t h v v'
    using that by (auto simp: std_tempfile_def io_ok_def elim!: io_bindE)
  have "fst (named_new_in std_tempfile [''tmp''] demo_worker_world) = Inr ([''tmp'', ''.tmp''], [''tmp'', ''.tmp''])" by code_simp
  then have made: "named_new_in std_tempfile [''tmp''] demo_worker_world \<noteq> (Inl e, v)" for e v by auto
  from payload_always_removed [OF run, unfolded env] obtain t h w1 v rd where
    "named_new_in std_tempfile [''tmp''] demo_worker_world = (Inr (t, h), w1)" "remove_file t v = (rd, w')" "rd = Inr ()"
    using made by auto
  then show ?thesis using run tmp by blast
qed

subsection \<open>What a failure shows\<close>

lemma push_chars_eq:
  "push_chars n cs out = (if length cs < n then None else Some (out @ concat (take n cs), drop n cs))"
  by (induction n cs out rule: push_chars.induct) auto

text \<open>
  the output shown is bounded. A truncated stream is the first 2048 characters of the text and the
  suffix, a text that is not longer is shown as it is; so never more than 2048 times four bytes and the
  suffix are shown.
\<close>

theorem truncate_output_exact:
  "truncate_output text =
     (if length (utf8_chars text) \<le> OUTPUT_CHAR_LIMIT then text
      else concat (take OUTPUT_CHAR_LIMIT (utf8_chars text)) @ TRUNCATION_SUFFIX) \<and>
   length (truncate_output text) \<le> 4 * OUTPUT_CHAR_LIMIT + length TRUNCATION_SUFFIX"
proof -
  have eq: "truncate_output text =
     (if length (utf8_chars text) \<le> OUTPUT_CHAR_LIMIT then text
      else concat (take OUTPUT_CHAR_LIMIT (utf8_chars text)) @ TRUNCATION_SUFFIX)"
    by (auto simp: truncate_output_def push_chars_eq)
  have four: "length (concat cs) \<le> 4 * length cs" if "\<And>c. c \<in> set cs \<Longrightarrow> length c \<le> 4" for cs :: "string list"
    using that by (induction cs) force+
  have c4: "length c \<le> 4" if "c \<in> set (utf8_chars s)" for c s
    using that
  proof (induction s rule: utf8_chars.induct)
    case (1 s)
    then show ?case using utf8_step_le4 [of s] by (subst (asm) utf8_chars.simps) (auto split: if_splits)
  qed
  have "length (concat (take OUTPUT_CHAR_LIMIT (utf8_chars text))) \<le> 4 * OUTPUT_CHAR_LIMIT"
  proof -
    have "length (concat (take OUTPUT_CHAR_LIMIT (utf8_chars text))) \<le> 4 * length (take OUTPUT_CHAR_LIMIT (utf8_chars text))"
      by (rule four) (meson c4 in_set_takeD)
    then show ?thesis by simp
  qed
  moreover have "length text \<le> 4 * OUTPUT_CHAR_LIMIT" if "length (utf8_chars text) \<le> OUTPUT_CHAR_LIMIT"
  proof -
    have "length (concat (utf8_chars text)) \<le> 4 * length (utf8_chars text)" by (rule four) (rule c4)
    then show ?thesis using that by (simp add: concat_utf8_chars)
  qed
  ultimately show ?thesis using eq by auto
qed

end
