(* ===== verification/BinaryCache.thy ===== *)
theory BinaryCache
  imports CacheLock ExtNames
begin

text \<open>
  The shared cache of PostgreSQL binaries: looking a version up, copying it out, and populating it
  after a download (\<open>cache/operations\<close>), as on Unix. Versions, their order and requirements come from
  the \<open>semver\<close> crate, a parameter. Reports of failures become errors of kind \<open>Other\<close>; log lines are left
  out, best-effort operations keep their ignored results.
\<close>

section \<open>Copying\<close>

text \<open>\<open>copy_permissions\<close>: best effort.\<close>

definition copy_permissions :: "path \<Rightarrow> path \<Rightarrow> unit fs" where
  "copy_permissions src dst =
     io_match (metadata src) (\<lambda>r.
       case r of
         Inl _ \<Rightarrow> io_ok ()
       | Inr n \<Rightarrow> io_match (set_permissions dst (node_mode n)) (\<lambda>_. io_ok ()))"

definition is_already_installed :: "path \<Rightarrow> path \<Rightarrow> bool fs" where
  "is_already_installed src dst =
     io_match (metadata src) (\<lambda>s. io_match (metadata dst) (\<lambda>t.
       io_ok (case (s, t) of
                (Inr a, Inr b) \<Rightarrow> is_file_node b \<and> node_len a = node_len b
              | _ \<Rightarrow> False)))"

definition copy_file_with_permissions :: "path \<Rightarrow> path \<Rightarrow> unit fs" where
  "copy_file_with_permissions src dst =
     io_bind (is_already_installed src dst) (\<lambda>installed.
       if installed then io_ok ()
       else io_bind (copy_file src dst) (\<lambda>_. copy_permissions src dst))"

definition copy_symlink :: "path \<Rightarrow> path \<Rightarrow> unit fs" where
  "copy_symlink src dst =
     io_bind (read_link src) (\<lambda>target.
       io_match (read_link dst) (\<lambda>r.
         if r = Inr target then io_ok ()
         else
           io_bind (if r = Inl NotFound then io_ok () else remove_file dst) (\<lambda>_.
             make_symlink target dst)))"

text \<open>
  \<open>copy_dir_recursive\<close>. The recursion follows the directories as they are when they are reached, so
  copying a tree into itself would not end but for the kernel's limit on path names: the depth
  argument counts down from \<open>PATH_MAX / 2\<close>, a depth no path of at most 4096 bytes reaches, and the
  copy fails there as the call with the overlong path does.
\<close>

fun copy_dir :: "nat \<Rightarrow> path \<Rightarrow> path \<Rightarrow> unit fs" where
  "copy_dir 0 src dst = io_err OtherIo"
| "copy_dir (Suc n) src dst =
     io_bind (path_exists dst) (\<lambda>e.
     io_bind (if e then io_ok () else create_dir_all dst) (\<lambda>_.
     io_bind (read_dir src) (\<lambda>entries.
     io_bind
       (io_map (\<lambda>listed.
          io_bind (next_entry listed) (\<lambda>(name, node).
            if is_dir_node node then copy_dir n (src @ [name]) (dst @ [name])
            else if is_symlink_node node then copy_symlink (src @ [name]) (dst @ [name])
            else copy_file_with_permissions (src @ [name]) (dst @ [name]))) entries)
       (\<lambda>_. copy_permissions src dst))))"

definition PATH_DEPTH :: nat where "PATH_DEPTH = 2048"

definition copy_dir_recursive :: "path \<Rightarrow> path \<Rightarrow> unit fs" where
  "copy_dir_recursive src dst = copy_dir PATH_DEPTH src dst"

definition other_error :: bootstrap_error where
  "other_error = extension_error Other"

definition copy_from_cache :: "path \<Rightarrow> path \<Rightarrow> (bootstrap_error, unit) io" where
  "copy_from_cache source target =
     io_bind (io_map_err (\<lambda>_. other_error) (create_dir_all target)) (\<lambda>_.
       io_map_err (\<lambda>_. other_error) (copy_dir_recursive source target))"

section \<open>Looking up\<close>

definition COMPLETION_MARKER :: string where "COMPLETION_MARKER = ''.complete''"

datatype cache_lookup_result = Hit (source_dir: path) | Miss

definition is_cache_entry_complete :: "path \<Rightarrow> ('e, bool) io" where
  "is_cache_entry_complete version_dir =
     io_bind (path_exists (version_dir @ [COMPLETION_MARKER])) (\<lambda>marker.
       if marker then path_is_dir (version_dir @ [''bin'']) else io_ok False)"

definition check_cache :: "path \<Rightarrow> string \<Rightarrow> ('e, cache_lookup_result) io" where
  "check_cache cache version =
     (let version_dir = path_join cache version in
      io_bind (is_cache_entry_complete version_dir) (\<lambda>c. io_ok (if c then Hit version_dir else Miss)))"

text \<open>The \<open>semver\<close> crate: parsing, the order, matching the requirement and printing.\<close>

record semver =
  sv_parse :: "string \<Rightarrow> version option"
  sv_le :: "version \<Rightarrow> version \<Rightarrow> bool"
  sv_matches :: "version \<Rightarrow> bool"
  sv_show :: "version \<Rightarrow> string"

definition try_parse_cache_entry :: "semver \<Rightarrow> path \<Rightarrow> string \<Rightarrow> ('e, (version \<times> path) option) io" where
  "try_parse_cache_entry sv cache name =
     (if \<not> is_utf8 name \<or> prefix ''.'' name then io_ok None
      else
        (case sv_parse sv name of
           None \<Rightarrow> io_ok None
         | Some v \<Rightarrow>
             if \<not> sv_matches sv v then io_ok None
             else io_bind (is_cache_entry_complete (cache @ [name])) (\<lambda>c.
                    io_ok (if c then Some (v, cache @ [name]) else None))))"

fun scan_entries :: "semver \<Rightarrow> path \<Rightarrow> (string \<times> node) list \<Rightarrow> ('e, (version \<times> path) list) io" where
  "scan_entries sv cache [] = io_ok []"
| "scan_entries sv cache (e # es) =
     io_match (next_entry e) (\<lambda>r.
       case r of
         Inl _ \<Rightarrow> scan_entries sv cache es
       | Inr (name, _) \<Rightarrow>
           io_bind (try_parse_cache_entry sv cache name) (\<lambda>parsed.
           io_bind (scan_entries sv cache es) (\<lambda>rest.
             io_ok (case parsed of None \<Rightarrow> rest | Some x \<Rightarrow> x # rest))))"

text \<open>\<open>Iterator::max_by\<close>: the last of the greatest elements.\<close>

fun max_by :: "('a \<Rightarrow> 'a \<Rightarrow> bool) \<Rightarrow> 'a list \<Rightarrow> 'a option" where
  "max_by le [] = None"
| "max_by le (x # xs) = Some (foldl (\<lambda>best y. if le best y then y else best) x xs)"

definition find_matching_cached_version :: "semver \<Rightarrow> path \<Rightarrow> ('e, (string \<times> path) option) io" where
  "find_matching_cached_version sv cache =
     io_match (read_dir cache) (\<lambda>r.
       case r of
         Inl _ \<Rightarrow> io_ok None
       | Inr entries \<Rightarrow>
           io_bind (scan_entries sv cache entries) (\<lambda>found.
             io_ok (map_option (\<lambda>(v, p). (sv_show sv v, p))
                      (max_by (\<lambda>a b. sv_le sv (fst a) (fst b)) found))))"

definition try_use_cache :: "path \<Rightarrow> string \<Rightarrow> path \<Rightarrow> ('e, bool) io" where
  "try_use_cache cache version target =
     io_bind (check_cache cache version) (\<lambda>r.
       case r of
         Miss \<Rightarrow> io_ok False
       | Hit dir \<Rightarrow>
           io_match (copy_from_cache dir target) (\<lambda>c. io_ok (case c of Inr _ \<Rightarrow> True | Inl _ \<Rightarrow> False)))"

section \<open>Populating\<close>

definition write_completion_marker :: "path \<Rightarrow> (bootstrap_error, unit) io" where
  "write_completion_marker cache_path =
     io_map_err (\<lambda>_. other_error) (write_file_at (cache_path @ [COMPLETION_MARKER]) [])"

definition populate_cache :: "path \<Rightarrow> path \<Rightarrow> string \<Rightarrow> (bootstrap_error, unit) io" where
  "populate_cache source cache version =
     (let version_dir = path_join cache version in
      io_bind (io_map_err (\<lambda>_. other_error) (create_dir_all version_dir)) (\<lambda>_.
      io_bind (io_map_err (\<lambda>_. other_error) (copy_dir_recursive source version_dir)) (\<lambda>_.
        write_completion_marker version_dir)))"

definition try_populate_cache :: "path \<Rightarrow> path \<Rightarrow> string \<Rightarrow> ('e, unit) io" where
  "try_populate_cache source cache version = io_match (populate_cache source cache version) (\<lambda>_. io_ok ())"

section \<open>What copying touches\<close>

text \<open>Paths below a directory; or creating the directory's ancestors.\<close>

definition below :: "path \<Rightarrow> op \<Rightarrow> bool" where
  "below d oper \<longleftrightarrow> op_paths oper \<noteq> [] \<and> list_all (prefix d) (op_paths oper) \<or> (\<exists>q. oper = Mkdir q \<and> prefix q d)"

lemma below_child: "below (d @ [c]) oper \<Longrightarrow> below d oper"
  by (auto simp: below_def list_all_iff dest: append_prefixD)

lemma issues_create_below: "issues (below d) (create_dir_all d)"
  by (rule issues_create_dir_all) (simp add: below_def)

lemma issues_copy_permissions: "issues (below d) (copy_permissions src d)"
  unfolding copy_permissions_def by (auto intro!: issue_rules simp: below_def split: sum.splits)

lemma issues_copy_symlink: "issues (below d) (copy_symlink src d)"
  unfolding copy_symlink_def by (auto intro!: issue_rules simp: below_def)

lemma issues_copy_file_with_permissions: "issues (below d) (copy_file_with_permissions src d)"
  unfolding copy_file_with_permissions_def is_already_installed_def
  by (auto intro!: issue_rules issues_copy_permissions simp: below_def)

lemma issues_copy_dir: "issues (below dst) (copy_dir n src dst)"
proof (induction n arbitrary: src dst)
  case 0
  then show ?case by (simp add: issues_err)
next
  case (Suc n)
  have child: "issues (below dst) m" if "issues (below (dst @ [c])) m" for c and m :: "unit fs"
    using that below_child by (rule issues_mono)
  have entry: "issues (below dst)
      (io_bind (next_entry listed) (\<lambda>(name, node).
         if is_dir_node node then copy_dir n (src @ [name]) (dst @ [name])
         else if is_symlink_node node then copy_symlink (src @ [name]) (dst @ [name])
         else copy_file_with_permissions (src @ [name]) (dst @ [name])))" for listed
    by (rule issues_bind [OF issues_next_entry])
      (auto split: prod.splits intro!: issues_if child [OF Suc.IH] child [OF issues_copy_symlink]
        child [OF issues_copy_file_with_permissions])
  show ?case
    unfolding copy_dir.simps
    by (intro issues_bind issues_if issues_path_exists issues_ok issues_create_below issues_read_dir
        issues_map entry issues_copy_permissions)
qed

lemma issues_copy_from_cache: "issues (below target) (copy_from_cache source target)"
  unfolding copy_from_cache_def copy_dir_recursive_def
  by (intro issues_bind issues_map_err issues_create_below issues_copy_dir)

lemma issues_populate_cache: "issues (below (path_join cache version)) (populate_cache source cache version)"
  unfolding populate_cache_def Let_def write_completion_marker_def copy_dir_recursive_def
  by (intro issues_bind issues_map_err issues_create_below issues_copy_dir issues_write_file_at)
    (simp_all add: below_def)

text \<open>
  copying is one-way. Using a cached version changes nothing but the target directory, and
  populating the cache changes nothing but the version's own entry: every tree-changing call either
  of them issues, whether it succeeds or fails, is on a path below that directory or creates one of
  its ancestors. A source that is not named by such a path is not written through its own name.
\<close>

theorem cache_copy_confined:
  "(\<exists>ops. trace (snd (try_use_cache cache version target w)) = trace w @ ops \<and> list_all (below target) ops) \<and>
   (\<exists>ops. trace (snd (populate_cache source cache version w)) = trace w @ ops \<and>
          list_all (below (path_join cache version)) ops)"
proof -
  have "issues (below target) (try_use_cache cache version target)"
    unfolding try_use_cache_def check_cache_def is_cache_entry_complete_def Let_def
    by (auto intro!: issue_rules issues_copy_from_cache split: cache_lookup_result.splits)
  then show ?thesis using issues_populate_cache [of cache version source] unfolding issues_def by blast
qed

text \<open>
  an installed file is left alone. When the target already holds a regular file of the size of
  the cached one, copying the file succeeds without issuing a single tree-changing call, so a binary
  another process is running is never rewritten.
\<close>

theorem installed_file_untouched:
  assumes "fault w (tick w) = None" and "fault w (Suc (tick w)) = None"
    and "resolve True (root w) src = Inr p" and "node_at (root w) p = Some x"
    and "resolve True (root w) dst = Inr q" and "node_at (root w) q = Some (File a bs)"
    and "node_len x = length bs"
  shows "copy_file_with_permissions src dst w = (Inr (), w\<lparr>tick := tick w + 2\<rparr>)"
  using assms
  by (simp add: copy_file_with_permissions_def is_already_installed_def io_bind_def io_match_def io_ok_def
      metadata_def syscall_def stat_node_def Let_def)

theorem installed_file_untouched_witness:
  "\<exists>w. copy_file_with_permissions [''s''] [''d''] w = (Inr (), w\<lparr>tick := tick w + 2\<rparr>)"
proof -
  let ?a = "\<lparr>mode = 493, uid = 0, gid = 0\<rparr>"
  let ?w = "\<lparr>root = Dir ?a [(''s'', File ?a [1, 2]), (''d'', File ?a [3, 4])], tick = 0, fault = (\<lambda>_. None),
    trace = [], umask = 18, euid = 0, egid = 0, cwd = [], pid = 1, nanos = (\<lambda>_. 0), temp_counter = 0,
     slot_counter = 0, held_slots = [], watchers = Map.empty\<rparr>"
  have "copy_file_with_permissions [''s''] [''d''] ?w = (Inr (), ?w\<lparr>tick := tick ?w + 2\<rparr>)"
    by (rule installed_file_untouched [where p = "[''s'']" and q = "[''d'']" and x = "File ?a [1, 2]"
          and a = ?a and bs = "[3, 4]"]) (simp_all add: resolve_def walk_Cons)
  then show ?thesis by blast
qed

end
