(* ===== verification/Installation.thy ===== *)
theory Installation
  imports Bootstrap BinaryCache
begin

text \<open>
  Which installation a cluster uses (\<open>cluster/installation.rs\<close>, and \<open>durability.rs\<close> for \<open>initdb\<close>) and which
  port its server listens on. Versions and requirements come from the \<open>semver\<close> crate, a parameter; a
  requirement is its text.
\<close>

section \<open>Versions\<close>

record semver_lib =
  sl_parse :: "string \<Rightarrow> version option"
  sl_le :: "version \<Rightarrow> version \<Rightarrow> bool"
  sl_matches :: "string \<Rightarrow> version \<Rightarrow> bool"
  sl_show :: "version \<Rightarrow> string"
  sl_parse_req :: "string \<Rightarrow> string option"

text \<open>\<open>Ord\<close> of \<open>Version\<close> is a total order.\<close>

definition ordered_versions :: "semver_lib \<Rightarrow> bool" where
  "ordered_versions sl \<longleftrightarrow>
     (\<forall>a b. sl_le sl a b \<or> sl_le sl b a) \<and> (\<forall>a b c. sl_le sl a b \<longrightarrow> sl_le sl b c \<longrightarrow> sl_le sl a c) \<and>
     (\<forall>a b. sl_le sl a b \<longrightarrow> sl_le sl b a \<longrightarrow> a = b)"

text \<open>The order of file names as bytes, which is that of the paths of one directory.\<close>

fun name_le :: "string \<Rightarrow> string \<Rightarrow> bool" where
  "name_le [] _ = True"
| "name_le (_ # _) [] = False"
| "name_le (x # xs) (y # ys) =
     (if (of_char x :: nat) < of_char y then True else if (of_char y :: nat) < of_char x then False else name_le xs ys)"

text \<open>\<open>Option<Version>\<close> orders \<open>None\<close> before \<open>Some\<close>; ties go to the names.\<close>

fun candidate_le :: "semver_lib \<Rightarrow> version option \<times> string \<Rightarrow> version option \<times> string \<Rightarrow> bool" where
  "candidate_le sl (None, m) (None, n) = name_le m n"
| "candidate_le sl (None, m) (Some w, n) = True"
| "candidate_le sl (Some v, m) (None, n) = False"
| "candidate_le sl (Some v, m) (Some w, n) = (if sl_le sl w v then sl_le sl v w \<and> name_le m n else True)"

text \<open>\<open>sort_by\<close>, which is stable.\<close>

fun insert_by :: "('a \<Rightarrow> 'a \<Rightarrow> bool) \<Rightarrow> 'a \<Rightarrow> 'a list \<Rightarrow> 'a list" where
  "insert_by le x [] = [x]"
| "insert_by le x (y # ys) = (if le x y then x # y # ys else y # insert_by le x ys)"

definition sort_by :: "('a \<Rightarrow> 'a \<Rightarrow> bool) \<Rightarrow> 'a list \<Rightarrow> 'a list" where
  "sort_by le xs = foldr (insert_by le) xs []"

section \<open>The installed directory\<close>

text \<open>Where the file of a directory listing is, as a path.\<close>

fun eligible_entries :: "semver_lib \<Rightarrow> string \<Rightarrow> path \<Rightarrow> (string \<times> node) list \<Rightarrow> ('e, (version option \<times> string) list) io" where
  "eligible_entries sl req p [] = io_ok []"
| "eligible_entries sl req p (e # es) =
     io_match (next_entry e) (\<lambda>r.
       case r of
         Inl _ \<Rightarrow> eligible_entries sl req p es
       | Inr (name, n) \<Rightarrow>
           if \<not> is_dir_node n then eligible_entries sl req p es
           else io_bind (path_is_dir (p @ [name, ''bin''])) (\<lambda>has_bin.
             io_bind (eligible_entries sl req p es) (\<lambda>rest.
               io_ok
                 (if \<not> has_bin then rest
                  else if \<not> is_utf8 name then (None, name) # rest
                  else (case sl_parse sl name of
                          Some v \<Rightarrow> if sl_matches sl req v then (Some v, name) # rest else rest
                        | None \<Rightarrow> (None, name) # rest)))))"

definition eligible_candidates :: "semver_lib \<Rightarrow> path \<Rightarrow> string \<Rightarrow> ('e, (version option \<times> string) list) io" where
  "eligible_candidates sl p req =
     io_match (read_dir p) (\<lambda>r.
       case r of Inl _ \<Rightarrow> io_ok [] | Inr entries \<Rightarrow> eligible_entries sl req p entries)"

definition select_versioned_installation :: "semver_lib \<Rightarrow> path \<Rightarrow> string \<Rightarrow> string \<Rightarrow> ('e, string option) io" where
  "select_versioned_installation sl dir install_dir req =
     io_bind (eligible_candidates sl (text_path dir install_dir) req) (\<lambda>candidates.
       io_ok (case rev (sort_by (candidate_le sl) candidates) of
                [] \<Rightarrow> None
              | (_, name) # _ \<Rightarrow> Some (path_push install_dir name)))"

definition resolve_installed_dir :: "semver_lib \<Rightarrow> path \<Rightarrow> settings \<Rightarrow> ('e, string option) io" where
  "resolve_installed_dir sl dir st =
     io_bind (path_is_dir (text_path dir (path_push (s_installation_dir st) ''bin''))) (\<lambda>direct.
       if direct then io_ok (Some (s_installation_dir st))
       else if s_trust_installation_dir st then io_ok (Some (s_installation_dir st))
       else select_versioned_installation sl dir (s_installation_dir st) (s_version st))"

definition refresh_worker_installation_dir :: "semver_lib \<Rightarrow> path \<Rightarrow> test_bootstrap_settings \<Rightarrow> ('e, test_bootstrap_settings) io" where
  "refresh_worker_installation_dir sl dir b =
     (if tb_privileges b \<noteq> Root then io_ok b
      else io_bind (resolve_installed_dir sl dir (tb_settings b)) (\<lambda>found.
        io_ok (case found of
                 Some d \<Rightarrow> b\<lparr>tb_settings := (tb_settings b)\<lparr>s_installation_dir := d\<rparr>\<rparr>
               | None \<Rightarrow> b)))"

section \<open>The port\<close>

definition POSTMASTER_PORT_ATTEMPTS :: nat where "POSTMASTER_PORT_ATTEMPTS = 10"
definition POSTMASTER_PORT_DELAY :: nat where "POSTMASTER_PORT_DELAY = 100"

definition parse_port_from_pid_contents :: "string \<Rightarrow> nat option" where
  "parse_port_from_pid_contents contents =
     (case drop 3 (str_lines contents) of
        port_line # _ \<Rightarrow> parse_unsigned (2 ^ 16) (trim port_line)
      | [] \<Rightarrow> None)"

definition read_pid_file_contents :: "path \<Rightarrow> (bootstrap_error, string option) io" where
  "read_pid_file_contents p =
     io_match (read_to_string p) (\<lambda>r.
       case r of
         Inr contents \<Rightarrow> io_ok (Some contents)
       | Inl e \<Rightarrow> if e = NotFound then io_ok None else io_err (extension_error Other))"

definition read_postmaster_port :: "path \<Rightarrow> (bootstrap_error, nat option) io" where
  "read_postmaster_port p =
     io_bind (read_pid_file_contents p) (\<lambda>contents.
       io_ok (case contents of Some c \<Rightarrow> parse_port_from_pid_contents c | None \<Rightarrow> None))"

fun port_attempts :: "os \<Rightarrow> path \<Rightarrow> nat \<Rightarrow> (bootstrap_error, nat option) io" where
  "port_attempts os p 0 = io_ok None"
| "port_attempts os p (Suc n) =
     io_bind (read_postmaster_port p) (\<lambda>port.
       case port of
         Some v \<Rightarrow> io_ok (Some v)
       | None \<Rightarrow> (\<lambda>w. port_attempts os p n (k_sleep os POSTMASTER_PORT_DELAY w)))"

definition read_postmaster_port_with_retry :: "os \<Rightarrow> path \<Rightarrow> (bootstrap_error, nat option) io" where
  "read_postmaster_port_with_retry os p = port_attempts os p POSTMASTER_PORT_ATTEMPTS"

definition refresh_worker_port :: "os \<Rightarrow> path \<Rightarrow> test_bootstrap_settings \<Rightarrow> (bootstrap_error, test_bootstrap_settings) io" where
  "refresh_worker_port os dir b =
     (if tb_privileges b \<noteq> Root then io_ok b
      else io_bind (read_postmaster_port_with_retry os (text_path dir (path_push (s_data_dir (tb_settings b)) ''postmaster.pid''))) (\<lambda>found.
        io_ok (case found of
                 Some v \<Rightarrow> b\<lparr>tb_settings := (tb_settings b)\<lparr>s_port := v\<rparr>\<rparr>
               | None \<Rightarrow> b)))"

section \<open>The installation of \<open>initdb\<close>\<close>

definition named_version :: "semver_lib \<Rightarrow> string \<Rightarrow> string option \<Rightarrow> version option" where
  "named_version sl req nm =
     (case nm of
        None \<Rightarrow> None
      | Some n \<Rightarrow> (case sl_parse sl (from_utf8_lossy n) of
                     Some v \<Rightarrow> if sl_matches sl req v then Some v else None
                   | None \<Rightarrow> None))"

fun versioned_entries :: "semver_lib \<Rightarrow> string \<Rightarrow> (string \<times> node) list \<Rightarrow> ('e, (version \<times> string) list) io" where
  "versioned_entries sl req [] = io_ok []"
| "versioned_entries sl req (e # es) =
     io_match (next_entry e) (\<lambda>r.
       case r of
         Inl _ \<Rightarrow> versioned_entries sl req es
       | Inr (name, n) \<Rightarrow>
           io_bind (versioned_entries sl req es) (\<lambda>rest.
             io_ok (if \<not> is_dir_node n then rest
                    else (case named_version sl req (Some name) of Some v \<Rightarrow> (v, name) # rest | None \<Rightarrow> rest))))"

definition installed_dir :: "semver_lib \<Rightarrow> path \<Rightarrow> settings \<Rightarrow> ('e, string option) io" where
  "installed_dir sl dir st =
     (let install = s_installation_dir st; p = text_path dir install in
      if s_trust_installation_dir st then io_ok (Some install)
      else
        io_bind (if named_version sl (s_version st) (path_file_name (path_components install)) \<noteq> None
                 then path_exists p else io_ok False) (\<lambda>itself.
          if itself then io_ok (Some install)
          else io_match (read_dir p) (\<lambda>r.
            case r of
              Inl _ \<Rightarrow> io_ok None
            | Inr entries \<Rightarrow>
                io_bind (versioned_entries sl (s_version st) entries) (\<lambda>found.
                  io_ok (map_option (\<lambda>(_, name). path_push install name)
                           (max_by (\<lambda>a b. sl_le sl (fst a) (fst b)) found))))))"

definition installed_initdb :: "semver_lib \<Rightarrow> path \<Rightarrow> settings \<Rightarrow> ('e, string option) io" where
  "installed_initdb sl dir st =
     io_bind (installed_dir sl dir st) (\<lambda>found.
       case found of
         None \<Rightarrow> io_ok None
       | Some d \<Rightarrow>
           (let initdb = path_push (path_push d ''bin'') ''initdb'' in
            io_bind (path_is_file (text_path dir initdb)) (\<lambda>f. io_ok (if f then Some initdb else None))))"

section \<open>Questions to a file system without faults\<close>

text \<open>A question's answer is a function of the tree when no call fails, and asking changes no file.\<close>

definition no_faults :: "world \<Rightarrow> bool" where
  "no_faults w \<longleftrightarrow> (\<forall>k. fault w k = None)"

definition asks :: "('e, 'a) io \<Rightarrow> (node \<Rightarrow> 'a) \<Rightarrow> bool" where
  "asks m f \<longleftrightarrow> (\<forall>w. no_faults w \<longrightarrow> (\<exists>w'. m w = (Inr (f (root w)), w') \<and> root w' = root w \<and> no_faults w'))"

lemma asksD: "asks m f \<Longrightarrow> no_faults w \<Longrightarrow> \<exists>w'. m w = (Inr (f (root w)), w') \<and> root w' = root w \<and> no_faults w'"
  by (simp add: asks_def)

lemma asks_ok: "asks (io_ok x) (\<lambda>_. x)"
  by (simp add: asks_def io_ok_def)

lemma asks_bind:
  assumes "asks m f" and "\<And>x. asks (g x) (\<lambda>r. h x r)"
  shows "asks (io_bind m g) (\<lambda>r. h (f r) r)"
  unfolding asks_def
proof (intro allI impI)
  fix w assume w: "no_faults w"
  from asksD [OF assms(1) w] obtain w1 where m: "m w = (Inr (f (root w)), w1)" and w1: "root w1 = root w" "no_faults w1" by blast
  from asksD [OF assms(2) w1(2)] show "\<exists>w'. io_bind m g w = (Inr (h (f (root w)) (root w)), w') \<and> root w' = root w \<and> no_faults w'"
    using m w1 by (force simp: io_bind_def)
qed

lemma asks_if: "asks m f \<Longrightarrow> asks k g \<Longrightarrow> asks (if b then m else k) (\<lambda>r. if b then f r else g r)"
  by simp

definition dir_named :: "node \<Rightarrow> path \<Rightarrow> bool" where
  "dir_named r p = (case resolve True r p of Inl _ \<Rightarrow> False | Inr q \<Rightarrow> (case node_at r q of Some n \<Rightarrow> is_dir_node n | None \<Rightarrow> False))"

lemma asks_is_dir: "asks (path_is_dir p) (\<lambda>r. dir_named r p)"
  by (auto simp: asks_def path_is_dir_def io_match_def metadata_def syscall_def no_faults_def stat_node_def dir_named_def
      io_ok_def Let_def split: sum.split option.split)

lemma asks_next: "asks (k (Inr e)) f \<Longrightarrow> asks (io_match (next_entry e) k) f"
proof -
  assume k: "asks (k (Inr e)) f"
  have "\<exists>w'. io_match (next_entry e) k w = (Inr (f (root w)), w') \<and> root w' = root w \<and> no_faults w'" if w: "no_faults w" for w
  proof -
    let ?w = "w\<lparr>tick := Suc (tick w)\<rparr>"
    have "next_entry e w = (Inr e, ?w)" and w1: "no_faults ?w"
      using w by (simp_all add: next_entry_def syscall_def no_faults_def io_ok_def Let_def)
    then show ?thesis using asksD [OF k w1] by (simp add: io_match_def)
  qed
  then show ?thesis by (simp add: asks_def)
qed

definition listing :: "node \<Rightarrow> path \<Rightarrow> (string \<times> node) list" where
  "listing r p = (case resolve True r p of
     Inl _ \<Rightarrow> [] | Inr q \<Rightarrow> (case node_at r q of Some (Dir _ cs) \<Rightarrow> cs | _ \<Rightarrow> []))"

lemma asks_listing:
  assumes "\<And>es. asks (k es) (f es)" and "\<And>r. f [] r = x"
  shows "asks (io_match (read_dir p) (\<lambda>r. case r of Inl _ \<Rightarrow> io_ok x | Inr es \<Rightarrow> k es)) (\<lambda>r. f (listing r p) r)"
  unfolding asks_def
proof (intro allI impI)
  fix w assume w: "no_faults w"
  let ?w = "w\<lparr>tick := Suc (tick w)\<rparr>"
  have w1: "no_faults ?w" using w by (simp add: no_faults_def)
  have "read_dir p w = (Inr (listing (root w) p), ?w) \<or> (\<exists>e. read_dir p w = (Inl e, ?w) \<and> listing (root w) p = [])"
    using w by (auto simp: read_dir_def syscall_def no_faults_def Let_def stat_node_def listing_def split: sum.split option.split node.split)
  then show "\<exists>w'. io_match (read_dir p) (\<lambda>r. case r of Inl _ \<Rightarrow> io_ok x | Inr es \<Rightarrow> k es) w =
      (Inr (f (listing (root w) p) (root w)), w') \<and> root w' = root w \<and> no_faults w'"
    using asksD [OF assms(1) w1, of "listing (root w) p"] assms(2) w1 by (auto simp: io_match_def io_ok_def)
qed

section \<open>Which installation is resolved\<close>

text \<open>
  The specification: a subdirectory with a \<open>bin\<close> directory is eligible when its name is no version, or a
  version the requirement accepts.
\<close>

definition eligible :: "semver_lib \<Rightarrow> string \<Rightarrow> node \<Rightarrow> path \<Rightarrow> string \<times> node \<Rightarrow> (version option \<times> string) option" where
  "eligible sl req r p e =
     (if is_dir_node (snd e) \<and> dir_named r (p @ [fst e, ''bin''])
      then (if is_utf8 (fst e)
            then (case sl_parse sl (fst e) of
                    Some v \<Rightarrow> if sl_matches sl req v then Some (Some v, fst e) else None
                  | None \<Rightarrow> Some (None, fst e))
            else Some (None, fst e))
      else None)"

lemma asks_eligible: "asks (eligible_entries sl req p es :: ('e, _) io) (\<lambda>r. List.map_filter (eligible sl req r p) es)"
proof (induction es)
  case (Cons e es)
  obtain name n where e: "e = (name, n)" by fastforce
  let ?rest = "\<lambda>r. List.map_filter (eligible sl req r p) es"
  show ?case
  proof (cases "is_dir_node n")
    case False
    then have "List.map_filter (eligible sl req r p) (e # es) = ?rest r" for r
      by (simp add: List.map_filter_simps eligible_def e)
    then show ?thesis unfolding eligible_entries.simps using Cons False by (intro asks_next) (simp add: e)
  next
    case True
    let ?one = "\<lambda>b rest. if \<not> b then rest else if \<not> is_utf8 name then (None, name) # rest
                  else (case sl_parse sl name of
                          Some v \<Rightarrow> if sl_matches sl req v then (Some v, name) # rest else rest
                        | None \<Rightarrow> (None, name) # rest)"
    have "List.map_filter (eligible sl req r p) (e # es) = ?one (dir_named r (p @ [name, ''bin''])) (?rest r)" for r
      using True by (simp add: List.map_filter_simps eligible_def e split: option.split)
    moreover have inner: "asks (io_bind (eligible_entries sl req p es :: ('e, _) io) (\<lambda>rest. io_ok (?one b rest))) (\<lambda>r. ?one b (?rest r))" for b
      by (rule asks_bind [where h = "\<lambda>rest r. ?one b rest", OF Cons asks_ok])
    note asks_bind [where h = "\<lambda>b r. ?one b (?rest r)", OF asks_is_dir inner, of "p @ [name, ''bin'']"]
    ultimately show ?thesis unfolding eligible_entries.simps using True by (intro asks_next) (simp add: e)
  qed
qed (simp add: asks_ok List.map_filter_simps)

lemma asks_resolve:
  "asks (resolve_installed_dir sl dir st :: ('e, _) io) (\<lambda>r.
     let install = s_installation_dir st; p = text_path dir install in
     if dir_named r (text_path dir (path_push install ''bin'')) \<or> s_trust_installation_dir st then Some install
     else (case rev (sort_by (candidate_le sl) (List.map_filter (eligible sl (s_version st) r p) (listing r p))) of
             [] \<Rightarrow> None | (_, name) # _ \<Rightarrow> Some (path_push install name)))"
proof -
  let ?p = "text_path dir (s_installation_dir st)" and ?req = "s_version st"
  let ?pick = "\<lambda>cs. (case rev (sort_by (candidate_le sl) cs) of
             [] \<Rightarrow> None | (_, name) # _ \<Rightarrow> Some (path_push (s_installation_dir st) name))"
  have "asks (eligible_candidates sl ?p ?req) (\<lambda>r. List.map_filter (eligible sl ?req r ?p) (listing r ?p))"
    unfolding eligible_candidates_def
    by (rule asks_listing [where f = "\<lambda>es r. List.map_filter (eligible sl ?req r ?p) es", OF asks_eligible])
      (simp add: List.map_filter_simps)
  then have sel: "asks (select_versioned_installation sl dir (s_installation_dir st) ?req)
      (\<lambda>r. ?pick (List.map_filter (eligible sl ?req r ?p) (listing r ?p)))"
    unfolding select_versioned_installation_def
    using asks_bind [where h = "\<lambda>cs r. ?pick cs", OF _ asks_ok] by blast
  have choice: "asks (if b then io_ok (Some (s_installation_dir st)) :: ('e, _) io else if s_trust_installation_dir st then io_ok (Some (s_installation_dir st))
       else select_versioned_installation sl dir (s_installation_dir st) ?req)
     (\<lambda>r. if b \<or> s_trust_installation_dir st then Some (s_installation_dir st)
        else ?pick (List.map_filter (eligible sl ?req r ?p) (listing r ?p)))" for b
    by (auto intro: sel asks_ok)
  show ?thesis
    unfolding resolve_installed_dir_def Let_def
    by (rule asks_bind [where h = "\<lambda>b r. if b \<or> s_trust_installation_dir st then Some (s_installation_dir st)
        else ?pick (List.map_filter (eligible sl ?req r ?p) (listing r ?p))", OF asks_is_dir choice])
qed

lemma name_le_total: "name_le a b \<or> name_le b a"
  by (induction a b rule: name_le.induct) (auto split: if_splits)

lemma name_le_trans: "name_le a b \<Longrightarrow> name_le b c \<Longrightarrow> name_le a c"
proof (induction a b arbitrary: c rule: name_le.induct)
  case (3 x xs y ys)
  then show ?case by (cases c) (auto split: if_splits)
qed auto

lemma candidate_le_versions:
  assumes "ordered_versions sl"
  shows "candidate_le sl (Some v, m) (Some w, n) \<longleftrightarrow> (if v = w then name_le m n else sl_le sl v w)"
proof -
  have "sl_le sl v v" and "sl_le sl v w \<Longrightarrow> sl_le sl w v \<Longrightarrow> v = w" and "sl_le sl v w \<or> sl_le sl w v"
    using assms unfolding ordered_versions_def by blast+
  then show ?thesis by auto
qed

lemma candidate_le_order:
  assumes "ordered_versions sl"
  shows "candidate_le sl a b \<or> candidate_le sl b a"
    and "candidate_le sl a b \<Longrightarrow> candidate_le sl b c \<Longrightarrow> candidate_le sl a c"
proof -
  note o = assms [unfolded ordered_versions_def] and le = candidate_le_versions [OF assms]
  obtain u m v n x k where abc: "a = (u, m)" "b = (v, n)" "c = (x, k)" by (cases a, cases b, cases c) auto
  show "candidate_le sl a b \<or> candidate_le sl b a"
    using o name_le_total unfolding abc by (cases u; cases v) (auto simp: le simp del: candidate_le.simps(4))
  assume ab: "candidate_le sl a b" and bc: "candidate_le sl b c"
  show "candidate_le sl a c"
  proof (cases "u = None \<or> v = None \<or> x = None")
    case True
    then show ?thesis using ab bc name_le_trans [of m n k] unfolding abc by (cases u; cases v; cases x) simp_all
  next
    case False
    then obtain f g h where s: "u = Some f" "v = Some g" "x = Some h" by auto
    show ?thesis using ab bc o name_le_trans unfolding abc s le by (smt (verit))
  qed
qed

lemma set_sort_by [simp]: "set (sort_by le xs) = set xs"
proof -
  have "set (insert_by le x ys) = insert x (set ys)" for x ys by (induction ys) auto
  then show ?thesis by (induction xs) (auto simp: sort_by_def)
qed

lemma sorted_sort_by:
  assumes total: "\<And>a b. le a b \<or> le b a" and trans: "\<And>a b c. le a b \<Longrightarrow> le b c \<Longrightarrow> le a c"
  shows "sorted_wrt le (sort_by le xs)"
proof -
  have set: "set (insert_by le x ys) = insert x (set ys)" for x ys by (induction ys) auto
  have "sorted_wrt le ys \<Longrightarrow> sorted_wrt le (insert_by le x ys)" for x ys
  proof (induction ys)
    case (Cons y ys)
    show ?case
    proof (cases "le x y")
      case True
      then show ?thesis using Cons.prems trans by auto
    next
      case False
      then show ?thesis using Cons total by (auto simp: set)
    qed
  qed simp
  then show ?thesis by (induction xs) (auto simp: sort_by_def)
qed

lemma sort_by_greatest:
  assumes "ordered_versions sl" and "rev (sort_by (candidate_le sl) cs) = c # rest"
  shows "c \<in> set cs" and "x \<in> set cs \<Longrightarrow> candidate_le sl x c"
proof -
  have s: "sort_by (candidate_le sl) cs = rev rest @ [c]" using assms(2) by (metis rev.simps(2) rev_rev_ident)
  then show "c \<in> set cs" by (metis in_set_conv_decomp set_sort_by)
  have "sorted_wrt (candidate_le sl) (rev rest @ [c])"
    using sorted_sort_by candidate_le_order [OF assms(1)] s by metis
  moreover have "candidate_le sl c c" using candidate_le_order(1) [OF assms(1)] by blast
  moreover have "x \<in> set cs \<longleftrightarrow> x \<in> set (rev rest @ [c])" by (metis s set_sort_by)
  ultimately show "x \<in> set cs \<Longrightarrow> candidate_le sl x c" by (auto simp: sorted_wrt_append)
qed

definition best_candidate :: "semver_lib \<Rightarrow> string \<Rightarrow> (version option \<times> string) list \<Rightarrow> version option \<Rightarrow> string \<Rightarrow> bool" where
  "best_candidate sl req cs version name \<longleftrightarrow>
     (case version of
        Some v \<Rightarrow> sl_parse sl name = Some v \<and> sl_matches sl req v \<and>
          (\<forall>v' name'. (Some v', name') \<in> set cs \<longrightarrow> sl_le sl v' v)
      | None \<Rightarrow> (is_utf8 name \<longrightarrow> sl_parse sl name = None) \<and> (\<forall>v' name'. (Some v', name') \<notin> set cs) \<and>
          (\<forall>name'. (None, name') \<in> set cs \<longrightarrow> name_le name' name))"

text \<open>
  C33: the resolved installation. In a tree without faults an installation root that has no \<open>bin\<close> directory of
  its own and is not trusted resolves to a subdirectory that is a real directory with a \<open>bin\<close> directory and
  whose name is either no version or a version the requirement accepts; no accepted version among its
  eligible siblings is higher, and a name that is no version is chosen only when there is none. It
  resolves to nothing exactly when no subdirectory is eligible.
\<close>

theorem resolved_installation_best:
  assumes "ordered_versions sl" and "no_faults w"
    and "\<not> dir_named (root w) (text_path dir (path_push (s_installation_dir st) ''bin''))"
    and "\<not> s_trust_installation_dir st"
    and "p = text_path dir (s_installation_dir st)"
    and "cs = List.map_filter (eligible sl (s_version st) (root w) p) (listing (root w) p)"
  shows "\<exists>w'. root w' = root w \<and>
    (if cs = [] then (resolve_installed_dir sl dir st :: ('e, _) io) w = (Inr None, w')
     else \<exists>version name n. (resolve_installed_dir sl dir st :: ('e, _) io) w = (Inr (Some (path_push (s_installation_dir st) name)), w') \<and>
       (name, n) \<in> set (listing (root w) p) \<and> is_dir_node n \<and> dir_named (root w) (p @ [name, ''bin'']) \<and>
       best_candidate sl (s_version st) cs version name)"
proof -
  from asksD [OF asks_resolve assms(2), of sl dir st] obtain w' where w': "root w' = root w" and
    run: "(resolve_installed_dir sl dir st :: ('e, _) io) w = (Inr (case rev (sort_by (candidate_le sl) cs) of
      [] \<Rightarrow> None | (_, name) # _ \<Rightarrow> Some (path_push (s_installation_dir st) name)), w')"
    using assms(3-6) by (auto simp: Let_def)
  show ?thesis
  proof (cases "cs = []")
    case True
    then show ?thesis using run w' by (auto simp: sort_by_def)
  next
    case False
    then have "sort_by (candidate_le sl) cs \<noteq> []" by (metis set_empty set_sort_by)
    then obtain version name rest where r: "rev (sort_by (candidate_le sl) cs) = (version, name) # rest"
      by (metis list.exhaust rev_is_Nil_conv surj_pair)
    note best = sort_by_greatest [OF assms(1) r]
    obtain e where e: "e \<in> set (listing (root w) p)" "eligible sl (s_version st) (root w) p e = Some (version, name)"
      using best(1) assms(6) by (auto simp: List.map_filter_def)
    then have "(name, snd e) \<in> set (listing (root w) p)" "is_dir_node (snd e)" "dir_named (root w) (p @ [name, ''bin''])"
      and nm: "case version of Some v \<Rightarrow> sl_parse sl name = Some v \<and> sl_matches sl (s_version st) v
        | None \<Rightarrow> is_utf8 name \<longrightarrow> sl_parse sl name = None"
      by (cases e; auto simp: eligible_def split: if_splits option.splits)+
    moreover have "sl_le sl v' v" if "(Some v', name') \<in> set cs" "version = Some v" for v v' name'
      using best(2) [OF that(1)] that(2) assms(1) by (auto simp: ordered_versions_def split: if_splits)
    moreover have "(Some v', name') \<notin> set cs" if "version = None" for v' name'
      using best(2) [of "(Some v', name')"] that by auto
    moreover have "name_le name' name" if "(None, name') \<in> set cs" "version = None" for name'
      using best(2) [OF that(1)] that(2) by simp
    ultimately show ?thesis using run w' False r
      by (intro exI [of _ w']) (auto intro!: exI [of _ version] exI [of _ name] exI [of _ "snd e"] simp: best_candidate_def split: option.splits)
  qed
qed

text \<open>Whole-number versions, and a tree with three of them and a directory of another name.\<close>

definition demo_semver :: semver_lib where
  "demo_semver =
     \<lparr>sl_parse = (\<lambda>s. if s \<noteq> [] \<and> list_all is_ascii_digit s then Some (version_new (dec_value s) 0 0) else None),
      sl_le = (\<lambda>a b. if major a \<noteq> major b then major a < major b else if minor a \<noteq> minor b then minor a < minor b
        else if patch a \<noteq> patch b then patch a < patch b else if pre a \<noteq> pre b then name_le (pre a) (pre b)
        else name_le (build a) (build b)),
      sl_matches = (\<lambda>req v. major v < dec_value req), sl_show = (\<lambda>v. show_nat (major v)), sl_parse_req = Some\<rparr>"

lemma name_le_antisym: "name_le a b \<Longrightarrow> name_le b a \<Longrightarrow> a = b"
proof (induction a b rule: name_le.induct)
  case (1 b)
  then show ?case by (cases b) auto
qed (auto split: if_splits)

lemma demo_semver_ordered: "ordered_versions demo_semver"
proof -
  let ?le = "sl_le demo_semver"
  have "?le a b \<or> ?le b a" for a b using name_le_total by (auto simp: demo_semver_def)
  moreover have "?le a b \<Longrightarrow> ?le b c \<Longrightarrow> ?le a c" for a b c
    using name_le_trans name_le_antisym by (auto simp: demo_semver_def split: if_splits)
  moreover have "?le a b \<Longrightarrow> ?le b a \<Longrightarrow> a = b" for a b :: version
    using name_le_antisym by (auto simp: demo_semver_def split: if_splits intro: version.equality)
  ultimately show ?thesis unfolding ordered_versions_def by blast
qed

definition demo_installs :: world where
  "demo_installs =
     (let at = \<lparr>mode = 493, uid = 0, gid = 0\<rparr>; b = Dir at [(''bin'', Dir at [])] in
      (Privileges.demo_tree [])\<lparr>root := Dir at [(''pg'', Dir at [(''17'', b), (''18'', b), (''19'', b), (''mine'', b)])]\<rparr>)"

definition demo_install_settings :: settings where
  "demo_install_settings = demo_settings\<lparr>s_installation_dir := ''/pg'', s_version := ''19''\<rparr>"

theorem resolved_installation_best_witness:
  "\<exists>w' name. (resolve_installed_dir demo_semver [] demo_install_settings :: (unit, _) io) demo_installs =
     (Inr (Some (path_push ''/pg'' name)), w') \<and> name \<in> {''17'', ''18''}"
proof -
  let ?cs = "List.map_filter (eligible demo_semver (s_version demo_install_settings) (root demo_installs)
    (text_path [] ''/pg''))
    (listing (root demo_installs) (text_path [] ''/pg''))"
  have cs: "?cs = [(Some (version_new 17 0 0), ''17''), (Some (version_new 18 0 0), ''18''), (None, ''mine'')]" by code_simp
  then have some: "?cs \<noteq> []" by simp
  have nf: "no_faults demo_installs" by (simp add: no_faults_def demo_installs_def Privileges.demo_tree_def Let_def)
  have nb: "\<not> dir_named (root demo_installs) (text_path [] (path_push (s_installation_dir demo_install_settings) ''bin''))"
    and nt: "\<not> s_trust_installation_dir demo_install_settings" by code_simp+
  have dir: "s_installation_dir demo_install_settings = ''/pg''" by (simp add: demo_install_settings_def)
  from resolved_installation_best [OF demo_semver_ordered nf nb nt refl refl, where 'e = unit, unfolded dir, unfolded if_not_P [OF some]]
  obtain version name n w' where
    run: "(resolve_installed_dir demo_semver [] demo_install_settings :: (unit, _) io) demo_installs = (Inr (Some (path_push ''/pg'' name)), w')"
    and listed: "(name, n) \<in> set (listing (root demo_installs) (text_path [] ''/pg''))"
    and best: "best_candidate demo_semver (s_version demo_install_settings) ?cs version name"
    by (elim exE conjE) (rule that)
  have names: "map fst (listing (root demo_installs) (text_path [] ''/pg'')) = [''17'', ''18'', ''19'', ''mine'']" by code_simp
  have "name \<in> set (map fst (listing (root demo_installs) (text_path [] ''/pg'')))"
    unfolding set_map by (rule image_eqI [OF _ listed]) simp
  then have "name \<in> {''17'', ''18'', ''19'', ''mine''}" unfolding names by simp
  moreover obtain v where "version = Some v" using best by (cases version) (auto simp: cs best_candidate_def)
  then have "sl_parse demo_semver name = Some v" "sl_matches demo_semver (s_version demo_install_settings) v" using best by (auto simp: best_candidate_def)
  moreover have "sl_parse demo_semver ''mine'' = None" "\<not> sl_matches demo_semver (s_version demo_install_settings) (the (sl_parse demo_semver ''19''))"
    by code_simp+
  ultimately have "name \<in> {''17'', ''18''}" by auto
  then show ?thesis using run by blast
qed

end
