(* ===== verification/CacheUse.thy ===== *)
theory CacheUse
  imports Installation
begin

text \<open>
  How a start uses the shared binary cache (\<open>cluster/cache_integration.rs\<close>): copying a cached version into
  the installation root before the setup, and filling the cache after one. A failure falls back to the
  ordinary download, so both are infallible. The configuration is an argument that is returned updated.
\<close>

section \<open>Operations\<close>

definition semver_for :: "semver_lib \<Rightarrow> string \<Rightarrow> semver" where
  "semver_for sl req = \<lparr>sv_parse = sl_parse sl, sv_le = sl_le sl, sv_matches = sl_matches sl req, sv_show = sl_show sl\<rparr>"

definition note_cached_binaries :: "bool \<Rightarrow> test_bootstrap_settings \<Rightarrow> bootstrap_error \<Rightarrow> bootstrap_error" where
  "note_cached_binaries cache_hit b err =
     (if \<not> cache_hit \<or> is_extension (kind err) then err
      else err\<lparr>causes := CachedBinariesUsed (s_version (tb_settings b)) # causes err\<rparr>)"

definition set_exact_version :: "semver_lib \<Rightarrow> string \<Rightarrow> settings \<Rightarrow> settings" where
  "set_exact_version sl version st =
     (case sl_parse_req sl (''='' @ version) of
        Some exact_req \<Rightarrow> st\<lparr>s_version := exact_req\<rparr>
      | None \<Rightarrow> st)"

definition copy_cached_binaries :: "path \<Rightarrow> path \<Rightarrow> string \<Rightarrow> settings \<Rightarrow> ('e, string option \<times> settings) io" where
  "copy_cached_binaries dir source version st =
     (case from_path_buf (s_installation_dir st) of
        Inl _ \<Rightarrow> io_ok (None, st)
      | Inr target \<Rightarrow>
          (let target_version_dir = path_push target version in
           io_match (copy_from_cache source (text_path dir target_version_dir)) (\<lambda>r.
             io_ok (case r of
                      Inl _ \<Rightarrow> (None, st)
                    | Inr _ \<Rightarrow> (Some target_version_dir,
                        st\<lparr>s_installation_dir := target_version_dir, s_trust_installation_dir := True\<rparr>)))))"

definition apply_cached_binaries ::
  "semver_lib \<Rightarrow> path \<Rightarrow> path \<Rightarrow> string \<Rightarrow> test_bootstrap_settings \<Rightarrow> ('e, bool \<times> test_bootstrap_settings) io" where
  "apply_cached_binaries sl dir source version b =
     io_bind (copy_cached_binaries dir source version (tb_settings b)) (\<lambda>(copied, st).
       io_ok (case copied of
                None \<Rightarrow> (False, b\<lparr>tb_settings := st\<rparr>)
              | Some _ \<Rightarrow> (True, b\<lparr>tb_settings := set_exact_version sl version st\<rparr>)))"

definition try_use_binary_cache ::
  "semver_lib \<Rightarrow> (lock_type \<Rightarrow> path \<Rightarrow> unit fs) \<Rightarrow> path \<Rightarrow> binary_cache_config \<Rightarrow> string \<Rightarrow> test_bootstrap_settings \<Rightarrow>
   ('e, bool \<times> test_bootstrap_settings) io" where
  "try_use_binary_cache sl flock dir config version_req b =
     (let cache = text_path dir (cache_dir config) in
      io_bind (find_matching_cached_version (semver_for sl version_req) cache) (\<lambda>found.
        case found of
          None \<Rightarrow> io_ok (False, b)
        | Some (version, _) \<Rightarrow>
            io_match (acquire_shared flock cache version) (\<lambda>lock.
              case lock of
                Inl _ \<Rightarrow> io_ok (False, b)
              | Inr _ \<Rightarrow>
                  io_bind (check_cache cache version) (\<lambda>hit.
                    case hit of
                      Hit source \<Rightarrow> apply_cached_binaries sl dir source version b
                    | Miss \<Rightarrow> io_ok (False, b)))))"

definition extract_version_from_path :: "semver_lib \<Rightarrow> string \<Rightarrow> string option" where
  "extract_version_from_path sl p =
     (case path_file_name (path_components p) of
        None \<Rightarrow> None
      | Some name \<Rightarrow> if is_utf8 name \<and> sl_parse sl name \<noteq> None then Some name else None)"

definition try_populate_binary_cache ::
  "semver_lib \<Rightarrow> (lock_type \<Rightarrow> path \<Rightarrow> unit fs) \<Rightarrow> path \<Rightarrow> binary_cache_config \<Rightarrow> settings \<Rightarrow> ('e, unit) io" where
  "try_populate_binary_cache sl flock dir config st =
     (let cache = text_path dir (cache_dir config) in
      io_bind (resolve_installed_dir sl dir st) (\<lambda>installed.
        case installed of
          None \<Rightarrow> io_ok ()
        | Some found_dir \<Rightarrow>
            (case extract_version_from_path sl found_dir of
               None \<Rightarrow> io_ok ()
             | Some version \<Rightarrow>
                 io_bind (check_cache cache version) (\<lambda>before.
                   if before \<noteq> Miss then io_ok ()
                   else io_match (acquire_exclusive flock cache version) (\<lambda>lock.
                     case lock of
                       Inl _ \<Rightarrow> io_ok ()
                     | Inr _ \<Rightarrow>
                         io_bind (check_cache cache version) (\<lambda>after.
                           if after \<noteq> Miss then io_ok ()
                           else (case from_path_buf found_dir of
                                   Inl _ \<Rightarrow> io_ok ()
                                 | Inr source \<Rightarrow>
                                     io_match (populate_cache (text_path dir source) cache version) (\<lambda>_. io_ok ()))))))))"

section \<open>What they touch\<close>

text \<open>The \<open>fs4\<close> lock of the cache changes no file.\<close>

definition flock_quiet :: "(lock_type \<Rightarrow> path \<Rightarrow> unit fs) \<Rightarrow> bool" where
  "flock_quiet flock \<longleftrightarrow> (\<forall>lt h. issues (\<lambda>_. False) (flock lt h))"

text \<open>Calls on paths below \<open>d\<close>, or creating one of its ancestors.\<close>

lemma issues_queries_quiet:
  "issues P (check_cache cache version)" "issues P (find_matching_cached_version sv cache)"
proof -
  show "issues P (check_cache cache version)"
    unfolding check_cache_def is_cache_entry_complete_def Let_def by (intro issue_rules)
  have e: "issues P (try_parse_cache_entry sv cache n)" for n
    unfolding try_parse_cache_entry_def is_cache_entry_complete_def by (auto intro!: issue_rules split: option.split)
  have "issues P (scan_entries sv cache es)" for es
    by (induction es) (auto intro!: issue_rules e split: sum.split prod.split)
  then show "issues P (find_matching_cached_version sv cache)"
    unfolding find_matching_cached_version_def by (auto intro!: issue_rules split: sum.split)
qed

lemma issues_resolve_installed: "issues P (resolve_installed_dir sl dir st)"
proof -
  have "issues P (eligible_entries sl req p es)" for req p es
    by (induction es) (auto intro!: issue_rules split: sum.split prod.split)
  then show ?thesis
    unfolding resolve_installed_dir_def select_versioned_installation_def eligible_candidates_def
    by (auto intro!: issue_rules split: sum.split)
qed

lemma issues_cache_lock:
  assumes "flock_quiet flock"
  shows "issues (below cache) (acquire_lock flock cache v lt)"
  using assms by (intro issues_acquire_lock) (auto simp: flock_quiet_def below_def intro: issues_never prefix_order.trans
    dest: prefix_snocD)

end
