(* ===== verification/Initdb.thy ===== *)
theory Initdb
  imports WorkerProcess CacheUse
begin

text \<open>
  Running \<open>initdb --no-sync\<close> for a disposable cluster (\<open>durability.rs\<close>). The child is polled until it exits, is
  cancelled or runs out of time; \<open>polls\<close> bounds the model's loop, and the theorem below says how many are
  enough. The setting-up of the server itself belongs to \<open>postgresql_embedded\<close>, a parameter.
\<close>

section \<open>Operations\<close>

definition INITDB_POLL_INTERVAL :: nat where "INITDB_POLL_INTERVAL = 20"

text \<open>What the polling needs: the children, the clock, and the flag that \<open>CancelOnDrop\<close> sets.\<close>

record initdb_env =
  ie_process :: process_lib
  ie_os :: os
  ie_cancelled :: "bool act"
  ie_polls :: nat
  ie_superuser :: string

datatype completion = Finished bool | Abandoned | WaitFailed io_error_kind

definition completion_step :: "initdb_env \<Rightarrow> nat option \<Rightarrow> nat \<Rightarrow> completion option act" where
  "completion_step ie deadline c w =
     (case p_try_wait (ie_process ie) c w of
        (Inl e, w1) \<Rightarrow> (Some (WaitFailed e), w1)
      | (Inr (Some ok), w1) \<Rightarrow> (Some (Finished ok), w1\<lparr>trace := trace w1 @ [Reaped c]\<rparr>)
      | (Inr None, w1) \<Rightarrow>
          (case ie_cancelled ie w1 of
             (True, w2) \<Rightarrow> (Some Abandoned, w2)
           | (False, w2) \<Rightarrow>
               (case deadline of
                  None \<Rightarrow> (None, w2)
                | Some limit \<Rightarrow> (case k_now (ie_os ie) w2 of (t, w3) \<Rightarrow> (if limit \<le> t then Some Abandoned else None, w3)))))"

definition run_to_completion :: "initdb_env \<Rightarrow> command \<Rightarrow> nat option \<Rightarrow> unit fs" where
  "run_to_completion ie cmd timeout =
     io_bind (spawn_child (ie_process ie) cmd) (\<lambda>c w.
       let (deadline, w1) = (case timeout of
              None \<Rightarrow> (None, w)
            | Some limit \<Rightarrow> (case k_now (ie_os ie) w of (t, w1) \<Rightarrow> (Some (t + limit), w1))) in
       case poll (ie_os ie) INITDB_POLL_INTERVAL (completion_step ie deadline c) (ie_polls ie) w1 of
         (Some (Finished ok), w2) \<Rightarrow> (if ok then Inr () else Inl OtherIo, w2)
       | (Some (WaitFailed e), w2) \<Rightarrow> (Inl e, w2)
       | (Some Abandoned, w2) \<Rightarrow>
           io_match (kill_child (ie_process ie) c) (\<lambda>_. io_match (wait_child (ie_process ie) c) (\<lambda>_. io_err OtherIo)) w2
       | (None, w2) \<Rightarrow> (Inl OtherIo, w2))"

definition bytes_of :: "string \<Rightarrow> bytes" where
  "bytes_of s = map (\<lambda>c. of_nat (of_char c)) s"

definition initdb_command :: "string \<Rightarrow> string \<Rightarrow> settings \<Rightarrow> command" where
  "initdb_command superuser initdb st =
     \<lparr>cmd_program = initdb,
      cmd_args = [''--pgdata'', s_data_dir st, ''--username'', superuser, ''--auth=password'', ''--pwfile'', s_password_file st,
        ''--encoding=UTF8'', ''--no-sync''], cmd_pre_exec = []\<rparr>"

definition initialize_cancellable :: "semver_lib \<Rightarrow> initdb_env \<Rightarrow> path \<Rightarrow> settings \<Rightarrow> bool fs" where
  "initialize_cancellable sl ie dir st =
     (if \<not> is_disposable st then io_ok False
      else io_bind (path_exists (text_path dir (path_push (s_data_dir st) ''postgresql.conf''))) (\<lambda>initialized.
        if initialized then io_ok False
        else io_bind (installed_initdb sl dir st) (\<lambda>found.
          case found of
            None \<Rightarrow> io_ok False
          | Some initdb \<Rightarrow>
              io_bind (path_exists (text_path dir (s_password_file st))) (\<lambda>has_password.
              io_bind (if has_password then io_ok ()
                       else write_file_at (text_path dir (s_password_file st)) (bytes_of (s_password st))) (\<lambda>_.
              io_bind (run_to_completion ie (initdb_command (ie_superuser ie) initdb st) (s_timeout st)) (\<lambda>_.
                io_ok True))))))"

definition initialize_without_sync :: "semver_lib \<Rightarrow> initdb_env \<Rightarrow> path \<Rightarrow> settings \<Rightarrow> bool fs" where
  "initialize_without_sync sl ie dir st = initialize_cancellable sl (ie\<lparr>ie_cancelled := (\<lambda>w. (False, w))\<rparr>) dir st"

text \<open>\<open>setup_disposable\<close>, with \<open>PostgreSQL::setup\<close> as the argument \<open>setup_server\<close>.\<close>

definition setup_disposable :: "semver_lib \<Rightarrow> initdb_env \<Rightarrow> (settings \<Rightarrow> server_op) \<Rightarrow> path \<Rightarrow> settings \<Rightarrow> server_op" where
  "setup_disposable sl ie setup_server dir st w =
     (case initialize_cancellable sl ie dir st w of
        (Inl _, w') \<Rightarrow> ((Inl (EmbeddedIoError []), st), w')
      | (Inr _, w') \<Rightarrow> setup_server st w')"

section \<open>No child is left behind\<close>

text \<open>The deadline by which the polling is over: the time limit, or the moment the flag is set.\<close>

definition over_by :: "initdb_env \<Rightarrow> (world \<Rightarrow> nat) \<Rightarrow> nat option \<Rightarrow> nat \<Rightarrow> bool" where
  "over_by ie time deadline d \<longleftrightarrow>
     (\<exists>limit. deadline = Some limit \<and> limit \<le> d) \<or> (\<forall>w. d \<le> time w \<longrightarrow> fst (ie_cancelled ie w))"

text \<open>Polls that outlast the time limit, or the moment of cancellation.\<close>

definition enough_polls :: "initdb_env \<Rightarrow> (world \<Rightarrow> nat) \<Rightarrow> nat option \<Rightarrow> bool" where
  "enough_polls ie time timeout \<longleftrightarrow> 0 < ie_polls ie \<and>
     ((\<exists>limit. timeout = Some limit \<and> limit \<le> (ie_polls ie - 1) * INITDB_POLL_INTERVAL) \<or>
      (\<exists>d \<le> (ie_polls ie - 1) * INITDB_POLL_INTERVAL. \<forall>w. d \<le> time w \<longrightarrow> fst (ie_cancelled ie w)))"

text \<open>
  What the services promise: they start and reap no child by themselves, asking for a child or the flag
  does not set the clock back, and a child can be waited for. That asking for a child works is not assumed.
\<close>

locale child_services =
  fixes ie :: initdb_env and time :: "world \<Rightarrow> nat"
  assumes quiet: "process_quiet (ie_process ie)"
    and clock: "clocked (ie_os ie) time"
    and noting_clock: "time (w\<lparr>trace := ops\<rparr>) = time w"
    and now_quiet: "trace (snd (k_now (ie_os ie) w)) = trace w"
    and sleep_quiet: "trace (k_sleep (ie_os ie) d w) = trace w"
    and cancelled_quiet: "trace (snd (ie_cancelled ie w)) = trace w"
    and cancelled_clock: "time w \<le> time (snd (ie_cancelled ie w))"
    and ask_clock: "time w \<le> time (snd (p_try_wait (ie_process ie) c w))"
    and wait_works: "fst (p_wait (ie_process ie) c w) = Inr ()"
begin

lemma step_trace:
  assumes "completion_step ie deadline c w = (r, w')"
  shows "trace w' = trace w @ (case r of Some (Finished _) \<Rightarrow> [Reaped c] | _ \<Rightarrow> [])"
    and "r = Some (WaitFailed e) \<Longrightarrow> p_try_wait (ie_process ie) c w = (Inl e, w')"
proof -
  obtain x w1 where x: "p_try_wait (ie_process ie) c w = (x, w1)" by fastforce
  obtain b w2 where b: "ie_cancelled ie w1 = (b, w2)" by fastforce
  obtain t w3 where n: "k_now (ie_os ie) w2 = (t, w3)" by fastforce
  have "trace w1 = trace w" "trace w2 = trace w1" "trace w3 = trace w2"
    using trace_quiet(5) [OF quiet x] cancelled_quiet [of w1] now_quiet [of w2] b n by auto
  then show "trace w' = trace w @ (case r of Some (Finished _) \<Rightarrow> [Reaped c] | _ \<Rightarrow> [])"
    using assms x b n by (auto simp: completion_step_def split: option.splits bool.splits if_splits sum.splits)
  show "p_try_wait (ie_process ie) c w = (Inl e, w')" if "r = Some (WaitFailed e)"
    using assms x b n that by (auto simp: completion_step_def split: option.splits bool.splits if_splits sum.splits)
qed

lemma step_deadline:
  assumes "over_by ie time deadline d"
  shows "meets_deadline time d (completion_step ie deadline c)"
  unfolding meets_deadline_def
proof (intro allI conjI impI)
  fix w
  obtain x w1 where x: "p_try_wait (ie_process ie) c w = (x, w1)" by fastforce
  obtain b w2 where b: "ie_cancelled ie w1 = (b, w2)" by fastforce
  obtain t w3 where n: "k_now (ie_os ie) w2 = (t, w3)" by fastforce
  have le: "time w \<le> time w1" "time w1 \<le> time w2" "time w2 \<le> t" "t \<le> time w3"
    using ask_clock [of w c] cancelled_clock [of w1] clock x b n unfolding clocked_def by (metis fst_conv snd_conv)+
  show "time w \<le> time (snd (completion_step ie deadline c w))"
    using x b n le by (auto simp: completion_step_def noting_clock split: option.split bool.split sum.split)
  assume "d \<le> time w"
  then have "b \<or> (\<exists>limit. deadline = Some limit \<and> limit \<le> t)"
    using assms le b unfolding over_by_def by (metis fst_conv le_trans)
  then show "fst (completion_step ie deadline c w) \<noteq> None"
    using x b n by (cases b) (auto simp: completion_step_def split: option.split sum.split)
qed

lemma poll_trace:
  assumes "poll (ie_os ie) i (completion_step ie deadline c) n w = (r, w')"
  shows "trace w' = trace w @ (case r of Some (Finished _) \<Rightarrow> [Reaped c] | _ \<Rightarrow> [])"
  using assms
proof (induction n arbitrary: w)
  case (Suc n)
  obtain x w1 where s: "completion_step ie deadline c w = (x, w1)" by fastforce
  note step_trace(1) [OF s]
  then show ?case using Suc s sleep_quiet by (cases x) force+
qed simp

lemma abandon_trace:
  assumes "io_match (kill_child (ie_process ie) c) (\<lambda>_. io_match (wait_child (ie_process ie) c) (\<lambda>_. io_err e)) w = (r, w')"
  shows "r = Inl e \<and> trace w' = trace w @ [Signal (int c) SIGKILL, Reaped c]"
proof -
  obtain rk w1 where k: "kill_child (ie_process ie) c w = (rk, w1)" by fastforce
  obtain w2 where o: "p_wait (ie_process ie) c w1 = (Inr (), w2)" using wait_works [of c w1] by (metis prod.collapse)
  show ?thesis using assms kill_child_trace [OF quiet k] trace_quiet(6) [OF quiet o] k o
    by (auto simp: io_match_def wait_child_def io_bind_def note_op_def io_err_def)
qed

lemma completed_children:
  assumes "enough_polls ie time timeout" and "run_to_completion ie cmd timeout w = (r, w')"
  shows "trace w' = trace w \<and> \<not> ends_well r \<or>
    (\<exists>c v e. trace w' = trace w @ [Spawned c (cmd_pre_exec cmd)] \<and> p_try_wait (ie_process ie) c v = (Inl e, w') \<and> r = Inl e) \<or>
    (\<exists>c m. trace w' = trace w @ Spawned c (cmd_pre_exec cmd) # m @ [Reaped c] \<and> list_all childless m \<and> (ends_well r \<longrightarrow> m = []))"
proof -
  obtain rs w1 where s: "spawn_child (ie_process ie) cmd w = (rs, w1)" by fastforce
  show ?thesis
  proof (cases rs)
    case (Inl e)
    then show ?thesis using assms(2) s spawn_child_trace [OF quiet s] by (auto simp: run_to_completion_def io_bind_def)
  next
    case (Inr c)
    then have t1: "trace w1 = trace w @ [Spawned c (cmd_pre_exec cmd)]" using spawn_child_trace [OF quiet s] by auto
    obtain deadline w2 where dl: "(case timeout of None \<Rightarrow> (None, w1)
        | Some limit \<Rightarrow> (case k_now (ie_os ie) w1 of (t, w2) \<Rightarrow> (Some (t + limit), w2))) = (deadline, w2)" by fastforce
    have t2: "trace w2 = trace w1" using dl now_quiet [of w1] by (auto split: option.splits prod.splits)
    have late: "\<exists>d. over_by ie time deadline d \<and> d \<le> time w2 + (ie_polls ie - 1) * INITDB_POLL_INTERVAL \<and> 0 < ie_polls ie"
    proof (cases "\<exists>limit. timeout = Some limit \<and> limit \<le> (ie_polls ie - 1) * INITDB_POLL_INTERVAL")
      case True
      then obtain limit where l: "timeout = Some limit" "limit \<le> (ie_polls ie - 1) * INITDB_POLL_INTERVAL" by blast
      obtain t v where n: "k_now (ie_os ie) w1 = (t, v)" by fastforce
      have "t \<le> time v" using clock n unfolding clocked_def by (metis fst_conv snd_conv)
      moreover have "deadline = Some (t + limit)" "w2 = v" using dl l n by auto
      ultimately show ?thesis using l assms(1) unfolding enough_polls_def over_by_def by (intro exI [of _ "t + limit"]) auto
    next
      case False
      then obtain d where d: "d \<le> (ie_polls ie - 1) * INITDB_POLL_INTERVAL" "\<forall>w. d \<le> time w \<longrightarrow> fst (ie_cancelled ie w)"
        "0 < ie_polls ie" using assms(1) unfolding enough_polls_def by blast
      from d(2) have "over_by ie time deadline d" unfolding over_by_def by blast
      then show ?thesis using d(1,3) by (intro exI [of _ d]) (simp add: trans_le_add2)
    qed
    obtain x w3 where p: "poll (ie_os ie) INITDB_POLL_INTERVAL (completion_step ie deadline c) (ie_polls ie) w2 = (x, w3)" by fastforce
    from late obtain d where d: "over_by ie time deadline d" "d \<le> time w2 + (ie_polls ie - 1) * INITDB_POLL_INTERVAL" "0 < ie_polls ie"
      by blast
    from poll_returns [OF clock step_deadline [OF d(1), of c] d(2)] have "x \<noteq> None" using p d(3) by auto
    then obtain y where y: "x = Some y" by auto
    have end_of: "(case x of
         Some (Finished ok) \<Rightarrow> (if ok then Inr () else Inl OtherIo, w3)
       | Some (WaitFailed e) \<Rightarrow> (Inl e, w3)
       | Some Abandoned \<Rightarrow> io_match (kill_child (ie_process ie) c) (\<lambda>_. io_match (wait_child (ie_process ie) c) (\<lambda>_. io_err OtherIo)) w3
       | None \<Rightarrow> (Inl OtherIo, w3)) = (r, w')"
      using assms(2) unfolding run_to_completion_def io_bind_def s Inr
      by (simp add: dl p split: option.split completion.split)
    note t3 = poll_trace [OF p]
    show ?thesis
    proof (cases y)
      case (Finished ok)
      then show ?thesis using end_of t1 t2 t3 y by (auto split: if_splits)
    next
      case Abandoned
      then show ?thesis using end_of t1 t2 t3 y abandon_trace [of c OtherIo w3 r w'] by auto
    next
      case (WaitFailed e)
      from poll_result [OF p [unfolded y WaitFailed]] obtain v where
        "completion_step ie deadline c v = (Some (WaitFailed e), w3)" by blast
      from step_trace(2) [OF this refl] show ?thesis using end_of t1 t2 t3 y WaitFailed by auto
    qed
  qed
qed

end

text \<open>
  C34: \<open>initdb\<close> is left running only when the system will not say how it is. When the polls outlast the time limit
  or the moment the flag is set, which is when the future that awaits it is dropped, and a child that has been
  killed can be waited for, a run either started nothing, or has reaped the child it started, however it ended;
  or the very question whether the child has exited failed, and then the run returns that error with the child
  neither killed nor waited for. A run that succeeds never had to kill it.
\<close>

theorem initdb_child_reaped:
  assumes "child_services ie time" and "enough_polls ie time timeout" and "run_to_completion ie cmd timeout w = (r, w')"
  shows "\<exists>ops. trace w' = trace w @ ops \<and>
    (case r of
       Inr _ \<Rightarrow> \<exists>c. ops = [Spawned c (cmd_pre_exec cmd), Reaped c]
     | Inl e \<Rightarrow> running ops = {} \<or>
         (\<exists>c v. ops = [Spawned c (cmd_pre_exec cmd)] \<and> p_try_wait (ie_process ie) c v = (Inl e, w')))"
  using child_services.completed_children [OF assms]
  by (cases r) (auto simp: running_def fold_childless)

text \<open>A child that never exits, a clock that the sleeping moves, and a time limit of half a second.\<close>

definition demo_initdb :: initdb_env where
  "demo_initdb = \<lparr>ie_process = demo_process\<lparr>p_try_wait := (\<lambda>_. io_ok None)\<rparr>, ie_os = demo_os [], ie_cancelled = (\<lambda>w. (False, w)),
     ie_polls = 26, ie_superuser = ''postgres''\<rparr>"

interpretation demo_children: child_services demo_initdb tick
  by unfold_locales
    (auto simp: demo_initdb_def demo_process_def process_quiet_def clocked_def demo_os_def issues_ok, (simp_all add: io_ok_def)?)

text \<open>Asking for the child works here, so the child has been reaped.\<close>

theorem initdb_child_reaped_witness:
  "\<exists>ops. trace (snd (run_to_completion demo_initdb (initdb_command ''postgres'' ''/pg/bin/initdb'' demo_settings) (Some 500) demo_worker_world)) =
     trace demo_worker_world @ ops \<and> running ops = {}"
proof -
  let ?run = "run_to_completion demo_initdb (initdb_command ''postgres'' ''/pg/bin/initdb'' demo_settings) (Some 500) demo_worker_world"
  obtain r w' where run: "?run = (r, w')" by fastforce
  have e: "enough_polls demo_initdb tick (Some 500)"
    by (simp add: enough_polls_def demo_initdb_def INITDB_POLL_INTERVAL_def)
  have "p_try_wait (ie_process demo_initdb) c v \<noteq> (Inl x, w')" for c v x by (simp add: demo_initdb_def io_ok_def)
  with initdb_child_reaped [OF demo_children.child_services_axioms e run] show ?thesis unfolding run
    by (cases r) (auto simp: running_def)
qed

end
