(* ===== verification/Startup.thy ===== *)
theory Startup
  imports Initdb OrphanWatch
begin

text \<open>
  The lifecycle of a start (\<open>cluster/setup_lock.rs\<close>, \<open>startup.rs\<close>, \<open>startup_setup_only.rs\<close>, \<open>startup_watch.rs\<close>,
  \<open>extension_hook.rs\<close>): the lock on the installation tree, the cache lookup, the setup of the server, the
  installation of extensions and the start. Taking and dropping the lock are recorded in the trace, so the
  last section can say which calls were made while it was held. The \<open>PostgreSQL\<close> of \<open>postgresql_embedded\<close> is
  the settings it holds, with its \<open>setup\<close> and \<open>start\<close> as parameters. The asynchronous start has its own
  definitions; what it hands to the blocking pool of the runtime may be cancelled before it runs.
\<close>

section \<open>Parameters\<close>

record startup_env =
  se_semver :: semver_lib
  se_os :: os
  se_vars :: "string \<Rightarrow> string option"
  se_home :: "string option"
  se_dir :: path
  se_flock :: "lock_type \<Rightarrow> path \<Rightarrow> unit fs"
  se_installer :: installer
  se_worker :: worker_env
  se_initdb :: initdb_env
  se_limit :: time_limit
  se_setup :: "settings \<Rightarrow> server_op"
  se_start :: "settings \<Rightarrow> server_op"
  se_cancelled :: "bool act"

text \<open>
  \<open>tokio::task::spawn_blocking(task).await\<close>: the task runs on the blocking pool, and its result is what the await
  gives; a task that the runtime cancels before it has started, because it is shutting down, is a join error.
\<close>

definition spawn_blocking :: "bool act \<Rightarrow> 'e \<Rightarrow> ('e, 'a) io \<Rightarrow> ('e, 'a) io" where
  "spawn_blocking cancelled join_error task w =
     (case cancelled w of (True, w') \<Rightarrow> (Inl join_error, w') | (False, w') \<Rightarrow> task w')"

section \<open>The setup lock\<close>

definition SETUP_LOCK_FILE :: string where "SETUP_LOCK_FILE = ''.pg-embed-setup.lock''"

definition install_root :: "test_bootstrap_settings \<Rightarrow> bootstrap_error + string" where
  "install_root b = utf8_or (s_installation_dir (tb_settings b))"

definition setup_lock_path :: "startup_env \<Rightarrow> string \<Rightarrow> path" where
  "setup_lock_path se dir = text_path (se_dir se) (path_push dir SETUP_LOCK_FILE)"

definition lock_timed :: "startup_env \<Rightarrow> string \<Rightarrow> (bootstrap_error, path) io" where
  "lock_timed se dir =
     io_bind (failing (create_dir_all (text_path (se_dir se) dir))) (\<lambda>_.
     let p = setup_lock_path se dir in
     io_bind (failing (open_write False 438 p)) (\<lambda>file.
     io_bind (failing (se_flock se Exclusive file)) (\<lambda>_.
     io_bind (note_op (Locked p)) (\<lambda>_.
       io_ok p))))"

definition acquire_at :: "startup_env \<Rightarrow> string \<Rightarrow> (bootstrap_error, path) io" where
  "acquire_at se dir = lock_timed se dir"

definition acquire_setup_lock :: "startup_env \<Rightarrow> test_bootstrap_settings \<Rightarrow> (bootstrap_error, path) io" where
  "acquire_setup_lock se b = io_bind (io_of (install_root b)) (acquire_at se)"

definition acquire_async_at :: "startup_env \<Rightarrow> string \<Rightarrow> (bootstrap_error, path) io" where
  "acquire_async_at se dir = spawn_blocking (se_cancelled se) (extension_error Other) (lock_timed se dir)"

text \<open>Dropping a \<open>SetupLock\<close>, and a scope at whose end one is dropped.\<close>

definition drop_lock :: "path option \<Rightarrow> ('e, unit) io" where
  "drop_lock lock = (case lock of None \<Rightarrow> io_ok () | Some p \<Rightarrow> note_op (Unlocked p))"

definition holding :: "path option \<Rightarrow> ('e, 'a) io \<Rightarrow> ('e, 'a) io" where
  "holding lock m = io_match m (\<lambda>r. io_bind (drop_lock lock) (\<lambda>_. io_of r))"

datatype install_lock = Held | Released string

definition after_cache_lookup :: "path \<Rightarrow> bool \<Rightarrow> string \<Rightarrow> ('e, path option \<times> install_lock) io" where
  "after_cache_lookup lock cache_hit dir =
     (if cache_hit then io_bind (drop_lock (Some lock)) (\<lambda>_. io_ok (None, Released dir))
      else io_ok (Some lock, Held))"

definition for_hook :: "startup_env \<Rightarrow> install_lock \<Rightarrow> (bootstrap_error, path option) io" where
  "for_hook se il =
     (case il of
        Released dir \<Rightarrow> io_bind (acquire_at se dir) (\<lambda>p. io_ok (Some p))
      | Held \<Rightarrow> io_ok None)"

definition for_hook_async :: "startup_env \<Rightarrow> install_lock \<Rightarrow> (bootstrap_error, path option) io" where
  "for_hook_async se il =
     (case il of
        Released dir \<Rightarrow> io_bind (acquire_async_at se dir) (\<lambda>p. io_ok (Some p))
      | Held \<Rightarrow> io_ok None)"

section \<open>The post-setup hook\<close>

record post_setup =
  post_cache :: binary_cache_config
  post_hit :: bool
  post_lock :: install_lock

definition populate_cache_on_miss :: "startup_env \<Rightarrow> post_setup \<Rightarrow> test_bootstrap_settings \<Rightarrow> ('e, unit) io" where
  "populate_cache_on_miss se post b =
     (if post_hit post then io_ok ()
      else try_populate_binary_cache (se_semver se) (se_flock se) (se_dir se) (post_cache post) (tb_settings b))"

definition extension_target ::
  "startup_env \<Rightarrow> test_bootstrap_settings \<Rightarrow> (bootstrap_error, (extension_request \<times> string) option) io" where
  "extension_target se b =
     (case tb_extensions b of
        None \<Rightarrow> io_ok None
      | Some request \<Rightarrow>
          io_bind (resolve_installed_dir (se_semver se) (se_dir se) (tb_settings b)) (\<lambda>found.
            case found of
              None \<Rightarrow> io_err (extension_error ExtensionInstallFailed)
            | Some d \<Rightarrow>
                (case from_path_buf d of
                   Inl _ \<Rightarrow> io_err (extension_error ExtensionInstallFailed)
                 | Inr dir \<Rightarrow> io_ok (Some (request, dir)))))"

definition run_post_setup ::
  "startup_env \<Rightarrow> post_setup \<Rightarrow> test_bootstrap_settings \<Rightarrow> (bootstrap_error, test_bootstrap_settings) io" where
  "run_post_setup se post b =
     io_bind (refresh_worker_installation_dir (se_semver se) (se_dir se) b) (\<lambda>b1.
     io_bind (populate_cache_on_miss se post b1) (\<lambda>_.
     io_bind (extension_target se b1) (\<lambda>target.
       case target of
         None \<Rightarrow> io_ok b1
       | Some (request, dir) \<Rightarrow>
           io_bind (for_hook se (post_lock post)) (\<lambda>hook_lock.
             holding hook_lock
               (io_bind (install_extensions_blocking (se_installer se) request (text_path (se_dir se) dir)) (\<lambda>installed.
                 io_ok (b1\<lparr>tb_installed_extensions := installed\<rparr>)))))))"

definition install_extensions_async ::
  "startup_env \<Rightarrow> extension_request \<Rightarrow> path \<Rightarrow> (bootstrap_error, installed_extension list) io" where
  "install_extensions_async se request dir =
     spawn_blocking (se_cancelled se) (extension_error ExtensionInstallFailed)
       (install_extensions_blocking (se_installer se) request dir)"

definition run_post_setup_async ::
  "startup_env \<Rightarrow> post_setup \<Rightarrow> test_bootstrap_settings \<Rightarrow> (bootstrap_error, test_bootstrap_settings) io" where
  "run_post_setup_async se post b =
     io_bind (refresh_worker_installation_dir (se_semver se) (se_dir se) b) (\<lambda>b1.
     io_bind (populate_cache_on_miss se post b1) (\<lambda>_.
     io_bind (extension_target se b1) (\<lambda>target.
       case target of
         None \<Rightarrow> io_ok b1
       | Some (request, dir) \<Rightarrow>
           io_bind (for_hook_async se (post_lock post)) (\<lambda>hook_lock.
             holding hook_lock
               (io_bind (install_extensions_async se request (text_path (se_dir se) dir)) (\<lambda>installed.
                 io_ok (b1\<lparr>tb_installed_extensions := installed\<rparr>)))))))"

section \<open>The lifecycle\<close>

text \<open>\<open>LifecycleStep\<close>, and the server: an operation leaves its settings behind.\<close>

datatype lifecycle_step = StepSetup | StepStart

fun step_operation :: "lifecycle_step \<Rightarrow> worker_operation" where
  "step_operation StepSetup = Setup"
| "step_operation StepStart = Start"

definition invoke_root_operation ::
  "startup_env \<Rightarrow> (string \<times> string option) list \<Rightarrow> test_bootstrap_settings \<Rightarrow> lifecycle_step \<Rightarrow> settings \<Rightarrow> (bootstrap_error, settings) io" where
  "invoke_root_operation se env_vars b lstep st =
     io_bind (execute_root_operation (se_worker se) b env_vars (step_operation lstep)) (\<lambda>_. io_ok st)"

definition invoke_unprivileged_operation ::
  "startup_env \<Rightarrow> (string \<times> string option) list \<Rightarrow> test_bootstrap_settings \<Rightarrow> lifecycle_step \<Rightarrow> settings \<Rightarrow> (bootstrap_error, settings) io" where
  "invoke_unprivileged_operation se env_vars b lstep st =
     invoke_operation (se_worker se) (se_limit se) b env_vars (step_operation lstep) st
       (case lstep of
          StepSetup \<Rightarrow> setup_disposable (se_semver se) (se_initdb se) (se_setup se) (se_dir se) st
        | StepStart \<Rightarrow> se_start se st)"

type_synonym dispatch = "test_bootstrap_settings \<Rightarrow> lifecycle_step \<Rightarrow> settings \<Rightarrow> (bootstrap_error, settings) io"

definition run_lifecycle_steps ::
  "startup_env \<Rightarrow> post_setup \<Rightarrow> dispatch \<Rightarrow> test_bootstrap_settings \<Rightarrow> settings \<Rightarrow>
   (bootstrap_error, test_bootstrap_settings \<times> settings) io" where
  "run_lifecycle_steps se post dispatch b st =
     io_bind (dispatch b StepSetup st) (\<lambda>st1.
     io_bind (run_post_setup se post b) (\<lambda>b1.
     io_bind (dispatch b1 StepStart st1) (\<lambda>st2.
     io_bind (refresh_worker_port (se_os se) (se_dir se) b1) (\<lambda>b2.
       io_ok (b2, st2)))))"

definition prepare_postgres_handle ::
  "bool \<Rightarrow> test_bootstrap_settings \<Rightarrow> settings \<Rightarrow> settings option \<times> test_bootstrap_settings" where
  "prepare_postgres_handle managed b embedded =
     (if managed then (None, b) else (Some embedded, b\<lparr>tb_settings := embedded\<rparr>))"

text \<open>\<open>StartupOutcome\<close>; \<open>out_postgres\<close> is the in-process server.\<close>

record startup_outcome =
  out_bootstrap :: test_bootstrap_settings
  out_postgres :: "settings option"
  out_managed :: bool

definition handle_privilege_lifecycle ::
  "startup_env \<Rightarrow> (string \<times> string option) list \<Rightarrow> post_setup \<Rightarrow> test_bootstrap_settings \<Rightarrow> (bootstrap_error, startup_outcome) io" where
  "handle_privilege_lifecycle se env_vars post b =
     (if tb_privileges b = Root
      then io_bind (run_lifecycle_steps se post (invoke_root_operation se env_vars) b (tb_settings b)) (\<lambda>(b1, _).
             io_ok \<lparr>out_bootstrap = b1, out_postgres = None, out_managed = True\<rparr>)
      else io_bind (run_lifecycle_steps se post (invoke_unprivileged_operation se env_vars) b (tb_settings b)) (\<lambda>(b1, embedded).
             let (postgres, b2) = prepare_postgres_handle False b1 embedded in
             io_ok \<lparr>out_bootstrap = b2, out_postgres = postgres, out_managed = False\<rparr>))"

section \<open>The asynchronous lifecycle\<close>

text \<open>\<open>AsyncInvoker::invoke\<close>: in process the future is awaited under its time limit, as root the worker is run on the blocking pool.\<close>

definition invoke_unprivileged_async :: "time_limit \<Rightarrow> nat \<Rightarrow> server_op \<Rightarrow> (bootstrap_error, settings) io" where
  "invoke_unprivileged_async limit t fut w =
     (case limit t fut w of
        (None, w') \<Rightarrow> (Inl timeout_error, w')
      | (Some (Inl e, _), w') \<Rightarrow> (Inl (embedded_failure e), w')
      | (Some (Inr _, st), w') \<Rightarrow> (Inr st, w'))"

definition run_root_async ::
  "startup_env \<Rightarrow> test_bootstrap_settings \<Rightarrow> (string \<times> string option) list \<Rightarrow> worker_operation \<Rightarrow> (bootstrap_error, unit) io" where
  "run_root_async se b env_vars operation =
     spawn_blocking (se_cancelled se) (extension_error Other) (execute_root_operation (se_worker se) b env_vars operation)"

definition dispatch_operation_async ::
  "startup_env \<Rightarrow> test_bootstrap_settings \<Rightarrow> (string \<times> string option) list \<Rightarrow> worker_operation \<Rightarrow> settings \<Rightarrow> server_op \<Rightarrow>
   (bootstrap_error, settings) io" where
  "dispatch_operation_async se b env_vars operation st fut =
     (case tb_privileges b of
        Unprivileged \<Rightarrow> invoke_unprivileged_async (se_limit se) (worker_operation_timeout operation b) fut
      | Root \<Rightarrow> io_bind (run_root_async se b env_vars operation) (\<lambda>_. io_ok st))"

text \<open>The port of a worker's server; \<open>tokio::fs::read_to_string\<close> reads on the blocking pool.\<close>

definition read_pid_file_contents_async :: "startup_env \<Rightarrow> path \<Rightarrow> (bootstrap_error, string option) io" where
  "read_pid_file_contents_async se p =
     io_match (spawn_blocking (se_cancelled se) OtherIo (read_to_string p)) (\<lambda>r.
       case r of
         Inr contents \<Rightarrow> io_ok (Some contents)
       | Inl e \<Rightarrow> if e = NotFound then io_ok None else io_err (extension_error Other))"

definition read_postmaster_port_async :: "startup_env \<Rightarrow> path \<Rightarrow> (bootstrap_error, nat option) io" where
  "read_postmaster_port_async se p =
     io_bind (read_pid_file_contents_async se p) (\<lambda>contents.
       io_ok (case contents of Some c \<Rightarrow> parse_port_from_pid_contents c | None \<Rightarrow> None))"

fun port_attempts_async :: "startup_env \<Rightarrow> path \<Rightarrow> nat \<Rightarrow> (bootstrap_error, nat option) io" where
  "port_attempts_async se p 0 = io_ok None"
| "port_attempts_async se p (Suc n) =
     io_bind (read_postmaster_port_async se p) (\<lambda>port.
       case port of
         Some v \<Rightarrow> io_ok (Some v)
       | None \<Rightarrow> (\<lambda>w. port_attempts_async se p n (k_sleep (se_os se) POSTMASTER_PORT_DELAY w)))"

definition refresh_worker_port_async :: "startup_env \<Rightarrow> test_bootstrap_settings \<Rightarrow> (bootstrap_error, test_bootstrap_settings) io" where
  "refresh_worker_port_async se b =
     (if tb_privileges b \<noteq> Root then io_ok b
      else io_bind (port_attempts_async se (text_path (se_dir se) (path_push (s_data_dir (tb_settings b)) ''postmaster.pid''))
                      POSTMASTER_PORT_ATTEMPTS) (\<lambda>found.
        io_ok (case found of
                 Some v \<Rightarrow> b\<lparr>tb_settings := (tb_settings b)\<lparr>s_port := v\<rparr>\<rparr>
               | None \<Rightarrow> b)))"

text \<open>The lifecycles; as root the in-process operation given to the invoker does nothing.\<close>

definition no_operation :: "settings \<Rightarrow> server_op" where
  "no_operation st w = ((Inr (), st), w)"

definition invoke_lifecycle_root_async ::
  "startup_env \<Rightarrow> (string \<times> string option) list \<Rightarrow> post_setup \<Rightarrow> test_bootstrap_settings \<Rightarrow> (bootstrap_error, test_bootstrap_settings) io" where
  "invoke_lifecycle_root_async se env_vars post b =
     io_bind (dispatch_operation_async se b env_vars Setup (tb_settings b) (no_operation (tb_settings b))) (\<lambda>_.
     io_bind (run_post_setup_async se post b) (\<lambda>b1.
     io_bind (dispatch_operation_async se b1 env_vars Start (tb_settings b1) (no_operation (tb_settings b1))) (\<lambda>_.
       refresh_worker_port_async se b1)))"

definition invoke_lifecycle_async ::
  "startup_env \<Rightarrow> (string \<times> string option) list \<Rightarrow> post_setup \<Rightarrow> test_bootstrap_settings \<Rightarrow> settings \<Rightarrow>
   (bootstrap_error, test_bootstrap_settings \<times> settings) io" where
  "invoke_lifecycle_async se env_vars post b embedded =
     io_bind (dispatch_operation_async se b env_vars Setup embedded
                (setup_disposable (se_semver se) (se_initdb se) (se_setup se) (se_dir se) embedded)) (\<lambda>st1.
     io_bind (run_post_setup_async se post b) (\<lambda>b1.
     io_bind (dispatch_operation_async se b1 env_vars Start st1 (se_start se st1)) (\<lambda>st2.
     io_bind (refresh_worker_port_async se b1) (\<lambda>b2.
       io_ok (b2, st2)))))"

text \<open>The branch on the privileges, with what becomes of a lifecycle that succeeded.\<close>

definition async_lifecycle ::
  "startup_env \<Rightarrow> (string \<times> string option) list \<Rightarrow> post_setup \<Rightarrow> test_bootstrap_settings \<Rightarrow> (bootstrap_error, startup_outcome) io" where
  "async_lifecycle se env_vars post b =
     (if tb_privileges b = Root
      then io_bind (invoke_lifecycle_root_async se env_vars post b) (\<lambda>b1.
             io_ok \<lparr>out_bootstrap = b1, out_postgres = None, out_managed = True\<rparr>)
      else io_bind (invoke_lifecycle_async se env_vars post b (tb_settings b)) (\<lambda>(b1, embedded).
             let (postgres, b2) = prepare_postgres_handle False b1 embedded in
             io_ok \<lparr>out_bootstrap = b2, out_postgres = postgres, out_managed = False\<rparr>))"

section \<open>Starting\<close>

definition cache_config_from_bootstrap :: "startup_env \<Rightarrow> test_bootstrap_settings \<Rightarrow> binary_cache_config" where
  "cache_config_from_bootstrap se b =
     (case tb_binary_cache_dir b of
        None \<Rightarrow> binary_cache_config_new (se_vars se) (se_home se)
      | Some dir \<Rightarrow> with_dir dir)"

definition watch_for_owner_death :: "startup_env \<Rightarrow> test_bootstrap_settings \<Rightarrow> ('e, unit) io" where
  "watch_for_owner_death se b =
     io_bind (watch_slot_owner (se_os se) (se_vars se) (se_dir se) (path_components (s_data_dir (tb_settings b)))) (\<lambda>_. io_ok ())"

definition release_owner_watcher :: "startup_env \<Rightarrow> test_bootstrap_settings \<Rightarrow> ('e, unit) io" where
  "release_owner_watcher se b =
     io_bind (release_watcher (se_os se) (path_components (s_data_dir (tb_settings b)))) (\<lambda>_. io_ok ())"

text \<open>
  The two starts; only the synchronous one marks an error of the lifecycle when cached binaries were in use. The
  steps change neither the version nor the data directory that the error paths read, so these take the bootstrap
  as it was before the lifecycle.
\<close>

definition start_postgres ::
  "startup_env \<Rightarrow> test_bootstrap_settings \<Rightarrow> (string \<times> string option) list \<Rightarrow> binary_cache_config \<Rightarrow>
   (bootstrap_error, startup_outcome) io" where
  "start_postgres se b env_vars cfg =
     io_bind (io_of (install_root b)) (\<lambda>dir.
     io_bind (acquire_at se dir) (\<lambda>lock.
     io_bind (try_use_binary_cache (se_semver se) (se_flock se) (se_dir se) cfg (s_version (tb_settings b)) b) (\<lambda>(cache_hit, b1).
     io_bind (after_cache_lookup lock cache_hit dir) (\<lambda>(kept, il).
       holding kept
         (io_bind (watch_for_owner_death se b1) (\<lambda>_.
          io_match (handle_privilege_lifecycle se env_vars \<lparr>post_cache = cfg, post_hit = cache_hit, post_lock = il\<rparr> b1) (\<lambda>r.
            case r of
              Inl e \<Rightarrow> io_bind (release_owner_watcher se b1) (\<lambda>_. io_err (note_cached_binaries cache_hit b1 e))
            | Inr outcome \<Rightarrow> io_ok outcome)))))))"

definition start_postgres_async ::
  "startup_env \<Rightarrow> test_bootstrap_settings \<Rightarrow> (string \<times> string option) list \<Rightarrow> binary_cache_config \<Rightarrow>
   (bootstrap_error, startup_outcome) io" where
  "start_postgres_async se b env_vars cfg =
     io_bind (io_of (install_root b)) (\<lambda>dir.
     io_bind (acquire_async_at se dir) (\<lambda>lock.
     io_bind (try_use_binary_cache (se_semver se) (se_flock se) (se_dir se) cfg (s_version (tb_settings b)) b) (\<lambda>(cache_hit, b1).
     io_bind (after_cache_lookup lock cache_hit dir) (\<lambda>(kept, il).
       let post = \<lparr>post_cache = cfg, post_hit = cache_hit, post_lock = il\<rparr> in
       holding kept
         (io_bind (watch_for_owner_death se b1) (\<lambda>_.
          io_match (async_lifecycle se env_vars post b1) (\<lambda>lifecycle.
            case lifecycle of
              Inl e \<Rightarrow> io_bind (release_owner_watcher se b1) (\<lambda>_. io_err e)
            | Inr outcome \<Rightarrow> io_ok outcome)))))))"

definition setup_with_privileges ::
  "startup_env \<Rightarrow> test_bootstrap_settings \<Rightarrow> (string \<times> string option) list \<Rightarrow> (bootstrap_error, unit) io" where
  "setup_with_privileges se b env_vars =
     io_bind ((if tb_privileges b = Root then invoke_root_operation else invoke_unprivileged_operation)
                se env_vars b StepSetup (tb_settings b)) (\<lambda>_. io_ok ())"

definition setup_lifecycle ::
  "startup_env \<Rightarrow> test_bootstrap_settings \<Rightarrow> (string \<times> string option) list \<Rightarrow> binary_cache_config \<Rightarrow>
   (bootstrap_error, test_bootstrap_settings) io" where
  "setup_lifecycle se b env_vars cfg =
     io_bind (acquire_setup_lock se b) (\<lambda>lock.
       holding (Some lock)
         (io_bind (try_use_binary_cache (se_semver se) (se_flock se) (se_dir se) cfg (s_version (tb_settings b)) b) (\<lambda>(cache_hit, b1).
          io_bind (setup_with_privileges se b1 env_vars) (\<lambda>_.
            run_post_setup se \<lparr>post_cache = cfg, post_hit = cache_hit, post_lock = Held\<rparr> b1))))"

text \<open>The CLI's entry: the cache is resolved in the host's environment; \<open>runtime\<close> is the answer of \<open>build_runtime\<close>.\<close>

definition setup_postgres_only ::
  "startup_env \<Rightarrow> (bootstrap_error + unit) \<Rightarrow> test_bootstrap_settings \<Rightarrow> (bootstrap_error, test_bootstrap_settings) io" where
  "setup_postgres_only se runtime b =
     (let cfg = cache_config_from_bootstrap se b; env_vars = to_env (tb_environment b) in
      io_bind (io_of runtime) (\<lambda>_. setup_lifecycle se b env_vars cfg))"

end
