(* ===== verification/StartupLock.thy ===== *)
theory StartupLock
  imports Startup ClusterCleanup
begin

text \<open>
  The setup lock covers the installation tree: a scan of the trace that fails when a call touches the tree
  while the lock is not held, when the lock is taken twice and when it is dropped without being held; a small
  calculus of what a computation does to the lock; and the theorems on starts and on the set-up only.
\<close>

section \<open>Scanning the trace\<close>

text \<open>Whether the lock is held afterwards, or \<open>None\<close> when the discipline was broken.\<close>

fun scan_lock :: "path \<Rightarrow> (op \<Rightarrow> bool) \<Rightarrow> bool \<Rightarrow> op list \<Rightarrow> bool option" where
  "scan_lock lk touches held [] = Some held"
| "scan_lock lk touches held (x # xs) =
     (if x = Locked lk then (if held then None else scan_lock lk touches True xs)
      else if x = Unlocked lk then (if held then scan_lock lk touches False xs else None)
      else if touches x \<and> \<not> held then None
      else scan_lock lk touches held xs)"

definition neutral :: "path \<Rightarrow> op \<Rightarrow> bool" where
  "neutral lk x \<longleftrightarrow> x \<noteq> Locked lk \<and> x \<noteq> Unlocked lk"

definition calm :: "path \<Rightarrow> (op \<Rightarrow> bool) \<Rightarrow> op \<Rightarrow> bool" where
  "calm lk touches x \<longleftrightarrow> neutral lk x \<and> \<not> touches x"

lemma scan_append:
  "scan_lock lk T h (xs @ ys) = (case scan_lock lk T h xs of None \<Rightarrow> None | Some h' \<Rightarrow> scan_lock lk T h' ys)"
  by (induction lk T h xs rule: scan_lock.induct) auto

lemma scan_neutral: "list_all (neutral lk) ops \<Longrightarrow> scan_lock lk T True ops = Some True"
  by (induction ops) (auto simp: neutral_def)

lemma scan_calm: "list_all (calm lk T) ops \<Longrightarrow> scan_lock lk T h ops = Some h"
  by (induction ops) (auto simp: calm_def neutral_def)

section \<open>What a computation does to the lock\<close>

named_theorems lock_rules \<open>what a computation does to the setup lock\<close>

definition locks :: "path \<Rightarrow> (op \<Rightarrow> bool) \<Rightarrow> bool \<Rightarrow> ('e, 'a) io \<Rightarrow> ('e + 'a \<Rightarrow> bool \<Rightarrow> bool) \<Rightarrow> bool" where
  "locks lk T h m Q \<longleftrightarrow>
     (\<forall>w. \<exists>ops h'. trace (snd (m w)) = trace w @ ops \<and> scan_lock lk T h ops = Some h' \<and> Q (fst (m w)) h')"

abbreviation stays :: "path \<Rightarrow> (op \<Rightarrow> bool) \<Rightarrow> bool \<Rightarrow> ('e, 'a) io \<Rightarrow> bool" where
  "stays lk T h m \<equiv> locks lk T h m (\<lambda>_ h'. h' = h)"

lemma locksD:
  assumes "locks lk T h m Q" and "m w = (r, w')"
  obtains ops h' where "trace w' = trace w @ ops" "scan_lock lk T h ops = Some h'" "Q r h'"
  using assms unfolding locks_def by (metis fst_conv snd_conv)

lemma locks_weaken: "locks lk T h m Q \<Longrightarrow> (\<And>r h'. Q r h' \<Longrightarrow> R r h') \<Longrightarrow> locks lk T h m R"
  unfolding locks_def by meson

lemma locks_match:
  assumes m: "locks lk T h m Q" and k: "\<And>r h'. Q r h' \<Longrightarrow> locks lk T h' (k r) R"
  shows "locks lk T h (io_match m k) R"
  unfolding locks_def
proof
  fix w
  obtain r w1 where w1: "m w = (r, w1)" by fastforce
  from m w1 obtain ops1 h1 where 1: "trace w1 = trace w @ ops1" "scan_lock lk T h ops1 = Some h1" "Q r h1" by (rule locksD)
  obtain r2 w2 where w2: "k r w1 = (r2, w2)" by fastforce
  from k [OF 1(3)] w2 obtain ops2 h2 where 2: "trace w2 = trace w1 @ ops2" "scan_lock lk T h1 ops2 = Some h2" "R r2 h2"
    by (rule locksD)
  show "\<exists>ops h'. trace (snd (io_match m k w)) = trace w @ ops \<and> scan_lock lk T h ops = Some h' \<and> R (fst (io_match m k w)) h'"
    using 1 2 w1 w2 by (intro exI [of _ "ops1 @ ops2"] exI [of _ h2]) (simp add: io_match_def scan_append)
qed

lemma locks_ok: "Q (Inr x) h \<Longrightarrow> locks lk T h (io_ok x) Q"
  and locks_err: "Q (Inl e) h \<Longrightarrow> locks lk T h (io_err e) Q"
  and locks_of: "Q r h \<Longrightarrow> locks lk T h (io_of r) Q"
  unfolding locks_def by (auto simp: io_ok_def io_err_def io_of_def intro: exI [of _ "[]"])

lemma io_bind_match: "io_bind m f = io_match m (\<lambda>r. case r of Inl e \<Rightarrow> io_err e | Inr x \<Rightarrow> f x)"
  by (auto simp: fun_eq_iff io_match_def io_bind_def io_err_def split: prod.splits sum.splits)

lemma locks_bind:
  assumes "locks lk T h m Q" and "\<And>e h'. Q (Inl e) h' \<Longrightarrow> R (Inl e) h'" and "\<And>x h'. Q (Inr x) h' \<Longrightarrow> locks lk T h' (f x) R"
  shows "locks lk T h (io_bind m f) R"
  unfolding io_bind_match using assms(1) by (rule locks_match) (auto intro: locks_err assms(2,3) split: sum.split)

lemma locks_after:
  assumes "stays lk T h m" and "\<And>e. R (Inl e) h" and "\<And>x. locks lk T h (f x) R"
  shows "locks lk T h (io_bind m f) R"
  using assms by (intro locks_bind [where Q="\<lambda>_ h'. h' = h"]) auto

lemma stays_bind: "stays lk T h m \<Longrightarrow> (\<And>x. stays lk T h (f x)) \<Longrightarrow> stays lk T h (io_bind m f)"
  by (rule locks_bind [where Q="\<lambda>_ h'. h' = h"]) auto

lemma stays_calm: "issues (calm lk T) m \<Longrightarrow> stays lk T h m"
  unfolding locks_def issues_def using scan_calm by blast

lemma stays_neutral: "issues (neutral lk) m \<Longrightarrow> stays lk T True m"
  unfolding locks_def issues_def using scan_neutral by blast

lemma issues_note_op: "P x \<Longrightarrow> issues P (note_op x)"
  by (rule issuesI) (auto simp: note_op_def)

lemma locks_note:
  "locks lk T False (note_op (Locked lk)) (\<lambda>r h. h \<and> r = Inr ())" "locks lk T True (note_op (Unlocked lk)) (\<lambda>r h. \<not> h \<and> r = Inr ())"
  unfolding locks_def note_op_def by (auto intro!: exI [of _ "[Locked lk]"] exI [of _ "[Unlocked lk]"])

lemma locks_holding: "stays lk T True m \<Longrightarrow> locks lk T True (holding (Some lk) m) (\<lambda>_ h. \<not> h)"
  unfolding holding_def drop_lock_def
  by (erule locks_match) (auto intro!: locks_bind [OF locks_note(2)] locks_of)

lemma stays_not_holding: "stays lk T h m \<Longrightarrow> stays lk T h (holding None m)"
  unfolding holding_def drop_lock_def
  by (erule locks_match) (auto intro!: locks_bind [where Q="\<lambda>_ h'. h' = h"] locks_of locks_ok)

section \<open>Acting without a result of its own\<close>

definition act_issues :: "(op \<Rightarrow> bool) \<Rightarrow> 'a act \<Rightarrow> bool" where
  "act_issues P m \<longleftrightarrow> (\<forall>w. \<exists>ops. trace (snd (m w)) = trace w @ ops \<and> list_all P ops)"

lemma act_issuesD: "act_issues P m \<Longrightarrow> m w = (r, w') \<Longrightarrow> \<exists>ops. trace w' = trace w @ ops \<and> list_all P ops"
  unfolding act_issues_def by (metis snd_conv)

lemma act_issues_mono: "act_issues P m \<Longrightarrow> (\<And>x. P x \<Longrightarrow> Q x) \<Longrightarrow> act_issues Q m"
  unfolding act_issues_def by (meson list.pred_mono_strong)

section \<open>The extension pipeline leaves the lock alone\<close>

text \<open>The crates behind the pipeline neither take nor drop the setup lock.\<close>

definition cap_neutral :: "path \<Rightarrow> cap_std \<Rightarrow> bool" where
  "cap_neutral lk cap \<longleftrightarrow>
     (\<forall>p. issues (neutral lk) (cap_open_ambient_dir cap p)) \<and> (\<forall>d s. issues (neutral lk) (cap_symlink_metadata cap d s)) \<and>
     (\<forall>d s. issues (neutral lk) (cap_create_dir_all cap d s)) \<and> (\<forall>d s. issues (neutral lk) (cap_open_nofollow cap d s)) \<and>
     (\<forall>d s. issues (neutral lk) (cap_create_new cap d s)) \<and> (\<forall>d s t. issues (neutral lk) (cap_rename cap d s t)) \<and>
     (\<forall>d s. issues (neutral lk) (cap_remove_file cap d s)) \<and> (\<forall>f. issues (neutral lk) (cap_metadata cap f)) \<and>
     (\<forall>f. act_issues (neutral lk) (cap_reads cap f)) \<and> (\<forall>f bs. issues (neutral lk) (cap_write_all cap f bs)) \<and>
     (\<forall>f m. issues (neutral lk) (cap_set_permissions cap f m)) \<and> (\<forall>f u g. issues (neutral lk) (cap_fchown cap f u g))"

definition tempfile_neutral :: "path \<Rightarrow> tempfile_crate \<Rightarrow> bool" where
  "tempfile_neutral lk tf \<longleftrightarrow>
     (\<forall>d. issues (neutral lk) (named_new_in tf d)) \<and> (\<forall>t. issues (neutral lk) (named_drop tf t)) \<and>
     (\<forall>t p. issues (neutral lk) (named_persist tf t p))"

definition installer_neutral :: "path \<Rightarrow> installer \<Rightarrow> bool" where
  "installer_neutral lk env \<longleftrightarrow>
     cap_neutral lk (i_cap env) \<and> tempfile_neutral lk (e_tempfile (i_ext env)) \<and> flock_quiet (e_flock (i_ext env))"

lemma neutral_simps [simp]:
  "neutral lk (Mkdir p)" "neutral lk (OpenWrite p)" "neutral lk (Write p)" "neutral lk (Unlink p)" "neutral lk (Rmdir p)"
  "neutral lk (RemoveTree p)" "neutral lk (Rename p q)" "neutral lk (MakeSymlink p)" "neutral lk (Chmod p)" "neutral lk (Chown p)"
  "neutral lk (Signal i n)" "neutral lk (Spawned c d)" "neutral lk (Reaped c)"
  by (simp_all add: neutral_def)

lemma issues_act_then:
  assumes "act_issues P m" and "\<And>x. issues P (k x)"
  shows "issues P (\<lambda>w. case m w of (x, w') \<Rightarrow> k x w')"
proof (rule issuesI)
  fix w r w'
  assume a: "(case m w of (x, w') \<Rightarrow> k x w') = (r, w')"
  obtain x w1 where m: "m w = (x, w1)" by fastforce
  from act_issuesD [OF assms(1) m] obtain o1 where o1: "trace w1 = trace w @ o1" "list_all P o1" by blast
  from a m have "k x w1 = (r, w')" by simp
  from issuesD [OF assms(2) this] o1 show "\<exists>ops. trace w' = trace w @ ops \<and> list_all P ops" by force
qed

lemma write_file_neutral:
  assumes "cap_neutral lk cap"
  shows "issues (neutral lk) (write_file cap hash ctx pf bs)"
proof -
  note cap = assms [unfolded cap_neutral_def]
  have parents: "issues (neutral lk) (real_parents_loop cap d cur cs)" for d cur cs
    using cap by (induction cs arbitrary: cur) (auto intro!: issue_rules simp: Let_def split: sum.split)
  have temp: "issues (neutral lk) (temp_loop cap d par n)" for d par n
  proof (induction n)
    case (Suc n)
    show ?case
    proof (rule issuesI)
      fix w r w'
      assume a: "temp_loop cap d par (Suc n) w = (r, w')"
      obtain name w1 where nm: "temp_name w = (name, w1)" by fastforce
      have t: "trace w1 = trace w" using nm by (auto simp: temp_name_def)
      define c where "c = (case par of None \<Rightarrow> name | Some p \<Rightarrow> p @ ''/'' @ name)"
      obtain rc w2 where c: "cap_create_new cap d c w1 = (rc, w2)" by fastforce
      have "issues (neutral lk) (cap_create_new cap d c)" using cap by blast
      from issuesD [OF this c] obtain o1 where o1: "trace w2 = trace w1 @ o1" "list_all (neutral lk) o1" by blast
      show "\<exists>ops. trace w' = trace w @ ops \<and> list_all (neutral lk) ops"
      proof (cases "rc = Inl AlreadyExists")
        case True
        then have "temp_loop cap d par n w2 = (r, w')" using a nm c by (simp add: c_def Let_def)
        from issuesD [OF Suc this] o1 t show ?thesis by force
      next
        case False
        then have "w' = w2" using a nm c by (auto simp: c_def Let_def split: sum.splits if_splits)
        then show ?thesis using o1 t by auto
      qed
    qed
  qed (auto intro!: issuesI)
  have look: "act_issues (neutral lk) (inspect_destination cap hash (tree ctx) (relative pf) bs)"
    unfolding act_issues_def
  proof
    fix w
    let ?m = "io_bind (open_destination cap (tree ctx) (relative pf)) (require_regular cap)"
    obtain r w1 where r: "?m w = (r, w1)" by fastforce
    have "issues (neutral lk) ?m"
      unfolding open_destination_def require_regular_def using cap by (auto intro!: issue_rules split: sum.split prod.split)
    from issuesD [OF this r] obtain o1 where o1: "trace w1 = trace w @ o1" "list_all (neutral lk) o1" by blast
    have "\<exists>ops. trace (snd (compare_digest cap hash f bs w1)) = trace w1 @ ops \<and> list_all (neutral lk) ops" for f
    proof -
      obtain rs w2 where "cap_reads cap f w1 = (rs, w2)" by fastforce
      moreover have "act_issues (neutral lk) (cap_reads cap f)" using cap by blast
      ultimately show ?thesis using act_issuesD by (force simp: compare_digest_def split: sum.split)
    qed
    then show "\<exists>ops. trace (snd (inspect_destination cap hash (tree ctx) (relative pf) bs w)) = trace w @ ops \<and> list_all (neutral lk) ops"
      using r o1 by (cases r) (fastforce simp: inspect_destination_def)+
  qed
  have own: "issues (neutral lk) (apply_owner cap f ow)" "issues (neutral lk) (set_mode cap f m)" for f ow m
    unfolding apply_owner_def set_mode_def using cap by (auto intro!: issue_rules split: prod.split)
  have fresh: "issues (neutral lk) (write_afresh cap ctx pf bs)"
    unfolding write_afresh_def create_parents_def create_temp_beside_def fill_temp_def place_def discard_temp_def
    using cap by (auto intro!: issue_rules temp own split: option.split prod.split sum.split)
  have keep: "issues (neutral lk) (repair_existing cap ctx pf f)" for f
    unfolding repair_existing_def by (intro issue_rules own)
  have "issues (neutral lk) (\<lambda>w. case inspect_destination cap hash (tree ctx) (relative pf) bs w of (x, w') \<Rightarrow>
      (case x of Identical existing \<Rightarrow> repair_existing cap ctx pf existing | _ \<Rightarrow> write_afresh cap ctx pf bs) w')"
    by (rule issues_act_then [OF look]) (simp add: fresh keep split: destination.split)
  then have "issues (neutral lk) (\<lambda>w. case inspect_destination cap hash (tree ctx) (relative pf) bs w of
      (Identical existing, w') \<Rightarrow> repair_existing cap ctx pf existing w' | (_, w') \<Rightarrow> write_afresh cap ctx pf bs w')"
    by (rule back_subst [where P="issues (neutral lk)"]) (auto simp: fun_eq_iff split: prod.split destination.split)
  then show ?thesis unfolding write_file_def require_real_parents_def Let_def by (intro issue_rules parents)
qed

lemma install_archive_neutral:
  assumes "cap_neutral lk cap"
  shows "issues (neutral lk) (install_archive cap hash untar p artifact dir)"
proof -
  have loop: "issues (neutral lk) (write_loop cap hash ctx files es sofar budget)" for ctx files es sofar budget
  proof (induction es arbitrary: sofar budget)
    case (Cons x es)
    show ?case using Cons
      by (cases x) (auto intro!: issue_rules write_file_neutral [OF assms] split: option.split sum.split prod.split)
  qed (simp add: issue_rules)
  have open_tree: "issues (neutral lk) (tree_open cap d)" "issues (neutral lk) (tree_owner d)" for d
    unfolding tree_open_def tree_owner_def using assms [unfolded cap_neutral_def]
    by (auto intro!: issue_rules split: sum.split node.split)
  have verified: "issues (neutral lk) (read_verified hash p artifact)"
    unfolding read_verified_def
    by (intro issues_bind issues_map_err issues_open_read issues_reads) (rule issuesI, auto split: sum.splits if_splits)
  show ?thesis
    unfolding install_archive_def write_all_def by (intro issue_rules loop open_tree verified)
qed

lemma acquire_neutral:
  assumes "tempfile_neutral lk (e_tempfile env)" and "flock_quiet (e_flock env)"
  shows "issues (neutral lk) (acquire env cache artifact)"
proof -
  note tf = assms(1) [unfolded tempfile_neutral_def]
  have lock: "issues (neutral lk) (acquire_exclusive (e_flock env) cache v)" for v
    unfolding acquire_exclusive_def using assms(2) by (intro issues_acquire_lock) (auto simp: flock_quiet_def intro: issues_never)
  have clear: "issues (neutral lk) (clear_unusable_entry p)" for p
    unfolding clear_unusable_entry_def by (auto intro!: issue_rules split: sum.split)
  have drop: "issues (neutral lk) (dropping (e_tempfile env) t e)" for t e
    unfolding dropping_def using tf by (auto intro!: issue_rules)
  have "issues (neutral lk) (download env artifact d p)" for d p
    unfolding download_def Let_def using tf
    by (auto intro!: issue_rules drop split: sum.split prod.split)
  then show ?thesis
    unfolding acquire_def Let_def by (intro issue_rules lock clear issues_cached_state) simp_all
qed

lemma install_extensions_neutral:
  assumes "installer_neutral lk env"
  shows "issues (neutral lk) (install_extensions_blocking env request dir)"
proof -
  note env = assms [unfolded installer_neutral_def]
  have one: "issues (neutral lk) (install_one env request dir name sel)" for name sel
  proof -
    define body where "body w = io_bind (acquire (i_ext env) (abs_path w (request_cache_dir request)) (sel_artifact sel))
        (\<lambda>acquired. io_bind (install_archive (i_cap env) (sha (e_crates (i_ext env))) (i_untar env) (acq_path acquired) (sel_artifact sel) dir)
        (\<lambda>files. io_ok \<lparr>inst_name = name, inst_version = ext_version (sel_extension sel),
            inst_postgresql = art_postgresql (sel_artifact sel), inst_target = art_target (sel_artifact sel),
            inst_archive_sha256 = art_sha256 (sel_artifact sel), inst_origin = acq_origin acquired, inst_files = files\<rparr>))" for w
    have "issues (neutral lk) (body w)" for w
      unfolding body_def using env by (intro issues_bind issues_ok acquire_neutral install_archive_neutral) simp_all
    then have "issues (neutral lk) (\<lambda>w. body w w)" by (rule issues_here)
    then show ?thesis by (rule back_subst [where P="issues (neutral lk)"]) (simp add: fun_eq_iff install_one_def body_def Let_def)
  qed
  have load: "issues (neutral lk) (load_manifest env src)" for src
    by (rule issuesI) (auto simp: load_manifest_def)
  show ?thesis
    unfolding install_extensions_blocking_def by (intro issue_rules load) (auto intro: one split: prod.split)
qed

section \<open>What the steps issue\<close>

lemma issues_act: "act_issues P m \<Longrightarrow> issues P (\<lambda>w. (f (fst (m w)), snd (m w)))"
  unfolding issues_def act_issues_def by simp

lemma act_quiet: "(\<And>w. trace (snd (m w)) = trace w) \<Longrightarrow> act_issues P m"
  unfolding act_issues_def by (auto intro: exI [of _ "[]"])

lemma act_poll:
  assumes "os_quiet os" and "act_issues P s"
  shows "act_issues P (poll os i s n)"
  unfolding act_issues_def
proof
  fix w
  show "\<exists>ops. trace (snd (poll os i s n w)) = trace w @ ops \<and> list_all P ops"
  proof (induction n arbitrary: w)
    case (Suc n)
    obtain r w1 where s: "s w = (r, w1)" by fastforce
    from act_issuesD [OF assms(2) s] obtain o1 where o1: "trace w1 = trace w @ o1" "list_all P o1" by blast
    show ?case
    proof (cases r)
      case None
      have "trace (k_sleep os i w1) = trace w1" using assms(1) by (simp add: os_quiet_def)
      then show ?thesis using Suc [of "k_sleep os i w1"] s None o1 by force
    qed (use s o1 in auto)
  qed simp
qed

lemma issues_initdb_run:
  assumes "process_quiet (ie_process ie)" and "os_quiet (ie_os ie)" and "\<And>w. trace (snd (ie_cancelled ie w)) = trace w"
    and "\<And>i n. P (Signal i n)" and "\<And>c d. P (Spawned c d)" and "\<And>c. P (Reaped c)"
  shows "issues P (run_to_completion ie cmd timeout)"
proof -
  have child: "issues P (p_spawn (ie_process ie) c1)" "issues P (p_kill (ie_process ie) c2)" "issues P (p_wait (ie_process ie) c2)" for c1 c2
    using assms(1) by (auto simp: process_quiet_def intro: issues_never)
  have now: "trace (snd (k_now (ie_os ie) w)) = trace w" for w using assms(2) by (simp add: os_quiet_def)
  have asked: "act_issues P (completion_step ie deadline c)" for deadline c
    unfolding act_issues_def
  proof
    fix w
    obtain x w1 where x: "p_try_wait (ie_process ie) c w = (x, w1)" by fastforce
    obtain d w2 where d: "ie_cancelled ie w1 = (d, w2)" by fastforce
    obtain n w3 where n: "k_now (ie_os ie) w2 = (n, w3)" by fastforce
    have "trace w1 = trace w" "trace w2 = trace w1" "trace w3 = trace w2"
      using trace_quiet(5) [OF assms(1) x] assms(3) [of w1] now [of w2] d n by auto
    then have "trace (snd (completion_step ie deadline c w)) \<in> {trace w, trace w @ [Reaped c]}"
      using x d n by (auto simp: completion_step_def split: sum.split option.split bool.split)
    then show "\<exists>ops. trace (snd (completion_step ie deadline c w)) = trace w @ ops \<and> list_all P ops"
      using assms(6) [of c] by (auto intro: exI [of _ "[]"])
  qed
  define finish where "finish c x = (case x of
      Some (Finished ok) \<Rightarrow> io_of (if ok then Inr () else Inl OtherIo)
    | Some (WaitFailed e) \<Rightarrow> io_err e
    | Some Abandoned \<Rightarrow> io_match (kill_child (ie_process ie) c) (\<lambda>_. io_match (wait_child (ie_process ie) c) (\<lambda>_. io_err OtherIo))
    | None \<Rightarrow> io_err OtherIo)" for c and x :: "completion option"
  have fin: "issues P (finish c x)" for c x
    unfolding finish_def kill_child_def wait_child_def using assms(4,6)
    by (auto intro!: issue_rules issues_note_op child split: option.split completion.split)
  define start where "start w = (case timeout of None \<Rightarrow> (None, w)
      | Some limit \<Rightarrow> (case k_now (ie_os ie) w of (t, w1) \<Rightarrow> (Some (t + limit), w1)))" for w
  have begun: "act_issues P start"
    by (rule act_quiet) (use now in \<open>auto simp: start_def split: option.split prod.split\<close>, metis snd_conv)
  have eq: "run_to_completion ie cmd timeout = io_bind (spawn_child (ie_process ie) cmd) (\<lambda>c w. case start w of (deadline, w1) \<Rightarrow>
      (\<lambda>w. case poll (ie_os ie) INITDB_POLL_INTERVAL (completion_step ie deadline c) (ie_polls ie) w of (x, w2) \<Rightarrow> finish c x w2) w1)"
    unfolding run_to_completion_def start_def finish_def Let_def
    by (intro arg_cong [where f="io_bind _"] ext)
      (auto simp: io_of_def io_err_def split: prod.split option.split completion.split)
  show ?thesis unfolding eq spawn_child_def
    by (intro issues_bind issues_ok child issues_note_op assms(5) issues_act_then [OF begun] issues_act_then [OF act_poll [OF assms(2) asked]] fin)
qed

lemma issues_watching:
  assumes "os_quiet os" and "\<And>i n. P (Signal i n)"
  shows "issues P (watch_slot_owner os env dir d)"
proof -
  have "issues P (register_watcher os d c)" for c
  proof (rule issuesI)
    fix w r w'
    assume a: "register_watcher os d c w = (r, w')"
    have e: "issues P (io_match (end_child os old) (\<lambda>r. io_ok (Some r)))" for old
      using assms by (intro issue_rules issues_end_child)
    show "\<exists>ops. trace w' = trace w @ ops \<and> list_all P ops"
    proof (cases "watchers w d")
      case None
      then show ?thesis using a by (auto simp: register_watcher_def io_ok_def)
    next
      case (Some old)
      then have "io_match (end_child os old) (\<lambda>r. io_ok (Some r)) (w\<lparr>watchers := (watchers w)(d \<mapsto> c)\<rparr>) = (r, w')"
        using a by (simp add: register_watcher_def Let_def)
      from issuesD [OF e this] show ?thesis by simp
    qed
  qed
  moreover have "issues P (slot_lock_path dir d)"
    unfolding slot_lock_path_def by (auto intro!: issue_rules issues_slot_lookup split: slot_lookup.split)
  ultimately show ?thesis
    unfolding watch_slot_owner_def using assms(1) by (auto intro!: issue_rules issues_spawn split: sum.split option.split)
qed

lemma issues_refreshing:
  "issues P (refresh_worker_installation_dir sl dir b)" and issues_refreshing_port: "os_quiet os \<Longrightarrow> issues P (refresh_worker_port os dir b)"
proof -
  show "issues P (refresh_worker_installation_dir sl dir b)"
    unfolding refresh_worker_installation_dir_def by (intro issue_rules issues_resolve_installed)
  assume os: "os_quiet os"
  have one: "issues P (read_postmaster_port p)" for p
    unfolding read_postmaster_port_def read_pid_file_contents_def by (auto intro!: issue_rules split: sum.split)
  have later: "issues P (\<lambda>w. m (k_sleep os d w))" if "issues P m" for m :: "(bootstrap_error, nat option) io" and d
    using that os unfolding issues_def os_quiet_def by metis
  have "issues P (port_attempts os p n)" for p n
    by (induction n) (auto intro!: issue_rules one later split: option.split)
  then show "issues P (refresh_worker_port os dir b)"
    unfolding refresh_worker_port_def read_postmaster_port_with_retry_def by (auto intro!: issue_rules)
qed

lemma cache_use_neutral:
  assumes "flock_quiet flock"
  shows "issues (neutral lk) (try_use_binary_cache sl flock dir cfg req b)"
    and "issues (neutral lk) (try_populate_binary_cache sl flock dir cfg st)"
proof -
  have lock: "issues (neutral lk) (acquire_lock flock cache v lt)" for cache v lt
    using assms by (intro issues_acquire_lock) (auto simp: flock_quiet_def intro: issues_never)
  have n: "neutral lk x" if "below d x" for d x
    using that by (cases x) (auto simp: below_def)
  have copy: "issues (neutral lk) (copy_from_cache s d)" "issues (neutral lk) (populate_cache s c v)" for s d c v
    using issues_copy_from_cache [of d s] issues_populate_cache [of c v s] by (auto elim: issues_mono intro: n)
  have apply_ok: "issues (neutral lk) (apply_cached_binaries sl dir src version b)" for src version
    unfolding apply_cached_binaries_def copy_cached_binaries_def Let_def
    by (auto intro!: issue_rules copy split: sum.split prod.split)
  show "issues (neutral lk) (try_use_binary_cache sl flock dir cfg req b)"
    unfolding try_use_binary_cache_def Let_def acquire_shared_def
    by (auto intro!: issue_rules issues_queries_quiet lock apply_ok split: option.split prod.split sum.split cache_lookup_result.split)
  show "issues (neutral lk) (try_populate_binary_cache sl flock dir cfg st)"
    unfolding try_populate_binary_cache_def Let_def acquire_exclusive_def
    by (auto intro!: issue_rules issues_queries_quiet issues_resolve_installed lock copy split: option.split sum.split)
qed

definition same_cluster :: "settings \<Rightarrow> settings \<Rightarrow> bool" where
  "same_cluster st st' \<longleftrightarrow> s_data_dir st = s_data_dir st' \<and> s_password_file st = s_password_file st'"

text \<open>Computations that cannot fail.\<close>

definition gives :: "('e, 'a) io \<Rightarrow> ('a \<Rightarrow> bool) \<Rightarrow> bool" where
  "gives m Q \<longleftrightarrow> (\<forall>w. \<exists>x. fst (m w) = Inr x \<and> Q x)"

lemma gives_ok: "Q x \<Longrightarrow> gives (io_ok x) Q"
  by (simp add: gives_def io_ok_def)

lemma gives_match: "(\<And>r. gives (k r) Q) \<Longrightarrow> gives (io_match m k) Q"
  unfolding gives_def io_match_def by (auto split: prod.split)

lemma gives_bind:
  assumes "gives m P" and "\<And>x. P x \<Longrightarrow> gives (f x) Q"
  shows "gives (io_bind m f) Q"
  unfolding gives_def
proof
  fix w
  obtain x w' where "m w = (Inr x, w')" "P x" using assms(1) unfolding gives_def by (metis prod.collapse)
  then show "\<exists>y. fst (io_bind m f w) = Inr y \<and> Q y" using assms(2) by (simp add: io_bind_def gives_def)
qed

lemma gives_queries:
  "gives (path_exists p) (\<lambda>_. True)" "gives (path_is_dir p) (\<lambda>_. True)"
  unfolding path_exists_def path_is_dir_def by (auto intro!: gives_match gives_ok)

lemma gives_lookup:
  "gives (check_cache cache version) (\<lambda>_. True)" "gives (find_matching_cached_version sv cache) (\<lambda>_. True)"
proof -
  have c: "gives (is_cache_entry_complete d) (\<lambda>_. True)" for d
    unfolding is_cache_entry_complete_def by (rule gives_bind [OF gives_queries(1)]) (simp add: gives_queries gives_ok)
  then show "gives (check_cache cache version) (\<lambda>_. True)"
    unfolding check_cache_def Let_def by (rule gives_bind) (simp add: gives_ok)
  have p: "gives (try_parse_cache_entry sv cache n) (\<lambda>_. True)" for n
    unfolding try_parse_cache_entry_def by (auto intro!: gives_ok gives_bind [OF c] split: option.split)
  have "gives (scan_entries sv cache es) (\<lambda>_. True)" for es
    by (induction es) (auto intro!: gives_ok gives_match gives_bind [OF p] gives_bind [where P="\<lambda>_. True"] split: sum.split prod.split)
  then show "gives (find_matching_cached_version sv cache) (\<lambda>_. True)"
    unfolding find_matching_cached_version_def
    by (auto intro!: gives_ok gives_match gives_bind [where P="\<lambda>_. True"] split: sum.split)
qed

text \<open>A lookup never fails, keeps the cluster where it is, and a hit makes the installation directory trusted.\<close>

lemma cache_use_result:
  "gives (try_use_binary_cache sl flock dir cfg req b) (\<lambda>(hit, b').
     same_cluster (tb_settings b') (tb_settings b) \<and> (hit \<longrightarrow> s_trust_installation_dir (tb_settings b')))" (is "gives _ ?Q")
proof -
  have miss: "?Q (False, b)" by (simp add: same_cluster_def)
  have "gives (copy_cached_binaries dir src version (tb_settings b))
      (\<lambda>(c, st). same_cluster st (tb_settings b) \<and> (c \<noteq> None \<longrightarrow> s_trust_installation_dir st))" for src version
    unfolding copy_cached_binaries_def Let_def
    by (auto intro!: gives_ok gives_match simp: same_cluster_def split: sum.splits)
  then have "gives (apply_cached_binaries sl dir src version b) ?Q" for src version
    unfolding apply_cached_binaries_def
    by (rule gives_bind) (auto intro!: gives_ok simp: same_cluster_def set_exact_version_def split: option.splits)
  then show ?thesis
    unfolding try_use_binary_cache_def Let_def using miss
    by (auto intro!: gives_bind [OF gives_lookup(2)] gives_bind [OF gives_lookup(1)] gives_match gives_ok
        split: option.split sum.split cache_lookup_result.split)
qed

lemma issues_initialize:
  assumes "process_quiet (ie_process ie)" and "os_quiet (ie_os ie)" and "\<And>w. trace (snd (ie_cancelled ie w)) = trace w"
    and "\<And>i n. P (Signal i n)" and "\<And>c d. P (Spawned c d)" and "\<And>c. P (Reaped c)"
    and "P (OpenWrite (text_path dir (s_password_file st)))" and "P (Write (text_path dir (s_password_file st)))"
  shows "issues P (initialize_cancellable sl ie dir st)"
proof -
  have e: "issues P (versioned_entries sl req es)" for req es
    by (induction es) (auto intro!: issue_rules split: sum.split prod.split)
  have "issues P (installed_initdb sl dir st)"
    unfolding installed_initdb_def installed_dir_def Let_def by (auto intro!: issue_rules e split: sum.split option.split)
  then show ?thesis
    unfolding initialize_cancellable_def
    using assms(7,8) by (intro issue_rules issues_initdb_run [OF assms(1-6)]) simp_all
qed

lemma act_setup_disposable:
  assumes "issues P (initialize_cancellable sl ie dir st)" and "act_issues P (setup_server st)"
  shows "act_issues P (setup_disposable sl ie setup_server dir st)"
  unfolding act_issues_def
proof
  fix w
  obtain r w1 where i: "initialize_cancellable sl ie dir st w = (r, w1)" by fastforce
  from issuesD [OF assms(1) i] obtain o1 where o1: "trace w1 = trace w @ o1" "list_all P o1" by blast
  obtain o2 where "trace (snd (setup_server st w1)) = trace w1 @ o2" "list_all P o2" using assms(2) unfolding act_issues_def by blast
  then show "\<exists>ops. trace (snd (setup_disposable sl ie setup_server dir st w)) = trace w @ ops \<and> list_all P ops"
    using i o1 by (cases r) (auto simp: setup_disposable_def intro: exI [of _ "o1 @ o2"])
qed

text \<open>How a step of the lifecycle may use the lock: on a trusted installation it does not need it.\<close>

definition dispatches :: "path \<Rightarrow> (op \<Rightarrow> bool) \<Rightarrow> settings \<Rightarrow> bool \<Rightarrow> dispatch \<Rightarrow> bool" where
  "dispatches lk T st0 h d \<longleftrightarrow>
     (\<forall>b' lstep st. same_cluster st st0 \<longrightarrow> h \<or> s_trust_installation_dir st \<or> lstep = StepStart \<longrightarrow>
        locks lk T h (d b' lstep st) (\<lambda>r h'. h' = h \<and> (\<forall>st'. r = Inr st' \<and> lstep = StepSetup \<longrightarrow> same_cluster st' st0)))"

lemma locks_result:
  assumes "stays lk T h m" and "\<And>w r w'. m w = (r, w') \<Longrightarrow> P r"
  shows "locks lk T h m (\<lambda>r h'. h' = h \<and> P r)"
  using assms unfolding locks_def by (metis prod.collapse)

section \<open>What a start relies on\<close>

text \<open>
  The calls the lock is there for: on a path strictly below the installation root, other than the lock file
  itself, the password file and the cluster's own data directory.
\<close>

definition install_tree_op :: "startup_env \<Rightarrow> test_bootstrap_settings \<Rightarrow> op \<Rightarrow> bool" where
  "install_tree_op se b x \<longleftrightarrow>
     (let st = tb_settings b; at = text_path (se_dir se) in
      \<exists>p \<in> set (op_paths x). strict_prefix (at (s_installation_dir st)) p \<and> p \<noteq> setup_lock_path se (s_installation_dir st) \<and>
        p \<noteq> at (s_password_file st) \<and> \<not> prefix (at (s_data_dir st)) p)"

text \<open>
  The services of a start, for a bootstrap \<open>b\<close>: those of the system change no file; temporary files are
  direct children of a directory outside the tree; a time limit does what its operation does, or less; the
  server's \<open>start\<close> stays out of the installation tree, its \<open>setup\<close> does when it is told to trust the
  installation directory, and neither moves the cluster or touches the lock.
\<close>

locale start_services =
  fixes se :: startup_env and b :: test_bootstrap_settings and lk :: path and T :: "op \<Rightarrow> bool"
  assumes lock_path: "lk = setup_lock_path se (s_installation_dir (tb_settings b))"
    and tree_ops: "T = install_tree_op se b"
    and os: "os_quiet (se_os se)"
    and flock: "flock_quiet (se_flock se)"
    and worker_children: "process_quiet (we_process (se_worker se))"
    and initdb_children: "process_quiet (ie_process (se_initdb se))"
    and initdb_os: "os_quiet (ie_os (se_initdb se))"
    and cancelled: "trace (snd (ie_cancelled (se_initdb se) w)) = trace w"
    and temp_outside: "\<not> prefix (text_path (se_dir se) (s_installation_dir (tb_settings b))) (we_temp_dir (se_worker se))"
    and temp_new: "issues (\<lambda>x. \<exists>n. op_paths x = [we_temp_dir (se_worker se) @ [n]])
      (named_new_in (we_tempfile (se_worker se)) (we_temp_dir (se_worker se)))"
    and temp_name: "named_new_in (we_tempfile (se_worker se)) (we_temp_dir (se_worker se)) w = (Inr (t, f), w') \<Longrightarrow>
      \<exists>n. t = we_temp_dir (se_worker se) @ [n]"
    and temp_drop: "issues (\<lambda>x. op_paths x = [t]) (named_drop (we_tempfile (se_worker se)) t)"
    and limit_less: "act_issues P fut \<Longrightarrow> act_issues P (se_limit se l fut)"
    and limit_result: "se_limit se l fut w = (Some x, w') \<Longrightarrow> \<exists>v. x = fst (fut v)"
    and setup_neutral: "act_issues (neutral lk) (se_setup se st)"
    and setup_trusting: "s_trust_installation_dir st \<Longrightarrow> same_cluster st (tb_settings b) \<Longrightarrow> act_issues (calm lk T) (se_setup se st)"
    and setup_keeps: "same_cluster (snd (fst (se_setup se st w))) st"
    and start_calm: "same_cluster st (tb_settings b) \<Longrightarrow> act_issues (calm lk T) (se_start se st)"
    and extensions: "installer_neutral lk (se_installer se)"
begin

lemma calm_pathless: "op_paths x = [] \<Longrightarrow> neutral lk x \<Longrightarrow> calm lk T x"
  by (simp add: calm_def tree_ops install_tree_op_def)

lemma calm_signal [simp]: "calm lk T (Signal i n)" "calm lk T (Spawned c d)" "calm lk T (Reaped c)"
  by (simp_all add: calm_pathless)

lemma calm_payload: "op_paths x = [we_temp_dir (se_worker se) @ [n]] \<Longrightarrow> calm lk T x"
  using temp_outside unfolding calm_def tree_ops install_tree_op_def neutral_def Let_def
  by (auto simp: strict_prefix_def)

lemma calm_lock_file: "calm lk T (OpenWrite lk)"
  by (simp add: calm_def tree_ops install_tree_op_def lock_path Let_def)

lemma calm_root_dir: "prefix q (text_path (se_dir se) (s_installation_dir (tb_settings b))) \<Longrightarrow> calm lk T (Mkdir q)"
  by (auto simp: calm_def tree_ops install_tree_op_def Let_def dest: prefix_order.less_le_trans)

lemma calm_password:
  "calm lk T (OpenWrite (text_path (se_dir se) (s_password_file (tb_settings b))))"
  "calm lk T (Write (text_path (se_dir se) (s_password_file (tb_settings b))))"
  by (simp_all add: calm_def tree_ops install_tree_op_def Let_def)

lemma acquire_locks:
  "locks lk T False (acquire_at se (s_installation_dir (tb_settings b))) (\<lambda>r h. case r of Inl _ \<Rightarrow> \<not> h | Inr p \<Rightarrow> h \<and> p = lk)"
proof -
  have c: "stays lk T False (failing (create_dir_all (text_path (se_dir se) (s_installation_dir (tb_settings b)))))"
    by (intro stays_calm issues_failing issues_create_dir_all calm_root_dir)
  have o: "stays lk T False (failing (open_write False 438 lk))"
    by (intro stays_calm issues_failing issues_open_write calm_lock_file)
  have f: "stays lk T False (failing (se_flock se Exclusive f))" for f
    by (rule stays_calm, rule issues_failing, rule issues_never) (use flock in \<open>simp add: flock_quiet_def\<close>)
  show ?thesis
    unfolding acquire_at_def lock_timed_def Let_def lock_path [symmetric]
    by (intro locks_after [OF c] locks_after [OF o] locks_after [OF f] locks_bind [OF locks_note(1)] locks_ok) simp_all
qed

text \<open>A worker run touches only its payload.\<close>

lemma worker_run_calm: "issues (calm lk T) (worker_run (se_worker se) req)"
proof -
  let ?we = "se_worker se"
  let ?tf = "we_tempfile ?we"
  have drop: "issues (calm lk T) (named_drop ?tf t)" if "\<exists>n. t = we_temp_dir ?we @ [n]" for t
    using temp_drop by (rule issues_mono) (use that calm_payload in auto)
  have new: "issues (calm lk T) (named_new_in ?tf (we_temp_dir ?we))"
    using temp_new by (rule issues_mono) (use calm_payload in blast)
  have dropping: "issues (calm lk T) (dropping_payload ?we t e)" if "\<exists>n. t = we_temp_dir ?we @ [n]" for t e
    unfolding dropping_payload_def using drop [OF that] by (intro issue_rules)
  have calm_t: "calm lk T (Write t)" "calm lk T (Chown t)" if "\<exists>n. t = we_temp_dir ?we @ [n]" for t
    using that calm_payload by auto
  have wpay: "issues (calm lk T) (write_payload ?we req)"
    unfolding write_payload_def failing_def
    by (intro issues_bind issues_of issues_bind_val issues_map_err new)
      (auto simp: io_map_err_def split: prod.splits option.split sum.splits
        intro!: issue_rules dropping calm_t dest!: temp_name)
  have written: "\<exists>n. t = we_temp_dir ?we @ [n]" if "write_payload ?we req w = (Inr t, w')" for t w w'
    using that unfolding write_payload_def dropping_payload_def failing_def
    by (auto simp: io_map_err_def io_match_def io_ok_def io_err_def elim!: io_bindE
        split: prod.splits option.splits sum.splits dest!: temp_name)
  have child: "issues (calm lk T) (p_spawn pl c1)" "issues (calm lk T) (p_wait_timeout pl c2 l)" "issues (calm lk T) (p_kill pl c2)"
    "issues (calm lk T) (p_output pl c2)" if "pl = we_process ?we" for pl c1 c2 l
    using worker_children that by (auto simp: process_quiet_def intro: issues_never)
  have run: "issues (calm lk T) (run_command_with_timeout ?we req cmd)" for cmd
    unfolding run_command_with_timeout_def Let_def spawn_child_def handle_wait_error_def handle_timeout_def kill_child_def wait_with_output_def
    by (auto intro!: issue_rules issues_note_op child split: sum.split)
  have "issues (calm lk T) (run_written ?we req t)" if "\<exists>n. t = we_temp_dir ?we @ [n]" for t
    unfolding run_written_def run_worker_def close_payload_def configure_command_def apply_unix_def apply_privilege_drop_def chown_payload_def
    using drop [OF that] dropping [OF that] calm_t [OF that]
    by (auto intro!: issue_rules issues_chown_entry run split: sum.split)
  then show ?thesis
    unfolding worker_run_written using wpay written by (intro issues_bind_val) auto
qed

lemma root_operation_calm: "issues (calm lk T) (execute_root_operation (se_worker se) b' env_vars operation)"
  unfolding execute_root_operation_def spawn_worker_inner_def
  by (auto intro!: issue_rules worker_run_calm split: execution_mode.split option.split)

lemma setup_acts:
  "act_issues (neutral lk) (setup_disposable sl (se_initdb se) (se_setup se) (se_dir se) st)"
  "same_cluster st (tb_settings b) \<Longrightarrow> s_trust_installation_dir st \<Longrightarrow>
     act_issues (calm lk T) (setup_disposable sl (se_initdb se) (se_setup se) (se_dir se) st)"
proof -
  show "act_issues (neutral lk) (setup_disposable sl (se_initdb se) (se_setup se) (se_dir se) st)"
    using initdb_children initdb_os cancelled setup_neutral by (intro act_setup_disposable issues_initialize) simp_all
  assume s: "same_cluster st (tb_settings b)" and "s_trust_installation_dir st"
  then show "act_issues (calm lk T) (setup_disposable sl (se_initdb se) (se_setup se) (se_dir se) st)"
    using initdb_children initdb_os cancelled setup_trusting calm_password
    by (intro act_setup_disposable issues_initialize) (simp_all add: same_cluster_def)
qed

lemma invoke_unprivileged_issues:
  assumes "act_issues P fut"
  shows "issues P (invoke_unprivileged (se_limit se) l fut)"
proof (rule issuesI)
  fix w r w'
  assume a: "invoke_unprivileged (se_limit se) l fut w = (r, w')"
  obtain x w1 where x: "se_limit se l fut w = (x, w1)" by fastforce
  have "w' = w1" using a x by (auto simp: invoke_unprivileged_def split: option.splits prod.splits sum.splits)
  with act_issuesD [OF limit_less [OF assms] x] show "\<exists>ops. trace w' = trace w @ ops \<and> list_all P ops" by simp
qed

lemma invoke_unprivileged_result:
  assumes "invoke_unprivileged (se_limit se) l fut w = (Inr st', w')"
  shows "\<exists>v. st' = snd (fst (fut v))"
proof -
  obtain u where "se_limit se l fut w = (Some (Inr u, st'), w')"
    using assms by (auto simp: invoke_unprivileged_def split: option.splits prod.splits sum.splits)
  from limit_result [OF this] show ?thesis by (metis snd_conv)
qed

lemma root_dispatches: "dispatches lk T (tb_settings b) h (invoke_root_operation se env_vars)"
  unfolding dispatches_def
proof (intro allI impI)
  fix b' lstep st
  assume s: "same_cluster st (tb_settings b)"
  show "locks lk T h (invoke_root_operation se env_vars b' lstep st)
      (\<lambda>r h'. h' = h \<and> (\<forall>st'. r = Inr st' \<and> lstep = StepSetup \<longrightarrow> same_cluster st' (tb_settings b)))"
    unfolding invoke_root_operation_def
    by (rule locks_after [OF stays_calm [OF root_operation_calm]]) (use s in \<open>auto intro: locks_ok\<close>)
qed

lemma unprivileged_dispatches: "dispatches lk T (tb_settings b) h (invoke_unprivileged_operation se env_vars)"
  unfolding dispatches_def
proof (intro allI impI)
  fix b' lstep st
  assume s: "same_cluster st (tb_settings b)" and ok: "h \<or> s_trust_installation_dir st \<or> lstep = StepStart"
  define fut where "fut = (case lstep of
      StepSetup \<Rightarrow> setup_disposable (se_semver se) (se_initdb se) (se_setup se) (se_dir se) st | StepStart \<Rightarrow> se_start se st)"
  have "act_issues (calm lk T) fut \<or> h \<and> act_issues (neutral lk) fut"
    using ok s setup_acts start_calm [OF s] by (auto simp: fut_def split: lifecycle_step.split)
  then have st: "stays lk T h (invoke_unprivileged (se_limit se) l fut)" for l
  proof
    assume "act_issues (calm lk T) fut"
    then show ?thesis by (intro stays_calm invoke_unprivileged_issues)
  next
    assume "h \<and> act_issues (neutral lk) fut"
    then show ?thesis using stays_neutral [OF invoke_unprivileged_issues] by simp
  qed
  have keeps: "same_cluster (snd (fst (fut v))) (tb_settings b)" if "lstep = StepSetup" for v
  proof -
    have "same_cluster (snd (fst (fut v))) st"
      using that setup_keeps by (auto simp: fut_def setup_disposable_def same_cluster_def split: prod.split sum.split)
    then show ?thesis using s by (simp add: same_cluster_def)
  qed
  show "locks lk T h (invoke_unprivileged_operation se env_vars b' lstep st)
      (\<lambda>r h'. h' = h \<and> (\<forall>st'. r = Inr st' \<and> lstep = StepSetup \<longrightarrow> same_cluster st' (tb_settings b)))"
  proof (cases "tb_privileges b'")
    case Unprivileged
    show ?thesis unfolding invoke_unprivileged_operation_def invoke_operation_def Unprivileged execution_privileges.case fut_def [symmetric]
      by (rule locks_result [OF st]) (use keeps invoke_unprivileged_result in blast)
  next
    case Root
    show ?thesis unfolding invoke_unprivileged_operation_def invoke_operation_def Root execution_privileges.case
      by (rule locks_after [OF stays_calm [OF root_operation_calm]]) (use s in \<open>auto intro: locks_ok\<close>)
  qed
qed

lemma post_setup_stays:
  assumes "h \<and> post_lock post = Held \<or> \<not> h \<and> post_hit post \<and> post_lock post = Released (s_installation_dir (tb_settings b))"
  shows "stays lk T h (run_post_setup se post b')"
proof -
  have refresh: "stays lk T h (refresh_worker_installation_dir sl d b' :: (bootstrap_error, _) io)" for sl d
    by (rule stays_calm) (rule issues_refreshing)
  have fill: "stays lk T h (populate_cache_on_miss se post b1 :: (bootstrap_error, _) io)" for b1
    unfolding populate_cache_on_miss_def using assms stays_neutral [OF cache_use_neutral(2) [OF flock]]
    by (cases h) (auto intro: locks_ok)
  have target: "stays lk T h (extension_target se b1)" for b1
    unfolding extension_target_def
    by (rule stays_calm) (auto intro!: issue_rules issues_resolve_installed split: option.split sum.split)
  have install: "stays lk T True (io_bind (install_extensions_blocking (se_installer se) request d) (\<lambda>installed.
      io_ok (b1\<lparr>tb_installed_extensions := installed\<rparr>)))" for request d and b1 :: test_bootstrap_settings
    by (rule stays_neutral) (intro issues_bind issues_ok install_extensions_neutral extensions)
  have hook: "stays lk T h (io_bind (for_hook se (post_lock post)) (\<lambda>hook_lock. holding hook_lock
      (io_bind (install_extensions_blocking (se_installer se) request d) (\<lambda>installed.
        io_ok (b1\<lparr>tb_installed_extensions := installed\<rparr>)))))" for request d and b1 :: test_bootstrap_settings
  proof (cases h)
    case True
    then have "for_hook se (post_lock post) = io_ok None" using assms by (simp add: for_hook_def)
    then show ?thesis using stays_not_holding [OF install] True by (simp add: io_bind_ok)
  next
    case False
    then have r: "for_hook se (post_lock post) = io_bind (acquire_at se (s_installation_dir (tb_settings b))) (\<lambda>p. io_ok (Some p))"
      using assms by (simp add: for_hook_def)
    have "locks lk T False (for_hook se (post_lock post)) (\<lambda>r h. case r of Inl _ \<Rightarrow> \<not> h | Inr p \<Rightarrow> h \<and> p = Some lk)"
      unfolding r by (rule locks_bind [OF acquire_locks]) (auto intro: locks_ok)
    moreover have "h = False" using False by simp
    ultimately show ?thesis
      by (simp, elim locks_bind) (auto intro: locks_weaken [OF locks_holding [OF install]])
  qed
  show ?thesis unfolding run_post_setup_def
    by (intro stays_bind refresh fill target) (auto intro!: locks_ok hook split: option.split)
qed

lemma lifecycle_stays:
  assumes d: "dispatches lk T (tb_settings b) h d"
    and post: "h \<and> post_lock post = Held \<or> \<not> h \<and> post_hit post \<and> post_lock post = Released (s_installation_dir (tb_settings b))"
    and st: "same_cluster st (tb_settings b)" "h \<or> s_trust_installation_dir st"
  shows "stays lk T h (run_lifecycle_steps se post d b' st)"
proof -
  have later: "stays lk T h (io_bind (run_post_setup se post b') (\<lambda>b1. io_bind (d b1 StepStart st1) (\<lambda>st2.
      io_bind (refresh_worker_port (se_os se) (se_dir se) b1) (\<lambda>b2. io_ok (b2, st2)))))" if "same_cluster st1 (tb_settings b)" for st1
  proof (rule stays_bind [OF post_setup_stays [OF post]])
    fix b1
    have "stays lk T h (d b1 StepStart st1)"
      using d that unfolding dispatches_def by (auto elim: locks_weaken)
    moreover have "stays lk T h (refresh_worker_port (se_os se) (se_dir se) b1)"
      by (rule stays_calm) (rule issues_refreshing_port [OF os])
    ultimately show "stays lk T h (io_bind (d b1 StepStart st1) (\<lambda>st2.
        io_bind (refresh_worker_port (se_os se) (se_dir se) b1) (\<lambda>b2. io_ok (b2, st2))))"
      by (intro stays_bind) (auto intro: locks_ok)
  qed
  have "locks lk T h (d b' StepSetup st) (\<lambda>r h'. h' = h \<and> (\<forall>st'. r = Inr st' \<longrightarrow> same_cluster st' (tb_settings b)))"
    using d [unfolded dispatches_def, rule_format, OF st(1), of StepSetup b'] st(2) by simp
  then show ?thesis unfolding run_lifecycle_steps_def
    by (rule locks_bind) (auto intro: later)
qed

lemma privileged_stays:
  assumes "h \<and> post_lock post = Held \<or> \<not> h \<and> post_hit post \<and> post_lock post = Released (s_installation_dir (tb_settings b))"
    and "same_cluster (tb_settings b') (tb_settings b)" "h \<or> s_trust_installation_dir (tb_settings b')"
  shows "stays lk T h (handle_privilege_lifecycle se env_vars post b')"
  unfolding handle_privilege_lifecycle_def
  using lifecycle_stays [OF root_dispatches assms, of env_vars b'] lifecycle_stays [OF unprivileged_dispatches assms, of env_vars b']
  by (auto intro!: stays_bind locks_ok split: prod.split)

lemma watching_calm:
  "issues (calm lk T) (watch_for_owner_death se b' :: (bootstrap_error, _) io)"
  "issues (calm lk T) (release_owner_watcher se b' :: (bootstrap_error, _) io)"
  unfolding watch_for_owner_death_def release_owner_watcher_def
  by (intro issues_bind issues_ok issues_watching [OF os] issues_release_watcher [OF os] calm_signal)+

lemma cache_locks:
  "locks lk T True (try_use_binary_cache (se_semver se) (se_flock se) (se_dir se) cfg req b :: (bootstrap_error, _) io)
      (\<lambda>r h. h \<and> (\<exists>hit b1. r = Inr (hit, b1) \<and> same_cluster (tb_settings b1) (tb_settings b) \<and> (hit \<longrightarrow> s_trust_installation_dir (tb_settings b1))))"
proof (rule locks_weaken [OF locks_result [OF stays_neutral [OF cache_use_neutral(1) [OF flock]],
        where P="\<lambda>r :: bootstrap_error + bool \<times> test_bootstrap_settings. \<exists>hit b1. r = Inr (hit, b1) \<and> same_cluster (tb_settings b1) (tb_settings b) \<and> (hit \<longrightarrow> s_trust_installation_dir (tb_settings b1))"]])
    fix w w' and r :: "bootstrap_error + bool \<times> test_bootstrap_settings"
    assume "try_use_binary_cache (se_semver se) (se_flock se) (se_dir se) cfg req b w = (r, w')"
    then show "\<exists>hit b1. r = Inr (hit, b1) \<and> same_cluster (tb_settings b1) (tb_settings b) \<and> (hit \<longrightarrow> s_trust_installation_dir (tb_settings b1))"
      using cache_use_result [of "se_semver se" "se_flock se" "se_dir se" cfg req b, where ?'a=bootstrap_error]
      unfolding gives_def by (metis (mono_tags, lifting) case_prod_conv fst_conv surj_pair)
qed simp

lemma started_locks:
  assumes "install_root b = Inr (s_installation_dir (tb_settings b))"
  shows "locks lk T False (start_postgres se b env_vars cfg) (\<lambda>_ h. \<not> h)"
proof -
  let ?dir = "s_installation_dir (tb_settings b)"
  have body: "stays lk T h (io_bind (watch_for_owner_death se b1) (\<lambda>_. io_match (handle_privilege_lifecycle se env_vars post b1) (\<lambda>r.
      case r of Inl e \<Rightarrow> io_bind (release_owner_watcher se b1) (\<lambda>_. io_err (note_cached_binaries (post_hit post) b1 e)) | Inr outcome \<Rightarrow> io_ok outcome)))"
    if "h \<and> post_lock post = Held \<or> \<not> h \<and> post_hit post \<and> post_lock post = Released ?dir"
      "same_cluster (tb_settings b1) (tb_settings b)" "h \<or> s_trust_installation_dir (tb_settings b1)" for h post b1
    by (intro stays_bind stays_calm [OF watching_calm(1)] locks_match [OF privileged_stays [OF that]])
      (auto intro!: locks_ok locks_err stays_bind stays_calm [OF watching_calm(2)] split: sum.split)
  have rest: "locks lk T True (io_bind (after_cache_lookup lk hit ?dir) (\<lambda>(kept, il). holding kept
      (io_bind (watch_for_owner_death se b1) (\<lambda>_. io_match
        (handle_privilege_lifecycle se env_vars \<lparr>post_cache = cfg, post_hit = hit, post_lock = il\<rparr> b1) (\<lambda>r.
      case r of Inl e \<Rightarrow> io_bind (release_owner_watcher se b1) (\<lambda>_. io_err (note_cached_binaries hit b1 e)) | Inr outcome \<Rightarrow> io_ok outcome))))) (\<lambda>_ h. \<not> h)"
    if "same_cluster (tb_settings b1) (tb_settings b)" "hit \<longrightarrow> s_trust_installation_dir (tb_settings b1)" for hit b1
  proof (cases hit)
    case True
    have "locks lk T True (after_cache_lookup lk hit ?dir :: (bootstrap_error, _) io) (\<lambda>r h. \<not> h \<and> r = Inr (None, Released ?dir))"
      unfolding after_cache_lookup_def drop_lock_def using True
      by (auto intro!: locks_bind [OF locks_note(2)] locks_ok)
    then show ?thesis
      by (rule locks_bind)
        (use True that stays_not_holding [OF body [of False "\<lparr>post_cache = cfg, post_hit = True, post_lock = Released ?dir\<rparr>" b1]] in auto)
  next
    case False
    have "after_cache_lookup lk hit ?dir = (io_ok (Some lk, Held) :: (bootstrap_error, _) io)"
      using False by (simp add: after_cache_lookup_def)
    then show ?thesis
      using False that body [of True "\<lparr>post_cache = cfg, post_hit = False, post_lock = Held\<rparr>" b1]
      by (simp add: io_bind_ok locks_holding)
  qed
  have "io_bind (io_of (install_root b)) f = f ?dir" for f :: "string \<Rightarrow> (bootstrap_error, startup_outcome) io"
    using assms by (simp add: fun_eq_iff io_bind_def io_of_def)
  then show ?thesis unfolding start_postgres_def
    by (auto intro!: locks_bind [OF acquire_locks] locks_bind [OF cache_locks] rest)
qed

lemma setup_locks:
  assumes "install_root b = Inr (s_installation_dir (tb_settings b))"
  shows "locks lk T False (setup_lifecycle se b env_vars cfg) (\<lambda>_ h. \<not> h)"
proof -
  have step: "stays lk T True (setup_with_privileges se b1 env_vars)" if "same_cluster (tb_settings b1) (tb_settings b)" for b1
    using root_dispatches [of True env_vars, unfolded dispatches_def, rule_format, OF that, of StepSetup b1]
      unprivileged_dispatches [of True env_vars, unfolded dispatches_def, rule_format, OF that, of StepSetup b1]
    unfolding setup_with_privileges_def by (auto elim!: locks_bind intro!: locks_ok)
  have body: "stays lk T True (io_bind (setup_with_privileges se b1 env_vars) (\<lambda>_.
      run_post_setup se \<lparr>post_cache = cfg, post_hit = hit, post_lock = Held\<rparr> b1))"
    if "same_cluster (tb_settings b1) (tb_settings b)" for b1 hit
    by (intro stays_bind step that post_setup_stays) simp
  have all: "stays lk T True (io_bind (try_use_binary_cache (se_semver se) (se_flock se) (se_dir se) cfg req b) (\<lambda>(hit, b1).
      io_bind (setup_with_privileges se b1 env_vars) (\<lambda>_.
        run_post_setup se \<lparr>post_cache = cfg, post_hit = hit, post_lock = Held\<rparr> b1)))" for req
    by (rule locks_bind [OF cache_locks]) (use body in auto)
  have "io_bind (io_of (install_root b)) f = f (s_installation_dir (tb_settings b))" for f :: "string \<Rightarrow> (bootstrap_error, path) io"
    using assms by (simp add: fun_eq_iff io_bind_def io_of_def)
  then show ?thesis unfolding setup_lifecycle_def acquire_setup_lock_def
    by (auto intro!: locks_bind [OF acquire_locks] locks_holding [OF all])
qed

end

section \<open>The theorems\<close>

text \<open>
  C6: the setup lock covers the installation tree. However a start ends, every call that changes
  something in the shared installation tree is made while this start holds the setup lock; the lock is never
  taken while it is held, which would block for ever, nor dropped when it is not held; and it is free at the
  end. So the copy from the cache, the set-up after a miss and the installation of extensions never overlap
  with those of another process.
\<close>

theorem install_tree_locked:
  assumes "start_services se b lk T" and "start_postgres se b env_vars cfg w = (r, w')"
  shows "\<exists>ops. trace w' = trace w @ ops \<and> scan_lock lk T False ops = Some False"
proof (cases "install_root b")
  case (Inl e)
  then show ?thesis using assms(2) by (auto simp: start_postgres_def io_bind_def io_of_def)
next
  case (Inr d)
  then have "install_root b = Inr (s_installation_dir (tb_settings b))"
    by (auto simp: install_root_def utf8_or_def from_path_buf_def split: if_splits sum.splits)
  from start_services.started_locks [OF assms(1) this] assms(2) show ?thesis by (rule locksD) auto
qed

text \<open>
  C35: the set-up of the command line tool keeps to the same lock: it holds it from before the cache lookup
  until the extensions are installed, and drops it however it ends.
\<close>

theorem setup_only_locked:
  assumes "start_services se b lk T" and "setup_postgres_only se runtime b w = (r, w')"
  shows "\<exists>ops. trace w' = trace w @ ops \<and> scan_lock lk T False ops = Some False"
proof (cases "(\<exists>e. runtime = Inl e) \<or> (\<exists>e. install_root b = Inl e)")
  case True
  then show ?thesis using assms(2)
    by (auto simp: setup_postgres_only_def setup_lifecycle_def acquire_setup_lock_def io_bind_def io_of_def Let_def split: sum.splits)
next
  case False
  then obtain u where run: "runtime = Inr u" by (cases runtime) auto
  from False have "install_root b = Inr (s_installation_dir (tb_settings b))"
    by (auto simp: install_root_def utf8_or_def from_path_buf_def split: if_splits sum.splits)
  note start_services.setup_locks [OF assms(1) this]
  moreover have "setup_lifecycle se b (to_env (tb_environment b)) (cache_config_from_bootstrap se b) w = (r, w')"
    using assms(2) run by (simp add: setup_postgres_only_def io_bind_def io_of_def Let_def)
  ultimately show ?thesis by (rule locksD) auto
qed

lemma holding_run:
  "holding k m w = (fst (m w),
     case k of None \<Rightarrow> snd (m w) | Some p \<Rightarrow> (snd (m w))\<lparr>trace := trace (snd (m w)) @ [Unlocked p]\<rparr>)"
  by (cases k) (simp_all add: holding_def drop_lock_def note_op_def io_match_def io_bind_def io_of_def io_ok_def split_beta)

text \<open>The two lifecycles do the same: as root the invoker calls the worker, and the hook leaves the privileges alone.\<close>

lemma post_setup_privileges:
  assumes "run_post_setup se post b w = (Inr b1, w')"
  shows "tb_privileges b1 = tb_privileges b"
proof -
  have r: "tb_privileges y = tb_privileges b" if "refresh_worker_installation_dir sl dir b w = ((Inr y :: bootstrap_error + _), w1)" for sl dir w y w1
    using that by (auto simp: refresh_worker_installation_dir_def io_ok_def elim!: io_bindE split: if_splits option.splits)
  have i: "tb_privileges x = tb_privileges y" if "fst (io_bind m (\<lambda>installed. io_ok (y\<lparr>tb_installed_extensions := installed\<rparr>)) v) = Inr x"
    for m :: "(bootstrap_error, installed_extension list) io" and x y v
    using that by (auto simp: io_bind_def io_ok_def split: prod.splits sum.splits)
  show ?thesis using assms unfolding run_post_setup_def
    by (auto simp: io_ok_def holding_run elim!: io_bindE dest!: r i split: option.splits)
qed

lemma io_bind_cong_val: "(\<And>x w w'. m w = (Inr x, w') \<Longrightarrow> f x = g x) \<Longrightarrow> io_bind m f = io_bind m g"
  by (fastforce simp: fun_eq_iff io_bind_def split: prod.split sum.split)

text \<open>Where no task of the runtime is cancelled, each asynchronous operation is its synchronous twin.\<close>

definition never_cancelled :: "startup_env \<Rightarrow> bool" where
  "never_cancelled se \<longleftrightarrow> se_cancelled se = (\<lambda>w. (False, w))"

lemma spawn_blocking_runs: "never_cancelled se \<Longrightarrow> spawn_blocking (se_cancelled se) e m = m"
  by (simp add: never_cancelled_def spawn_blocking_def fun_eq_iff)

lemma async_twins:
  assumes "never_cancelled se"
  shows "acquire_async_at se dir = acquire_at se dir"
    and "run_post_setup_async se post b = run_post_setup se post b"
    and "run_root_async se b env_vars operation = execute_root_operation (se_worker se) b env_vars operation"
    and "refresh_worker_port_async se b = refresh_worker_port (se_os se) (se_dir se) b"
proof -
  show l: "acquire_async_at se dir = acquire_at se dir" for dir
    by (simp add: acquire_async_at_def acquire_at_def spawn_blocking_runs [OF assms])
  show "run_post_setup_async se post b = run_post_setup se post b"
    unfolding run_post_setup_async_def run_post_setup_def for_hook_async_def for_hook_def install_extensions_async_def l
      spawn_blocking_runs [OF assms] ..
  show "run_root_async se b env_vars operation = execute_root_operation (se_worker se) b env_vars operation"
    by (simp add: run_root_async_def spawn_blocking_runs [OF assms])
  have c: "read_postmaster_port_async se p = read_postmaster_port p" for p
    by (simp add: read_postmaster_port_async_def read_postmaster_port_def read_pid_file_contents_async_def read_pid_file_contents_def
        spawn_blocking_runs [OF assms])
  have "port_attempts_async se p n = port_attempts (se_os se) p n" for p n
    by (induction n) (simp_all add: c)
  then show "refresh_worker_port_async se b = refresh_worker_port (se_os se) (se_dir se) b"
    by (simp add: refresh_worker_port_async_def refresh_worker_port_def read_postmaster_port_with_retry_def)
qed

lemma invoke_unprivileged_twin: "invoke_unprivileged_async = invoke_unprivileged"
  by (simp add: fun_eq_iff invoke_unprivileged_async_def invoke_unprivileged_def)

lemma dispatch_twin:
  "never_cancelled se \<Longrightarrow> dispatch_operation_async se b env_vars operation st fut =
     invoke_operation (se_worker se) (se_limit se) b env_vars operation st fut"
  unfolding dispatch_operation_async_def invoke_operation_def by (simp only: async_twins invoke_unprivileged_twin)

lemma async_lifecycle_same:
  assumes "never_cancelled se"
  shows "async_lifecycle se env_vars post b = handle_privilege_lifecycle se env_vars post b"
proof (cases "tb_privileges b = Root")
  case True
  have "io_bind (invoke_lifecycle_root_async se env_vars post b) (\<lambda>b1. io_ok (\<lparr>out_bootstrap = b1, out_postgres = None, out_managed = True\<rparr>)) =
      io_bind (run_lifecycle_steps se post (invoke_root_operation se env_vars) b (tb_settings b)) (\<lambda>(b1, _).
        io_ok \<lparr>out_bootstrap = b1, out_postgres = None, out_managed = True\<rparr>)"
    unfolding invoke_lifecycle_root_async_def run_lifecycle_steps_def invoke_root_operation_def dispatch_twin [OF assms]
      async_twins [OF assms] invoke_operation_def
    using True by (auto simp: io_bind_assoc io_bind_ok intro!: io_bind_cong_val dest!: post_setup_privileges)
  then show ?thesis using True by (simp add: async_lifecycle_def handle_privilege_lifecycle_def)
next
  case False
  have "invoke_lifecycle_async se env_vars post b (tb_settings b) =
      run_lifecycle_steps se post (invoke_unprivileged_operation se env_vars) b (tb_settings b)"
    by (simp add: invoke_lifecycle_async_def run_lifecycle_steps_def invoke_unprivileged_operation_def dispatch_twin [OF assms]
        async_twins [OF assms])
  then show ?thesis using False by (simp add: async_lifecycle_def handle_privilege_lifecycle_def)
qed

text \<open>Two runs that differ at most in the mark of cached binaries.\<close>

definition same_start :: "(bootstrap_error + 'a) \<times> world \<Rightarrow> (bootstrap_error + 'a) \<times> world \<Rightarrow> bool" where
  "same_start x y \<longleftrightarrow> snd x = snd y \<and> (case (fst x, fst y) of
      (Inr out, Inr out') \<Rightarrow> out = out'
    | (Inl e, Inl e') \<Rightarrow> kind e = kind e' \<and> (e' = e \<or> (\<exists>v. e' = e\<lparr>causes := CachedBinariesUsed v # causes e\<rparr>))
    | _ \<Rightarrow> False)"

lemma same_start_refl: "same_start x x"
  by (cases x; cases "fst x") (auto simp: same_start_def)

lemma same_start_bind: "(\<And>x w. same_start (f x w) (g x w)) \<Longrightarrow> same_start (io_bind m f w) (io_bind m g w)"
  by (auto simp: io_bind_def same_start_refl split: prod.split sum.split)

lemma same_start_match: "(\<And>x w. same_start (f x w) (g x w)) \<Longrightarrow> same_start (io_match m f w) (io_match m g w)"
  by (auto simp: io_match_def split: prod.split)

lemma same_start_holding: "same_start (m w) (n w) \<Longrightarrow> same_start (holding k m w) (holding k n w)"
  unfolding holding_run same_start_def by (elim conjE) (simp split: sum.splits option.split)

lemma same_start_mark: "same_start (io_err e w) (io_err (note_cached_binaries hit b e) w)"
  by (auto simp: same_start_def io_err_def note_cached_binaries_def)

text \<open>
  C36: the asynchronous start is the synchronous one. As long as the runtime cancels none of the tasks it is given,
  the asynchronous start does the same to the world, in the same order and under the same locks, and succeeds
  alike; when both fail the errors are of the same kind, and the synchronous error has at most one cause more,
  the note that cached binaries were in use.
\<close>

theorem async_start_agrees:
  assumes "never_cancelled se"
  shows "snd (start_postgres_async se b env_vars cfg w) = snd (start_postgres se b env_vars cfg w) \<and>
   (case (fst (start_postgres_async se b env_vars cfg w), fst (start_postgres se b env_vars cfg w)) of
      (Inr out, Inr out') \<Rightarrow> out = out'
    | (Inl e, Inl e') \<Rightarrow> kind e = kind e' \<and> (e' = e \<or> (\<exists>v. e' = e\<lparr>causes := CachedBinariesUsed v # causes e\<rparr>))
    | _ \<Rightarrow> False)"
  unfolding start_postgres_async_def start_postgres_def Let_def same_start_def [symmetric] async_lifecycle_same [OF assms] async_twins(1) [OF assms]
  by (intro same_start_bind)
    (auto intro!: same_start_bind same_start_holding same_start_match same_start_mark same_start_refl split: prod.split sum.split)

section \<open>A start from the cache\<close>

text \<open>The services over the tree of the model, a server that has nothing to do, and a time limit never reached.\<close>

lemma fs_cap_neutral: "cap_neutral lk fs_cap"
proof -
  have each: "issues (neutral lk) (mkdir_each d cs)" for d cs
    by (induction d cs rule: mkdir_each.induct) (auto intro!: issue_rules split: sum.split)
  have at: "issues (neutral lk) (at_handle h f)" if "\<And>q. issues (neutral lk) (f q)" for h and f :: "path \<Rightarrow> unit fs"
    using that unfolding issues_def at_handle_def by (simp split: sum.split)
  show ?thesis
    unfolding cap_neutral_def fs_cap_def
    by (auto intro!: issue_rules each at act_quiet split: sum.split option.split node.split)
qed

definition demo_installer :: installer where
  "demo_installer = \<lparr>i_ext = demo_env, i_cap = fs_cap, i_untar = (\<lambda>_. Inr []), i_pg_config = (\<lambda>_. SpawnFailed NotFound), i_target = []\<rparr>"

definition demo_start_env :: startup_env where
  "demo_start_env =
     \<lparr>se_semver = demo_semver, se_os = demo_os [], se_vars = Map.empty, se_home = Some ''/home'', se_dir = [],
      se_flock = (\<lambda>_ _. io_ok ()), se_installer = demo_installer, se_worker = demo_worker_env, se_initdb = demo_initdb,
      se_limit = (\<lambda>_ fut w. case fut w of (x, w') \<Rightarrow> (Some x, w')),
      se_setup = (\<lambda>st w. ((Inr (), st), w)), se_start = (\<lambda>st w. ((Inr (), st\<lparr>s_port := 5433\<rparr>), w)),
      se_cancelled = (\<lambda>w. (False, w))\<rparr>"

definition demo_cluster :: test_bootstrap_settings where
  "demo_cluster =
     \<lparr>tb_privileges = Unprivileged, tb_execution_mode = InProcess, tb_settings = demo_settings\<lparr>s_version := ''18''\<rparr>,
      tb_environment = \<lparr>env_home = [], env_xdg_cache_home = [], env_xdg_runtime_dir = [], env_pgpass_file = [], env_tz_dir = None, env_timezone = []\<rparr>,
      tb_worker_binary = None, tb_setup_timeout = 180, tb_start_timeout = 60, tb_shutdown_timeout = 15, tb_cleanup_mode = DataOnly,
      tb_binary_cache_dir = Some ''/cache'', tb_extensions = None, tb_installed_extensions = []\<rparr>"

definition demo_start_world :: world where
  "demo_start_world =
     (let at = \<lparr>mode = 493, uid = 0, gid = 0\<rparr> in
      (Privileges.demo_tree [])\<lparr>root := Dir at [(''tmp'', Dir at []), (''cache'', Dir at [(''17'',
        Dir at [(''.complete'', File at []), (''bin'', Dir at [(''postgres'', File at [1])])])])]\<rparr>)"

lemma demo_start_quiet:
  "os_quiet (demo_os [])" "flock_quiet (\<lambda>_ _. io_ok ())" "process_quiet demo_process"
  "process_quiet (ie_process demo_initdb)" "tempfile_neutral lk std_tempfile"
  unfolding tempfile_neutral_def std_tempfile_def
  by (auto simp: os_quiet_def demo_os_def flock_quiet_def process_quiet_def demo_process_def demo_initdb_def issues_ok intro!: issue_rules)

lemma demo_temp_names:
  "issues (\<lambda>x. \<exists>n. op_paths x = [d @ [n]]) (named_new_in std_tempfile d)"
  "named_new_in std_tempfile d w = (Inr (t, f), w') \<Longrightarrow> \<exists>n. t = d @ [n]"
  "issues (\<lambda>x. op_paths x = [t]) (named_drop std_tempfile t)"
  unfolding std_tempfile_def by (auto simp: io_ok_def elim!: io_bindE intro!: issue_rules)

interpretation demo_start: start_services demo_start_env demo_cluster
  "setup_lock_path demo_start_env ''/pg/install''" "install_tree_op demo_start_env demo_cluster"
proof (unfold_locales, goal_cases)
  case 9
  then show ?case by (simp add: demo_start_env_def demo_cluster_def demo_settings_def demo_worker_env_def text_path_def) code_simp
next
  case (13 P fut l)
  then show ?case unfolding act_issues_def demo_start_env_def by (simp add: split_beta)
next
  case (14 l fut w x w')
  then show ?case unfolding demo_start_env_def by (auto split: prod.splits intro: exI [of _ w])
qed (use demo_start_quiet demo_temp_names(3) demo_temp_names(1,2) [of "[''tmp'']", simplified] fs_cap_neutral in
      \<open>auto simp: demo_start_env_def demo_cluster_def demo_settings_def demo_worker_env_def demo_initdb_def demo_installer_def demo_env_def
        installer_neutral_def same_cluster_def intro: act_quiet\<close>)

lemma demo_start_runs:
  "(case start_postgres demo_start_env demo_cluster [] (with_dir ''/cache'') demo_start_world of
      (Inr out, w') \<Rightarrow> s_installation_dir (tb_settings (out_bootstrap out)) = ''/pg/install/17'' \<and>
         OpenWrite [''pg'', ''install'', ''17'', ''bin'', ''postgres''] \<in> set (trace w')
    | _ \<Rightarrow> False)"
  by code_simp

theorem install_tree_locked_witness:
  "\<exists>w' out ops. start_postgres demo_start_env demo_cluster [] (with_dir ''/cache'') demo_start_world = (Inr out, w') \<and>
     s_installation_dir (tb_settings (out_bootstrap out)) = ''/pg/install/17'' \<and>
     OpenWrite [''pg'', ''install'', ''17'', ''bin'', ''postgres''] \<in> set (trace w') \<and> trace w' = trace demo_start_world @ ops \<and>
     scan_lock (setup_lock_path demo_start_env ''/pg/install'') (install_tree_op demo_start_env demo_cluster) False ops = Some False"
proof -
  obtain out w' where run: "start_postgres demo_start_env demo_cluster [] (with_dir ''/cache'') demo_start_world = (Inr out, w')"
    and "s_installation_dir (tb_settings (out_bootstrap out)) = ''/pg/install/17''"
      "OpenWrite [''pg'', ''install'', ''17'', ''bin'', ''postgres''] \<in> set (trace w')"
    using demo_start_runs by (auto split: prod.splits sum.splits)
  with install_tree_locked [OF demo_start.start_services_axioms run] show ?thesis by blast
qed

text \<open>The same start, asynchronously; and one that is cancelled before it takes the lock.\<close>

theorem async_start_agrees_witness:
  "\<exists>out w'. start_postgres demo_start_env demo_cluster [] (with_dir ''/cache'') demo_start_world = (Inr out, w') \<and>
     start_postgres_async demo_start_env demo_cluster [] (with_dir ''/cache'') demo_start_world = (Inr out, w')"
proof -
  obtain out w' where run: "start_postgres demo_start_env demo_cluster [] (with_dir ''/cache'') demo_start_world = (Inr out, w')"
    using demo_start_runs by (auto split: prod.splits sum.splits)
  have "never_cancelled demo_start_env" by (simp add: never_cancelled_def demo_start_env_def)
  from async_start_agrees [OF this, of demo_cluster "[]" "with_dir ''/cache''" demo_start_world] run show ?thesis
    by (cases "start_postgres_async demo_start_env demo_cluster [] (with_dir ''/cache'') demo_start_world")
      (auto split: sum.splits)
qed

lemma cancelled_start_touches_nothing:
  assumes "se_cancelled se = (\<lambda>w. (True, w))" and "install_root b = Inr dir"
  shows "start_postgres_async se b env_vars cfg w = (Inl (extension_error Other), w)"
  using assms by (simp add: start_postgres_async_def acquire_async_at_def spawn_blocking_def io_bind_def io_of_def)

theorem setup_only_locked_witness:
  "\<exists>w' r ops. setup_postgres_only demo_start_env (Inr ()) demo_cluster demo_start_world = (r, w') \<and> trace w' = trace demo_start_world @ ops \<and>
     scan_lock (setup_lock_path demo_start_env ''/pg/install'') (install_tree_op demo_start_env demo_cluster) False ops = Some False"
proof -
  obtain r w' where "setup_postgres_only demo_start_env (Inr ()) demo_cluster demo_start_world = (r, w')" by fastforce
  with setup_only_locked [OF demo_start.start_services_axioms this] show ?thesis by blast
qed

end
