(* ===== verification/PgWorker.thy ===== *)
theory PgWorker
  imports StartupLock
begin

text \<open>
  The privileged worker (\<open>bin/pg_worker.rs\<close>): its arguments, the payload it reads, the environment it takes
  over, and the operations. A \<open>PostgreSQL\<close> is the settings it holds; its operations, the \<open>cap-std\<close> directory
  handles, \<open>serde_json\<close> and the runtime are parameters. Dropping a server stops it.
\<close>

section \<open>Parameters\<close>

datatype server_status = NotInstalled | Installed | Stopped | Started

record worker_bin =
  wb_cap :: dir_cap
  wb_read :: "path \<Rightarrow> component list \<Rightarrow> bytes fs"
  wb_exists :: "path \<Rightarrow> component list \<Rightarrow> bool act"
  wb_read_dir :: "path \<Rightarrow> component list \<Rightarrow> (string \<times> node) list fs"
  wb_remove_dir_all :: "path \<Rightarrow> component list \<Rightarrow> unit fs"
  wb_from_json :: "bytes \<Rightarrow> worker_payload option"
  wb_runtime :: "io_error_kind + unit"
  wb_semver :: semver_lib
  wb_initdb :: initdb_env
  wb_dir :: path
  wb_status :: "settings \<Rightarrow> server_status act"
  wb_setup :: "(string \<rightharpoonup> string) \<Rightarrow> settings \<Rightarrow> server_op"
  wb_start :: "(string \<rightharpoonup> string) \<Rightarrow> settings \<Rightarrow> server_op"
  wb_stop :: "(string \<rightharpoonup> string) \<Rightarrow> settings \<Rightarrow> server_op"
  wb_drop :: "settings \<Rightarrow> unit act"

section \<open>Arguments and payload\<close>

definition operation_parse :: "string \<Rightarrow> worker_error + worker_operation" where
  "operation_parse arg =
     (let s = from_utf8_lossy arg in
      if s = ''setup'' then Inr Setup else if s = ''start'' then Inr Start else if s = ''stop'' then Inr Stop
      else if s = ''cleanup'' then Inr Cleanup else if s = ''cleanup-full'' then Inr CleanupFull
      else Inl InvalidArgs)"

text \<open>The iterator's \<open>next\<close> on an exhausted list gives nothing again.\<close>

definition parse_args :: "string list \<Rightarrow> worker_error + (worker_operation \<times> string)" where
  "parse_args args =
     (case drop 1 args of
        [] \<Rightarrow> Inl InvalidArgs
      | a # rest \<Rightarrow>
          res_bind (operation_parse a) (\<lambda>oper.
            case rest of
              [] \<Rightarrow> Inl InvalidArgs
            | p # extra \<Rightarrow>
                (case from_path_buf p of
                   Inl _ \<Rightarrow> Inl InvalidArgs
                 | Inr cfg \<Rightarrow> if extra \<noteq> [] then Inl InvalidArgs else Inr (oper, cfg))))"

definition load_payload :: "worker_bin \<Rightarrow> string \<Rightarrow> (worker_error, worker_payload) io" where
  "load_payload wb p =
     io_bind (io_map_err (\<lambda>_. ConfigRead) (ambient_dir_and_path (wb_cap wb) (wb_dir wb) (path_components p))) (\<lambda>(h, rel).
     io_bind (io_map_err (\<lambda>_. ConfigRead) (wb_read wb h rel)) (\<lambda>bs.
       case map_option deserialize_payload (wb_from_json wb bs) of
         None \<Rightarrow> io_err ConfigParse
       | Some payload \<Rightarrow> io_ok payload))"

text \<open>\<open>env::set_var\<close> panics on a name or value the platform cannot take, which is \<open>None\<close>; \<open>remove_var\<close> on such a name.\<close>

fun apply_worker_environment :: "(string \<times> string option) list \<Rightarrow> (string \<rightharpoonup> string) \<Rightarrow> (string \<rightharpoonup> string) option" where
  "apply_worker_environment [] env = Some env"
| "apply_worker_environment ((k, v) # rest) env =
     (if is_valid_env_key k \<and> is_valid_env_value v then apply_worker_environment rest (env(k := v)) else None)"

section \<open>The operations\<close>

text \<open>A step of the server: the result, and the settings it leaves.\<close>

type_synonym pg_step = "((worker_error + unit) \<times> settings) act"

definition pg_io :: "(worker_error, unit) io \<Rightarrow> settings \<Rightarrow> pg_step" where
  "pg_io m st w = (case m w of (r, w') \<Rightarrow> ((r, st), w'))"

definition pg_call :: "server_op \<Rightarrow> pg_step" where
  "pg_call m w = (case m w of ((r, st), w') \<Rightarrow> ((case r of Inl _ \<Rightarrow> Inl PostgresOperation | Inr u \<Rightarrow> Inr u, st), w'))"

definition pg_bind :: "pg_step \<Rightarrow> (settings \<Rightarrow> pg_step) \<Rightarrow> pg_step" where
  "pg_bind m k w = (case m w of ((Inl e, st), w') \<Rightarrow> ((Inl e, st), w') | ((Inr _, st), w') \<Rightarrow> k st w')"

definition is_setup_complete :: "worker_bin \<Rightarrow> component list \<Rightarrow> settings \<Rightarrow> bool act" where
  "is_setup_complete wb data_dir st w =
     (case path_is_dir (fs_path (wb_dir wb) data_dir) w of
        (Inr True, w1) \<Rightarrow>
          (case path_exists (fs_path (wb_dir wb) (data_dir @ [Normal ''PG_VERSION''])) w1 of
             (Inr True, w2) \<Rightarrow> (case wb_status wb st w2 of (s, w3) \<Rightarrow> (s \<noteq> NotInstalled, w3))
           | ((_ :: unit + bool), w2) \<Rightarrow> (False, w2))
      | ((_ :: unit + bool), w1) \<Rightarrow> (False, w1))"

definition run_setup :: "worker_bin \<Rightarrow> (string \<rightharpoonup> string) \<Rightarrow> settings \<Rightarrow> pg_step" where
  "run_setup wb env st =
     pg_bind (pg_io (io_bind (io_map_err (\<lambda>_. PostgresOperation) (initialize_without_sync (wb_semver wb) (wb_initdb wb) (wb_dir wb) st))
                       (\<lambda>_. io_ok ())) st)
       (\<lambda>st. pg_call (wb_setup wb env st))"

definition PG_FILENODE_MAP_MARKER :: "component list" where
  "PG_FILENODE_MAP_MARKER = [Normal ''global'', Normal ''pg_filenode.map'']"

definition has_valid_data_dir :: "worker_bin \<Rightarrow> component list \<Rightarrow> bool fs" where
  "has_valid_data_dir wb data_dir =
     io_bind (ambient_dir_and_path (wb_cap wb) (wb_dir wb) data_dir) (\<lambda>(h, rel).
       io_lift (wb_exists wb h (rel @ PG_FILENODE_MAP_MARKER)))"

definition is_dir_empty :: "worker_bin \<Rightarrow> component list \<Rightarrow> bool fs" where
  "is_dir_empty wb p =
     io_bind (ambient_dir_and_path (wb_cap wb) (wb_dir wb) p) (\<lambda>(h, rel).
     io_bind (wb_read_dir wb h rel) (\<lambda>es. io_ok (es = [])))"

definition reset_data_dir :: "worker_bin \<Rightarrow> component list \<Rightarrow> unit fs" where
  "reset_data_dir wb data_dir =
     io_bind (ambient_dir_and_path (wb_cap wb) (wb_dir wb) data_dir) (\<lambda>(h, rel).
       if rel = [] then io_err OtherIo
       else io_match (wb_remove_dir_all wb h rel) (\<lambda>r.
         case r of
           Inr _ \<Rightarrow> io_ok ()
         | Inl e \<Rightarrow> if e = NotFound then io_ok () else io_err e))"

definition perform_data_dir_reset :: "worker_bin \<Rightarrow> component list \<Rightarrow> (worker_error, unit) io" where
  "perform_data_dir_reset wb p = io_map_err (\<lambda>_. DataDirRecovery) (reset_data_dir wb p)"

definition recover_invalid_data_dir :: "worker_bin \<Rightarrow> component list \<Rightarrow> (worker_error, unit) io" where
  "recover_invalid_data_dir wb data_dir =
     io_bind (path_exists (fs_path (wb_dir wb) data_dir)) (\<lambda>exists.
       if \<not> exists then io_ok ()
       else
         io_bind (io_map_err (\<lambda>_. DataDirRecovery) (has_valid_data_dir wb data_dir)) (\<lambda>is_valid.
         io_bind (io_map_err (\<lambda>_. DataDirRecovery) (is_dir_empty wb data_dir)) (\<lambda>is_empty.
           if \<not> is_valid \<and> \<not> is_empty then perform_data_dir_reset wb data_dir else io_ok ())))"

definition run_postgres_setup :: "worker_bin \<Rightarrow> (string \<rightharpoonup> string) \<Rightarrow> component list \<Rightarrow> settings \<Rightarrow> pg_step" where
  "run_postgres_setup wb env data_dir st w =
     (case is_setup_complete wb data_dir st w of
        (True, w1) \<Rightarrow> ((Inr (), st), w1)
      | (False, w1) \<Rightarrow> pg_bind (pg_io (recover_invalid_data_dir wb data_dir) st) (run_setup wb env) w1)"

definition start_if_not_started :: "worker_bin \<Rightarrow> (string \<rightharpoonup> string) \<Rightarrow> settings \<Rightarrow> pg_step" where
  "start_if_not_started wb env st w =
     (case wb_status wb st w of (s, w1) \<Rightarrow>
        if s = Started then ((Inr (), st), w1) else pg_call (wb_start wb env st) w1)"

definition ensure_postgres_started :: "worker_bin \<Rightarrow> (string \<rightharpoonup> string) \<Rightarrow> component list \<Rightarrow> settings \<Rightarrow> pg_step" where
  "ensure_postgres_started wb env data_dir st = pg_bind (run_postgres_setup wb env data_dir st) (start_if_not_started wb env)"

definition contains_text :: "string \<Rightarrow> string \<Rightarrow> bool" where
  "contains_text s part \<longleftrightarrow> sublist part s"

fun stop_missing_pid_is_ok :: "embedded_error \<Rightarrow> bool" where
  "stop_missing_pid_is_ok (EmbeddedDatabaseStopError m) = (contains_text m ''postmaster.pid'' \<and> contains_text m ''does not exist'')"
| "stop_missing_pid_is_ok (EmbeddedIoError m) = (contains_text m ''postmaster.pid'' \<and> contains_text m ''does not exist'')"
| "stop_missing_pid_is_ok _ = False"

definition execute_stop :: "worker_bin \<Rightarrow> (string \<rightharpoonup> string) \<Rightarrow> settings \<Rightarrow> pg_step" where
  "execute_stop wb env st w =
     (case wb_stop wb env st w of
        ((Inr _, st'), w') \<Rightarrow> ((Inr (), st'), w')
      | ((Inl e, st'), w') \<Rightarrow> ((if stop_missing_pid_is_ok e then Inr () else Inl PostgresOperation, st'), w'))"

text \<open>\<open>block_on\<close> in a fresh runtime; \<open>keep\<close> says whether a successful server is forgotten rather than dropped.\<close>

definition block_on :: "worker_bin \<Rightarrow> bool \<Rightarrow> pg_step \<Rightarrow> (worker_error, unit) io" where
  "block_on wb keep m w =
     (case wb_runtime wb of
        Inl _ \<Rightarrow> (Inl RuntimeInit, w)
      | Inr _ \<Rightarrow>
          (case m w of ((r, st), w') \<Rightarrow>
             if keep \<and> ends_well r then (r, w') else (r, snd (wb_drop wb st w'))))"

definition run_setup_op :: "worker_bin \<Rightarrow> (string \<rightharpoonup> string) \<Rightarrow> settings \<Rightarrow> component list \<Rightarrow> (worker_error, unit) io" where
  "run_setup_op wb env st data_dir = block_on wb False (run_postgres_setup wb env data_dir st)"

definition run_start_op :: "worker_bin \<Rightarrow> (string \<rightharpoonup> string) \<Rightarrow> settings \<Rightarrow> component list \<Rightarrow> (worker_error, unit) io" where
  "run_start_op wb env st data_dir = block_on wb True (ensure_postgres_started wb env data_dir st)"

definition run_stop_op :: "worker_bin \<Rightarrow> (string \<rightharpoonup> string) \<Rightarrow> settings \<Rightarrow> (worker_error, unit) io" where
  "run_stop_op wb env st = block_on wb False (execute_stop wb env st)"

section \<open>The program\<close>

datatype worker_exit = WorkerFailed worker_error | WorkerPanicked

definition run_operation :: "worker_bin \<Rightarrow> (string \<rightharpoonup> string) \<Rightarrow> worker_operation \<Rightarrow> settings \<Rightarrow> component list \<Rightarrow> (worker_error, unit) io" where
  "run_operation wb env oper st data_dir =
     (case oper of
        Cleanup \<Rightarrow> execute_cleanup (wb_dir wb) data_dir None None
      | CleanupFull \<Rightarrow>
          io_bind (io_of (extract_utf8 (s_installation_dir st))) (\<lambda>install_dir.
          io_bind (io_of (extract_install_root st install_dir)) (\<lambda>install_root.
            execute_cleanup (wb_dir wb) data_dir (Some install_dir) install_root))
      | Setup \<Rightarrow> run_setup_op wb env st data_dir
      | Start \<Rightarrow> run_start_op wb env st data_dir
      | Stop \<Rightarrow> run_stop_op wb env st)"

definition pg_worker_run :: "worker_bin \<Rightarrow> (string \<rightharpoonup> string) \<Rightarrow> string list \<Rightarrow> (worker_exit, unit) io" where
  "pg_worker_run wb env args =
     io_bind (io_map_err WorkerFailed
       (io_bind (io_of (parse_args args)) (\<lambda>(oper, cfg).
        io_bind (load_payload wb cfg) (\<lambda>payload.
        let st = into_settings (wp_settings payload) in
        io_bind (io_of (extract_utf8 (s_data_dir st))) (\<lambda>data_dir.
          io_ok (oper, payload, st, data_dir)))))) (\<lambda>(oper, payload, st, data_dir).
     case apply_worker_environment (wp_environment payload) env of
       None \<Rightarrow> io_err WorkerPanicked
     | Some env' \<Rightarrow> io_map_err WorkerFailed (run_operation wb env' oper st data_dir))"

section \<open>The worker does what it was asked to\<close>

lemma operation_parse_as_str: "operation_parse (worker_operation_as_str oper) = Inr oper"
  by (cases oper) (simp_all add: operation_parse_def Let_def, code_simp+)

lemma parse_args_command:
  assumes "configure_command we req t w = (Inr cmd, w')" and "is_utf8 (we_show_path we t)"
  shows "parse_args (cmd_program cmd # cmd_args cmd) = Inr (wr_operation req, we_show_path we t)"
proof -
  have "cmd_args cmd = [worker_operation_as_str (wr_operation req), we_show_path we t]"
    using assms(1)
    by (auto simp: configure_command_def apply_unix_def apply_privilege_drop_def configure_pre_exec_def io_ok_def elim!: io_bindE split: if_splits)
  then show ?thesis using assms(2) by (simp add: parse_args_def operation_parse_as_str res_bind_def from_path_buf_def)
qed

lemma written_payload:
  assumes "tempfile_ok (we_tempfile we)" and "write_payload we req w = (Inr t, w1)"
  shows "\<exists>payload bs. payload_new (wr_settings req) (wr_env_vars req) = Inr payload \<and>
    we_to_json we (serialize_payload (we_duration_secs we) payload) = Some bs \<and> file_contents w1 t = Some bs"
proof -
  from assms(2) obtain payload bs h w0 where p: "payload_new (wr_settings req) (wr_env_vars req) = Inr payload"
    and n: "named_new_in (we_tempfile we) (we_temp_dir we) w = (Inr (t, h), w0)" and j: "we_to_json we (serialize_payload (we_duration_secs we) payload) = Some bs"
    and a: "write_all_at t h bs w0 = (Inr (), w1)"
    by (auto simp: write_payload_def dropping_payload_def failing_def io_map_err_def io_match_def io_ok_def io_err_def io_of_def
        elim!: io_bindE split: prod.splits option.splits sum.splits)
  from assms(1) n obtain a where "h \<noteq> []" "resolve False (root w0) t = Inr h" "node_at (root w0) h = Some (File a [])"
    unfolding tempfile_ok_def by blast
  from write_all_at_contents [OF this(2,3,1) a] have "file_contents w1 t = Some bs" by simp
  with p j show ?thesis by blast
qed

lemma snapshot_utf8: "payload_new st env = Inr p \<Longrightarrow> is_utf8 (s_data_dir st)"
  by (auto simp: payload_new_def snapshot_try_from_def utf8_or_def from_path_buf_def res_bind_def split: sum.splits if_splits option.splits)

text \<open>
  C12: the worker does what it was asked to. When the parent has written the payload and built the command, a
  worker started with that command's arguments, and reading what was written, runs the requested operation on
  the parent's settings, with the parent's variables set on top of its own environment. The timeout of the
  server travels as a whole number of seconds, so it arrives rounded; everything else arrives as it was.
\<close>

theorem worker_runs_request:
  assumes "\<And>payload bs. we_to_json we payload = Some bs \<Longrightarrow> wb_from_json wb bs = Some payload"
    and "tempfile_ok (we_tempfile we)" and "is_utf8 (we_show_path we t)"
    and "write_payload we req w = (Inr t, w1)" and "configure_command we req t w1 = (Inr cmd, w2)"
    and "file_contents w1 t = Some bs"
    and "io_bind (ambient_dir_and_path (wb_cap wb) (wb_dir wb) (path_components (we_show_path we t))) (\<lambda>(h, rel). wb_read wb h rel) v = (Inr bs, v')"
  shows "pg_worker_run wb env (cmd_program cmd # cmd_args cmd) v =
    (case apply_worker_environment (wr_env_vars req) env of
       None \<Rightarrow> (Inl WorkerPanicked, v')
     | Some env' \<Rightarrow> io_map_err WorkerFailed
         (run_operation wb env' (wr_operation req)
           ((wr_settings req)\<lparr>s_timeout := map_option (\<lambda>t. we_duration_secs we t * 1000) (s_timeout (wr_settings req))\<rparr>)
           (path_components (s_data_dir (wr_settings req)))) v')"
proof -
  from written_payload [OF assms(2,4)] assms(6) obtain payload where
    p: "payload_new (wr_settings req) (wr_env_vars req) = Inr payload"
    "we_to_json we (serialize_payload (we_duration_secs we) payload) = Some bs" by auto
  let ?read = "deserialize_payload (serialize_payload (we_duration_secs we) payload)"
  from assms(7) obtain h rel v0 where "ambient_dir_and_path (wb_cap wb) (wb_dir wb) (path_components (we_show_path we t)) v = (Inr (h, rel), v0)"
    "wb_read wb h rel v0 = (Inr bs, v')" by (auto elim!: io_bindE)
  then have l: "load_payload wb (we_show_path we t) v = (Inr ?read, v')"
    using assms(1) [OF p(2)] by (simp add: load_payload_def io_bind_def io_map_err_def io_ok_def)
  have st: "into_settings (wp_settings ?read) = wire_settings (we_duration_secs we) (wr_settings req)" "wp_environment ?read = wr_env_vars req"
    using wire_roundtrip [OF p(1)] by simp_all
  show ?thesis
    using parse_args_command [OF assms(5,3)] l st snapshot_utf8 [OF p(1)]
    by (simp add: pg_worker_run_def io_bind_def io_of_def io_map_err_def io_ok_def io_err_def extract_utf8_def Let_def
        wire_settings_def split: option.split)
qed

section \<open>Recovery\<close>

lemma link_free_prefix: "link_free r p \<Longrightarrow> prefix x p \<Longrightarrow> link_free r x"
  unfolding link_free_def by (metis prefix_order.trans set_mono_prefix subsetD)

text \<open>
  The directory handles of the worker: looking changes nothing, opening one reaches the directory its path
  leads to, and something that is there without links on the way is seen when no call fails.
\<close>

locale worker_dirs =
  fixes wb :: worker_bin
  assumes caps: "dir_caps (wb_cap wb)"
    and open_faults: "fault (snd (dc_open_ambient (wb_cap wb) p w)) = fault w"
    and exists_root: "root (snd (wb_exists wb h rel w)) = root w"
    and exists_sees: "no_faults w \<Longrightarrow> link_free (root w) (fs_path h rel) \<Longrightarrow> node_at (root w) (fs_path h rel) \<noteq> None \<Longrightarrow>
      fst (wb_exists wb h rel w)"
    and read_dir_root: "root (snd (wb_read_dir wb h rel w)) = root w"
begin

lemma ambient_quiet:
  assumes "ambient_dir_and_path (wb_cap wb) d cs w = (r, w')"
  shows "root w' = root w" and "fault w' = fault w"
proof -
  have q: "root v' = root v \<and> fault v' = fault v" if "dc_open_ambient (wb_cap wb) p v = (x, v')" for p v x v'
    using dir_caps.open_root [OF caps that] open_faults [of p v] that by auto
  show "root w' = root w" and "fault w' = fault w"
    using assms by (auto simp: ambient_dir_and_path_def io_bind_def io_ok_def dest!: q split: if_splits option.splits prod.splits sum.splits)
qed

lemma ambient_reaches:
  assumes "ambient_dir_and_path (wb_cap wb) (wb_dir wb) (ds @ [Normal n]) w = (Inr (h, rel), w')"
    and "link_free (root w) (fs_path (wb_dir wb) (ds @ [Normal n]))"
  shows "fs_path h (rel @ rest) = fs_path (wb_dir wb) (ds @ [Normal n] @ rest)"
proof -
  have o: "h = p" if "dc_open_ambient (wb_cap wb) p w = (Inr h, v)" "link_free (root w) p" for p v
    using dir_caps.open_dir [OF caps that(1)] resolve_link_free [OF that(2)] by blast
  have up: "link_free (root w) x" if "prefix x (fs_path (wb_dir wb) (ds @ [Normal n]))" for x
    using link_free_prefix [OF assms(2) that] .
  have par: "path_parent (ds @ [Normal n]) = Some ds" by simp
  show ?thesis
  proof (cases "is_absolute (ds @ [Normal n])")
    case True
    then have "dc_open_ambient (wb_cap wb) (fs_path (wb_dir wb) ds) w = (Inr h, w')" "rel = [Normal n]"
      using assms(1) par by (auto simp: ambient_dir_and_path_def io_ok_def elim!: io_bindE)
    moreover have "link_free (root w) (fs_path (wb_dir wb) ds)" by (rule up) simp
    ultimately have "h = fs_path (wb_dir wb) ds" "rel = [Normal n]" using o by blast+
    moreover have "is_absolute ds" using True by (cases ds) (auto simp: is_absolute_def split: component.splits)
    ultimately show ?thesis
      by (cases ds) (auto simp: fs_path_def is_absolute_def List.map_filter_def split: component.splits)
  next
    case False
    then have "dc_open_ambient (wb_cap wb) (wb_dir wb) w = (Inr h, w')" "rel = ds @ [Normal n]"
      using assms(1) by (auto simp: ambient_dir_and_path_def io_ok_def elim!: io_bindE)
    moreover have "link_free (root w) (wb_dir wb)" by (rule up) (use False in \<open>simp add: fs_path_def\<close>)
    ultimately have "h = wb_dir wb" "rel = ds @ [Normal n]" using o by blast+
    then show ?thesis by simp
  qed
qed

lemma valid_marker_seen:
  assumes "has_valid_data_dir wb (ds @ [Normal n]) w = (r, w')" and "no_faults w"
    and "link_free (root w) (fs_path (wb_dir wb) (ds @ [Normal n] @ PG_FILENODE_MAP_MARKER))"
    and "node_at (root w) (fs_path (wb_dir wb) (ds @ [Normal n] @ PG_FILENODE_MAP_MARKER)) \<noteq> None"
  shows "root w' = root w" and "r = Inr v \<Longrightarrow> v"
proof -
  obtain ra w1 where a: "ambient_dir_and_path (wb_cap wb) (wb_dir wb) (ds @ [Normal n]) w = (ra, w1)" by fastforce
  note q = ambient_quiet [OF a]
  have lf: "link_free (root w) (fs_path (wb_dir wb) (ds @ [Normal n]))"
  proof -
    have "prefix (fs_path (wb_dir wb) (ds @ [Normal n])) (fs_path (wb_dir wb) (ds @ [Normal n] @ PG_FILENODE_MAP_MARKER))"
      by (cases ds) (auto simp: fs_path_def is_absolute_def List.map_filter_def split: component.splits)
    then show ?thesis using link_free_prefix assms(3) by blast
  qed
  have seen: "fst (wb_exists wb h (rel @ PG_FILENODE_MAP_MARKER) w1)" if "ra = Inr (h, rel)" for h rel
    using ambient_reaches [OF a [unfolded that] lf, of PG_FILENODE_MAP_MARKER] q assms(2-4)
    by (intro exists_sees) (simp_all add: no_faults_def)
  show "root w' = root w" and "r = Inr v \<Longrightarrow> v"
    using assms(1) a q exists_root seen
    by (cases ra; auto simp: has_valid_data_dir_def io_bind_def io_lift_def split: prod.splits; metis fst_conv snd_conv)+
qed

lemma empty_check_quiet: "is_dir_empty wb p w = (r, w') \<Longrightarrow> root w' = root w"
proof -
  assume e: "is_dir_empty wb p w = (r, w')"
  obtain ra w1 where a: "ambient_dir_and_path (wb_cap wb) (wb_dir wb) p w = (ra, w1)" by fastforce
  have rd: "root v' = root v" if "wb_read_dir wb h rel v = (x, v')" for h rel v x v'
    using read_dir_root [of h rel v] that by simp
  show ?thesis using e a ambient_quiet(1) [OF a]
    by (cases ra) (auto simp: is_dir_empty_def io_bind_def io_ok_def dest!: rd split: prod.splits sum.splits)
qed

lemma recovery_keeps_valid:
  assumes "recover_invalid_data_dir wb (ds @ [Normal n]) w = (r, w')" and "no_faults w"
    and "link_free (root w) (fs_path (wb_dir wb) (ds @ [Normal n] @ PG_FILENODE_MAP_MARKER))"
    and "node_at (root w) (fs_path (wb_dir wb) (ds @ [Normal n] @ PG_FILENODE_MAP_MARKER)) \<noteq> None"
  shows "root w' = root w"
proof -
  obtain b w1 where e: "path_exists (fs_path (wb_dir wb) (ds @ [Normal n])) w = ((Inr b :: worker_error + bool), w1)"
    by (cases "metadata (fs_path (wb_dir wb) (ds @ [Normal n])) w") (auto simp: path_exists_def io_match_def io_ok_def)
  have w1: "root w1 = root w" "no_faults w1"
    using e assms(2) by (auto simp: path_exists_def io_match_def io_ok_def metadata_def syscall_def stat_node_def no_faults_def Let_def
        split: prod.splits sum.splits option.splits)
  obtain rv w2 where v: "has_valid_data_dir wb (ds @ [Normal n]) w1 = (rv, w2)" by fastforce
  note seen = valid_marker_seen [OF v w1(2), unfolded w1(1), OF assms(3,4)]
  obtain re w3 where em: "is_dir_empty wb (ds @ [Normal n]) w2 = (re, w3)" by fastforce
  show ?thesis
    using assms(1) e v em seen empty_check_quiet [OF em] w1(1)
    by (cases rv; cases re) (auto simp: recover_invalid_data_dir_def io_bind_def io_map_err_def io_ok_def split: if_splits)
qed

end

text \<open>
  C13: a data directory that was initialised is never wiped. When no call fails and no link leads elsewhere, the
  recovery that precedes a set-up leaves the file tree as it is if the marker that \<open>initdb\<close> writes is there.
\<close>

theorem initialised_data_kept:
  assumes "worker_dirs wb" and "no_faults w" and "path_file_name data_dir = Some n"
    and "link_free (root w) (fs_path (wb_dir wb) (data_dir @ PG_FILENODE_MAP_MARKER))"
    and "node_at (root w) (fs_path (wb_dir wb) (data_dir @ PG_FILENODE_MAP_MARKER)) \<noteq> None"
    and "recover_invalid_data_dir wb data_dir w = (r, w')"
  shows "root w' = root w"
proof -
  obtain ds where "data_dir = ds @ [Normal n]" using assms(3) by (auto simp: path_file_name_Some)
  then show ?thesis using worker_dirs.recovery_keeps_valid [OF assms(1) _ assms(2)] assms(4-6) by simp
qed

text \<open>The handles over the model's tree, and a server that always succeeds; a timeout of five seconds on the wire.\<close>

definition demo_wire :: worker_payload where
  "demo_wire = \<lparr>wp_settings = (case snapshot_try_from (demo_settings\<lparr>s_timeout := Some 5\<rparr>) of Inr s \<Rightarrow> s), wp_environment = []\<rparr>"

definition demo_worker_bin :: worker_bin where
  "demo_worker_bin =
     \<lparr>wb_cap = fs_dir_cap, wb_read = (\<lambda>h rel. io_bind (open_read (fs_path h rel)) (\<lambda>q w.
         case reads q w of (rs, w') \<Rightarrow> (case rs of Inr bs # _ \<Rightarrow> (Inr bs, w') | Inl e # _ \<Rightarrow> (Inl e, w') | [] \<Rightarrow> (Inr [], w')))),
      wb_exists = (\<lambda>h rel w. case metadata (fs_path h rel) w of (Inl _, w') \<Rightarrow> (False, w') | (Inr _, w') \<Rightarrow> (True, w')),
      wb_read_dir = (\<lambda>h rel. read_dir (fs_path h rel)), wb_remove_dir_all = (\<lambda>h rel. remove_dir_all (fs_path h rel)),
      wb_from_json = (\<lambda>_. Some demo_wire),
      wb_runtime = Inr (), wb_semver = demo_semver, wb_initdb = demo_initdb, wb_dir = [],
      wb_status = (\<lambda>_ w. (Stopped, w)), wb_setup = (\<lambda>_ st w. ((Inr (), st), w)), wb_start = (\<lambda>_ st w. ((Inr (), st), w)),
      wb_stop = (\<lambda>_ st w. ((Inr (), st), w)), wb_drop = (\<lambda>_ w. ((), w))\<rparr>"

interpretation demo_worker: worker_dirs demo_worker_bin
proof (rule worker_dirs.intro)
  show "dir_caps (wb_cap demo_worker_bin)" by (simp add: demo_worker_bin_def dirs.dir_caps_axioms)
  show "fault (snd (dc_open_ambient (wb_cap demo_worker_bin) p w)) = fault w" for p w
    by (simp add: demo_worker_bin_def fs_dir_cap_def fs_open_dir_def syscall_def Let_def fault_error_def split: option.split sum.split node.split)
  show "root (snd (wb_exists demo_worker_bin h rel w)) = root w" for h rel w
    by (auto simp: demo_worker_bin_def metadata_def syscall_def stat_node_def Let_def split: option.split sum.split prod.split)
  show "root (snd (wb_read_dir demo_worker_bin h rel w)) = root w" for h rel w
    by (auto simp: demo_worker_bin_def read_dir_def syscall_def stat_node_def Let_def split: option.split sum.split node.split)
  fix w h rel
  assume n: "no_faults w" and l: "link_free (root w) (fs_path h rel)" and "node_at (root w) (fs_path h rel) \<noteq> None"
  then obtain m where m: "node_at (root w) (fs_path h rel) = Some m" by blast
  have "resolve True (root w) (fs_path h rel) = Inr (fs_path h rel)"
    unfolding resolve_def using walk_present [of "root w" "[]" "fs_path h rel" m] l m by simp
  then show "fst (wb_exists demo_worker_bin h rel w)"
    using n m by (auto simp: demo_worker_bin_def metadata_def syscall_def stat_node_def no_faults_def Let_def)
qed

text \<open>An initialised data directory, with the marker and another file.\<close>

definition demo_data_world :: "(nat \<Rightarrow> (io_error_kind \<times> nat) option) \<Rightarrow> world" where
  "demo_data_world f =
     (let at = \<lparr>mode = 493, uid = 0, gid = 0\<rparr> in
      (Privileges.demo_tree [])\<lparr>fault := f, root := Dir at [(''d'', Dir at [(''base'', File at []),
        (''global'', Dir at [(''pg_filenode.map'', File at [])])])]\<rparr>)"

theorem initialised_data_kept_witness:
  "root (snd (recover_invalid_data_dir demo_worker_bin [RootDir, Normal ''d''] (demo_data_world (\<lambda>_. None)))) = root (demo_data_world (\<lambda>_. None))"
proof -
  let ?w = "demo_data_world (\<lambda>_. None)"
  have p: "fs_path (wb_dir demo_worker_bin) ([RootDir, Normal ''d''] @ PG_FILENODE_MAP_MARKER) = [''d'', ''global'', ''pg_filenode.map'']"
    by (simp add: PG_FILENODE_MAP_MARKER_def fs_path_def is_absolute_def List.map_filter_simps component_name_def)
  have "link_free (root ?w) [''d'', ''global'', ''pg_filenode.map'']" "node_at (root ?w) [''d'', ''global'', ''pg_filenode.map''] \<noteq> None"
    by (auto simp: link_free_def demo_data_world_def Let_def prefix_Cons)
  with initialised_data_kept [OF demo_worker.worker_dirs_axioms, of ?w "[RootDir, Normal ''d'']" "''d''"] p
  show ?thesis by (simp add: no_faults_def demo_data_world_def path_file_name_def Let_def) (metis prod.collapse)
qed

text \<open>
  Without that hypothesis it is not so: a failing look at the marker (here \<open>EACCES\<close> on the third call) counts as
  the marker missing, and the initialised directory is removed.
\<close>

lemma failed_look_wipes_data:
  "let w = demo_data_world ((\<lambda>_. None)(2 := Some (PermissionDenied, 0))) in
   case recover_invalid_data_dir demo_worker_bin [RootDir, Normal ''d''] w of
     (Inr _, w') \<Rightarrow> node_at (root w') [''d''] = None | _ \<Rightarrow> False"
  by code_simp

text \<open>The parent writes its payload and the worker reads it: a cleanup, with a timeout of 5400 milliseconds.\<close>

definition demo_cleanup :: worker_request where
  "demo_cleanup = demo_request\<lparr>wr_operation := Cleanup, wr_settings := demo_settings\<lparr>s_timeout := Some 5400\<rparr>\<rparr>"

definition demo_shower :: worker_env where
  "demo_shower = demo_worker_env\<lparr>we_show_path := (\<lambda>p. concat (map (\<lambda>n. ''/'' @ n) p))\<rparr>"

definition demo_parent :: worker_env where
  "demo_parent = demo_shower\<lparr>we_to_json := (\<lambda>p. if p = demo_wire then Some [123, 125] else None)\<rparr>"

lemma demo_parent_configures: "configure_command demo_parent = configure_command demo_shower"
  by (simp add: fun_eq_iff configure_command_def apply_unix_def apply_privilege_drop_def resolve_nobody_ids_def demo_parent_def)

lemma snapshot_timeout: "snapshot_try_from st = Inr s \<Longrightarrow> snapshot_try_from (st\<lparr>s_timeout := x\<rparr>) = Inr (s\<lparr>snap_timeout_secs := x\<rparr>)"
  by (auto simp: snapshot_try_from_def res_bind_def split: sum.splits)

lemma demo_parent_writes: "write_payload demo_parent demo_cleanup = write_payload demo_worker_env demo_cleanup"
proof -
  have "case snapshot_try_from demo_settings of Inr _ \<Rightarrow> True | Inl _ \<Rightarrow> False" by code_simp
  then obtain s where s: "snapshot_try_from demo_settings = Inr s" by (auto split: sum.splits)
  then have s': "snapshot_try_from (demo_settings\<lparr>s_timeout := x\<rparr>) = Inr (s\<lparr>snap_timeout_secs := x\<rparr>)" for x
    by (rule snapshot_timeout)
  have "wr_settings demo_cleanup = demo_settings\<lparr>s_timeout := Some 5400\<rparr>" "wr_env_vars demo_cleanup = []"
    by (simp_all add: demo_cleanup_def demo_request_def)
  then have "payload_new (wr_settings demo_cleanup) (wr_env_vars demo_cleanup) =
      Inr \<lparr>wp_settings = s\<lparr>snap_timeout_secs := Some 5400\<rparr>, wp_environment = []\<rparr>"
    using s' by (simp add: payload_new_def res_bind_def)
  then show ?thesis
    unfolding write_payload_def
    by (simp add: demo_parent_def demo_shower_def demo_worker_env_def demo_wire_def serialize_payload_def s' io_of_def fun_eq_iff io_bind_def
        dropping_payload_def cong: option.case_cong)
qed

definition demo_written :: world where "demo_written = snd (write_payload demo_worker_env demo_cleanup demo_worker_world)"
definition demo_ready :: world where "demo_ready = snd (configure_command demo_shower demo_cleanup [''tmp'', ''.tmp''] demo_written)"

lemma demo_handover:
  "fst (write_payload demo_worker_env demo_cleanup demo_worker_world) = Inr [''tmp'', ''.tmp'']"
  "fst (configure_command demo_shower demo_cleanup [''tmp'', ''.tmp''] demo_written) =
     Inr \<lparr>cmd_program = ''/srv/pg_worker'', cmd_args = [''cleanup'', ''/tmp/.tmp''], cmd_pre_exec = [SetGroups [], SetGid 65534, SetUid 65534]\<rparr>"
  "file_contents demo_written [''tmp'', ''.tmp''] = Some [123, 125]"
  "fst (io_bind (ambient_dir_and_path (wb_cap demo_worker_bin) (wb_dir demo_worker_bin) (path_components ''/tmp/.tmp''))
     (\<lambda>(h, rel). wb_read demo_worker_bin h rel) demo_ready) = Inr [123, 125]"
  by code_simp+

theorem worker_runs_request_witness:
  "\<exists>v'. pg_worker_run demo_worker_bin Map.empty [''/srv/pg_worker'', ''cleanup'', ''/tmp/.tmp''] demo_ready =
     io_map_err WorkerFailed (run_operation demo_worker_bin Map.empty Cleanup (demo_settings\<lparr>s_timeout := Some 5000\<rparr>)
       (path_components (s_data_dir demo_settings))) v'"
proof -
  obtain v' where v': "io_bind (ambient_dir_and_path (wb_cap demo_worker_bin) (wb_dir demo_worker_bin) (path_components ''/tmp/.tmp''))
     (\<lambda>(h, rel). wb_read demo_worker_bin h rel) demo_ready = (Inr [123, 125], v')"
    using demo_handover(4) by (metis prod.collapse)
  have s: "we_show_path demo_parent [''tmp'', ''.tmp''] = ''/tmp/.tmp''" "is_utf8 ''/tmp/.tmp''" "tempfile_ok (we_tempfile demo_parent)"
    by (simp add: demo_parent_def demo_shower_def, code_simp, simp add: demo_parent_def demo_shower_def demo_worker_env_def std_tempfile_ok)
  have codec: "wb_from_json demo_worker_bin bs = Some payload" if "we_to_json demo_parent payload = Some bs" for payload bs
    using that by (simp add: demo_parent_def demo_worker_bin_def split: if_splits)
  have w: "write_payload demo_parent demo_cleanup demo_worker_world = (Inr [''tmp'', ''.tmp''], demo_written)"
    unfolding demo_parent_writes demo_written_def using demo_handover(1) by (metis prod.collapse)
  have c: "configure_command demo_parent demo_cleanup [''tmp'', ''.tmp''] demo_written = (Inr \<lparr>cmd_program = ''/srv/pg_worker'',
      cmd_args = [''cleanup'', ''/tmp/.tmp''], cmd_pre_exec = [SetGroups [], SetGid 65534, SetUid 65534]\<rparr>, demo_ready)"
    unfolding demo_ready_def demo_parent_configures using demo_handover(2) by (metis prod.collapse)
  have "pg_worker_run demo_worker_bin Map.empty [''/srv/pg_worker'', ''cleanup'', ''/tmp/.tmp''] demo_ready =
    (case apply_worker_environment (wr_env_vars demo_cleanup) Map.empty of
       None \<Rightarrow> (Inl WorkerPanicked, v')
     | Some env' \<Rightarrow> io_map_err WorkerFailed (run_operation demo_worker_bin env' (wr_operation demo_cleanup)
         ((wr_settings demo_cleanup)\<lparr>s_timeout := map_option (\<lambda>t. we_duration_secs demo_parent t * 1000) (s_timeout (wr_settings demo_cleanup))\<rparr>)
         (path_components (s_data_dir (wr_settings demo_cleanup)))) v')"
    using worker_runs_request [OF codec s(3) _ w c demo_handover(3), of demo_ready v' Map.empty] s(1,2) v' by simp
  then show ?thesis by (auto simp: demo_cleanup_def demo_request_def demo_parent_def demo_shower_def demo_worker_env_def)
qed

end
