(* ===== verification/Shutdown.thy ===== *)
theory Shutdown
  imports StartupLock Bootstrap
begin

text \<open>
  The guard of a running cluster and its end (\<open>cluster/mod.rs\<close>, \<open>guard.rs\<close>, \<open>runtime_mode.rs\<close>, \<open>shutdown.rs\<close>,
  \<open>async_api.rs\<close> and the worker-managed part of \<open>cleanup.rs\<close>): how a guard comes out of a start, what dropping it
  does, on a runtime of its own or on the caller's, and the explicit asynchronous stop. The scoped environment
  that a guard also holds is left out here: \<open>ScopedEnv\<close> has it. A task that is spawned on the caller's runtime is a value: the
  computation that the runtime will run.
\<close>

section \<open>Parameters\<close>

text \<open>
  \<open>PostgreSQL::stop\<close>, the time limit, the answers of \<open>build_runtime\<close> and of \<open>Handle::try_current\<close>. What becomes of a
  server whose stop was given up on is the limit's.
\<close>

record shutdown_env =
  sd_fs4 :: fs4_crate
  sd_os :: os
  sd_worker :: worker_env
  sd_limit :: time_limit
  sd_stop :: "settings \<Rightarrow> server_op"
  sd_runtime :: "bootstrap_error + unit"
  sd_handle :: bool

section \<open>The guard\<close>

datatype cluster_runtime = SyncRuntime | AsyncRuntime

definition is_async :: "cluster_runtime \<Rightarrow> bool" where
  "is_async rt = (rt = AsyncRuntime)"

record cluster_guard =
  g_runtime :: cluster_runtime
  g_postgres :: "settings option"
  g_bootstrap :: test_bootstrap_settings
  g_managed :: bool
  g_env_vars :: "(string \<times> string option) list"

definition with_cleanup_mode :: "cleanup_mode \<Rightarrow> cluster_guard \<Rightarrow> cluster_guard" where
  "with_cleanup_mode m g = g\<lparr>g_bootstrap := (g_bootstrap g)\<lparr>tb_cleanup_mode := m\<rparr>\<rparr>"

text \<open>The handle keeps a copy of the bootstrap; the guard owns the server.\<close>

definition split_outcome ::
  "cluster_runtime \<Rightarrow> (string \<times> string option) list \<Rightarrow> startup_outcome \<Rightarrow> test_bootstrap_settings \<times> cluster_guard" where
  "split_outcome rt env_vars outcome =
     (out_bootstrap outcome,
      \<lparr>g_runtime = rt, g_postgres = out_postgres outcome, g_bootstrap = out_bootstrap outcome,
       g_managed = out_managed outcome, g_env_vars = env_vars\<rparr>)"

definition new_split ::
  "boot_env \<Rightarrow> boot_libs \<Rightarrow> startup_env \<Rightarrow> shutdown_env \<Rightarrow> (bootstrap_error, test_bootstrap_settings \<times> cluster_guard) io" where
  "new_split be libs se sd =
     io_bind (bootstrap_for_tests be libs) (\<lambda>initial.
     let cfg = cache_config_from_bootstrap se initial in
     io_bind (io_of (sd_runtime sd)) (\<lambda>_.
     let env_vars = to_env (tb_environment initial) in
     io_bind (start_postgres se initial env_vars cfg) (\<lambda>outcome.
       io_ok (split_outcome SyncRuntime env_vars outcome))))"

definition start_async_split ::
  "boot_env \<Rightarrow> boot_libs \<Rightarrow> startup_env \<Rightarrow> (bootstrap_error, test_bootstrap_settings \<times> cluster_guard) io" where
  "start_async_split be libs se =
     io_bind (bootstrap_for_tests be libs) (\<lambda>initial.
     let cfg = cache_config_from_bootstrap se initial; env_vars = to_env (tb_environment initial) in
     io_bind (start_postgres_async se initial env_vars cfg) (\<lambda>outcome.
       io_ok (split_outcome AsyncRuntime env_vars outcome)))"

section \<open>Stopping\<close>

definition cleanup_worker_managed_with_runtime ::
  "shutdown_env \<Rightarrow> test_bootstrap_settings \<Rightarrow> (string \<times> string option) list \<Rightarrow> (bootstrap_error, unit) io" where
  "cleanup_worker_managed_with_runtime sd b env_vars w =
     io_bind (release_watcher (sd_os sd) (path_components (s_data_dir (tb_settings b)))) (\<lambda>_.
     io_bind (plan_cleanup (sd_fs4 sd) (cwd w) (tb_cleanup_mode b) (tb_settings b)) (\<lambda>plan.
       case cleanup_operation (plan_mode plan) of
         None \<Rightarrow> io_ok ()
       | Some operation \<Rightarrow> io_match (execute_root_operation (sd_worker sd) b env_vars operation) (\<lambda>_. io_ok ()))) w"

definition stop_worker_managed_with_runtime ::
  "shutdown_env \<Rightarrow> test_bootstrap_settings \<Rightarrow> (string \<times> string option) list \<Rightarrow> (bootstrap_error, unit) io" where
  "stop_worker_managed_with_runtime sd b env_vars =
     io_match (execute_root_operation (sd_worker sd) b env_vars Stop) (\<lambda>result.
       case result of
         Inl err \<Rightarrow> io_err err
       | Inr _ \<Rightarrow>
           io_match (cleanup_worker_managed_with_runtime sd b env_vars) (\<lambda>_.
           io_match (cleanup_in_process (sd_fs4 sd) (sd_os sd) (tb_cleanup_mode b) (tb_settings b)) (\<lambda>_.
             io_ok ())))"

text \<open>\<open>time::timeout(timeout, postgres.stop())\<close>: \<open>None\<close> when the time ran out.\<close>

definition stop_with_timeout ::
  "shutdown_env \<Rightarrow> nat \<Rightarrow> settings \<Rightarrow> (bootstrap_error, (embedded_error + unit) option) io" where
  "stop_with_timeout sd t pg w =
     (case sd_limit sd t (sd_stop sd pg) w of (r, w') \<Rightarrow> (Inr (map_option fst r), w'))"

definition drop_sync_cluster ::
  "shutdown_env \<Rightarrow> bool \<Rightarrow> settings option \<Rightarrow> test_bootstrap_settings \<Rightarrow> (string \<times> string option) list \<Rightarrow> (bootstrap_error, unit) io" where
  "drop_sync_cluster sd managed postgres b env_vars =
     (if managed then io_match (stop_worker_managed_with_runtime sd b env_vars) (\<lambda>_. io_ok ())
      else
        io_bind (case postgres of
                   None \<Rightarrow> io_ok False
                 | Some pg \<Rightarrow>
                     io_bind (stop_with_timeout sd (tb_shutdown_timeout b) pg) (\<lambda>outcome.
                       io_ok (case outcome of Some (Inr _) \<Rightarrow> True | Some (Inl _) \<Rightarrow> False | None \<Rightarrow> False))) (\<lambda>is_stop_ok.
          if is_stop_ok
          then io_match (cleanup_in_process (sd_fs4 sd) (sd_os sd) (tb_cleanup_mode b) (tb_settings b)) (\<lambda>_. io_ok ())
          else io_ok ()))"

subsection \<open>On the caller's runtime\<close>

type_synonym task = "(bootstrap_error, unit) io"

definition stop_via_worker_sync ::
  "shutdown_env \<Rightarrow> test_bootstrap_settings \<Rightarrow> (string \<times> string option) list \<Rightarrow> (bootstrap_error, unit) io" where
  "stop_via_worker_sync sd b env_vars =
     io_bind (io_of (sd_runtime sd)) (\<lambda>_. stop_worker_managed_with_runtime sd b env_vars)"

text \<open>The blocking task does not panic, so its join error does not arise.\<close>

definition stop_worker_managed_async ::
  "shutdown_env \<Rightarrow> test_bootstrap_settings \<Rightarrow> (string \<times> string option) list \<Rightarrow> (bootstrap_error, unit) io" where
  "stop_worker_managed_async sd b env_vars = stop_via_worker_sync sd b env_vars"

definition stop_in_process_async ::
  "shutdown_env \<Rightarrow> settings \<Rightarrow> nat \<Rightarrow> cleanup_mode \<Rightarrow> settings \<Rightarrow> (bootstrap_error, unit) io" where
  "stop_in_process_async sd postgres t m st =
     io_bind (stop_with_timeout sd t postgres) (\<lambda>outcome.
       let result = (case outcome of
                       Some (Inr _) \<Rightarrow> Inr ()
                     | Some (Inl _) \<Rightarrow> Inl (extension_error Other)
                     | None \<Rightarrow> Inl (extension_error Other)) in
       if \<not> isl result
       then io_match (cleanup_in_process (sd_fs4 sd) (sd_os sd) m st) (\<lambda>_. io_of result)
       else io_of result)"

definition worker_stop_sync :: "shutdown_env \<Rightarrow> test_bootstrap_settings \<Rightarrow> (string \<times> string option) list \<Rightarrow> task" where
  "worker_stop_sync sd b env_vars =
     (case sd_runtime sd of
        Inl _ \<Rightarrow> io_ok ()
      | Inr _ \<Rightarrow> io_match (stop_worker_managed_with_runtime sd b env_vars) (\<lambda>_. io_ok ()))"

definition spawn_worker_stop_task :: "shutdown_env \<Rightarrow> test_bootstrap_settings \<Rightarrow> (string \<times> string option) list \<Rightarrow> task" where
  "spawn_worker_stop_task sd b env_vars = worker_stop_sync sd b env_vars"

definition drop_async_worker_managed ::
  "shutdown_env \<Rightarrow> test_bootstrap_settings \<Rightarrow> (string \<times> string option) list \<Rightarrow> task option" where
  "drop_async_worker_managed sd b env_vars =
     (if sd_handle sd then Some (spawn_worker_stop_task sd b env_vars) else None)"

definition spawn_async_cleanup :: "shutdown_env \<Rightarrow> settings \<Rightarrow> nat \<Rightarrow> cleanup_mode \<Rightarrow> settings \<Rightarrow> task" where
  "spawn_async_cleanup sd postgres t m st =
     io_bind (stop_with_timeout sd t postgres) (\<lambda>outcome.
       case outcome of
         Some (Inr _) \<Rightarrow> io_match (cleanup_in_process (sd_fs4 sd) (sd_os sd) m st) (\<lambda>_. io_ok ())
       | Some (Inl _) \<Rightarrow> io_ok ()
       | None \<Rightarrow> io_ok ())"

definition drop_async_in_process :: "shutdown_env \<Rightarrow> nat \<Rightarrow> cleanup_mode \<Rightarrow> settings \<Rightarrow> settings \<Rightarrow> task option" where
  "drop_async_in_process sd t m st postgres =
     (if sd_handle sd then Some (spawn_async_cleanup sd postgres t m st) else None)"

definition drop_async_cluster ::
  "shutdown_env \<Rightarrow> bool \<Rightarrow> settings option \<Rightarrow> test_bootstrap_settings \<Rightarrow> (string \<times> string option) list \<Rightarrow> task option" where
  "drop_async_cluster sd managed postgres b env_vars =
     (if managed then drop_async_worker_managed sd b env_vars
      else (case postgres of
              Some pg \<Rightarrow> drop_async_in_process sd (tb_shutdown_timeout b) (tb_cleanup_mode b) (tb_settings b) pg
            | None \<Rightarrow> None))"

subsection \<open>Dropping the guard\<close>

definition should_skip_shutdown :: "cluster_guard \<Rightarrow> bool" where
  "should_skip_shutdown g = (g_postgres g = None \<and> \<not> g_managed g)"

definition guard_drop_sync_cluster :: "shutdown_env \<Rightarrow> cluster_guard \<Rightarrow> (bootstrap_error, unit) io" where
  "guard_drop_sync_cluster sd g =
     (case g_runtime g of
        AsyncRuntime \<Rightarrow> io_ok ()
      | SyncRuntime \<Rightarrow> drop_sync_cluster sd (g_managed g) (g_postgres g) (g_bootstrap g) (g_env_vars g))"

definition guard_drop_async_cluster :: "shutdown_env \<Rightarrow> cluster_guard \<Rightarrow> task option" where
  "guard_drop_async_cluster sd g = drop_async_cluster sd (g_managed g) (g_postgres g) (g_bootstrap g) (g_env_vars g)"

definition perform_shutdown :: "shutdown_env \<Rightarrow> cluster_guard \<Rightarrow> (bootstrap_error, task option) io" where
  "perform_shutdown sd g =
     (if is_async (g_runtime g) then io_ok (guard_drop_async_cluster sd g)
      else io_bind (guard_drop_sync_cluster sd g) (\<lambda>_. io_ok None))"

definition guard_drop :: "shutdown_env \<Rightarrow> cluster_guard \<Rightarrow> (bootstrap_error, task option) io" where
  "guard_drop sd g = (if should_skip_shutdown g then io_ok None else perform_shutdown sd g)"

subsection \<open>The explicit stop\<close>

datatype stop_async_path = WorkerManaged | InProcessStop settings | Noop

definition take_stop_path :: "cluster_guard \<Rightarrow> stop_async_path \<times> cluster_guard" where
  "take_stop_path g =
     (if g_managed g then (WorkerManaged, g)
      else (case g_postgres g of
              Some postgres \<Rightarrow> (InProcessStop postgres, g\<lparr>g_postgres := None\<rparr>)
            | None \<Rightarrow> (Noop, g)))"

text \<open>The guard is dropped when the call returns; with the result comes the task that the drop spawned.\<close>

definition stop_async ::
  "shutdown_env \<Rightarrow> cluster_guard \<Rightarrow> (bootstrap_error, (bootstrap_error + unit) \<times> task option) io" where
  "stop_async sd g =
     (case take_stop_path g of (path, g') \<Rightarrow>
        io_match (case path of
                    WorkerManaged \<Rightarrow> stop_worker_managed_async sd (g_bootstrap g') (g_env_vars g')
                  | InProcessStop postgres \<Rightarrow>
                      stop_in_process_async sd postgres (tb_shutdown_timeout (g_bootstrap g'))
                        (tb_cleanup_mode (g_bootstrap g')) (tb_settings (g_bootstrap g'))
                  | Noop \<Rightarrow> io_ok ()) (\<lambda>result.
        io_bind (guard_drop sd g') (\<lambda>spawned. io_ok (result, spawned))))"

section \<open>Properties\<close>

subsection \<open>The guard of a started cluster\<close>

text \<open>What a computation returns when it returns normally.\<close>

definition yields :: "('e, 'a) io \<Rightarrow> ('a \<Rightarrow> bool) \<Rightarrow> bool" where
  "yields m Q \<longleftrightarrow> (\<forall>w x w'. m w = (Inr x, w') \<longrightarrow> Q x)"

lemma yieldsD: "yields m Q \<Longrightarrow> m w = (Inr x, w') \<Longrightarrow> Q x"
  unfolding yields_def by blast

lemma yields_ok: "Q x \<Longrightarrow> yields (io_ok x) Q"
  by (simp add: yields_def io_ok_def)

lemma yields_err: "yields (io_err e) Q"
  by (simp add: yields_def io_err_def)

lemma yields_any: "yields m (\<lambda>_. True)"
  by (simp add: yields_def)

lemma yields_bind:
  assumes "yields m P" and "\<And>x. P x \<Longrightarrow> yields (f x) Q"
  shows "yields (io_bind m f) Q"
  unfolding yields_def
proof (intro allI impI)
  fix w y w'
  assume "io_bind m f w = (Inr y, w')"
  then obtain x w1 where "m w = (Inr x, w1)" "f x w1 = (Inr y, w')" by (auto simp: io_bind_def split: prod.splits sum.splits)
  then show "Q y" using assms yieldsD by metis
qed

lemma yields_match: "(\<And>r. yields (k r) Q) \<Longrightarrow> yields (io_match m k) Q"
  unfolding yields_def io_match_def by (auto split: prod.splits)

lemma yields_of: "(\<And>x. r = Inr x \<Longrightarrow> Q x) \<Longrightarrow> yields (io_of r) Q"
  by (auto simp: yields_def io_of_def)

lemma yields_holding: "yields m Q \<Longrightarrow> yields (holding lk m) Q"
  unfolding holding_def yields_def
  by (auto simp: io_match_def io_bind_def io_of_def split: prod.splits sum.splits)

text \<open>A start changes the settings and the list of installed extensions, and nothing else of a bootstrap.\<close>

definition kept :: "test_bootstrap_settings \<Rightarrow> test_bootstrap_settings \<Rightarrow> bool" where
  "kept b b' \<longleftrightarrow> b' = b\<lparr>tb_settings := tb_settings b', tb_installed_extensions := tb_installed_extensions b'\<rparr>"

lemma kept_refl [simp]: "kept b b"
  by (simp add: kept_def)

lemma kept_updates [simp]:
  "kept b (b'\<lparr>tb_settings := st\<rparr>) = kept b b'" "kept b (b'\<lparr>tb_installed_extensions := xs\<rparr>) = kept b b'"
  by (cases b; cases b'; simp add: kept_def)+

lemma kept_privileges: "kept b b' \<Longrightarrow> tb_privileges b' = tb_privileges b"
  unfolding kept_def by (metis test_bootstrap_settings.select_convs(1) test_bootstrap_settings.surjective test_bootstrap_settings.update_convs(3,12))

lemma yields_cache: "yields (try_use_binary_cache sl flock dir cfg req b) (\<lambda>(_, b'). kept b b')"
proof -
  have "yields (apply_cached_binaries sl dir src version b) (\<lambda>(_, b'). kept b b')" for src version
    unfolding apply_cached_binaries_def
    by (rule yields_bind [OF yields_any]) (auto intro!: yields_ok split: prod.splits option.split)
  then show ?thesis
    unfolding try_use_binary_cache_def Let_def
    by (auto intro!: yields_bind [OF yields_any] yields_match yields_ok split: option.split sum.split cache_lookup_result.split)
qed

lemma yields_refresh:
  assumes "kept b0 b"
  shows "yields (refresh_worker_installation_dir sl dir b) (kept b0)" "yields (refresh_worker_port os dir b) (kept b0)"
  unfolding refresh_worker_installation_dir_def refresh_worker_port_def using assms
  by (auto intro!: yields_bind [OF yields_any] yields_ok split: option.split)

lemma yields_refresh_async: "kept b0 b \<Longrightarrow> yields (refresh_worker_port_async se b) (kept b0)"
  unfolding refresh_worker_port_async_def by (auto intro!: yields_bind [OF yields_any] yields_ok split: option.split)

lemma yields_post_setup: "kept b0 b \<Longrightarrow> yields (run_post_setup se post b) (kept b0)"
  unfolding run_post_setup_def
  by (rule yields_bind [OF yields_refresh(1)], assumption)
    (auto intro!: yields_bind [OF yields_any] yields_ok yields_holding split: option.split)

lemma yields_post_setup_async: "kept b0 b \<Longrightarrow> yields (run_post_setup_async se post b) (kept b0)"
  unfolding run_post_setup_async_def
  by (rule yields_bind [OF yields_refresh(1)], assumption)
    (auto intro!: yields_bind [OF yields_any] yields_ok yields_holding split: option.split)

lemma yields_steps:
  assumes "yields hook (kept b0)" and "\<And>b1. kept b0 b1 \<Longrightarrow> yields (refresh b1) (kept b0)" and "\<And>x b2. kept b0 b2 \<Longrightarrow> yields (g x b2) Q"
  shows "yields (io_bind m1 (\<lambda>y. io_bind hook (\<lambda>b1. io_bind (m2 y b1) (\<lambda>x. io_bind (refresh b1) (g x))))) Q"
proof (rule yields_bind [OF yields_any], rule yields_bind [OF assms(1)], rule yields_bind [OF yields_any])
  fix y b1 x
  assume "kept b0 b1"
  show "yields (io_bind (refresh b1) (g x)) Q"
    by (rule yields_bind [OF assms(2) [OF \<open>kept b0 b1\<close>]]) (rule assms(3))
qed

lemma yields_lifecycle: "kept b0 b \<Longrightarrow> yields (run_lifecycle_steps se post dispatch b st) (\<lambda>(b', _). kept b0 b')"
  unfolding run_lifecycle_steps_def by (rule yields_steps) (auto intro: yields_ok yields_post_setup yields_refresh)

text \<open>
  A well-formed outcome of a start: it is managed by the worker exactly for root, has a server of its own exactly
  when it is not, and then holds that server's settings.
\<close>

definition formed :: "test_bootstrap_settings \<Rightarrow> settings option \<Rightarrow> bool \<Rightarrow> bool" where
  "formed b postgres managed \<longleftrightarrow>
     (managed \<longleftrightarrow> tb_privileges b = Root) \<and> postgres = (if managed then None else Some (tb_settings b))"

definition outcome_formed :: "test_bootstrap_settings \<Rightarrow> startup_outcome \<Rightarrow> bool" where
  "outcome_formed b0 out \<longleftrightarrow> kept b0 (out_bootstrap out) \<and> formed (out_bootstrap out) (out_postgres out) (out_managed out)"

lemma yields_handle_lifecycle: "kept b0 b \<Longrightarrow> yields (handle_privilege_lifecycle se env_vars post b) (outcome_formed b0)"
  unfolding handle_privilege_lifecycle_def
  by (auto intro!: yields_bind [OF yields_lifecycle] yields_ok
      simp: outcome_formed_def formed_def prepare_postgres_handle_def kept_privileges split: prod.splits)

lemma yields_async_lifecycle: "kept b0 b \<Longrightarrow> yields (async_lifecycle se env_vars post b) (outcome_formed b0)"
proof -
  assume k: "kept b0 b"
  have r: "yields (invoke_lifecycle_root_async se env_vars post b) (kept b0)"
    unfolding invoke_lifecycle_root_async_def using k
    by (intro yields_bind [OF yields_any] yields_bind [OF yields_post_setup_async] yields_refresh_async)
  have u: "yields (invoke_lifecycle_async se env_vars post b st) (\<lambda>(b', _). kept b0 b')" for st
    unfolding invoke_lifecycle_async_def
    by (rule yields_steps [OF yields_post_setup_async [OF k] yields_refresh_async]) (auto intro: yields_ok)
  show ?thesis unfolding async_lifecycle_def using k
    by (auto intro!: yields_bind [OF r] yields_bind [OF u] yields_ok
        simp: outcome_formed_def formed_def prepare_postgres_handle_def kept_privileges split: prod.splits)
qed

lemma yields_started:
  assumes "\<And>post b'. kept b b' \<Longrightarrow> yields (lifecycle post b') (outcome_formed b)"
  shows "yields (io_bind (io_of (install_root b)) (\<lambda>dir. io_bind (taking dir) (\<lambda>lock.
     io_bind (try_use_binary_cache sl fl d cfg req b) (\<lambda>(cache_hit, b1).
     io_bind (after_cache_lookup lock cache_hit dir) (\<lambda>(kept, il). holding kept
       (io_bind (watch_for_owner_death se b1) (\<lambda>_.
        io_match (lifecycle \<lparr>post_cache = cfg, post_hit = cache_hit, post_lock = il\<rparr> b1) (\<lambda>r.
          case r of Inl e \<Rightarrow> io_bind (release_owner_watcher se b1) (\<lambda>_. io_err (mark cache_hit b1 e)) | Inr outcome \<Rightarrow> io_ok outcome))))))))
     (outcome_formed b)"
proof -
  have "yields (io_match (lifecycle post b') (\<lambda>r. case r of Inl e \<Rightarrow> io_bind (release_owner_watcher se b') (\<lambda>_. io_err (mark h b' e)) | Inr outcome \<Rightarrow> io_ok outcome))
      (outcome_formed b)" if "kept b b'" for post b' h
    using assms [OF that, of post] unfolding yields_def io_match_def
    by (auto simp: io_bind_def io_err_def io_ok_def split: prod.splits sum.splits)
  then show ?thesis
    by (auto intro!: yields_bind [OF yields_any] yields_bind [OF yields_cache] yields_holding split: prod.splits)
qed

lemma yields_start:
  "yields (start_postgres se b env_vars cfg) (outcome_formed b)" "yields (start_postgres_async se b env_vars cfg) (outcome_formed b)"
  unfolding start_postgres_def start_postgres_async_def Let_def
  by (rule yields_started [where lifecycle = "handle_privilege_lifecycle se env_vars"], rule yields_handle_lifecycle, assumption)
    (rule yields_started [where lifecycle = "async_lifecycle se env_vars" and mark = "\<lambda>_ _ e. e"], rule yields_async_lifecycle)

lemma split_formed:
  assumes "outcome_formed b0 out" and "split_outcome rt env_vars out = (handle, g)"
  shows "kept b0 (g_bootstrap g) \<and> formed (g_bootstrap g) (g_postgres g) (g_managed g) \<and> handle = g_bootstrap g \<and>
    g_runtime g = rt \<and> g_env_vars g = env_vars"
  using assms by (auto simp: split_outcome_def outcome_formed_def)

text \<open>The handle and the guard of a start, against the bootstrap it began with.\<close>

definition guard_formed :: "cluster_runtime \<Rightarrow> test_bootstrap_settings \<times> cluster_guard \<Rightarrow> bool" where
  "guard_formed rt x \<longleftrightarrow>
     (case x of (handle, g) \<Rightarrow>
        formed (g_bootstrap g) (g_postgres g) (g_managed g) \<and> handle = g_bootstrap g \<and> g_runtime g = rt \<and>
        g_env_vars g = to_env (tb_environment (g_bootstrap g)) \<and> \<not> should_skip_shutdown g)"

lemma kept_environment: "kept b b' \<Longrightarrow> tb_environment b' = tb_environment b"
  unfolding kept_def by (metis test_bootstrap_settings.select_convs(4) test_bootstrap_settings.surjective test_bootstrap_settings.update_convs(3,12))

lemma split_guard_formed:
  assumes "outcome_formed b0 out"
  shows "guard_formed rt (split_outcome rt (to_env (tb_environment b0)) out)"
  using assms kept_environment
  by (auto simp: guard_formed_def split_outcome_def outcome_formed_def formed_def should_skip_shutdown_def)

text \<open>
  C23: a started cluster comes with a guard that will stop it. Whatever the bootstrap, the cache and the calls do,
  when \<open>new_split\<close> or \<open>start_async_split\<close> returns a cluster, its guard is well formed: it goes through the worker
  exactly for root, owns an in-process server exactly otherwise, and then cleans up with that server's settings;
  it has the runtime mode of its constructor and the variables of its bootstrap; the handle shows the same
  bootstrap; and dropping the guard does not skip the shutdown.
\<close>

theorem started_guard_formed:
  "yields (new_split be libs se sd) (guard_formed SyncRuntime) \<and>
   yields (start_async_split be libs se) (guard_formed AsyncRuntime)"
proof
  show "yields (new_split be libs se sd) (guard_formed SyncRuntime)"
    unfolding new_split_def Let_def
    by (rule yields_bind [OF yields_any], rule yields_bind [OF yields_any], rule yields_bind [OF yields_start(1)])
      (auto intro: yields_ok split_guard_formed)
  show "yields (start_async_split be libs se) (guard_formed AsyncRuntime)"
    unfolding start_async_split_def Let_def
    by (rule yields_bind [OF yields_any], rule yields_bind [OF yields_start(2)])
      (auto intro: yields_ok split_guard_formed)
qed

subsection \<open>One specification of stopping\<close>

text \<open>
  The contract of a shutdown: the server is stopped, by the worker or in process within the time limit, and
  whether it stopped is known; and only then is anything removed.
\<close>

definition stop_server :: "shutdown_env \<Rightarrow> cluster_guard \<Rightarrow> (bootstrap_error, bool) io" where
  "stop_server sd g =
     (if g_managed g
      then io_match (execute_root_operation (sd_worker sd) (g_bootstrap g) (g_env_vars g) Stop) (\<lambda>r. io_ok (r = Inr ()))
      else (case g_postgres g of
              None \<Rightarrow> io_ok False
            | Some pg \<Rightarrow> io_bind (stop_with_timeout sd (tb_shutdown_timeout (g_bootstrap g)) pg) (\<lambda>r. io_ok (r = Some (Inr ())))))"

definition remove_cluster :: "shutdown_env \<Rightarrow> cluster_guard \<Rightarrow> (bootstrap_error, unit) io" where
  "remove_cluster sd g =
     io_match (if g_managed g then cleanup_worker_managed_with_runtime sd (g_bootstrap g) (g_env_vars g) else io_ok ()) (\<lambda>_.
     io_match (cleanup_in_process (sd_fs4 sd) (sd_os sd) (tb_cleanup_mode (g_bootstrap g)) (tb_settings (g_bootstrap g))) (\<lambda>_.
       io_ok ()))"

definition shutdown_spec :: "shutdown_env \<Rightarrow> cluster_guard \<Rightarrow> (bootstrap_error, bool) io" where
  "shutdown_spec sd g =
     io_bind (stop_server sd g) (\<lambda>stopped.
       if stopped then io_bind (remove_cluster sd g) (\<lambda>_. io_ok True) else io_ok False)"

lemmas shutdown_defs = shutdown_spec_def stop_server_def remove_cluster_def io_bind_def io_match_def io_ok_def io_of_def io_err_def

lemma worker_stop_spec:
  assumes "g_managed g"
  shows "stop_worker_managed_with_runtime sd (g_bootstrap g) (g_env_vars g) w = (r, w') \<Longrightarrow>
    shutdown_spec sd g w = (Inr (r = Inr ()), w')"
  using assms
  by (auto simp: shutdown_defs stop_worker_managed_with_runtime_def split: prod.splits sum.splits)

lemma in_process_stop_spec:
  assumes "\<not> g_managed g" and "g_postgres g = Some pg"
  shows "stop_in_process_async sd pg (tb_shutdown_timeout (g_bootstrap g)) (tb_cleanup_mode (g_bootstrap g))
      (tb_settings (g_bootstrap g)) w = (r, w') \<Longrightarrow> shutdown_spec sd g w = (Inr (r = Inr ()), w')"
  using assms
  by (auto simp: shutdown_defs stop_in_process_async_def stop_with_timeout_def Let_def split: prod.splits sum.splits option.splits if_splits)

lemma shutdown_spec_runtime [simp]: "shutdown_spec sd (g\<lparr>g_runtime := rt\<rparr>) = shutdown_spec sd g"
proof -
  have "remove_cluster sd (g\<lparr>g_runtime := rt\<rparr>) = remove_cluster sd g" by (simp add: remove_cluster_def)
  moreover have "stop_server sd (g\<lparr>g_runtime := rt\<rparr>) = stop_server sd g"
    by (cases "g_postgres g") (simp_all add: stop_server_def)
  ultimately show ?thesis by (simp only: shutdown_spec_def)
qed

lemma sync_drop_spec:
  "snd (drop_sync_cluster sd (g_managed g) (g_postgres g) (g_bootstrap g) (g_env_vars g) w) = snd (shutdown_spec sd g w) \<and>
   fst (drop_sync_cluster sd (g_managed g) (g_postgres g) (g_bootstrap g) (g_env_vars g) w) = Inr ()"
proof (cases "g_managed g")
  case True
  obtain r w' where "stop_worker_managed_with_runtime sd (g_bootstrap g) (g_env_vars g) w = (r, w')" by fastforce
  then show ?thesis using True worker_stop_spec [OF True] by (simp add: drop_sync_cluster_def io_match_def io_ok_def)
next
  case False
  then show ?thesis
    by (auto simp: drop_sync_cluster_def shutdown_defs stop_with_timeout_def split: option.splits prod.splits sum.splits)
qed

lemma async_drop_spec:
  assumes "sd_runtime sd = Inr ()" and "sd_handle sd" and "\<not> should_skip_shutdown g"
  shows "\<exists>task. drop_async_cluster sd (g_managed g) (g_postgres g) (g_bootstrap g) (g_env_vars g) = Some task \<and>
    (\<forall>v. snd (task v) = snd (shutdown_spec sd g v))"
proof (cases "g_managed g")
  case True
  have "snd (worker_stop_sync sd (g_bootstrap g) (g_env_vars g) v) = snd (shutdown_spec sd g v)" for v
  proof -
    obtain r w' where "stop_worker_managed_with_runtime sd (g_bootstrap g) (g_env_vars g) v = (r, w')" by fastforce
    then show ?thesis using worker_stop_spec [OF True] assms(1) by (simp add: worker_stop_sync_def io_match_def io_ok_def)
  qed
  then show ?thesis using True assms(2)
    by (simp add: drop_async_cluster_def drop_async_worker_managed_def spawn_worker_stop_task_def)
next
  case False
  then obtain pg where pg: "g_postgres g = Some pg" using assms(3) by (auto simp: should_skip_shutdown_def)
  have "snd (spawn_async_cleanup sd pg (tb_shutdown_timeout (g_bootstrap g)) (tb_cleanup_mode (g_bootstrap g)) (tb_settings (g_bootstrap g)) v)
      = snd (shutdown_spec sd g v)" for v
    using False pg
    by (auto simp: spawn_async_cleanup_def shutdown_defs stop_with_timeout_def split: option.splits prod.splits sum.splits)
  then show ?thesis using False pg assms(2) by (simp add: drop_async_cluster_def drop_async_in_process_def)
qed

lemma stop_async_spec:
  assumes "sd_runtime sd = Inr ()" and "\<not> should_skip_shutdown g" and "is_async (g_runtime g)"
  shows "\<exists>result pending. stop_async sd g w = (Inr (result, pending), snd (shutdown_spec sd g w)) \<and>
    fst (shutdown_spec sd g w) = Inr (result = Inr ())"
proof (cases "g_managed g")
  case True
  obtain r w' where r: "stop_worker_managed_with_runtime sd (g_bootstrap g) (g_env_vars g) w = (r, w')" by fastforce
  then show ?thesis
    using True worker_stop_spec [OF True r] assms
    by (simp add: stop_async_def take_stop_path_def stop_worker_managed_async_def stop_via_worker_sync_def guard_drop_def
        perform_shutdown_def io_match_def io_bind_def io_of_def io_ok_def)
next
  case False
  then obtain pg where pg: "g_postgres g = Some pg" using assms(2) by (auto simp: should_skip_shutdown_def)
  obtain r w' where r: "stop_in_process_async sd pg (tb_shutdown_timeout (g_bootstrap g)) (tb_cleanup_mode (g_bootstrap g))
      (tb_settings (g_bootstrap g)) w = (r, w')" by fastforce
  then show ?thesis
    using False pg in_process_stop_spec [OF False pg r]
    by (simp add: stop_async_def take_stop_path_def guard_drop_def should_skip_shutdown_def io_match_def io_bind_def io_ok_def)
qed

text \<open>
  C20: every way of ending a cluster is one shutdown. On a live guard, with a runtime at hand, dropping it
  synchronously, the task that an asynchronous drop spawns, whenever that task runs, and the explicit
  asynchronous stop all change the world exactly as the specification does: the server is stopped first, within
  the time limit, and nothing is removed, by the worker or in process, unless that succeeded. The drop of an
  asynchronous guard itself changes nothing, and the explicit stop reports success exactly when the server stopped.
\<close>

theorem shutdown_paths_refine_spec:
  assumes "sd_runtime sd = Inr ()" and "sd_handle sd" and "\<not> should_skip_shutdown g"
  shows "guard_drop sd (g\<lparr>g_runtime := SyncRuntime\<rparr>) w = (Inr None, snd (shutdown_spec sd g w)) \<and>
    (\<exists>task. guard_drop sd (g\<lparr>g_runtime := AsyncRuntime\<rparr>) w = (Inr (Some task), w) \<and>
       (\<forall>v. snd (task v) = snd (shutdown_spec sd g v))) \<and>
    (\<exists>result pending. stop_async sd (g\<lparr>g_runtime := AsyncRuntime\<rparr>) w = (Inr (result, pending), snd (shutdown_spec sd g w)) \<and>
       fst (shutdown_spec sd g w) = Inr (result = Inr ()))"
proof (intro conjI)
  have skip: "\<not> should_skip_shutdown (g\<lparr>g_runtime := rt\<rparr>)" for rt using assms(3) by (simp add: should_skip_shutdown_def)
  show "guard_drop sd (g\<lparr>g_runtime := SyncRuntime\<rparr>) w = (Inr None, snd (shutdown_spec sd g w))"
    using sync_drop_spec [of sd g w] skip
    by (auto simp: guard_drop_def perform_shutdown_def is_async_def guard_drop_sync_cluster_def io_bind_def io_ok_def
        split: prod.split sum.split)
  show "\<exists>task. guard_drop sd (g\<lparr>g_runtime := AsyncRuntime\<rparr>) w = (Inr (Some task), w) \<and>
       (\<forall>v. snd (task v) = snd (shutdown_spec sd g v))"
    using async_drop_spec [OF assms] skip
    by (auto simp: guard_drop_def perform_shutdown_def is_async_def guard_drop_async_cluster_def io_ok_def)
  show "\<exists>result pending. stop_async sd (g\<lparr>g_runtime := AsyncRuntime\<rparr>) w = (Inr (result, pending), snd (shutdown_spec sd g w)) \<and>
       fst (shutdown_spec sd g w) = Inr (result = Inr ())"
    using stop_async_spec [OF assms(1) skip, of AsyncRuntime w] by (simp add: is_async_def)
qed

definition demo_shutdown :: shutdown_env where
  "demo_shutdown =
     \<lparr>sd_fs4 = demo_fs4 [], sd_os = demo_os [], sd_worker = demo_worker_env,
      sd_limit = (\<lambda>_ fut w. case fut w of (x, w') \<Rightarrow> (Some x, w')), sd_stop = (\<lambda>st w. ((Inr (), st), w)),
      sd_runtime = Inr (), sd_handle = True\<rparr>"

definition demo_guard :: cluster_guard where
  "demo_guard = \<lparr>g_runtime = SyncRuntime, g_postgres = Some (tb_settings demo_cluster), g_bootstrap = demo_cluster,
     g_managed = False, g_env_vars = []\<rparr>"

text \<open>A stopped in-process cluster whose data directory is removed, on both kinds of drop.\<close>

theorem shutdown_paths_refine_spec_witness:
  "(\<exists>task. guard_drop demo_shutdown (demo_guard\<lparr>g_runtime := AsyncRuntime\<rparr>) (slots_world []) = (Inr (Some task), slots_world []) \<and>
      snd (task (slots_world [])) = snd (guard_drop demo_shutdown demo_guard (slots_world []))) \<and>
   trace (snd (guard_drop demo_shutdown demo_guard (slots_world []))) = [RemoveTree [''pg'', ''data'', ''7-1-0'']]"
proof
  have g: "demo_guard\<lparr>g_runtime := SyncRuntime\<rparr> = demo_guard" by (simp add: demo_guard_def)
  have h: "sd_runtime demo_shutdown = Inr ()" "sd_handle demo_shutdown" "\<not> should_skip_shutdown demo_guard"
    by (simp_all add: demo_shutdown_def demo_guard_def should_skip_shutdown_def)
  from shutdown_paths_refine_spec [OF h, of "slots_world []", unfolded g]
  show "\<exists>task. guard_drop demo_shutdown (demo_guard\<lparr>g_runtime := AsyncRuntime\<rparr>) (slots_world []) = (Inr (Some task), slots_world []) \<and>
      snd (task (slots_world [])) = snd (guard_drop demo_shutdown demo_guard (slots_world []))" by auto
  show "trace (snd (guard_drop demo_shutdown demo_guard (slots_world []))) = [RemoveTree [''pg'', ''data'', ''7-1-0'']]"
    by code_simp
qed

text \<open>
  what an explicit stop leaves behind. After \<open>stop_async\<close> of an in-process cluster nothing is pending. Of a
  cluster that the worker manages, the guard that is dropped at the end of the call still counts as running, so a
  whole second shutdown is spawned on the caller's runtime, whether or not the first succeeded.
\<close>

theorem stop_async_pending:
  "\<exists>result w'. stop_async sd (g\<lparr>g_runtime := AsyncRuntime\<rparr>) w =
     (Inr (result, if g_managed g \<and> sd_handle sd then Some (worker_stop_sync sd (g_bootstrap g) (g_env_vars g)) else None), w')"
proof (cases "g_managed g")
  case True
  then show ?thesis
    by (auto simp: stop_async_def take_stop_path_def guard_drop_def should_skip_shutdown_def perform_shutdown_def is_async_def
        guard_drop_async_cluster_def drop_async_cluster_def drop_async_worker_managed_def spawn_worker_stop_task_def
        io_match_def io_bind_def io_ok_def split: prod.split)
next
  case False
  then show ?thesis
    by (auto simp: stop_async_def take_stop_path_def guard_drop_def should_skip_shutdown_def io_match_def io_bind_def io_ok_def
        split: prod.split option.split)
qed

end
