(* ===== verification/SharedCluster.thy ===== *)
theory SharedCluster
  imports FileSystem
begin

text \<open>
  The shared cluster of a test binary (\<open>test_support/bootstrap_retry\<close>, \<open>shared_singleton_core.rs\<close> and
  \<open>shared_singleton.rs\<close>): bounded retries of a transient failure, a cell that is initialised at most once, and
  the start that leaks its guard only when the exit hook is in place. What is started, the guards and the hook
  are arguments over a state of any type, as the sources pass them as closures.
\<close>

section \<open>Retrying\<close>

text \<open>\<open>Duration\<close> in nanoseconds, with its maximum; multiplying saturates.\<close>

definition DURATION_MAX :: nat where "DURATION_MAX = (2 ^ 64 - 1) * 10 ^ 9 + 999999999"

definition duration_saturating_mul :: "nat \<Rightarrow> u32 \<Rightarrow> nat" where
  "duration_saturating_mul d n = min DURATION_MAX (d * unat n)"

definition u32_saturating_pow :: "nat \<Rightarrow> u32 \<Rightarrow> u32" where
  "u32_saturating_pow b n = (if b ^ unat n < 2 ^ 32 then of_nat (b ^ unat n) else - 1)"

definition u32_saturating_sub :: "u32 \<Rightarrow> u32 \<Rightarrow> u32" where
  "u32_saturating_sub a b = (if b \<le> a then a - b else 0)"

record retry_policy =
  attempts :: u32
  first_delay :: nat

definition SHARED_CLUSTER :: retry_policy where
  "SHARED_CLUSTER = \<lparr>attempts = 3, first_delay = 10 ^ 9\<rparr>"

definition delay_after :: "retry_policy \<Rightarrow> u32 \<Rightarrow> nat" where
  "delay_after policy made = duration_saturating_mul (first_delay policy) (u32_saturating_pow 2 (u32_saturating_sub made 1))"

fun is_transient_embedded :: "embedded_error \<Rightarrow> bool" where
  "is_transient_embedded (EmbeddedIoError _) = True"
| "is_transient_embedded (EmbeddedArchiveError inner) = (inner = ArchiveIoError \<or> inner = ArchiveRepositoryFailure)"
| "is_transient_embedded _ = False"

definition is_transient_cause :: "bool \<Rightarrow> cause \<Rightarrow> bool" where
  "is_transient_cause from_cache c =
     (case c of
        LifecycleTimeout \<Rightarrow> True
      | EmbeddedCause e \<Rightarrow> \<not> from_cache \<and> is_transient_embedded e
      | CachedBinariesUsed _ \<Rightarrow> False)"

fun is_cache_mark :: "cause \<Rightarrow> bool" where
  "is_cache_mark (CachedBinariesUsed _) = True"
| "is_cache_mark _ = False"

definition is_transient :: "bootstrap_error \<Rightarrow> bool" where
  "is_transient err =
     (let from_cache = list_ex is_cache_mark (causes err) in
      kind err = ExtensionArchiveUnavailable \<or> list_ex (is_transient_cause from_cache) (causes err))"

text \<open>The report gains a line of text; kind and causes stay.\<close>

definition exhausted :: "bootstrap_error \<Rightarrow> u32 \<Rightarrow> bootstrap_error" where
  "exhausted err made = err"

type_synonym ('s, 'a) stateful = "'s \<Rightarrow> (bootstrap_error + 'a) \<times> 's"

lemma no_wrap: "\<not> a \<le> (m :: u32) \<Longrightarrow> unat (m + 1) = unat m + 1"
proof -
  assume "\<not> a \<le> m"
  then have "unat m < unat a" by (simp add: not_le word_less_nat_alt)
  moreover have "unat a < 2 ^ 32" using unsigned_less [of a, where ?'a=nat] by simp
  ultimately show ?thesis by (simp add: unat_word_ariths)
qed

function retry_loop :: "retry_policy \<Rightarrow> ('s, 'a) stateful \<Rightarrow> (nat \<Rightarrow> 's \<Rightarrow> 's) \<Rightarrow> u32 \<Rightarrow> ('s, 'a) stateful" where
  "retry_loop policy attempt sleep made s =
     (case attempt s of
        (Inr v, s1) \<Rightarrow> (Inr v, s1)
      | (Inl err, s1) \<Rightarrow>
          if \<not> is_transient err then (Inl err, s1)
          else if attempts policy \<le> made then (Inl (exhausted err made), s1)
          else retry_loop policy attempt sleep (made + 1) (sleep (delay_after policy made) s1))"
  by pat_completeness auto

termination
  by (relation "measure (\<lambda>(policy, _, _, made, _). unat (attempts policy) - unat made)")
    (auto simp: no_wrap not_le word_less_nat_alt)

declare retry_loop.simps [simp del]

definition retry_transient :: "retry_policy \<Rightarrow> ('s, 'a) stateful \<Rightarrow> (nat \<Rightarrow> 's \<Rightarrow> 's) \<Rightarrow> ('s, 'a) stateful" where
  "retry_transient policy attempt sleep s = retry_loop policy attempt sleep 1 s"

section \<open>The singleton\<close>

datatype ('t, 'c) shared_init_state = Uninitialized | Initialized 't | FailedInit 'c

definition get_or_try_init_shared ::
  "('t, 'c) shared_init_state \<Rightarrow> ('s \<Rightarrow> (('c \<times> 'e) + 't) \<times> 's) \<Rightarrow> ('c \<Rightarrow> 'e) \<Rightarrow> 's \<Rightarrow>
   ('e + 't) \<times> ('t, 'c) shared_init_state \<times> 's" where
  "get_or_try_init_shared state init cached_error s =
     (case state of
        Initialized v \<Rightarrow> (Inr v, state, s)
      | FailedInit cached \<Rightarrow> (Inl (cached_error cached), state, s)
      | Uninitialized \<Rightarrow>
          (case init s of
             (Inr v, s1) \<Rightarrow> (Inr v, Initialized v, s1)
           | (Inl (cached, err), s1) \<Rightarrow> (Inl err, FailedInit cached, s1)))"

text \<open>What an error is stored as, and what a later caller is told.\<close>

definition stored_error :: "bootstrap_error \<Rightarrow> bootstrap_error" where
  "stored_error err = extension_error (kind err)"

definition cached_shared_handle_error :: "bootstrap_error \<Rightarrow> bootstrap_error" where
  "cached_shared_handle_error original = extension_error (kind original)"

definition register_shutdown_hook_or_fail ::
  "'h \<Rightarrow> ('h \<Rightarrow> ('s, unit) stateful) \<Rightarrow> 's \<Rightarrow> ((bootstrap_error \<times> bootstrap_error) + unit) \<times> 's" where
  "register_shutdown_hook_or_fail target register s =
     (case register target s of
        (Inl err, s1) \<Rightarrow> (Inl (stored_error err, err), s1)
      | (Inr _, s1) \<Rightarrow> (Inr (), s1))"

definition leak_shared_handle_after_shutdown_hook ::
  "('g \<Rightarrow> 's \<Rightarrow> 's) \<Rightarrow> 'h \<Rightarrow> 'g \<Rightarrow> ('h \<Rightarrow> ('s, unit) stateful) \<Rightarrow> 's \<Rightarrow> ((bootstrap_error \<times> bootstrap_error) + 'h) \<times> 's" where
  "leak_shared_handle_after_shutdown_hook drop_guard handle guarded register s =
     (case register_shutdown_hook_or_fail handle register s of
        (Inl e, s1) \<Rightarrow> (Inl e, drop_guard guarded s1)
      | (Inr _, s1) \<Rightarrow> (Inr handle, s1))"

text \<open>What the initialiser calls: the worker's environment and its guard, the start, the exit hook, and the drops.\<close>

record ('s, 'h, 'c, 'g) cluster_ops =
  co_worker_env :: "'s \<Rightarrow> 'g \<times> 's"
  co_start :: "('s, 'h \<times> 'c) stateful"
  co_register :: "'h \<Rightarrow> ('s, unit) stateful"
  co_drop :: "'c \<times> 'g \<Rightarrow> 's \<Rightarrow> 's"
  co_drop_worker :: "'g \<Rightarrow> 's \<Rightarrow> 's"
  co_sleep :: "nat \<Rightarrow> 's \<Rightarrow> 's"

definition initialize_shared_cluster_handle ::
  "('s, 'h, 'c, 'g) cluster_ops \<Rightarrow> 's \<Rightarrow> ((bootstrap_error \<times> bootstrap_error) + 'h) \<times> 's" where
  "initialize_shared_cluster_handle co s =
     (case co_worker_env co s of (worker_guard, s1) \<Rightarrow>
        (case retry_transient SHARED_CLUSTER (co_start co) (co_sleep co) s1 of
           (Inr (handle, cluster_guard), s2) \<Rightarrow>
             leak_shared_handle_after_shutdown_hook (co_drop co) handle (cluster_guard, worker_guard) (co_register co) s2
         | (Inl err, s2) \<Rightarrow> (Inl (stored_error err, err), co_drop_worker co worker_guard s2)))"

text \<open>One call, under the mutex.\<close>

definition shared_cluster_handle ::
  "('s, 'h, 'c, 'g) cluster_ops \<Rightarrow> ('h, bootstrap_error) shared_init_state \<Rightarrow> 's \<Rightarrow>
   (bootstrap_error + 'h) \<times> ('h, bootstrap_error) shared_init_state \<times> 's" where
  "shared_cluster_handle co state s =
     get_or_try_init_shared state (initialize_shared_cluster_handle co) cached_shared_handle_error s"

text \<open>The older singleton: the whole cluster, handle and guards, is leaked.\<close>

definition leak_shared_cluster_after_shutdown_hook ::
  "('k \<Rightarrow> 's \<Rightarrow> 's) \<Rightarrow> 'k \<Rightarrow> ('k \<Rightarrow> ('s, unit) stateful) \<Rightarrow> 's \<Rightarrow> ((bootstrap_error \<times> bootstrap_error) + 'k) \<times> 's" where
  "leak_shared_cluster_after_shutdown_hook drop_cluster cluster register s =
     (case register_shutdown_hook_or_fail cluster register s of
        (Inl e, s1) \<Rightarrow> (Inl e, drop_cluster cluster s1)
      | (Inr _, s1) \<Rightarrow> (Inr cluster, s1))"

definition initialize_shared_cluster ::
  "('s, 'h, 'c, 'g) cluster_ops \<Rightarrow> 's \<Rightarrow> ((bootstrap_error \<times> bootstrap_error) + ('h \<times> 'c) \<times> 'g) \<times> 's" where
  "initialize_shared_cluster co s =
     (case co_worker_env co s of (worker_guard, s1) \<Rightarrow>
        (case retry_transient SHARED_CLUSTER (co_start co) (co_sleep co) s1 of
           (Inr new_cluster, s2) \<Rightarrow>
             leak_shared_cluster_after_shutdown_hook (\<lambda>((_, guard), wg). co_drop co (guard, wg)) (new_cluster, worker_guard)
               (\<lambda>((handle, _), _). co_register co handle) s2
         | (Inl err, s2) \<Rightarrow> (Inl (stored_error err, err), co_drop_worker co worker_guard s2)))"

definition shared_cluster ::
  "('s, 'h, 'c, 'g) cluster_ops \<Rightarrow> (('h \<times> 'c) \<times> 'g, bootstrap_error) shared_init_state \<Rightarrow> 's \<Rightarrow>
   (bootstrap_error + ('h \<times> 'c) \<times> 'g) \<times> (('h \<times> 'c) \<times> 'g, bootstrap_error) shared_init_state \<times> 's" where
  "shared_cluster co state s =
     get_or_try_init_shared state (initialize_shared_cluster co) cached_shared_handle_error s"

text \<open>The calls of all threads, in the order in which they get the mutex.\<close>

fun shared_calls ::
  "('s, 'h, 'c, 'g) cluster_ops \<Rightarrow> nat \<Rightarrow> ('h, bootstrap_error) shared_init_state \<Rightarrow> 's \<Rightarrow> (bootstrap_error + 'h) list \<times> 's" where
  "shared_calls co 0 state s = ([], s)"
| "shared_calls co (Suc n) state s =
     (case shared_cluster_handle co state s of (r, state1, s1) \<Rightarrow>
        case shared_calls co n state1 s1 of (rs, s2) \<Rightarrow> (r # rs, s2))"

section \<open>Properties\<close>

text \<open>The state in which attempt number \<open>k + 1\<close> is made, when all before failed transiently.\<close>

fun before_attempt :: "retry_policy \<Rightarrow> ('s, 'a) stateful \<Rightarrow> (nat \<Rightarrow> 's \<Rightarrow> 's) \<Rightarrow> u32 \<Rightarrow> nat \<Rightarrow> 's \<Rightarrow> 's" where
  "before_attempt policy attempt sleep made 0 s = s"
| "before_attempt policy attempt sleep made (Suc k) s =
     before_attempt policy attempt sleep (made + 1) k (sleep (delay_after policy made) (snd (attempt s)))"

definition fails_transiently :: "bootstrap_error + 'a \<Rightarrow> bool" where
  "fails_transiently r \<longleftrightarrow> (case r of Inl e \<Rightarrow> is_transient e | Inr _ \<Rightarrow> False)"

definition settles :: "bootstrap_error + 'a \<Rightarrow> bool" where
  "settles r = (\<not> fails_transiently r)"

lemma retry_loop_exact:
  "\<exists>k. retry_loop policy attempt sleep made s = attempt (before_attempt policy attempt sleep made k s) \<and>
     (k = 0 \<or> unat made + k \<le> unat (attempts policy)) \<and>
     (\<forall>i<k. fails_transiently (fst (attempt (before_attempt policy attempt sleep made i s)))) \<and>
     (\<not> fails_transiently (fst (attempt (before_attempt policy attempt sleep made k s))) \<or> unat (attempts policy) \<le> unat made + k)"
proof (induction policy attempt sleep made s rule: retry_loop.induct)
  case (1 policy attempt sleep made s)
  obtain r s1 where a: "attempt s = (r, s1)" by fastforce
  show ?case
  proof (cases "fails_transiently r \<and> \<not> attempts policy \<le> made")
    case False
    then have "retry_loop policy attempt sleep made s = attempt s"
      using a by (subst retry_loop.simps) (auto simp: fails_transiently_def exhausted_def split: sum.splits)
    then show ?thesis using False a by (intro exI [of _ 0]) (auto simp: word_le_nat_alt)
  next
    case True
    then obtain err where err: "r = Inl err" "is_transient err" by (auto simp: fails_transiently_def split: sum.splits)
    let ?s = "sleep (delay_after policy made) s1"
    have step: "retry_loop policy attempt sleep made s = retry_loop policy attempt sleep (made + 1) ?s"
      using a err True by (subst retry_loop.simps) simp
    have n: "unat (made + 1) = unat made + 1" using no_wrap True by blast
    from "1.IH" [OF a [symmetric] err(1)] err True obtain k where k:
      "retry_loop policy attempt sleep (made + 1) ?s = attempt (before_attempt policy attempt sleep (made + 1) k ?s)"
      "k = 0 \<or> unat (made + 1) + k \<le> unat (attempts policy)"
      "\<forall>i<k. fails_transiently (fst (attempt (before_attempt policy attempt sleep (made + 1) i ?s)))"
      "\<not> fails_transiently (fst (attempt (before_attempt policy attempt sleep (made + 1) k ?s))) \<or> unat (attempts policy) \<le> unat (made + 1) + k"
      by auto
    have "fails_transiently (fst (attempt (before_attempt policy attempt sleep made i s)))" if "i < Suc k" for i
      using that k(3) a True by (cases i) auto
    moreover have "unat made + Suc k \<le> unat (attempts policy)"
      using k(2) n True by (auto simp: not_le word_less_nat_alt)
    ultimately show ?thesis using step k n a by (intro exI [of _ "Suc k"]) simp
  qed
qed

text \<open>
  C37: retries are bounded and honest. The loop ends; its outcome is that of one attempt, the last that was made;
  every attempt before it failed transiently and was followed by the sleep of the policy; no more attempts are
  made than the policy allows, one at least; and the loop stops before that only on a success or on a failure
  that is not transient. The counter never wraps.
\<close>

theorem retries_bounded:
  "\<exists>k. k < max 1 (unat (attempts policy)) \<and>
     retry_transient policy attempt sleep s = attempt (before_attempt policy attempt sleep 1 k s) \<and>
     list_all (\<lambda>i. fails_transiently (fst (attempt (before_attempt policy attempt sleep 1 i s)))) [0..<k] \<and>
     (k + 1 = max 1 (unat (attempts policy)) \<or> settles (fst (retry_transient policy attempt sleep s)))"
proof -
  obtain k where k: "retry_loop policy attempt sleep 1 s = attempt (before_attempt policy attempt sleep 1 k s)"
    "k = 0 \<or> 1 + k \<le> unat (attempts policy)"
    "\<forall>i<k. fails_transiently (fst (attempt (before_attempt policy attempt sleep 1 i s)))"
    "\<not> fails_transiently (fst (attempt (before_attempt policy attempt sleep 1 k s))) \<or> unat (attempts policy) \<le> 1 + k"
    using retry_loop_exact [of policy attempt sleep 1 s] by auto
  then show ?thesis by (intro exI [of _ k]) (auto simp: retry_transient_def list_all_iff settles_def)
qed

lemma shared_delays: "delay_after SHARED_CLUSTER 1 = 10 ^ 9" "delay_after SHARED_CLUSTER 2 = 2 * 10 ^ 9"
  by (simp_all add: delay_after_def SHARED_CLUSTER_def duration_saturating_mul_def u32_saturating_pow_def u32_saturating_sub_def DURATION_MAX_def)

text \<open>The doubling of the delay saturates: it never falls, and never exceeds the largest duration.\<close>

lemma delay_bounds:
  "delay_after policy made \<le> DURATION_MAX"
  "first_delay policy \<le> DURATION_MAX \<Longrightarrow> first_delay policy \<le> delay_after policy made"
proof -
  have "0 < unat (u32_saturating_pow 2 n)" for n
  proof (cases "2 ^ unat n < (2 ^ 32 :: nat)")
    case True
    have "unat (of_nat k :: u32) = k" if "k < 2 ^ 32" for k using that by (simp add: unat_of_nat take_bit_nat_eq_self)
    from this [OF True] show ?thesis using True unfolding u32_saturating_pow_def by presburger
  qed (simp add: u32_saturating_pow_def unat_gt_0)
  then show "delay_after policy made \<le> DURATION_MAX" "first_delay policy \<le> DURATION_MAX \<Longrightarrow> first_delay policy \<le> delay_after policy made"
    by (auto simp: delay_after_def duration_saturating_mul_def Suc_le_eq)
qed

lemma settled_calls:
  "shared_calls co n (Initialized h) s = (replicate n (Inr h), s)"
  "shared_calls co n (FailedInit c) s = (replicate n (Inl (cached_shared_handle_error c)), s)"
  by (induction n) (simp_all add: shared_cluster_handle_def get_or_try_init_shared_def)

lemma initialize_stores: "initialize_shared_cluster_handle co s = (Inl (c, e), s') \<Longrightarrow> c = stored_error e"
  by (auto simp: initialize_shared_cluster_handle_def leak_shared_handle_after_shutdown_hook_def register_shutdown_hook_or_fail_def
      split: prod.splits sum.splits)

text \<open>
  C38: the shared cluster is started once. Of any number of calls, by whatever threads, the first initialises and
  the others do nothing to the world: all of them get the one handle, or all fail, the first with the error
  itself and the others with an error of the same kind.
\<close>

theorem shared_cluster_once:
  "shared_calls co (Suc n) Uninitialized s =
     (case initialize_shared_cluster_handle co s of
        (Inr h, s') \<Rightarrow> (replicate (Suc n) (Inr h), s')
      | (Inl (_, e), s') \<Rightarrow> (Inl e # replicate n (Inl (extension_error (kind e))), s'))"
proof -
  obtain r s' where i: "initialize_shared_cluster_handle co s = (r, s')" by fastforce
  show ?thesis
  proof (cases r)
    case (Inr h)
    then show ?thesis using i by (simp add: shared_cluster_handle_def get_or_try_init_shared_def settled_calls)
  next
    case (Inl ce)
    obtain c e where ce: "ce = (c, e)" by fastforce
    have "c = stored_error e" using initialize_stores [OF i [unfolded Inl ce]] .
    then show ?thesis using i Inl ce
      by (simp add: shared_cluster_handle_def get_or_try_init_shared_def settled_calls cached_shared_handle_error_def stored_error_def)
  qed
qed

text \<open>
  a shared cluster is never leaked without its exit hook. At most three starts are tried; when the
  initialisation succeeds, the last thing it did was to register the exit hook of the cluster it returns, and
  no guard was dropped; when it fails, the guards of whatever exists are dropped: both guards after a failed
  registration, the worker's after failed starts.
\<close>

theorem shared_cluster_hooked:
  "\<exists>guard s1 k r s2. co_worker_env co s = (guard, s1) \<and> k < 3 \<and>
     co_start co (before_attempt SHARED_CLUSTER (co_start co) (co_sleep co) 1 k s1) = (r, s2) \<and>
     (case initialize_shared_cluster_handle co s of
        (Inr h, s') \<Rightarrow> \<exists>c. r = Inr (h, c) \<and> co_register co h s2 = (Inr (), s')
      | (Inl (_, e), s') \<Rightarrow>
          r = Inl e \<and> s' = co_drop_worker co guard s2 \<or>
          (\<exists>h c s3. r = Inr (h, c) \<and> co_register co h s2 = (Inl e, s3) \<and> s' = co_drop co (c, guard) s3))"
proof -
  obtain guard s1 where w: "co_worker_env co s = (guard, s1)" by fastforce
  obtain k where k: "k < 3" and run: "retry_transient SHARED_CLUSTER (co_start co) (co_sleep co) s1 =
      co_start co (before_attempt SHARED_CLUSTER (co_start co) (co_sleep co) 1 k s1)"
  proof -
    have three: "unat (attempts SHARED_CLUSTER) = 3" by (simp add: SHARED_CLUSTER_def)
    from retry_loop_exact [of SHARED_CLUSTER "co_start co" "co_sleep co" 1 s1] obtain j where
      "retry_loop SHARED_CLUSTER (co_start co) (co_sleep co) 1 s1 = co_start co (before_attempt SHARED_CLUSTER (co_start co) (co_sleep co) 1 j s1)"
      "j = 0 \<or> 1 + j \<le> 3" unfolding three by auto
    then show ?thesis using that [of j] by (auto simp: retry_transient_def)
  qed
  obtain r s2 where r: "co_start co (before_attempt SHARED_CLUSTER (co_start co) (co_sleep co) 1 k s1) = (r, s2)" by fastforce
  show ?thesis
    using w k r run
    by (intro exI [of _ guard] exI [of _ s1] exI [of _ k] exI [of _ r] exI [of _ s2])
      (auto simp: initialize_shared_cluster_handle_def leak_shared_handle_after_shutdown_hook_def register_shutdown_hook_or_fail_def
        split: prod.splits sum.splits)
qed

text \<open>Both singletons start, hook and drop alike.\<close>

lemma singletons_agree:
  "initialize_shared_cluster_handle co s =
     (case initialize_shared_cluster co s of
        (Inr ((h, _), _), s') \<Rightarrow> (Inr h, s') | (Inl e, s') \<Rightarrow> (Inl e, s'))"
  by (auto simp: initialize_shared_cluster_handle_def initialize_shared_cluster_def leak_shared_handle_after_shutdown_hook_def
      leak_shared_cluster_after_shutdown_hook_def register_shutdown_hook_or_fail_def split: prod.split sum.split)

end
