(* ===== verification/Database.thy ===== *)
theory Database
  imports Bootstrap SharedCluster
begin

text \<open>
  Databases on a running cluster (\<open>cluster/connection.rs\<close>, \<open>lifecycle.rs\<close>, \<open>temporary_database.rs\<close> and
  \<open>lifecycle_template/mod.rs\<close>): the SQL that is sent, the operations on databases, the guard of a temporary
  database, and template databases, which concurrent callers create and set up once, under a lock for each
  name. The \<open>postgres\<close> driver and \<open>Settings::url\<close> are parameters over a server state of any type.
\<close>

section \<open>The driver\<close>

text \<open>An error's text and that of its source.\<close>

datatype driver_error = DriverError string "string option"

record ('s, 'c) driver =
  dr_url :: "settings \<Rightarrow> string \<Rightarrow> string"
  dr_connect :: "string \<Rightarrow> 's \<Rightarrow> (driver_error + 'c) \<times> 's"
  dr_batch_execute :: "'c \<Rightarrow> string \<Rightarrow> 's \<Rightarrow> (driver_error + unit) \<times> 's"
  dr_execute :: "'c \<Rightarrow> string \<Rightarrow> string \<Rightarrow> 's \<Rightarrow> (driver_error + nat) \<times> 's"
  dr_query_bool :: "'c \<Rightarrow> string \<Rightarrow> string \<Rightarrow> 's \<Rightarrow> (driver_error + bool) \<times> 's"

definition st_bind :: "('s, 'a) stateful \<Rightarrow> ('a \<Rightarrow> ('s, 'b) stateful) \<Rightarrow> ('s, 'b) stateful" where
  "st_bind m f s = (case m s of (Inl e, s1) \<Rightarrow> (Inl e, s1) | (Inr x, s1) \<Rightarrow> f x s1)"

definition st_ok :: "'a \<Rightarrow> ('s, 'a) stateful" where
  "st_ok x s = (Inr x, s)"

definition map_driver_err :: "(driver_error \<Rightarrow> bootstrap_error) \<Rightarrow> ('s \<Rightarrow> (driver_error + 'a) \<times> 's) \<Rightarrow> ('s, 'a) stateful" where
  "map_driver_err f m s = (case m s of (Inl e, s1) \<Rightarrow> (Inl (f e), s1) | (Inr x, s1) \<Rightarrow> (Inr x, s1))"

section \<open>Connections\<close>

definition escape_identifier :: "string \<Rightarrow> string" where
  "escape_identifier nm = concat (map (\<lambda>c. if c = CHR 0x22 then [CHR 0x22, CHR 0x22] else [c]) nm)"

fun admin_connect_message :: "driver_error \<Rightarrow> string" where
  "admin_connect_message (DriverError err source) =
     ''failed to connect to admin database: '' @ (case source of None \<Rightarrow> err | Some s \<Rightarrow> err @ '': '' @ s)"

text \<open>The error carries that message; it has no typed cause that is looked for.\<close>

definition admin_connect_error :: "driver_error \<Rightarrow> bootstrap_error" where
  "admin_connect_error err = extension_error Other"

definition statement_error :: "driver_error \<Rightarrow> bootstrap_error" where
  "statement_error err = extension_error Other"

definition connect_admin :: "('s, 'c) driver \<Rightarrow> string \<Rightarrow> ('s, 'c) stateful" where
  "connect_admin drv url = map_driver_err admin_connect_error (dr_connect drv url)"

record connection_metadata =
  cm_settings :: settings
  cm_pgpass_file :: string

definition metadata_from_settings :: "test_bootstrap_settings \<Rightarrow> connection_metadata" where
  "metadata_from_settings b = \<lparr>cm_settings = tb_settings b, cm_pgpass_file = env_pgpass_file (tb_environment b)\<rparr>"

definition database_url :: "('s, 'c) driver \<Rightarrow> connection_metadata \<Rightarrow> string \<Rightarrow> string" where
  "database_url drv conn db = dr_url drv (cm_settings conn) db"

definition admin_client :: "('s, 'c) driver \<Rightarrow> connection_metadata \<Rightarrow> ('s, 'c) stateful" where
  "admin_client drv conn = connect_admin drv (database_url drv conn ''postgres'')"

section \<open>Operations on databases\<close>

text \<open>\<open>str::replace\<close> for a pattern that is not empty: left to right, without looking into the replacement.\<close>

function str_replace :: "string \<Rightarrow> string \<Rightarrow> string \<Rightarrow> string" where
  "str_replace pat rep [] = []"
| "str_replace pat rep (c # cs) =
     (if pat \<noteq> [] \<and> prefix pat (c # cs) then rep @ str_replace pat rep (drop (length pat) (c # cs))
      else c # str_replace pat rep cs)"
  by pat_completeness auto
termination
  by (relation "measure (\<lambda>(_, _, s). length s)") (auto simp: neq_Nil_conv)

definition quoted :: "string \<Rightarrow> string" where
  "quoted nm = [CHR 0x22] @ escape_identifier nm @ [CHR 0x22]"

definition ddl_sql :: "string \<Rightarrow> string \<Rightarrow> string" where
  "ddl_sql sql_template nm = str_replace ''{}'' (quoted nm) sql_template"

definition execute_ddl_command :: "('s, 'c) driver \<Rightarrow> connection_metadata \<Rightarrow> string \<Rightarrow> string \<Rightarrow> ('s, unit) stateful" where
  "execute_ddl_command drv conn sql_template nm =
     st_bind (admin_client drv conn) (\<lambda>client.
       map_driver_err statement_error (dr_batch_execute drv client (ddl_sql sql_template nm)))"

definition create_database :: "('s, 'c) driver \<Rightarrow> connection_metadata \<Rightarrow> string \<Rightarrow> ('s, unit) stateful" where
  "create_database drv conn nm = execute_ddl_command drv conn ''CREATE DATABASE {}'' nm"

definition clone_sql :: "string \<Rightarrow> string \<Rightarrow> string" where
  "clone_sql nm template = ''CREATE DATABASE '' @ quoted nm @ '' TEMPLATE '' @ quoted template"

definition create_database_from_template ::
  "('s, 'c) driver \<Rightarrow> connection_metadata \<Rightarrow> string \<Rightarrow> string \<Rightarrow> ('s, unit) stateful" where
  "create_database_from_template drv conn nm template =
     st_bind (admin_client drv conn) (\<lambda>client.
       map_driver_err statement_error (dr_batch_execute drv client (clone_sql nm template)))"

definition drop_database :: "('s, 'c) driver \<Rightarrow> connection_metadata \<Rightarrow> string \<Rightarrow> ('s, unit) stateful" where
  "drop_database drv conn nm = execute_ddl_command drv conn ''DROP DATABASE {}'' nm"

definition EXISTS_SQL :: string where
  "EXISTS_SQL = ''SELECT EXISTS(SELECT 1 FROM pg_database WHERE datname = $1)''"

definition database_exists :: "('s, 'c) driver \<Rightarrow> connection_metadata \<Rightarrow> string \<Rightarrow> ('s, bool) stateful" where
  "database_exists drv conn nm =
     st_bind (admin_client drv conn) (\<lambda>client.
       map_driver_err statement_error (dr_query_bool drv client EXISTS_SQL nm))"

subsection \<open>Temporary databases\<close>

record temporary_database =
  td_name :: string
  td_admin_url :: string
  td_database_url :: string

definition temporary_database_new :: "('s, 'c) driver \<Rightarrow> connection_metadata \<Rightarrow> string \<Rightarrow> temporary_database" where
  "temporary_database_new drv conn nm =
     \<lparr>td_name = nm, td_admin_url = database_url drv conn ''postgres'', td_database_url = database_url drv conn nm\<rparr>"

definition make_temporary :: "('s, 'c) driver \<Rightarrow> connection_metadata \<Rightarrow> string \<Rightarrow> ('s, temporary_database) stateful" where
  "make_temporary drv conn nm =
     st_bind (create_database drv conn nm) (\<lambda>_. st_ok (temporary_database_new drv conn nm))"

definition make_temporary_from_template ::
  "('s, 'c) driver \<Rightarrow> connection_metadata \<Rightarrow> string \<Rightarrow> string \<Rightarrow> ('s, temporary_database) stateful" where
  "make_temporary_from_template drv conn nm template =
     st_bind (create_database_from_template drv conn nm template) (\<lambda>_. st_ok (temporary_database_new drv conn nm))"

definition drop_sql :: "string \<Rightarrow> string" where
  "drop_sql nm = ''DROP DATABASE '' @ quoted nm"

definition try_drop :: "('s, 'c) driver \<Rightarrow> temporary_database \<Rightarrow> ('s, unit) stateful" where
  "try_drop drv td =
     st_bind (connect_admin drv (td_admin_url td)) (\<lambda>client.
       map_driver_err statement_error (dr_batch_execute drv client (drop_sql (td_name td))))"

text \<open>\<open>Drop for TemporaryDatabase\<close>, which is also run at the end of the two methods that take the guard by value.\<close>

definition temporary_drop :: "('s, 'c) driver \<Rightarrow> temporary_database \<Rightarrow> 's \<Rightarrow> 's" where
  "temporary_drop drv td s = snd (try_drop drv td s)"

definition drop_temporary :: "('s, 'c) driver \<Rightarrow> temporary_database \<Rightarrow> ('s, unit) stateful" where
  "drop_temporary drv td s = (case try_drop drv td s of (r, s1) \<Rightarrow> (r, temporary_drop drv td s1))"

definition TERMINATE_SQL :: string where
  "TERMINATE_SQL = ''SELECT pg_terminate_backend(pid) FROM pg_stat_activity WHERE datname = $1 AND pid <> pg_backend_pid()''"

definition force_drop :: "('s, 'c) driver \<Rightarrow> temporary_database \<Rightarrow> ('s, unit) stateful" where
  "force_drop drv td s =
     (case st_bind (connect_admin drv (td_admin_url td)) (\<lambda>client.
             st_bind (map_driver_err statement_error (dr_execute drv client TERMINATE_SQL (td_name td))) (\<lambda>_.
               map_driver_err statement_error (dr_batch_execute drv client (drop_sql (td_name td))))) s of
        (r, s1) \<Rightarrow> (r, temporary_drop drv td s1))"

section \<open>Template databases\<close>

datatype panic_payload = StrPayload string | StringPayload string | OtherPayload

fun panic_payload_message :: "panic_payload \<Rightarrow> string" where
  "panic_payload_message (StrPayload message) = message"
| "panic_payload_message (StringPayload message) = message"
| "panic_payload_message OtherPayload = ''non-string panic payload''"

text \<open>A call that returns or unwinds: \<open>Inl\<close> is the panic.\<close>

type_synonym ('s, 'a) unwinding = "'s \<Rightarrow> (panic_payload + (bootstrap_error + 'a)) \<times> 's"

record 's template_creation_ops =
  op_exists :: "('s, bool) stateful"
  op_create :: "('s, unit) stateful"
  op_drop :: "('s, unit) stateful"
  op_setup :: "('s, unit) unwinding"

text \<open>The report of the setup error stays the source; the kind becomes that of any report.\<close>

definition template_setup_rollback_error :: "bootstrap_error \<Rightarrow> bootstrap_error \<Rightarrow> bootstrap_error" where
  "template_setup_rollback_error setup_error rollback_error = setup_error\<lparr>kind := Other\<rparr>"

definition template_setup_panic_rollback_error :: "panic_payload \<Rightarrow> bootstrap_error \<Rightarrow> bootstrap_error" where
  "template_setup_panic_rollback_error payload rollback_error = extension_error Other"

definition rollback_and_log :: "('s, unit) stateful \<Rightarrow> ('s, unit) stateful" where
  "rollback_and_log drop_db s =
     (case drop_db s of
        (Inr _, s1) \<Rightarrow> (Inr (), s1)
      | (Inl rollback_error, s1) \<Rightarrow> (Inl rollback_error, s1))"

definition rollback_after_setup_error :: "bootstrap_error \<Rightarrow> ('s, unit) stateful \<Rightarrow> ('s, unit) unwinding" where
  "rollback_after_setup_error setup_error drop_db s =
     (case rollback_and_log drop_db s of
        (Inr _, s1) \<Rightarrow> (Inr (Inl setup_error), s1)
      | (Inl rollback_error, s1) \<Rightarrow> (Inr (Inl (template_setup_rollback_error setup_error rollback_error)), s1))"

definition resume_or_report_rollback_failure :: "panic_payload \<Rightarrow> ('s, unit) stateful \<Rightarrow> ('s, unit) unwinding" where
  "resume_or_report_rollback_failure payload drop_db s =
     (case rollback_and_log drop_db s of
        (Inr _, s1) \<Rightarrow> (Inl payload, s1)
      | (Inl rollback_error, s1) \<Rightarrow> (Inr (Inl (template_setup_panic_rollback_error payload rollback_error)), s1))"

definition setup_template_or_rollback :: "('s, unit) unwinding \<Rightarrow> ('s, unit) stateful \<Rightarrow> ('s, unit) unwinding" where
  "setup_template_or_rollback setup_fn drop_db s =
     (case setup_fn s of
        (Inr (Inr _), s1) \<Rightarrow> (Inr (Inr ()), s1)
      | (Inr (Inl setup_error), s1) \<Rightarrow> rollback_after_setup_error setup_error drop_db s1
      | (Inl payload, s1) \<Rightarrow> resume_or_report_rollback_failure payload drop_db s1)"

definition create_and_setup_template ::
  "('s, unit) stateful \<Rightarrow> ('s, unit) stateful \<Rightarrow> ('s, unit) unwinding \<Rightarrow> ('s, unit) unwinding" where
  "create_and_setup_template create_db drop_db setup_fn s =
     (case create_db s of
        (Inl e, s1) \<Rightarrow> (Inr (Inl e), s1)
      | (Inr _, s1) \<Rightarrow> setup_template_or_rollback setup_fn drop_db s1)"

text \<open>\<open>TEMPLATE_LOCKS\<close>: a lock for each name that was ever asked for. A poisoned lock is taken all the same.\<close>

record lock_table =
  lt_locks :: "string \<rightharpoonup> nat"
  lt_next :: nat

definition template_lock :: "string \<Rightarrow> lock_table \<Rightarrow> nat \<times> lock_table" where
  "template_lock nm lt =
     (case lt_locks lt nm of
        Some l \<Rightarrow> (l, lt)
      | None \<Rightarrow> (lt_next lt, \<lparr>lt_locks = (lt_locks lt)(nm \<mapsto> lt_next lt), lt_next = lt_next lt + 1\<rparr>))"

definition with_template_lock :: "string \<Rightarrow> ('s \<Rightarrow> 'a \<times> 's) \<Rightarrow> lock_table \<times> 's \<Rightarrow> 'a \<times> lock_table \<times> 's" where
  "with_template_lock nm operation x =
     (case x of (lt, s) \<Rightarrow> case template_lock nm lt of (_, lt1) \<Rightarrow> case operation s of (r, s1) \<Rightarrow> (r, lt1, s1))"

definition ensure_template_exists_with_lock ::
  "string \<Rightarrow> 's template_creation_ops \<Rightarrow> (lock_table \<times> 's, unit) unwinding" where
  "ensure_template_exists_with_lock nm ops =
     with_template_lock nm (\<lambda>s.
       case op_exists ops s of
         (Inl e, s1) \<Rightarrow> (Inr (Inl e), s1)
       | (Inr True, s1) \<Rightarrow> (Inr (Inr ()), s1)
       | (Inr False, s1) \<Rightarrow> create_and_setup_template (op_create ops) (op_drop ops) (op_setup ops) s1)"

definition template_ops ::
  "('s, 'c) driver \<Rightarrow> connection_metadata \<Rightarrow> (string \<Rightarrow> ('s, unit) unwinding) \<Rightarrow> string \<Rightarrow> 's template_creation_ops" where
  "template_ops drv conn setup_fn nm =
     \<lparr>op_exists = database_exists drv conn nm, op_create = create_database drv conn nm,
      op_drop = drop_database drv conn nm, op_setup = setup_fn nm\<rparr>"

definition ensure_template_exists ::
  "('s, 'c) driver \<Rightarrow> connection_metadata \<Rightarrow> (string \<Rightarrow> ('s, unit) unwinding) \<Rightarrow> string \<Rightarrow> (lock_table \<times> 's, unit) unwinding" where
  "ensure_template_exists drv conn setup_fn nm = ensure_template_exists_with_lock nm (template_ops drv conn setup_fn nm)"

section \<open>Concurrent callers\<close>

text \<open>
  Threads that each ensure one template, at the granularity of the calls they make: the entry of the lock table,
  the lock, the calls on the server and the release at the end. Two components observe: the templates whose
  setup returned normally, and those whose rollback failed.
\<close>

datatype template_phase =
    Calling
  | Queued nat
  | Checking nat
  | Creating nat
  | SettingUp nat
  | RollingBack nat "panic_payload + bootstrap_error"
  | Returned "panic_payload + (bootstrap_error + unit)"

record 's template_machine =
  tm_table :: lock_table
  tm_holder :: "nat \<Rightarrow> nat option"
  tm_threads :: "nat \<Rightarrow> string \<times> template_phase"
  tm_server :: 's
  tm_ready :: "string set"
  tm_stuck :: "string set"

definition at_phase :: "nat \<Rightarrow> template_phase \<Rightarrow> 's template_machine \<Rightarrow> 's template_machine" where
  "at_phase i ph m = m\<lparr>tm_threads := (tm_threads m)(i := (fst (tm_threads m i), ph))\<rparr>"

definition return_from :: "nat \<Rightarrow> nat \<Rightarrow> panic_payload + (bootstrap_error + unit) \<Rightarrow> 's template_machine \<Rightarrow> 's template_machine" where
  "return_from i l r m = at_phase i (Returned r) (m\<lparr>tm_holder := (tm_holder m)(l := None)\<rparr>)"

fun rolled_back :: "panic_payload + bootstrap_error \<Rightarrow> bootstrap_error + unit \<Rightarrow> panic_payload + (bootstrap_error + unit)" where
  "rolled_back (Inr setup_error) (Inr _) = Inr (Inl setup_error)"
| "rolled_back (Inr setup_error) (Inl e) = Inr (Inl (template_setup_rollback_error setup_error e))"
| "rolled_back (Inl payload) (Inr _) = Inl payload"
| "rolled_back (Inl payload) (Inl e) = Inr (Inl (template_setup_panic_rollback_error payload e))"

text \<open>The next call of a thread; \<open>None\<close> when it waits for its lock or has returned.\<close>

definition advance :: "(string \<Rightarrow> 's template_creation_ops) \<Rightarrow> nat \<Rightarrow> 's template_machine \<Rightarrow> 's template_machine option" where
  "advance ops i m =
     (case tm_threads m i of (nm, ph) \<Rightarrow>
      case ph of
        Calling \<Rightarrow> (case template_lock nm (tm_table m) of (l, lt) \<Rightarrow> Some (at_phase i (Queued l) (m\<lparr>tm_table := lt\<rparr>)))
      | Queued l \<Rightarrow>
          if tm_holder m l = None then Some (at_phase i (Checking l) (m\<lparr>tm_holder := (tm_holder m)(l \<mapsto> i)\<rparr>)) else None
      | Checking l \<Rightarrow>
          Some (case op_exists (ops nm) (tm_server m) of (r, s) \<Rightarrow>
            case r of
              Inl e \<Rightarrow> return_from i l (Inr (Inl e)) (m\<lparr>tm_server := s\<rparr>)
            | Inr found \<Rightarrow>
                if found then return_from i l (Inr (Inr ())) (m\<lparr>tm_server := s\<rparr>)
                else at_phase i (Creating l) (m\<lparr>tm_server := s\<rparr>))
      | Creating l \<Rightarrow>
          Some (case op_create (ops nm) (tm_server m) of (r, s) \<Rightarrow>
            case r of
              Inl e \<Rightarrow> return_from i l (Inr (Inl e)) (m\<lparr>tm_server := s\<rparr>)
            | Inr _ \<Rightarrow> at_phase i (SettingUp l) (m\<lparr>tm_server := s\<rparr>))
      | SettingUp l \<Rightarrow>
          Some (case op_setup (ops nm) (tm_server m) of (r, s) \<Rightarrow>
            case r of
              Inr (Inr _) \<Rightarrow> return_from i l (Inr (Inr ())) (m\<lparr>tm_server := s, tm_ready := insert nm (tm_ready m)\<rparr>)
            | Inr (Inl e) \<Rightarrow> at_phase i (RollingBack l (Inr e)) (m\<lparr>tm_server := s\<rparr>)
            | Inl payload \<Rightarrow> at_phase i (RollingBack l (Inl payload)) (m\<lparr>tm_server := s\<rparr>))
      | RollingBack l failure \<Rightarrow>
          Some (case op_drop (ops nm) (tm_server m) of (r, s) \<Rightarrow>
            return_from i l (rolled_back failure r)
              (m\<lparr>tm_server := s, tm_stuck := (case r of Inl _ \<Rightarrow> insert nm (tm_stuck m) | Inr _ \<Rightarrow> tm_stuck m)\<rparr>))
      | Returned _ \<Rightarrow> None)"

inductive template_step :: "(string \<Rightarrow> 's template_creation_ops) \<Rightarrow> 's template_machine \<Rightarrow> 's template_machine \<Rightarrow> bool"
  for ops :: "string \<Rightarrow> 's template_creation_ops" where
  thread_advances: "advance ops i m = Some m' \<Longrightarrow> template_step ops m m'"

inductive_cases template_stepE: "template_step ops m m'"

end
