(* ===== verification/Templates.thy ===== *)
theory Templates
  imports Database
begin

text \<open>
  What the operations on databases promise: the statements name exactly the database they are asked for, a
  temporary database is gone with its guard, and however threads interleave, a template is reported to exist
  only once it has been set up. The server is specified by the locale \<open>sql_server\<close>, in terms of the text that
  is sent.
\<close>

section \<open>Reading the statements\<close>

text \<open>SQL's quoted identifiers: a doubled quote stands for one, a single one ends the identifier.\<close>

fun read_quoted :: "string \<Rightarrow> (string \<times> string) option" where
  "read_quoted [] = None"
| "read_quoted [c] = (if c = CHR 0x22 then Some ([], []) else None)"
| "read_quoted (c # d # ds) =
     (if c \<noteq> CHR 0x22 then map_option (\<lambda>(n, r). (c # n, r)) (read_quoted (d # ds))
      else if d = CHR 0x22 then map_option (\<lambda>(n, r). (c # n, r)) (read_quoted ds)
      else Some ([], d # ds))"

fun read_identifier :: "string \<Rightarrow> (string \<times> string) option" where
  "read_identifier [] = None"
| "read_identifier (c # cs) = (if c = CHR 0x22 then read_quoted cs else None)"

datatype statement = CreateDatabase string | CloneDatabase string string | DropDatabase string

definition after :: "string \<Rightarrow> string \<Rightarrow> string option" where
  "after start s = (if prefix start s then Some (drop (length start) s) else None)"

definition read_statement :: "string \<Rightarrow> statement option" where
  "read_statement sql =
     (case after ''CREATE DATABASE '' sql of
        Some rest \<Rightarrow>
          (case read_identifier rest of
             None \<Rightarrow> None
           | Some (nm, []) \<Rightarrow> Some (CreateDatabase nm)
           | Some (nm, clause) \<Rightarrow>
               (case Option.bind (after '' TEMPLATE '' clause) read_identifier of
                  Some (template, []) \<Rightarrow> Some (CloneDatabase nm template)
                | _ \<Rightarrow> None))
      | None \<Rightarrow>
          (case Option.bind (after ''DROP DATABASE '' sql) read_identifier of
             Some (nm, []) \<Rightarrow> Some (DropDatabase nm)
           | _ \<Rightarrow> None))"

lemma after_append [simp]: "after start (start @ s) = Some s"
  by (simp add: after_def)

lemma read_quoted_plain: "c \<noteq> CHR 0x22 \<Longrightarrow> cs \<noteq> [] \<Longrightarrow> read_quoted (c # cs) = map_option (\<lambda>(n, r). (c # n, r)) (read_quoted cs)"
  by (cases cs) auto

lemma read_escaped:
  assumes "rest = [] \<or> hd rest \<noteq> CHR 0x22"
  shows "read_quoted (escape_identifier nm @ CHR 0x22 # rest) = Some (nm, rest)"
proof (induction nm)
  case Nil
  then show ?case using assms by (cases rest) (auto simp: escape_identifier_def)
next
  case (Cons c cs)
  show ?case
  proof (cases "c = CHR 0x22")
    case True
    then show ?thesis using Cons by (simp add: escape_identifier_def)
  next
    case False
    then have "escape_identifier (c # cs) @ CHR 0x22 # rest = c # (escape_identifier cs @ CHR 0x22 # rest)"
      by (simp add: escape_identifier_def)
    then show ?thesis using False Cons by (simp add: read_quoted_plain)
  qed
qed

lemma read_identifier_quoted: "rest = [] \<or> hd rest \<noteq> CHR 0x22 \<Longrightarrow> read_identifier (quoted nm @ rest) = Some (nm, rest)"
  by (simp add: quoted_def read_escaped)

lemma ddl_sql_templates:
  "ddl_sql ''CREATE DATABASE {}'' nm = ''CREATE DATABASE '' @ quoted nm"
  "ddl_sql ''DROP DATABASE {}'' nm = ''DROP DATABASE '' @ quoted nm"
  by (simp_all add: ddl_sql_def)

lemma read_create: "read_statement (''CREATE DATABASE '' @ quoted nm) = Some (CreateDatabase nm)"
  using read_identifier_quoted [of "[]" nm] by (simp add: read_statement_def del: append.simps)

lemma read_clone: "read_statement (clone_sql nm template) = Some (CloneDatabase nm template)"
  using read_identifier_quoted [of "'' TEMPLATE '' @ quoted template" nm] read_identifier_quoted [of "[]" template]
  by (simp add: read_statement_def clone_sql_def after_def)

lemma read_drop: "read_statement (''DROP DATABASE '' @ quoted nm) = Some (DropDatabase nm)"
  using read_identifier_quoted [of "[]" nm] by (simp add: read_statement_def after_def)

definition sends :: "('s, 'c) driver \<Rightarrow> string \<Rightarrow> string \<Rightarrow> ('s, unit) stateful" where
  "sends drv url sql =
     st_bind (connect_admin drv url) (\<lambda>client. map_driver_err statement_error (dr_batch_execute drv client sql))"

text \<open>
  C22: a statement names exactly the database it is meant for. Whatever characters a name has, quotes, braces and
  semicolons included, the text that each operation sends reads back, by SQL's rule for quoted identifiers, as
  that one statement on that name with nothing left over; so no name can end the identifier early and add SQL of
  its own. All are sent on a connection to the \<open>postgres\<close> database, or to the one the guard keeps.
\<close>

theorem statements_name_database:
  "(\<exists>sql. read_statement sql = Some (CreateDatabase nm) \<and>
      create_database drv conn nm = sends drv (database_url drv conn ''postgres'') sql) \<and>
   (\<exists>sql. read_statement sql = Some (CloneDatabase nm template) \<and>
      create_database_from_template drv conn nm template = sends drv (database_url drv conn ''postgres'') sql) \<and>
   (\<exists>sql. read_statement sql = Some (DropDatabase nm) \<and>
      drop_database drv conn nm = sends drv (database_url drv conn ''postgres'') sql) \<and>
   (\<exists>sql. read_statement sql = Some (DropDatabase (td_name td)) \<and> try_drop drv td = sends drv (td_admin_url td) sql)"
proof (intro conjI)
  show "\<exists>sql. read_statement sql = Some (CreateDatabase nm) \<and>
      create_database drv conn nm = sends drv (database_url drv conn ''postgres'') sql"
    by (rule exI, rule conjI [OF read_create]) (simp only: create_database_def execute_ddl_command_def sends_def admin_client_def ddl_sql_templates)
  show "\<exists>sql. read_statement sql = Some (CloneDatabase nm template) \<and>
      create_database_from_template drv conn nm template = sends drv (database_url drv conn ''postgres'') sql"
    by (rule exI, rule conjI [OF read_clone]) (simp only: create_database_from_template_def sends_def admin_client_def)
  show "\<exists>sql. read_statement sql = Some (DropDatabase nm) \<and>
      drop_database drv conn nm = sends drv (database_url drv conn ''postgres'') sql"
    by (rule exI, rule conjI [OF read_drop]) (simp only: drop_database_def execute_ddl_command_def sends_def admin_client_def ddl_sql_templates)
  show "\<exists>sql. read_statement sql = Some (DropDatabase (td_name td)) \<and> try_drop drv td = sends drv (td_admin_url td) sql"
    by (rule exI, rule conjI [OF read_drop]) (simp only: try_drop_def sends_def drop_sql_def)
qed

section \<open>The server\<close>

text \<open>
  What PostgreSQL promises of the databases it holds: connecting, asking and ending sessions change none, the
  query answers for the name that is its parameter, and a statement does what it says or, when it reports an
  error, nothing.
\<close>

locale sql_server =
  fixes drv :: "('s, 'c) driver"
    and dbs :: "'s \<Rightarrow> string set"
  assumes connect_keeps: "dbs (snd (dr_connect drv url s)) = dbs s"
    and execute_keeps: "dbs (snd (dr_execute drv c sql n s)) = dbs s"
    and query_keeps: "dbs (snd (dr_query_bool drv c EXISTS_SQL n s)) = dbs s"
    and query_answers: "fst (dr_query_bool drv c EXISTS_SQL n s) = Inr found \<Longrightarrow> found \<longleftrightarrow> n \<in> dbs s"
    and create_effect: "read_statement sql = Some (CreateDatabase n) \<Longrightarrow> dr_batch_execute drv c sql s = (Inr (), s') \<Longrightarrow>
      n \<notin> dbs s \<and> dbs s' = insert n (dbs s)"
    and clone_effect: "read_statement sql = Some (CloneDatabase n t) \<Longrightarrow> dr_batch_execute drv c sql s = (Inr (), s') \<Longrightarrow>
      n \<notin> dbs s \<and> t \<in> dbs s \<and> dbs s' = insert n (dbs s)"
    and drop_effect: "read_statement sql = Some (DropDatabase n) \<Longrightarrow> dr_batch_execute drv c sql s = (Inr (), s') \<Longrightarrow>
      n \<in> dbs s \<and> dbs s' = dbs s - {n}"
    and failed_statement: "read_statement sql \<noteq> None \<Longrightarrow> dr_batch_execute drv c sql s = (Inl e, s') \<Longrightarrow> dbs s' = dbs s"
begin

lemma connect_admin_keeps: "connect_admin drv url s = (r, s') \<Longrightarrow> dbs s' = dbs s"
  using connect_keeps [of url s]
  by (auto simp: connect_admin_def map_driver_err_def split: prod.splits sum.splits)

lemma sends_cases:
  assumes "sends drv url sql s = (r, s')"
  obtains c s1 where "dbs s1 = dbs s" "dr_batch_execute drv c sql s1 = (Inr (), s')" "r = Inr ()"
  | e c s1 where "dbs s1 = dbs s" "dr_batch_execute drv c sql s1 = (Inl e, s')" "r \<noteq> Inr ()"
  | "dbs s' = dbs s" "r \<noteq> Inr ()"
proof -
  obtain q s1 where q: "connect_admin drv url s = (q, s1)" by fastforce
  note same = connect_admin_keeps [OF q]
  show ?thesis
  proof (cases q)
    case (Inl e)
    then show ?thesis using that(3) assms q same by (auto simp: sends_def st_bind_def)
  next
    case (Inr c)
    obtain x s2 where x: "dr_batch_execute drv c sql s1 = (x, s2)" by fastforce
    then have "(r, s') = (case x of Inl e \<Rightarrow> Inl (statement_error e) | Inr y \<Rightarrow> Inr y, s2)"
      using assms q Inr by (auto simp: sends_def st_bind_def map_driver_err_def split: sum.splits)
    then show ?thesis using that(1,2) x same by (cases x) auto
  qed
qed

text \<open>The operations, on every outcome.\<close>

lemma create_sent:
  assumes "sends drv url sql s = (r, s')" and sql: "read_statement sql = Some (CreateDatabase n)"
  shows "dbs s' = (if r = Inr () then insert n (dbs s) else dbs s) \<and> (r = Inr () \<longrightarrow> n \<notin> dbs s)"
  using assms(1) by (rule sends_cases) (use create_effect [OF sql] failed_statement [of sql] sql in auto)

lemma drop_sent:
  assumes "sends drv url sql s = (r, s')" and sql: "read_statement sql = Some (DropDatabase n)"
  shows "dbs s' = (if r = Inr () then dbs s - {n} else dbs s) \<and> (r = Inr () \<longrightarrow> n \<in> dbs s)"
  using assms(1) by (rule sends_cases) (use drop_effect [OF sql] failed_statement [of sql] sql in auto)

lemma create_spec:
  assumes "create_database drv conn n s = (r, s')"
  shows "dbs s' = (if r = Inr () then insert n (dbs s) else dbs s) \<and> (r = Inr () \<longrightarrow> n \<notin> dbs s)"
proof (rule create_sent [OF _ read_create])
  show "sends drv (database_url drv conn ''postgres'') (''CREATE DATABASE '' @ quoted n) s = (r, s')"
    using assms by (simp only: create_database_def execute_ddl_command_def sends_def admin_client_def ddl_sql_templates)
qed

lemmas drop_spec = drop_sent [OF _ read_drop]

lemma drop_database_sends: "drop_database drv conn n = sends drv (database_url drv conn ''postgres'') (''DROP DATABASE '' @ quoted n)"
  by (simp only: drop_database_def execute_ddl_command_def sends_def admin_client_def ddl_sql_templates)

lemma try_drop_sends: "try_drop drv td = sends drv (td_admin_url td) (''DROP DATABASE '' @ quoted (td_name td))"
  by (simp only: try_drop_def sends_def drop_sql_def)

lemma exists_spec:
  assumes "database_exists drv conn n s = (r, s')"
  shows "dbs s' = dbs s \<and> (\<forall>found. r = Inr found \<longrightarrow> found = (n \<in> dbs s))"
proof -
  obtain q s1 where q: "connect_admin drv (database_url drv conn ''postgres'') s = (q, s1)" by fastforce
  then show ?thesis
    using assms connect_admin_keeps [OF q] query_keeps query_answers
    by (auto simp: database_exists_def admin_client_def st_bind_def map_driver_err_def split: prod.splits sum.splits)
      (metis fst_conv snd_conv)+
qed

lemma temporary_spec:
  assumes "make_temporary drv conn n s = (r, s')"
  shows "(case r of Inl _ \<Rightarrow> dbs s' = dbs s | Inr td \<Rightarrow> td_name td = n \<and> n \<notin> dbs s \<and> dbs s' = insert n (dbs s))"
proof -
  obtain q s1 where q: "create_database drv conn n s = (q, s1)" by fastforce
  then show ?thesis using assms create_spec [OF q]
    by (auto simp: make_temporary_def st_bind_def st_ok_def temporary_database_new_def split: sum.splits)
qed

lemma drop_temporary_spec:
  assumes "drop_temporary drv td s = (Inr (), s')"
  shows "dbs s' = dbs s - {td_name td}"
proof -
  obtain q s1 where q: "try_drop drv td s = (q, s1)" by fastforce
  obtain p s2 where p: "try_drop drv td s1 = (p, s2)" by fastforce
  have "q = Inr ()" "s' = s2" using assms q p by (simp_all add: drop_temporary_def temporary_drop_def)
  then show ?thesis
    using drop_spec [OF q [unfolded try_drop_sends]] drop_spec [OF p [unfolded try_drop_sends]] by (auto split: if_splits)
qed

end

section \<open>Templates under concurrency\<close>

fun lock_of :: "template_phase \<Rightarrow> nat option" where
  "lock_of (Queued l) = Some l"
| "lock_of (Checking l) = Some l"
| "lock_of (Creating l) = Some l"
| "lock_of (SettingUp l) = Some l"
| "lock_of (RollingBack l _) = Some l"
| "lock_of _ = None"

fun in_section :: "template_phase \<Rightarrow> nat option" where
  "in_section (Queued l) = None"
| "in_section ph = lock_of ph"

fun building :: "template_phase \<Rightarrow> bool" where
  "building (SettingUp _) = True"
| "building (RollingBack _ _) = True"
| "building _ = False"

fun creating :: "template_phase \<Rightarrow> bool" where
  "creating (Creating _) = True"
| "creating _ = False"

text \<open>What holds of one thread, of the locks, and of the databases that exist.\<close>

definition thread_inv :: "('s \<Rightarrow> string set) \<Rightarrow> 's template_machine \<Rightarrow> nat \<Rightarrow> bool" where
  "thread_inv dbs m i \<longleftrightarrow>
     (case tm_threads m i of (nm, ph) \<Rightarrow>
        (\<forall>l. lock_of ph = Some l \<longrightarrow> lt_locks (tm_table m) nm = Some l) \<and>
        (creating ph \<longrightarrow> nm \<notin> dbs (tm_server m)) \<and>
        (building ph \<longrightarrow> nm \<in> dbs (tm_server m) \<and> nm \<notin> tm_ready m) \<and>
        (ph = Returned (Inr (Inr ())) \<longrightarrow> nm \<in> tm_ready m \<union> tm_stuck m))"

definition lock_inv :: "'s template_machine \<Rightarrow> bool" where
  "lock_inv m \<longleftrightarrow>
     (\<forall>nm l. lt_locks (tm_table m) nm = Some l \<longrightarrow> l < lt_next (tm_table m)) \<and>
     (\<forall>nm nm' l. lt_locks (tm_table m) nm = Some l \<and> lt_locks (tm_table m) nm' = Some l \<longrightarrow> nm = nm') \<and>
     (\<forall>l i. tm_holder m l = Some i \<longleftrightarrow> in_section (snd (tm_threads m i)) = Some l)"

definition covered :: "('s \<Rightarrow> string set) \<Rightarrow> 's template_machine \<Rightarrow> bool" where
  "covered dbs m \<longleftrightarrow>
     tm_ready m \<subseteq> dbs (tm_server m) \<and>
     (\<forall>nm \<in> dbs (tm_server m). nm \<in> tm_ready m \<union> tm_stuck m \<or> (\<exists>i ph. tm_threads m i = (nm, ph) \<and> building ph))"

definition template_inv :: "('s \<Rightarrow> string set) \<Rightarrow> 's template_machine \<Rightarrow> bool" where
  "template_inv dbs m \<longleftrightarrow> (\<forall>i. thread_inv dbs m i) \<and> lock_inv m \<and> covered dbs m"

text \<open>All threads are about to call; the databases that exist count as set up.\<close>

definition template_init :: "('s \<Rightarrow> string set) \<Rightarrow> 's template_machine \<Rightarrow> bool" where
  "template_init dbs m \<longleftrightarrow>
     (\<forall>i. snd (tm_threads m i) = Calling) \<and> tm_holder m = (\<lambda>_. None) \<and> tm_table m = \<lparr>lt_locks = Map.empty, lt_next = 0\<rparr> \<and>
     tm_ready m = dbs (tm_server m) \<and> tm_stuck m = {}"

lemma section_lock: "in_section ph = Some l \<Longrightarrow> lock_of ph = Some l"
  by (cases ph) auto

lemma phase_section: "building ph \<Longrightarrow> in_section ph \<noteq> None" "creating ph \<Longrightarrow> in_section ph \<noteq> None"
  by (cases ph; simp)+

lemma thread_inv_at:
  assumes "tm_threads m i = (nm, ph)"
  shows "thread_inv dbs m i \<longleftrightarrow>
    (\<forall>l. lock_of ph = Some l \<longrightarrow> lt_locks (tm_table m) nm = Some l) \<and>
    (creating ph \<longrightarrow> nm \<notin> dbs (tm_server m)) \<and>
    (building ph \<longrightarrow> nm \<in> dbs (tm_server m) \<and> nm \<notin> tm_ready m) \<and>
    (ph = Returned (Inr (Inr ())) \<longrightarrow> nm \<in> tm_ready m \<union> tm_stuck m)"
  by (simp add: thread_inv_def assms)

text \<open>One template has one lock, and a lock one thread.\<close>

lemma section_exclusive:
  assumes "template_inv dbs m" and "tm_threads m i = (nm, ph)" and "tm_threads m j = (nm, ph')"
    and "in_section ph \<noteq> None" and "in_section ph' \<noteq> None"
  shows "i = j"
proof -
  obtain l l' where l: "in_section ph = Some l" "in_section ph' = Some l'" using assms(4,5) by auto
  have "lt_locks (tm_table m) nm = Some l" "lt_locks (tm_table m) nm = Some l'"
    using assms(1) l [THEN section_lock] thread_inv_at [OF assms(2), of dbs] thread_inv_at [OF assms(3), of dbs]
    unfolding template_inv_def by blast+
  then have "tm_holder m l = Some i" "tm_holder m l = Some j"
    using assms(1-3) l unfolding template_inv_def lock_inv_def by auto
  then show ?thesis by simp
qed

lemma template_init_inv: "template_init dbs m \<Longrightarrow> template_inv dbs m"
proof -
  assume init: "template_init dbs m"
  then have "tm_threads m i = (fst (tm_threads m i), Calling)" for i
    unfolding template_init_def by (metis prod.collapse)
  then have "thread_inv dbs m i" for i using thread_inv_at [of m i _ Calling dbs] by auto
  moreover have "lock_inv m" "covered dbs m"
    using init by (simp_all add: template_init_def lock_inv_def covered_def)
  ultimately show ?thesis unfolding template_inv_def by blast
qed

text \<open>
  A step of thread \<open>i\<close> inside its section: it goes on or returns, the databases change at its own name only,
  and what is ready or stuck grows by its own name only.
\<close>

definition own_step :: "('s \<Rightarrow> string set) \<Rightarrow> nat \<Rightarrow> 's template_machine \<Rightarrow> 's template_machine \<Rightarrow> bool" where
  "own_step dbs i m m' \<longleftrightarrow>
     (\<exists>nm ph ph' l. tm_threads m i = (nm, ph) \<and> in_section ph = Some l \<and> tm_threads m' = (tm_threads m)(i := (nm, ph')) \<and>
        (in_section ph' = Some l \<and> tm_holder m' = tm_holder m \<or>
         in_section ph' = None \<and> lock_of ph' = None \<and> tm_holder m' = (tm_holder m)(l := None)) \<and>
        tm_table m' = tm_table m \<and>
        dbs (tm_server m') - {nm} = dbs (tm_server m) - {nm} \<and>
        tm_ready m \<subseteq> tm_ready m' \<and> tm_ready m' \<subseteq> insert nm (tm_ready m) \<and>
        tm_stuck m \<subseteq> tm_stuck m' \<and> tm_stuck m' \<subseteq> insert nm (tm_stuck m))"

lemma own_step_inv:
  assumes inv: "template_inv dbs m" and own: "own_step dbs i m m'" and i: "thread_inv dbs m' i"
    and name: "\<And>nm. nm = fst (tm_threads m i) \<Longrightarrow> nm \<in> tm_ready m' \<Longrightarrow> nm \<in> dbs (tm_server m')"
      "\<And>nm. nm = fst (tm_threads m i) \<Longrightarrow> nm \<in> dbs (tm_server m') \<Longrightarrow>
         nm \<in> tm_ready m' \<union> tm_stuck m' \<or> building (snd (tm_threads m' i))"
  shows "template_inv dbs m'"
proof -
  obtain nm ph ph' l where o: "tm_threads m i = (nm, ph)" "in_section ph = Some l" "tm_threads m' = (tm_threads m)(i := (nm, ph'))"
    "in_section ph' = Some l \<and> tm_holder m' = tm_holder m \<or>
     in_section ph' = None \<and> lock_of ph' = None \<and> tm_holder m' = (tm_holder m)(l := None)"
    "tm_table m' = tm_table m" "dbs (tm_server m') - {nm} = dbs (tm_server m) - {nm}"
    "tm_ready m \<subseteq> tm_ready m'" "tm_ready m' \<subseteq> insert nm (tm_ready m)"
    "tm_stuck m \<subseteq> tm_stuck m'" "tm_stuck m' \<subseteq> insert nm (tm_stuck m)"
    using own unfolding own_step_def by blast
  have other: "(n \<in> dbs (tm_server m')) = (n \<in> dbs (tm_server m))" "(n \<in> tm_ready m') = (n \<in> tm_ready m)" if "n \<noteq> nm" for n
    using that o(6-8) by blast+
  have "thread_inv dbs m' j" for j
  proof (cases "j = i")
    case False
    obtain n p where j: "tm_threads m j = (n, p)" by fastforce
    have "in_section p = None" if "n = nm"
      using section_exclusive [OF inv j [unfolded that] o(1)] False o(2) by blast
    then have "\<not> building p \<and> \<not> creating p" if "n = nm" using that phase_section by blast
    moreover have "thread_inv dbs m j" using inv unfolding template_inv_def by blast
    moreover have "tm_threads m' j = (n, p)" using j False o(3) by simp
    ultimately show ?thesis
      using other [of n] o(5,7,9) by (cases "n = nm") (auto simp: thread_inv_at [OF j] thread_inv_at)
  qed (use i in simp)
  moreover have "lock_inv m'"
  proof -
    have h: "tm_holder m k = Some j \<longleftrightarrow> in_section (snd (tm_threads m j)) = Some k" for k j
      using inv unfolding template_inv_def lock_inv_def by blast
    have "tm_holder m' k = Some j \<longleftrightarrow> in_section (snd (tm_threads m' j)) = Some k" for k j
      using o(4) h [of k j] h [of k i] h [of l j] o(1-3) by (cases "j = i") auto
    then show ?thesis using inv o(5) unfolding template_inv_def lock_inv_def by simp
  qed
  moreover have "covered dbs m'"
    unfolding covered_def
  proof (intro conjI ballI subsetI)
    fix n assume n: "n \<in> tm_ready m'"
    then show "n \<in> dbs (tm_server m')"
      using name(1) o(1) other [of n] inv unfolding template_inv_def covered_def by (cases "n = nm") auto
  next
    fix n assume n: "n \<in> dbs (tm_server m')"
    show "n \<in> tm_ready m' \<union> tm_stuck m' \<or> (\<exists>i ph. tm_threads m' i = (n, ph) \<and> building ph)"
    proof (cases "n = nm")
      case True
      then show ?thesis using name(2) [of nm] n o(1,3) by auto
    next
      case False
      then have "n \<in> tm_ready m \<union> tm_stuck m \<or> (\<exists>j p. tm_threads m j = (n, p) \<and> building p)"
        using inv n other unfolding template_inv_def covered_def by blast
      then show ?thesis using o(1,3,7,9) False by (metis Un_iff fun_upd_other fst_conv subsetD)
    qed
  qed
  ultimately show ?thesis unfolding template_inv_def by blast
qed

lemma lock_entry_inv:
  assumes inv: "template_inv dbs m" and i: "tm_threads m i = (nm, Calling)" and l: "template_lock nm (tm_table m) = (l, lt)"
  shows "template_inv dbs (at_phase i (Queued l) (m\<lparr>tm_table := lt\<rparr>))" (is "template_inv dbs ?m")
proof -
  have ext: "lt_locks (tm_table m) n = Some k \<Longrightarrow> lt_locks lt n = Some k" "lt_locks lt nm = Some l" for n k
    using l by (auto simp: template_lock_def split: option.splits if_splits)
  have th: "thread_inv dbs ?m j" for j
  proof (cases "j = i")
    case True
    then show ?thesis using ext(2) by (simp add: thread_inv_def at_phase_def i)
  next
    case False
    obtain n p where j: "tm_threads m j = (n, p)" by fastforce
    have "thread_inv dbs m j" using inv unfolding template_inv_def by blast
    then show ?thesis using ext(1) j False by (auto simp: thread_inv_def at_phase_def)
  qed
  have "lock_inv m" using inv unfolding template_inv_def by blast
  then have table: "lt_locks (tm_table m) n = Some k \<Longrightarrow> k < lt_next (tm_table m)"
    "lt_locks (tm_table m) n = Some k \<Longrightarrow> lt_locks (tm_table m) n' = Some k \<Longrightarrow> n = n'"
    and holder: "tm_holder m k = Some j \<longleftrightarrow> in_section (snd (tm_threads m j)) = Some k" for n n' k j
    unfolding lock_inv_def by blast+
  have "lt_locks lt n = Some k \<Longrightarrow> k < lt_next lt" for n k
    using l table(1) [of n k] by (auto simp: template_lock_def split: option.splits if_splits)
  moreover have "lt_locks lt n = Some k \<Longrightarrow> lt_locks lt n' = Some k \<Longrightarrow> n = n'" for n n' k
    using l table(1) [of n k] table(1) [of n' k] table(2) [of n k n']
    by (auto simp: template_lock_def split: option.splits if_splits)
  moreover have "tm_holder m k = Some j \<longleftrightarrow> in_section (snd (tm_threads ?m j)) = Some k" for k j
    using holder [of k j] i by (simp add: at_phase_def)
  ultimately have "lock_inv ?m" unfolding lock_inv_def by (auto simp: at_phase_def)
  moreover have "covered dbs ?m"
    using inv i unfolding template_inv_def covered_def at_phase_def by (auto simp: fun_upd_def) (metis building.simps(3) prod.inject)+
  ultimately show ?thesis using th unfolding template_inv_def by blast
qed

lemma lock_taken_inv:
  assumes inv: "template_inv dbs m" and i: "tm_threads m i = (nm, Queued l)" and free: "tm_holder m l = None"
  shows "template_inv dbs (at_phase i (Checking l) (m\<lparr>tm_holder := (tm_holder m)(l \<mapsto> i)\<rparr>))" (is "template_inv dbs ?m")
proof -
  have th: "thread_inv dbs ?m j" for j
  proof -
    obtain n p where j: "tm_threads m j = (n, p)" by fastforce
    have "thread_inv dbs m j" using inv unfolding template_inv_def by blast
    then show ?thesis using j i by (cases "j = i") (auto simp: thread_inv_def at_phase_def)
  qed
  have li: "lock_inv m" using inv unfolding template_inv_def by blast
  then have holder: "tm_holder m k = Some j \<longleftrightarrow> in_section (snd (tm_threads m j)) = Some k" for k j
    unfolding lock_inv_def by blast
  have "tm_holder ?m k = Some j \<longleftrightarrow> in_section (snd (tm_threads ?m j)) = Some k" for k j
    using holder [of k j] holder [of l j] free i by (auto simp: at_phase_def)
  then have "lock_inv ?m" using li unfolding lock_inv_def by (simp add: at_phase_def)
  moreover have "covered dbs ?m"
    using inv i unfolding template_inv_def covered_def at_phase_def by (auto simp: fun_upd_def) (metis building.simps(4) prod.inject)+
  ultimately show ?thesis using th unfolding template_inv_def by blast
qed

text \<open>What the machine relies on: the operations of \<open>TemplateCreationOps\<close> on the databases that exist.\<close>

locale template_service =
  fixes dbs :: "'s \<Rightarrow> string set"
    and ops :: "string \<Rightarrow> 's template_creation_ops"
  assumes exists_law: "op_exists (ops n) s = (r, s') \<Longrightarrow> dbs s' = dbs s \<and> (\<forall>found. r = Inr found \<longrightarrow> found = (n \<in> dbs s))"
    and create_law: "op_create (ops n) s = (q, s') \<Longrightarrow> dbs s' = (if q = Inr () then insert n (dbs s) else dbs s)"
    and drop_law: "op_drop (ops n) s = (q, s') \<Longrightarrow> dbs s' = (if q = Inr () then dbs s - {n} else dbs s)"
    and setup_law: "op_setup (ops n) s = (p, s') \<Longrightarrow> dbs s' = dbs s"
begin

lemma advance_inv:
  assumes inv: "template_inv dbs m" and step: "advance ops i m = Some m'"
  shows "template_inv dbs m'"
proof -
  obtain nm ph where i: "tm_threads m i = (nm, ph)" by fastforce
  have ti: "thread_inv dbs m i" and cov: "covered dbs m" using inv unfolding template_inv_def by blast+
  note at = thread_inv_at [OF i, of dbs]
  note defs = own_step_def advance_def return_from_def at_phase_def thread_inv_def
  have mine: "nm \<in> tm_ready m \<union> tm_stuck m" if "nm \<in> dbs (tm_server m)" "in_section ph \<noteq> None" "\<not> building ph"
    using cov that section_exclusive [OF inv i] phase_section(1) i unfolding covered_def by (metis prod.inject)
  show ?thesis
  proof (cases ph)
    case Calling
    then show ?thesis using step i lock_entry_inv [OF inv] by (auto simp: advance_def split: prod.splits)
  next
    case (Queued l)
    then show ?thesis using step i lock_taken_inv [OF inv] by (auto simp: advance_def split: if_splits)
  next
    case (Checking l)
    obtain r s where c: "op_exists (ops nm) (tm_server m) = (r, s)" by fastforce
    show ?thesis
      by (rule own_step_inv [OF inv, of i])
        (use step i Checking c exists_law [OF c] ti at mine cov in \<open>auto simp: defs covered_def split: sum.splits if_splits\<close>)
  next
    case (Creating l)
    obtain r s where c: "op_create (ops nm) (tm_server m) = (r, s)" by fastforce
    show ?thesis
      by (rule own_step_inv [OF inv, of i])
        (use step i Creating c create_law [OF c] ti at mine cov in \<open>auto simp: defs covered_def split: sum.splits if_splits\<close>)
  next
    case (SettingUp l)
    obtain r s where c: "op_setup (ops nm) (tm_server m) = (r, s)" by fastforce
    show ?thesis
      by (rule own_step_inv [OF inv, of i])
        (use step i SettingUp c setup_law [OF c] ti at cov in \<open>auto simp: defs covered_def split: sum.splits if_splits\<close>)
  next
    case (RollingBack l failure)
    obtain r s where c: "op_drop (ops nm) (tm_server m) = (r, s)" by fastforce
    have "rolled_back failure r \<noteq> Inr (Inr ())" by (cases failure; cases r) auto
    then show ?thesis
      by (intro own_step_inv [OF inv, of i])
        (use step i RollingBack c drop_law [OF c] ti at cov in \<open>auto simp: defs covered_def split: sum.splits if_splits\<close>)
  qed (use step i in \<open>auto simp: advance_def\<close>)
qed

end

sublocale template_service \<subseteq> machine: step_invariant "template_init dbs" "template_step ops" "template_inv dbs"
  by unfold_locales (auto intro: template_init_inv advance_inv elim: template_stepE)

text \<open>What one call does to the databases, by its outcome.\<close>

definition ensured ::
  "('s \<Rightarrow> string set) \<Rightarrow> 's template_creation_ops \<Rightarrow> string \<Rightarrow> 's \<Rightarrow> panic_payload + (bootstrap_error + unit) \<Rightarrow> 's \<Rightarrow> bool" where
  "ensured dbs ops n s r s' \<longleftrightarrow>
     (case r of
        Inr (Inr _) \<Rightarrow> dbs s' = insert n (dbs s) \<and> (n \<in> dbs s \<or> (\<exists>s1. op_setup ops s1 = (Inr (Inr ()), s')))
      | Inr (Inl _) \<Rightarrow> dbs s' = dbs s \<or> n \<notin> dbs s \<and> dbs s' = insert n (dbs s) \<and> (\<exists>s2 e. op_drop ops s2 = (Inl e, s'))
      | Inl payload \<Rightarrow> n \<notin> dbs s \<and> dbs s' = dbs s \<and> (\<exists>s1 s2. op_setup ops s1 = (Inl payload, s2)))"

context template_service
begin

lemma undone:
  assumes "rollback_and_log (op_drop (ops n)) s = (q, s')" and "dbs s = insert n D" and "n \<notin> D"
  shows "case q of Inr _ \<Rightarrow> dbs s' = D | Inl _ \<Rightarrow> dbs s' = insert n D \<and> (\<exists>e. op_drop (ops n) s = (Inl e, s'))"
proof -
  obtain x s1 where x: "op_drop (ops n) s = (x, s1)" by fastforce
  show ?thesis using assms x drop_law [OF x] by (cases x) (auto simp: rollback_and_log_def)
qed

lemma setup_outcome:
  assumes run: "setup_template_or_rollback (op_setup (ops n)) (op_drop (ops n)) s1 = (r, s')"
    and made: "dbs s1 = insert n (dbs s)" "n \<notin> dbs s"
  shows "ensured dbs (ops n) n s r s'"
proof -
  obtain x s2 where x: "op_setup (ops n) s1 = (x, s2)" by fastforce
  obtain q s3 where q: "rollback_and_log (op_drop (ops n)) s2 = (q, s3)" by fastforce
  have d: "dbs s2 = insert n (dbs s)" using setup_law [OF x] made by simp
  note u = undone [OF q d made(2)]
  consider (ok) "x = Inr (Inr ())" | (err) e where "x = Inr (Inl e)" | (panic) p where "x = Inl p"
    by (cases x) (metis old.unit.exhaust sum.exhaust)+
  then show ?thesis
  proof cases
    case ok
    then show ?thesis using run x d by (auto simp: setup_template_or_rollback_def ensured_def)
  next
    case err
    then show ?thesis using run x q u made(2)
      by (cases q) (auto simp: setup_template_or_rollback_def rollback_after_setup_error_def ensured_def)
  next
    case panic
    then show ?thesis using run x q u made(2)
      by (cases q) (auto simp: setup_template_or_rollback_def resume_or_report_rollback_failure_def ensured_def, blast)
  qed
qed

lemma ensure_outcome:
  assumes "ensure_template_exists_with_lock n (ops n) (lt, s) = (r, lt', s')"
  shows "ensured dbs (ops n) n s r s'"
proof -
  obtain x s1 where x: "op_exists (ops n) s = (x, s1)" by fastforce
  obtain c s2 where c: "op_create (ops n) s1 = (c, s2)" by fastforce
  note law = exists_law [OF x] create_law [OF c]
  have run: "(case x of Inl e \<Rightarrow> (Inr (Inl e), s1)
      | Inr found \<Rightarrow> if found then (Inr (Inr ()), s1)
          else create_and_setup_template (op_create (ops n)) (op_drop (ops n)) (op_setup (ops n)) s1) = (r, s')"
    using assms x by (auto simp: ensure_template_exists_with_lock_def with_template_lock_def split: prod.splits sum.splits bool.splits)
  show ?thesis
  proof (cases "x = Inr False \<and> c = Inr ()")
    case True
    then have "setup_template_or_rollback (op_setup (ops n)) (op_drop (ops n)) s2 = (r, s')"
      using run c by (simp add: create_and_setup_template_def)
    then show ?thesis using law True by (intro setup_outcome) auto
  next
    case False
    then show ?thesis using run law c
      by (cases x; cases c) (auto simp: ensured_def create_and_setup_template_def insert_absorb split: if_splits)
  qed
qed

end

text \<open>The operations of a connection provide that service, when the caller's setup creates and drops no database.\<close>

locale template_client = sql_server drv dbs
  for drv :: "('s, 'c) driver" and dbs :: "'s \<Rightarrow> string set" +
  fixes conn :: connection_metadata
    and setup_fn :: "string \<Rightarrow> ('s, unit) unwinding"
  assumes setup_keeps: "dbs (snd (setup_fn n s)) = dbs s"

sublocale template_client \<subseteq> template_service dbs "template_ops drv conn setup_fn"
proof
  show "dbs s' = dbs s \<and> (\<forall>found. r = Inr found \<longrightarrow> found = (n \<in> dbs s))"
    if "op_exists (template_ops drv conn setup_fn n) s = (r, s')" for n s r s'
    using that exists_spec by (simp add: template_ops_def)
  show "dbs s' = (if q = Inr () then insert n (dbs s) else dbs s)"
    if "op_create (template_ops drv conn setup_fn n) s = (q, s')" for n s q s'
    using that create_spec by (simp add: template_ops_def)
  show "dbs s' = (if q = Inr () then dbs s - {n} else dbs s)"
    if "op_drop (template_ops drv conn setup_fn n) s = (q, s')" for n s q s'
    using that drop_spec by (auto simp: template_ops_def drop_database_sends)
  show "dbs s' = dbs s" if "op_setup (template_ops drv conn setup_fn n) s = (p, s')" for n s p s'
    using that setup_keeps [of n s] by (simp add: template_ops_def)
qed

context template_client
begin

lemma reached_inv: "reach (template_init dbs) (template_step (template_ops drv conn setup_fn)) m \<Longrightarrow> template_inv dbs m"
  by (rule machine.reach_inv)

lemma ensure_spec:
  assumes "ensure_template_exists drv conn setup_fn nm (lt, s) = (r, lt', s')"
  shows "ensured dbs (template_ops drv conn setup_fn nm) nm s r s'"
  using assms unfolding ensure_template_exists_def by (rule ensure_outcome)

end

section \<open>Properties\<close>

subsection \<open>One thread alone is the code's call\<close>

fun run_thread :: "(string \<Rightarrow> 's template_creation_ops) \<Rightarrow> nat \<Rightarrow> nat \<Rightarrow> 's template_machine \<Rightarrow> 's template_machine" where
  "run_thread ops 0 i m = m"
| "run_thread ops (Suc k) i m = (case advance ops i m of None \<Rightarrow> m | Some m' \<Rightarrow> run_thread ops k i m')"

lemma run_thread_reach: "reach ini (template_step ops) m \<Longrightarrow> reach ini (template_step ops) (run_thread ops k i m)"
proof (induction k arbitrary: m)
  case (Suc k)
  then show ?case using reach.reach_step [OF Suc.prems thread_advances] by (auto split: option.split)
qed simp

text \<open>Run for \<open>k\<close> calls, the thread returns \<open>r\<close> and releases its lock, and the server is left as \<open>s\<close>.\<close>

definition completes ::
  "(string \<Rightarrow> 's template_creation_ops) \<Rightarrow> nat \<Rightarrow> nat \<Rightarrow> nat \<Rightarrow> panic_payload + (bootstrap_error + unit) \<Rightarrow> 's \<Rightarrow> 's template_machine \<Rightarrow> bool" where
  "completes ops k i l r s m \<longleftrightarrow>
     (let m' = run_thread ops k i m in
      tm_threads m' i = (fst (tm_threads m i), Returned r) \<and> tm_table m' = tm_table m \<and> tm_server m' = s \<and>
      tm_holder m' = (tm_holder m)(l := None))"

lemma run_returned: "tm_threads m i = (nm, Returned r) \<Longrightarrow> run_thread ops k i m = m"
  by (cases k) (auto simp: advance_def)

lemma completes_return: "advance ops i m = Some (return_from i l r (m\<lparr>tm_server := s, tm_ready := a, tm_stuck := b\<rparr>)) \<Longrightarrow> completes ops (Suc k) i l r s m"
  using run_returned [of "return_from i l r (m\<lparr>tm_server := s, tm_ready := a, tm_stuck := b\<rparr>)" i _ r ops k]
  by (simp add: completes_def return_from_def at_phase_def)

lemma completes_step: "advance ops i m = Some (at_phase i ph (m\<lparr>tm_server := s1\<rparr>)) \<Longrightarrow>
    completes ops k i l r s (at_phase i ph (m\<lparr>tm_server := s1\<rparr>)) \<Longrightarrow> completes ops (Suc k) i l r s m"
  by (simp add: completes_def at_phase_def)

lemma rolling_back_completes:
  assumes "tm_threads m i = (nm, RollingBack l f)" and "op_drop (ops nm) (tm_server m) = (q, s)"
  shows "completes ops (Suc k) i l (rolled_back f q) s m"
  by (rule completes_return [where a="tm_ready m"]) (simp add: advance_def assms)

lemma setting_up_completes:
  assumes i: "tm_threads m i = (nm, SettingUp l)"
    and run: "setup_template_or_rollback (op_setup (ops nm)) (op_drop (ops nm)) (tm_server m) = (r, s)"
  shows "completes ops (Suc (Suc k)) i l r s m"
proof -
  obtain x s1 where x: "op_setup (ops nm) (tm_server m) = (x, s1)" by fastforce
  obtain q s2 where q: "op_drop (ops nm) s1 = (q, s2)" by fastforce
  have undone: "completes ops (Suc k) i l (rolled_back f q) s2 (at_phase i (RollingBack l f) (m\<lparr>tm_server := s1\<rparr>))" for f
    by (rule rolling_back_completes [of _ _ nm]) (simp_all add: at_phase_def i q)
  show ?thesis
  proof (cases "x = Inr (Inr ())")
    case True
    then have "r = Inr (Inr ())" "s = s1" using run x by (simp_all add: setup_template_or_rollback_def)
    then show ?thesis using True x i
      by (intro completes_return [where a="insert nm (tm_ready m)" and b="tm_stuck m"]) (simp add: advance_def)
  next
    case False
    define f where "f = (case x of Inl payload \<Rightarrow> Inl payload | Inr (Inl e) \<Rightarrow> Inr e | Inr (Inr _) \<Rightarrow> Inl OtherPayload)"
    have "r = rolled_back f q" "s = s2"
      using run x q False
      by (auto simp: f_def setup_template_or_rollback_def rollback_after_setup_error_def resume_or_report_rollback_failure_def
          rollback_and_log_def split: sum.splits)
    moreover have "advance ops i m = Some (at_phase i (RollingBack l f) (m\<lparr>tm_server := s1\<rparr>))"
      using x i False by (auto simp: advance_def f_def split: sum.splits)
    ultimately show ?thesis using completes_step [OF _ undone] by simp
  qed
qed

lemma creating_completes:
  assumes i: "tm_threads m i = (nm, Creating l)"
    and run: "create_and_setup_template (op_create (ops nm)) (op_drop (ops nm)) (op_setup (ops nm)) (tm_server m) = (r, s)"
  shows "completes ops (Suc (Suc (Suc k))) i l r s m"
proof -
  obtain x s1 where x: "op_create (ops nm) (tm_server m) = (x, s1)" by fastforce
  show ?thesis
  proof (cases x)
    case (Inl e)
    then show ?thesis using run x i
      by (intro completes_return [where a="tm_ready m" and b="tm_stuck m"]) (simp add: advance_def create_and_setup_template_def)
  next
    case (Inr u)
    then have "completes ops (Suc (Suc k)) i l r s (at_phase i (SettingUp l) (m\<lparr>tm_server := s1\<rparr>))"
      using run x i by (intro setting_up_completes [of _ _ nm]) (simp_all add: at_phase_def create_and_setup_template_def)
    then show ?thesis by (rule completes_step [rotated]) (simp add: advance_def i x Inr)
  qed
qed

lemma checking_completes:
  assumes i: "tm_threads m i = (nm, Checking l)"
    and run: "ensure_template_exists_with_lock nm (ops nm) (lt, tm_server m) = (r, lt', s)"
  shows "completes ops 4 i l r s m"
proof -
  obtain x s1 where x: "op_exists (ops nm) (tm_server m) = (x, s1)" by fastforce
  have four: "4 = Suc (Suc (Suc (Suc 0)))" by simp
  show ?thesis
  proof (cases "x = Inr False")
    case True
    then have "create_and_setup_template (op_create (ops nm)) (op_drop (ops nm)) (op_setup (ops nm)) s1 = (r, s)"
      using run x by (auto simp: ensure_template_exists_with_lock_def with_template_lock_def split: prod.splits)
    then have "completes ops (Suc (Suc (Suc 0))) i l r s (at_phase i (Creating l) (m\<lparr>tm_server := s1\<rparr>))"
      using i by (intro creating_completes [of _ _ nm]) (simp_all add: at_phase_def)
    then show ?thesis unfolding four by (rule completes_step [rotated]) (simp add: advance_def i x True)
  next
    case False
    then show ?thesis unfolding four using x i run
      by (intro completes_return [where a="tm_ready m" and b="tm_stuck m"])
        (auto simp: advance_def ensure_template_exists_with_lock_def with_template_lock_def split: prod.splits sum.splits)
  qed
qed

text \<open>
  the interleaved model is the code's. When no other thread moves and no lock is held, the calls of one
  thread, at most six, return what \<open>ensure_template_exists_with_lock\<close> returns, panics included, leave the server and
  the lock table as it does, and every lock free.
\<close>

theorem lone_thread_is_the_call:
  assumes "tm_threads m i = (nm, Calling)" and "tm_holder m = (\<lambda>_. None)"
    and "ensure_template_exists_with_lock nm (ops nm) (tm_table m, tm_server m) = (r, lt, s)"
  shows "let m' = run_thread ops 6 i m in
    tm_threads m' i = (nm, Returned r) \<and> tm_table m' = lt \<and> tm_server m' = s \<and> tm_holder m' = (\<lambda>_. None)"
proof -
  obtain l lt1 where l: "template_lock nm (tm_table m) = (l, lt1)" by fastforce
  then have lt: "lt = lt1"
    using assms(3) by (auto simp: ensure_template_exists_with_lock_def with_template_lock_def split: prod.splits)
  define m1 where "m1 = at_phase i (Checking l) (m\<lparr>tm_table := lt1, tm_holder := (tm_holder m)(l \<mapsto> i)\<rparr>)"
  have "run_thread ops (Suc (Suc k)) i m = run_thread ops k i m1" for k
    using assms(1,2) l by (simp add: advance_def at_phase_def m1_def)
  from this [of 4] have "run_thread ops 6 i m = run_thread ops 4 i m1" by (simp add: numeral_eq_Suc)
  moreover have "completes ops 4 i l r s m1"
    by (rule checking_completes [of _ _ nm]) (use assms in \<open>simp_all add: m1_def at_phase_def\<close>)
  ultimately show ?thesis using assms(1,2) lt by (simp add: completes_def m1_def at_phase_def Let_def fun_upd_def fun_eq_iff)
qed

subsection \<open>A server for examples\<close>

text \<open>A list of databases, and whether drops are refused, as they are while a session is open.\<close>

definition demo_refusal :: driver_error where
  "demo_refusal = DriverError ''db error'' None"

definition demo_driver :: "(string list \<times> bool, unit) driver" where
  "demo_driver = \<lparr>dr_url = (\<lambda>st db. ''postgresql://'' @ s_username st @ ''@'' @ s_host st @ ''/'' @ db),
     dr_connect = (\<lambda>url s. (Inr (), s)),
     dr_batch_execute = (\<lambda>_ sql (ds, busy).
       case read_statement sql of
         Some (CreateDatabase n) \<Rightarrow> if n \<in> set ds then (Inl demo_refusal, ds, busy) else (Inr (), n # ds, busy)
       | Some (CloneDatabase n t) \<Rightarrow>
           if n \<in> set ds \<or> t \<notin> set ds then (Inl demo_refusal, ds, busy) else (Inr (), n # ds, busy)
       | Some (DropDatabase n) \<Rightarrow>
           if busy \<or> n \<notin> set ds then (Inl demo_refusal, ds, busy) else (Inr (), removeAll n ds, busy)
       | None \<Rightarrow> (Inl demo_refusal, ds, busy)),
     dr_execute = (\<lambda>_ sql n s. (Inr 0, s)),
     dr_query_bool = (\<lambda>_ sql n (ds, busy). (Inr (n \<in> set ds), ds, busy))\<rparr>"

definition demo_dbs :: "string list \<times> bool \<Rightarrow> string set" where
  "demo_dbs s = set (fst s)"

definition demo_connection :: connection_metadata where
  "demo_connection = \<lparr>cm_settings = demo_settings, cm_pgpass_file = ''/home/.pgpass''\<rparr>"

text \<open>Setting up the template \<open>bad\<close> panics; that of any other succeeds.\<close>

definition demo_setup :: "string \<Rightarrow> (string list \<times> bool, unit) unwinding" where
  "demo_setup n s = (if n = ''bad'' then Inl (StrPayload ''migration failed'') else Inr (Inr ()), s)"

interpretation demo_db: template_client demo_driver demo_dbs demo_connection demo_setup
proof
  fix sql n t c s s' e
  assume "dr_batch_execute demo_driver c sql s = (Inr (), s')"
  then show "n \<notin> demo_dbs s \<and> demo_dbs s' = insert n (demo_dbs s)" if "read_statement sql = Some (CreateDatabase n)"
    using that by (auto simp: demo_driver_def demo_dbs_def split: prod.splits if_splits)
next
  fix sql n t c s s' e
  assume "dr_batch_execute demo_driver c sql s = (Inr (), s')"
  then show "n \<notin> demo_dbs s \<and> t \<in> demo_dbs s \<and> demo_dbs s' = insert n (demo_dbs s)" if "read_statement sql = Some (CloneDatabase n t)"
    using that by (auto simp: demo_driver_def demo_dbs_def split: prod.splits if_splits)
next
  fix sql n c s s'
  assume "dr_batch_execute demo_driver c sql s = (Inr (), s')"
  then show "n \<in> demo_dbs s \<and> demo_dbs s' = demo_dbs s - {n}" if "read_statement sql = Some (DropDatabase n)"
    using that by (auto simp: demo_driver_def demo_dbs_def split: prod.splits if_splits)
next
  fix sql c s s' e
  assume "dr_batch_execute demo_driver c sql s = (Inl e, s')"
  then show "demo_dbs s' = demo_dbs s"
    by (auto simp: demo_driver_def demo_dbs_def split: prod.splits if_splits option.splits statement.splits)
qed (auto simp: demo_driver_def demo_dbs_def demo_setup_def split: prod.splits)

text \<open>
  A rollback that fails is reported, but the half-made template stays, and the next caller is told that it exists.
\<close>

lemma failed_rollback_passes_for_ready:
  "let (r, lt, s) = ensure_template_exists demo_driver demo_connection demo_setup ''bad'' (\<lparr>lt_locks = Map.empty, lt_next = 0\<rparr>, [], True);
       (r', _, _) = ensure_template_exists demo_driver demo_connection demo_setup ''bad'' (lt, s)
   in r = Inr (Inl (extension_error Other)) \<and> r' = Inr (Inr ()) \<and> demo_dbs s = {''bad''}"
  using read_create [of "''bad''"] read_drop [of "''bad''"]
  by (simp add: ensure_template_exists_def ensure_template_exists_with_lock_def with_template_lock_def template_lock_def
      template_ops_def database_exists_def create_database_def drop_database_def execute_ddl_command_def admin_client_def
      connect_admin_def st_bind_def map_driver_err_def ddl_sql_templates create_and_setup_template_def
      setup_template_or_rollback_def resume_or_report_rollback_failure_def rollback_and_log_def
      template_setup_panic_rollback_error_def demo_driver_def demo_setup_def demo_dbs_def)

subsection \<open>A template is reported once it is set up\<close>

text \<open>
  C21: templates are set up by one thread and reported when that is done. In every interleaving of threads that
  ensure templates, starting with no lock held, with every call able to fail and every setup able to panic: no two
  threads create, set up or roll back the same template at the same time; a setup runs only for a template that
  exists and that no setup has completed; and a thread that was told \<open>Ok\<close> asked for a template that existed from
  the start or whose setup has returned normally, and which is there. This is for a template none of whose
  rollbacks has failed: when a rollback fails, the half-made template stays behind, and later callers are told \<open>Ok\<close>.
\<close>

theorem template_reported_when_ready:
  assumes "template_client drv dbs setup_fn"
    and "reach (template_init dbs) (template_step (template_ops drv conn setup_fn)) m"
    and "tm_threads m i = (nm, ph)" and "nm \<notin> tm_stuck m"
  shows "(ph = Returned (Inr (Inr ())) \<longrightarrow> nm \<in> tm_ready m \<and> nm \<in> dbs (tm_server m)) \<and>
    (building ph \<longrightarrow> nm \<in> dbs (tm_server m) \<and> nm \<notin> tm_ready m) \<and>
    (in_section ph \<noteq> None \<longrightarrow> (\<forall>j ph'. tm_threads m j = (nm, ph') \<and> in_section ph' \<noteq> None \<longrightarrow> j = i))"
proof -
  have inv: "template_inv dbs m"
    using template_client.reached_inv [OF assms(1)] assms(2) by blast
  then have "thread_inv dbs m i" "tm_ready m \<subseteq> dbs (tm_server m)" unfolding template_inv_def covered_def by blast+
  then show ?thesis
    using thread_inv_at [OF assms(3), of dbs] section_exclusive [OF inv assms(3)] assms(4) by blast
qed

text \<open>
  C39: a template is there whole or not at all. A call that returns \<open>Ok\<close> leaves the template in place, and unless it
  was there before its setup has just returned normally; a call that unwinds with the panic of a setup leaves
  the databases as they were; and so does one that returns an error, except where dropping the half-made
  template failed, when exactly that template is left over. No other database comes or goes.
\<close>

theorem template_whole_or_absent:
  assumes "template_client drv dbs setup_fn" and "ensure_template_exists drv conn setup_fn nm (lt, s) = (r, lt', s')"
  shows "case r of
      Inr (Inr _) \<Rightarrow> dbs s' = insert nm (dbs s) \<and> (nm \<in> dbs s \<or> (\<exists>s1. setup_fn nm s1 = (Inr (Inr ()), s')))
    | Inr (Inl _) \<Rightarrow> dbs s' = dbs s \<or> nm \<notin> dbs s \<and> dbs s' = insert nm (dbs s) \<and> (\<exists>s2 e. drop_database drv conn nm s2 = (Inl e, s'))
    | Inl payload \<Rightarrow> nm \<notin> dbs s \<and> dbs s' = dbs s \<and> (\<exists>s1 s2. setup_fn nm s1 = (Inl payload, s2))"
  using template_client.ensure_spec [OF assms] unfolding ensured_def template_ops_def template_creation_ops.select_convs .


subsection \<open>Witnesses\<close>

definition demo_machine :: "string \<Rightarrow> (string list \<times> bool) template_machine" where
  "demo_machine n = \<lparr>tm_table = \<lparr>lt_locks = Map.empty, lt_next = 0\<rparr>, tm_holder = (\<lambda>_. None), tm_threads = (\<lambda>_. (n, Calling)),
     tm_server = ([''postgres''], False), tm_ready = {''postgres''}, tm_stuck = {}\<rparr>"

lemma demo_machine_init: "template_init demo_dbs (demo_machine n)"
  by (simp add: template_init_def demo_machine_def demo_dbs_def)

lemmas template_call_defs =
  ensure_template_exists_with_lock_def with_template_lock_def template_lock_def template_ops_def database_exists_def
  create_database_def drop_database_def execute_ddl_command_def admin_client_def connect_admin_def st_bind_def
  map_driver_err_def ddl_sql_templates create_and_setup_template_def setup_template_or_rollback_def
  resume_or_report_rollback_failure_def rollback_and_log_def demo_driver_def demo_setup_def

text \<open>The setup of \<open>bad\<close> panics: the call drops the template and unwinds with the panic, and so does the thread.\<close>

theorem lone_thread_is_the_call_witness:
  "let m' = run_thread (template_ops demo_driver demo_connection demo_setup) 6 4 (demo_machine ''bad'') in
    tm_threads m' 4 = (''bad'', Returned (Inl (StrPayload ''migration failed''))) \<and> tm_server m' = ([''postgres''], False)"
proof -
  have "ensure_template_exists_with_lock ''bad'' (template_ops demo_driver demo_connection demo_setup ''bad'')
      (tm_table (demo_machine ''bad''), tm_server (demo_machine ''bad'')) =
    (Inl (StrPayload ''migration failed''), \<lparr>lt_locks = [''bad'' \<mapsto> 0], lt_next = 1\<rparr>, [''postgres''], False)"
    using read_create [of "''bad''"] read_drop [of "''bad''"] by (simp add: template_call_defs demo_machine_def)
  from lone_thread_is_the_call [where ops="template_ops demo_driver demo_connection demo_setup", OF _ _ this, of 4] show ?thesis by (simp add: demo_machine_def Let_def)
qed

text \<open>Two threads, one after the other: the second is told \<open>Ok\<close>, and the template is ready.\<close>

theorem template_reported_when_ready_witness:
  "let ops = template_ops demo_driver demo_connection demo_setup;
       m = run_thread ops 6 1 (run_thread ops 6 0 (demo_machine ''t''))
   in tm_threads m 1 = (''t'', Returned (Inr (Inr ()))) \<and> ''t'' \<in> tm_ready m \<and> ''t'' \<in> demo_dbs (tm_server m)"
proof -
  let ?ops = "template_ops demo_driver demo_connection demo_setup"
  let ?m = "run_thread ?ops 6 1 (run_thread ?ops 6 0 (demo_machine ''t''))"
  have r: "reach (template_init demo_dbs) (template_step ?ops) ?m"
    by (intro run_thread_reach reach.reach_init demo_machine_init)
  have m: "tm_threads ?m 1 = (''t'', Returned (Inr (Inr ())))" "tm_stuck ?m = {}"
    using read_create [of "''t''"]
    by (simp_all add: numeral_eq_Suc template_call_defs demo_machine_def advance_def at_phase_def return_from_def)
  from template_reported_when_ready [OF demo_db.template_client_axioms r m(1)] m show ?thesis by (simp add: Let_def)
qed

text \<open>The setup of \<open>bad\<close> panics, and nothing is left of it.\<close>

lemma demo_bad_unwinds:
  "ensure_template_exists demo_driver demo_connection demo_setup ''bad'' (\<lparr>lt_locks = Map.empty, lt_next = 0\<rparr>, [''postgres''], False) =
     (Inl (StrPayload ''migration failed''), \<lparr>lt_locks = [''bad'' \<mapsto> 0], lt_next = 1\<rparr>, [''postgres''], False)"
  using read_create [of "''bad''"] read_drop [of "''bad''"] by (simp add: ensure_template_exists_def template_call_defs)

theorem template_whole_or_absent_witness:
  "\<exists>lt s'. ensure_template_exists demo_driver demo_connection demo_setup ''bad'' (\<lparr>lt_locks = Map.empty, lt_next = 0\<rparr>, [''postgres''], False) =
     (Inl (StrPayload ''migration failed''), lt, s') \<and> demo_dbs s' = {''postgres''}"
  using template_whole_or_absent [OF demo_db.template_client_axioms demo_bad_unwinds] demo_bad_unwinds
  by (simp add: demo_dbs_def)


end
