(* ===== verification/Spec2Isabelle.thy ===== *)
theory Spec2Isabelle
  imports EnvSummary ShutdownHook PgWorker Shutdown Templates
begin

text \<open>
  \<^bold>\<open>A verification library for \<open>pg-embed-setup-unpriv\<close>.\<close>

  The program prepares embedded PostgreSQL clusters for test suites: it reads the configuration, chooses
  between running in process and through a privileged worker, prepares directories, passwords and
  ownership, resolves and populates a shared binary cache, downloads and installs verified extension
  archives, gives each cluster a data directory of its own under a shared root, starts and stops the
  server, and cleans up, also when a process dies or exits without dropping its guards. All sources are
  under \<open>src/src\<close>.

  \<^bold>\<open>Foundations.\<close>
  \<^item> \<open>Prelude\<close>: byte strings, UTF-8, trimming, splitting, decimal numbers, path components, results;
    reachability of a step relation with the locale \<open>step_invariant\<close>, and undo logs with the locale
    \<open>cell_store\<close>, interpreted in \<open>ScopedEnv\<close>.
  \<^item> \<open>Errors\<close>: the I/O error kinds the sources branch on and \<open>BootstrapError\<close> (\<open>error.rs\<close>).
  \<^item> \<open>FileSystem\<close>: \<open>std::fs\<close> over a tree of directories, files and symbolic links, with a fault schedule
    (any system call may fail), a trace of the tree-changing calls, and a calculus (\<open>issues\<close>) of what a
    computation may call. Name resolution follows at most 40 links, as the kernel does.
  \<^item> \<open>StdFs\<close>: \<open>std::path::Path\<close> as components, \<open>str::lines\<close>, integer parsing, \<open>read_to_string\<close>;
    \<open>Frames\<close> and \<open>Growth\<close>: what file operations leave alone and what they only add; \<open>CapFs\<close>: the
    capability helpers of \<open>fs.rs\<close>; \<open>Processes\<close>: signals, \<open>/proc\<close>, clock and polling with a bound that
    \<open>poll_returns\<close> shows to be enough.

  \<^bold>\<open>Components.\<close>
  \<^item> Scoped environment, \<open>env\<close>: \<open>ScopedEnv\<close> (thread-local guard stacks over one global mutex, as a step
    relation over all interleavings) and \<open>EnvSummary\<close> (the bounded change summary). Shown: mutual
    exclusion, restoration of the original variables, progress of drops, recovery from corruption.
  \<^item> Extension archives, \<open>extensions\<close>: \<open>ExtDigest\<close>, \<open>ExtNames\<close>, \<open>ExtHttp\<close>, \<open>ExtManifest\<close>, \<open>ExtConfig\<close>,
    \<open>ExtArchive\<close> (acquisition), \<open>ExtInstall\<close> (pass one, validation), \<open>ExtWrite\<close> (pass two, writing),
    \<open>ExtPlacement\<close> (what writing achieves, over the locale \<open>cap_tree\<close> of directory capabilities,
    interpreted on the file system model), \<open>Extensions\<close> (the pipeline). Shown: nothing is written
    unless everything was verified, installed files are exactly the manifest's, and failures are
    classified. Retries are three, temporary names sixteen, redirects bounded, as in the code.
  \<^item> Binary cache, \<open>cache\<close>: \<open>CacheConfig\<close>, \<open>CacheLock\<close>, \<open>BinaryCache\<close>, and \<open>CacheUse\<close> for its use by a cluster.
    A recursive copy goes at most 2048 directories deep, more than a path of 4096 bytes can name.
  \<^item> Bootstrap, \<open>bootstrap\<close> and \<open>lib.rs\<close>: \<open>PgConfig\<close> (configuration and settings), \<open>BootEnv\<close> (environment,
    worker binary, mode), \<open>Password\<close> (reuse of a cluster's password), \<open>Privileges\<close> (ownership and demotion),
    \<open>Prepare\<close> (directories and settings), \<open>Bootstrap\<close> (the entry points). Shown: a misconfigured bootstrap
    touches nothing, root never runs in process, the password reported is the cluster's.
  \<^item> Cluster slots, \<open>bootstrap/prepare\<close>: \<open>Orphan\<close> (stopping a dead owner's server), \<open>ClusterSlot\<close> (claiming
    and sweeping), \<open>OrphanWatch\<close> (the watcher registry). Shown: a sweep never touches a live slot, a
    claimed slot is new and owned, only the slot's own server is signalled.
  \<^item> Starting a cluster, \<open>cluster\<close>: \<open>Installation\<close> (the installation directory and the port), \<open>Initdb\<close>
    (durability settings and a cancellable \<open>initdb\<close>), \<open>WorkerProcess\<close> (the worker's payload and process),
    \<open>Startup\<close> (the setup lock, the post-setup hook, the lifecycles) and \<open>StartupLock\<close> (the lock discipline,
    over the locale \<open>start_services\<close>). A demoted child is a list of the calls its closure makes before
    \<open>exec\<close>, run on root's credentials; the payload's time limit travels as whole seconds, rounded by the
    serializer. \<open>start_postgres\<close> and \<open>start_postgres_async\<close> are translated separately, with the blocking tasks
    of the second and their join errors. Shown: the installation tree changes and the setup runs only under the
    setup lock, children are demoted and reaped (an \<open>initdb\<close> child is left only where asking for its
    status failed), the payload is removed, and the asynchronous start does as the synchronous one unless
    the runtime cancels a task. \<open>PgWorker\<close> is the worker binary: it runs the request that was written for
    it, with its limit in whole seconds, and keeps an initialised data directory.
  \<^item> Ending a cluster: \<open>Shutdown\<close> (the guard, its drop in both runtime modes, the explicit stop),
    \<open>ShutdownHook\<close> (the exit hook, as a step relation of threads, with the condition variable they sleep on,
    its notifications and its spurious wake-ups), and cleanup, \<open>cluster/cleanup.rs\<close> and
    \<open>bin/pg_worker\<close>, in \<open>CleanupHelpers\<close>, \<open>ClusterSettings\<close> and \<open>ClusterCleanup\<close>. Shown: a start hands out a
    guard that stops what it started, the hook is registered once, a sleeping registration is woken and a
    server is killed only if it was seen alive up to the time limit, every way of ending refines one specification in which nothing is
    removed before a successful stop, removal is guarded, a shared install tree is kept while a peer runs,
    and the worker removes what the test process would.
  \<^item> Databases, \<open>cluster/connection.rs\<close>, \<open>lifecycle.rs\<close>, \<open>temporary_database.rs\<close>, \<open>lifecycle_template\<close>: \<open>Database\<close>
    (the code, and a machine of concurrent callers) and \<open>Templates\<close> (over the locales \<open>sql_server\<close>,
    \<open>template_service\<close> and \<open>template_client\<close>). Shown: statements name exactly their database, a template is
    reported only once it is set up, a template call leaves a template that is whole or absent where the
    rollback works (a failed rollback is the one exception, and is a finding), a temporary database lives
    as long as its guard, and a lone thread of the machine is the sequential code.
  \<^item> The shared cluster of \<open>test_support\<close>: \<open>SharedCluster\<close> (bounded retries, an initialisation that happens
    once, the exit hook before the guard is leaked). The retry counter is a 32-bit word.

  \<^bold>\<open>Parameters.\<close> Code that is not in the repository is an argument of the definitions that use it: the
  hash function and the archive reader, the network, \<open>tempfile\<close>, \<open>cap-std\<close>, the kernel lock behind \<open>fs4\<close>,
  \<open>semver\<close>, \<open>ortho_config\<close>, \<open>serde_json\<close>, \<open>postgresql_embedded\<close>, the \<open>postgres\<close> driver, the user database, socket
  binding, child processes, Tokio's runtimes and time limits, and the kernel's processes and clock. What a
  property assumes of one of them is a named hypothesis (such as \<open>fs4_quiet\<close>, \<open>os_quiet\<close> or \<open>sql_server\<close>),
  and its witness instantiates it.

  \<^bold>\<open>Bounds.\<close> Loops without a bound of their own in the code poll with one, and an exhausted bound is \<open>None\<close>:
  \<open>poll_returns\<close> shows that it is not reached when it outlasts the code's own deadline, which for \<open>initdb\<close> the
  hypothesis \<open>enough_polls\<close> states. The walk of a tree is a recursion with a termination proof.

  \<^bold>\<open>Not modelled.\<close> Log lines, metrics and the texts of most errors; Windows code; what the SQL of a caller
  does; how Tokio schedules (a computation runs to its end or is cancelled as a whole, a spawned task is a value); the scoped environment
  around a start and the guard that restores it, as a composition (each side is modelled); the accessors of
  the cluster handle; and the fixtures, log capture and temporary directories of the test support.
\<close>

end
